(* ===== verification/Prelude.thy ===== *)
theory Prelude
  imports Main "HOL-Library.AList" "HOL-Library.Char_ord" "HOL-Library.List_Lexorder" "HOL-Library.Multiset"
begin

text \<open>
  Shared vocabulary of the development: the Python values the code handles (JSON data and
  \<open>str\<close> dictionaries), the string operations of the standard library the code calls, result
  and command types for code that raises, and the generic lemmas every component uses.

  Characters are code points below 256. A dictionary is an association list in insertion
  order: \<open>AList.update\<close> replaces in place or appends, as Python's item assignment does, and
  \<open>map_of\<close> is the lookup. JSON numbers are integers; the code compares no JSON floats in
  the parts modelled here (clock readings are typed separately where they occur).
\<close>

named_theorems py_defs \<open>definitions of the Python primitives, to be unfolded\<close>

section \<open>Results and commands\<close>

text \<open>
  \<open>'e + 'a\<close> is the result of a call: \<open>Inl\<close> an exception, \<open>Inr\<close> the returned value. A call
  that changes state and may raise is a \<open>cmd\<close>: the state it leaves behind is part of
  the answer in both cases, because an exception does not undo what was written before it.
\<close>

type_synonym ('s, 'e, 'a) cmd = "'s \<Rightarrow> ('e + 'a) \<times> 's"

definition ret :: "'a \<Rightarrow> ('s, 'e, 'a) cmd" where
  "ret a = (\<lambda>s. (Inr a, s))"

definition raise :: "'e \<Rightarrow> ('s, 'e, 'a) cmd" where
  "raise e = (\<lambda>s. (Inl e, s))"

definition bindc :: "('s, 'e, 'a) cmd \<Rightarrow> ('a \<Rightarrow> ('s, 'e, 'b) cmd) \<Rightarrow> ('s, 'e, 'b) cmd" where
  "bindc m f = (\<lambda>s. case m s of (Inl e, s') \<Rightarrow> (Inl e, s') | (Inr a, s') \<Rightarrow> f a s')"

definition bindr :: "'e + 'a \<Rightarrow> ('a \<Rightarrow> 'e + 'b) \<Rightarrow> 'e + 'b" where
  "bindr r f = (case r of Inl e \<Rightarrow> Inl e | Inr a \<Rightarrow> f a)"

lemma bindr_simps [simp]:
  "bindr (Inl e) f = Inl e" "bindr (Inr a) f = f a"
  by (simp_all add: bindr_def)

lemma bindr_Inr_iff: "bindr r f = Inr b \<longleftrightarrow> (\<exists>a. r = Inr a \<and> f a = Inr b)"
  by (cases r) auto

lemma bindr_Inl_iff: "bindr r f = Inl e \<longleftrightarrow> r = Inl e \<or> (\<exists>a. r = Inr a \<and> f a = Inl e)"
  by (cases r) auto

lemma cmd_simps [simp]:
  "ret a s = (Inr a, s)"
  "raise e s = (Inl e, s)"
  by (simp_all add: ret_def raise_def)

lemma bindc_apply: "bindc m f s = (case m s of (Inl e, s') \<Rightarrow> (Inl e, s') | (Inr a, s') \<Rightarrow> f a s')"
  by (simp add: bindc_def)

lemma bindc_Inr:
  "bindc m f s = (Inr b, t) \<longleftrightarrow> (\<exists>a u. m s = (Inr a, u) \<and> f a u = (Inr b, t))"
  by (auto simp: bindc_def split: prod.splits sum.splits)

section \<open>Strings\<close>

abbreviation is_digit :: "char \<Rightarrow> bool" where
  "is_digit c \<equiv> CHR ''0'' \<le> c \<and> c \<le> CHR ''9''"

abbreviation is_lower_hex :: "char \<Rightarrow> bool" where
  "is_lower_hex c \<equiv> is_digit c \<or> (CHR ''a'' \<le> c \<and> c \<le> CHR ''f'')"

definition is_alnum :: "char \<Rightarrow> bool" where
  "is_alnum c \<longleftrightarrow> is_digit c \<or> (CHR ''a'' \<le> c \<and> c \<le> CHR ''z'') \<or> (CHR ''A'' \<le> c \<and> c \<le> CHR ''Z'')"

text \<open>The class \<open>[A-Za-z0-9._-]\<close> of the identifiers' regular expressions.\<close>

definition ident_char :: "char \<Rightarrow> bool" where
  "ident_char c \<longleftrightarrow> is_alnum c \<or> c = CHR ''.'' \<or> c = CHR ''_'' \<or> c = CHR ''-''"

definition is_space :: "char \<Rightarrow> bool" where
  "is_space c \<longleftrightarrow> c = CHR '' '' \<or> c = CHR 0x09 \<or> c = CHR 0x0A \<or> c = CHR 0x0B \<or> c = CHR 0x0C \<or> c = CHR 0x0D
     \<or> c = CHR 0x1C \<or> c = CHR 0x1D \<or> c = CHR 0x1E \<or> c = CHR 0x1F \<or> c = CHR 0x85 \<or> c = CHR 0xA0"

abbreviation tab :: char where "tab \<equiv> CHR 0x09"
abbreviation newline :: char where "newline \<equiv> CHR 0x0A"

definition strip :: "string \<Rightarrow> string" where
  "strip s = rev (dropWhile is_space (rev (dropWhile is_space s)))"

definition startswith :: "string \<Rightarrow> string \<Rightarrow> bool" where
  "startswith p s \<longleftrightarrow> take (length p) s = p"

lemma startswith_iff: "startswith p s \<longleftrightarrow> (\<exists>t. s = p @ t)"
  unfolding startswith_def by (metis append_eq_conv_conj append_take_drop_id)

definition endswith :: "string \<Rightarrow> string \<Rightarrow> bool" where
  "endswith p s \<longleftrightarrow> startswith (rev p) (rev s)"

definition isdigit :: "string \<Rightarrow> bool" where
  "isdigit s \<longleftrightarrow> s \<noteq> [] \<and> list_all is_digit s"

definition lower_char :: "char \<Rightarrow> char" where
  "lower_char c = (if CHR ''A'' \<le> c \<and> c \<le> CHR ''Z'' then char_of (of_char c + 32 :: nat) else c)"

definition lower :: "string \<Rightarrow> string" where
  "lower s = map lower_char s"

text \<open>\<open>re.fullmatch("<prefix>[class]{lo,hi}", s)\<close>.\<close>

definition prefixed_class :: "string \<Rightarrow> (char \<Rightarrow> bool) \<Rightarrow> nat \<Rightarrow> nat \<Rightarrow> string \<Rightarrow> bool" where
  "prefixed_class p cls lo hi s \<longleftrightarrow> startswith p s \<and>
     (let rest = drop (length p) s in lo \<le> length rest \<and> length rest \<le> hi \<and> list_all cls rest)"

text \<open>\<open>sep.split\<close> and \<open>sep.join\<close> on one separator character.\<close>

fun split_on :: "char \<Rightarrow> string \<Rightarrow> string list" where
  "split_on c [] = [[]]"
| "split_on c (x # xs) =
     (if x = c then [] # split_on c xs
      else (case split_on c xs of [] \<Rightarrow> [[x]] | y # ys \<Rightarrow> (x # y) # ys))"

fun join :: "string \<Rightarrow> string list \<Rightarrow> string" where
  "join sep [] = []"
| "join sep [x] = x"
| "join sep (x # y # zs) = x @ sep @ join sep (y # zs)"

lemma split_on_not_Nil [simp]: "split_on c s \<noteq> []"
  by (cases s) (auto split: list.splits)

lemma split_on_no_sep: "x \<in> set (split_on c s) \<Longrightarrow> c \<notin> set x"
proof (induction s arbitrary: x)
  case (Cons a s)
  then show ?case
    by (cases "split_on c s") (auto split: if_splits)
qed simp

lemma split_on_append_sep: "c \<notin> set x \<Longrightarrow> split_on c (x @ c # s) = x # split_on c s"
  by (induction x) auto

lemma split_on_free: "c \<notin> set x \<Longrightarrow> split_on c x = [x]"
  by (induction x) auto

lemma split_on_join:
  "xs \<noteq> [] \<Longrightarrow> \<forall>x \<in> set xs. c \<notin> set x \<Longrightarrow> split_on c (join [c] xs) = xs"
proof (induction "[c]" xs rule: join.induct)
  case (3 x y zs)
  then show ?case by (simp add: split_on_append_sep)
qed (auto simp: split_on_free)

lemma join_Cons: "xs \<noteq> [] \<Longrightarrow> join sep (x # xs) = x @ sep @ join sep xs"
  by (cases xs) auto

lemma join_snoc: "xs \<noteq> [] \<Longrightarrow> join sep (xs @ [x]) = join sep xs @ sep @ x"
  by (induction sep xs rule: join.induct) (auto simp: join_Cons)

lemma set_join: "set (join sep ps) \<subseteq> set sep \<union> (\<Union>p \<in> set ps. set p)"
  by (induction sep ps rule: join.induct) auto

lemma join_split_on: "join [c] (split_on c s) = s"
proof (induction s)
  case (Cons a s)
  then show ?case
    by (cases "split_on c s"; cases "tl (split_on c s)") (auto simp: join_Cons)
qed simp

lemma split_on_append:
  "split_on c (s @ c # t) = split_on c s @ split_on c t"
proof (induction s)
  case (Cons a s)
  then show ?case
    by (cases "split_on c s") (auto split: list.splits)
qed simp

text \<open>\<open>str.isdigit\<close> and \<open>int(str)\<close>: optional surrounding blanks, a sign, digits with single
  underscores between them.\<close>

definition digit_val :: "char \<Rightarrow> int" where
  "digit_val c = of_char c - 48"

definition digits_val :: "string \<Rightarrow> int" where
  "digits_val s = foldl (\<lambda>a c. 10 * a + digit_val c) 0 s"

definition unsigned_int :: "string \<Rightarrow> int option" where
  "unsigned_int s =
     (if list_all isdigit (split_on (CHR ''_'') s)
      then Some (digits_val (filter (\<lambda>c. c \<noteq> CHR ''_'') s)) else None)"

definition py_int :: "string \<Rightarrow> int option" where
  "py_int s0 = (case strip s0 of
       [] \<Rightarrow> None
     | c # s \<Rightarrow> if c = CHR ''-'' then map_option uminus (unsigned_int s)
               else if c = CHR ''+'' then unsigned_int s
               else unsigned_int (c # s))"

text \<open>\<open>str(int)\<close>.\<close>

fun nat_str :: "nat \<Rightarrow> string" where
  "nat_str n = (if n < 10 then [char_of (48 + n)] else nat_str (n div 10) @ [char_of (48 + n mod 10)])"

declare nat_str.simps [simp del]

definition int_str :: "int \<Rightarrow> string" where
  "int_str i = (if i < 0 then CHR ''-'' # nat_str (nat (- i)) else nat_str (nat i))"

section \<open>JSON values and Python's operations on them\<close>

datatype json =
    JNull
  | JBool bool
  | JInt int
  | JStr string
  | JList "json list"
  | JObj "(string \<times> json) list"

type_synonym obj = "(string \<times> json) list"
type_synonym meta = "(string \<times> string) list"

definition oget :: "obj \<Rightarrow> string \<Rightarrow> json" where
  \<comment> \<open>\<open>d.get(k)\<close>\<close>
  "oget d k = (case map_of d k of None \<Rightarrow> JNull | Some v \<Rightarrow> v)"

definition oget_or :: "obj \<Rightarrow> string \<Rightarrow> json \<Rightarrow> json" where
  \<comment> \<open>\<open>d.get(k, default)\<close>\<close>
  "oget_or d k dflt = (case map_of d k of None \<Rightarrow> dflt | Some v \<Rightarrow> v)"

definition mget :: "meta \<Rightarrow> string \<Rightarrow> string \<Rightarrow> string" where
  \<comment> \<open>\<open>metadata.get(k, default)\<close> on a string dictionary\<close>
  "mget d k dflt = (case map_of d k of None \<Rightarrow> dflt | Some v \<Rightarrow> v)"

fun truthy :: "json \<Rightarrow> bool" where
  "truthy JNull = False"
| "truthy (JBool b) = b"
| "truthy (JInt i) = (i \<noteq> 0)"
| "truthy (JStr s) = (s \<noteq> [])"
| "truthy (JList xs) = (xs \<noteq> [])"
| "truthy (JObj d) = (d \<noteq> [])"

definition py_or :: "json \<Rightarrow> json \<Rightarrow> json" where
  "py_or a b = (if truthy a then a else b)"

fun num_of :: "json \<Rightarrow> int option" where
  "num_of (JBool b) = Some (if b then 1 else 0)"
| "num_of (JInt i) = Some i"
| "num_of _ = None"

text \<open>Python's \<open>==\<close>: booleans are the numbers 0 and 1, dictionaries compare by key.\<close>

fun py_eq :: "json \<Rightarrow> json \<Rightarrow> bool" where
  "py_eq (JBool b) y = (num_of y = Some (if b then 1 else 0))"
| "py_eq (JInt i) y = (num_of y = Some i)"
| "py_eq JNull y = (y = JNull)"
| "py_eq (JStr s) y = (y = JStr s)"
| "py_eq (JList xs) y = (case y of JList ys \<Rightarrow> list_all2 py_eq xs ys | _ \<Rightarrow> False)"
| "py_eq (JObj d) y = (case y of
      JObj e \<Rightarrow> length d = length e \<and>
        list_all (\<lambda>(k, v). case map_of e k of None \<Rightarrow> False | Some w \<Rightarrow> py_eq v w) d
    | _ \<Rightarrow> False)"

definition agrees :: "obj \<Rightarrow> obj \<Rightarrow> bool" where
  \<comment> \<open>\<open>all(d.get(k) == v for k, v in expected.items())\<close>, \<open>{k: d.get(k) for k in expected} == expected\<close>\<close>
  "agrees d expected \<longleftrightarrow> list_all (\<lambda>(k, v). py_eq (oget d k) v) expected"

definition dict_item :: "obj \<Rightarrow> string \<Rightarrow> string + json" where
  \<comment> \<open>\<open>d[k]\<close>\<close>
  "dict_item d k = (case map_of d k of None \<Rightarrow> Inl ''KeyError'' | Some v \<Rightarrow> Inr v)"

definition is_str :: "json \<Rightarrow> bool" where
  "is_str v = (case v of JStr _ \<Rightarrow> True | _ \<Rightarrow> False)"

definition nonempty_str :: "json \<Rightarrow> bool" where
  \<comment> \<open>\<open>isinstance(v, str) and v\<close>\<close>
  "nonempty_str v = (case v of JStr s \<Rightarrow> s \<noteq> [] | _ \<Rightarrow> False)"

definition is_obj :: "json \<Rightarrow> bool" where
  "is_obj v = (case v of JObj _ \<Rightarrow> True | _ \<Rightarrow> False)"

definition is_list :: "json \<Rightarrow> bool" where
  "is_list v = (case v of JList _ \<Rightarrow> True | _ \<Rightarrow> False)"

fun the_str :: "json \<Rightarrow> string" where
  "the_str (JStr s) = s"
| "the_str _ = []"

fun the_list :: "json \<Rightarrow> json list" where
  "the_list (JList xs) = xs"
| "the_list _ = []"

fun the_obj :: "json \<Rightarrow> obj" where
  "the_obj (JObj d) = d"
| "the_obj _ = []"

text \<open>A plain \<open>int\<close>: \<open>isinstance(v, int)\<close> without \<open>bool\<close>.\<close>

fun plain_int :: "json \<Rightarrow> int option" where
  "plain_int (JInt i) = Some i"
| "plain_int _ = None"

text \<open>\<open>int(v)\<close>; \<open>None\<close> where Python raises \<open>TypeError\<close> or \<open>ValueError\<close>.\<close>

fun py_int_of :: "json \<Rightarrow> int option" where
  "py_int_of (JInt i) = Some i"
| "py_int_of (JBool b) = Some (if b then 1 else 0)"
| "py_int_of (JStr s) = py_int s"
| "py_int_of _ = None"

text \<open>\<open>repr\<close> of a string: single quotes unless only they occur, backslash escapes.\<close>

definition hex_digit :: "nat \<Rightarrow> char" where
  "hex_digit n = (if n < 10 then char_of (48 + n) else char_of (87 + n))"

definition repr_char :: "char \<Rightarrow> char \<Rightarrow> string" where
  "repr_char q c =
     (if c = q \<or> c = CHR 0x5C then [CHR 0x5C, c]
      else if c = newline then [CHR 0x5C, CHR ''n'']
      else if c = CHR 0x0D then [CHR 0x5C, CHR ''r'']
      else if c = tab then [CHR 0x5C, CHR ''t'']
      else if c < CHR '' '' \<or> (CHR 0x7F \<le> c \<and> c \<le> CHR 0xA0) \<or> c = CHR 0xAD
      then [CHR 0x5C, CHR ''x'', hex_digit (of_char c div 16), hex_digit (of_char c mod 16)]
      else [c])"

definition repr_str :: "string \<Rightarrow> string" where
  "repr_str s =
     (let q = (if CHR 0x27 \<in> set s \<and> CHR 0x22 \<notin> set s then CHR 0x22 else CHR 0x27)
      in [q] @ concat (map (repr_char q) s) @ [q])"

fun py_repr :: "json \<Rightarrow> string" where
  "py_repr JNull = ''None''"
| "py_repr (JBool b) = (if b then ''True'' else ''False'')"
| "py_repr (JInt i) = int_str i"
| "py_repr (JStr s) = repr_str s"
| "py_repr (JList xs) = ''['' @ join '', '' (map py_repr xs) @ '']''"
| "py_repr (JObj d) = ''{'' @ join '', '' (map (\<lambda>(k, v). repr_str k @ '': '' @ py_repr v) d) @ ''}''"

definition py_str :: "json \<Rightarrow> string" where
  "py_str v = (case v of JStr s \<Rightarrow> s | _ \<Rightarrow> py_repr v)"

lemma py_str_simps [simp]:
  "py_str (JStr s) = s" "py_str JNull = ''None''" "py_str (JInt i) = int_str i"
  "py_str (JBool b) = (if b then ''True'' else ''False'')"
  by (simp_all add: py_str_def)

text \<open>\<open>json.dumps(v, separators=(",", ":"), sort_keys=True)\<close>: the canonical text that is hashed.\<close>

definition esc_char :: "char \<Rightarrow> string" where
  "esc_char c =
     (if c = CHR 0x22 \<or> c = CHR 0x5C then [CHR 0x5C, c]
      else if c = newline then [CHR 0x5C, CHR ''n'']
      else if c = CHR 0x0D then [CHR 0x5C, CHR ''r'']
      else if c = tab then [CHR 0x5C, CHR ''t'']
      else if c = CHR 0x08 then [CHR 0x5C, CHR ''b'']
      else if c = CHR 0x0C then [CHR 0x5C, CHR ''f'']
      else if c < CHR '' '' \<or> CHR 0x7F \<le> c
      then [CHR 0x5C, CHR ''u'', CHR ''0'', CHR ''0'', hex_digit (of_char c div 16), hex_digit (of_char c mod 16)]
      else [c])"

definition dumps_str :: "string \<Rightarrow> string" where
  "dumps_str s = [CHR 0x22] @ concat (map esc_char s) @ [CHR 0x22]"

fun dumps :: "json \<Rightarrow> string" where
  "dumps JNull = ''null''"
| "dumps (JBool b) = (if b then ''true'' else ''false'')"
| "dumps (JInt i) = int_str i"
| "dumps (JStr s) = dumps_str s"
| "dumps (JList xs) = ''['' @ join '','' (map dumps xs) @ '']''"
| "dumps (JObj d) = ''{'' @ join '','' (map (\<lambda>(k, t). dumps_str k @ '':'' @ t)
      (sort_key fst (map (\<lambda>(k, v). (k, dumps v)) d))) @ ''}''"

section \<open>Dictionaries\<close>

lemma map_sort_key: "map f (sort_key f xs) = sort (map f xs)"
  by (rule properties_for_sort [symmetric]) simp_all

definition dict_update :: "('k \<times> 'v) list \<Rightarrow> ('k \<times> 'v) list \<Rightarrow> ('k \<times> 'v) list" where
  \<comment> \<open>\<open>d.update(e)\<close>, \<open>{**d, **e}\<close>\<close>
  "dict_update d e = foldl (\<lambda>m (k, v). AList.update k v m) d e"

lemma dict_update_simps [simp]:
  "dict_update d [] = d"
  "dict_update d ((k, v) # e) = dict_update (AList.update k v d) e"
  by (simp_all add: dict_update_def)

lemma dict_update_append: "dict_update d (e @ f) = dict_update (dict_update d e) f"
  by (simp add: dict_update_def)

text \<open>The last binding of a key wins.\<close>

lemma map_of_dict_update: "map_of (dict_update d e) = map_of d ++ map_of (rev e)"
  by (induction e arbitrary: d) (auto simp: update_conv' map_add_def fun_eq_iff split: option.splits)

lemma dict_update_distinct: "distinct (map fst (d @ xs)) \<Longrightarrow> dict_update d xs = d @ xs"
proof (induction xs arbitrary: d)
  case (Cons x xs)
  have "AList.update (fst x) (snd x) d = d @ [x]"
    using Cons.prems by (induction d) auto
  with Cons show ?case by (cases x) simp
qed simp

lemma distinct_dict_update: "distinct (map fst d) \<Longrightarrow> distinct (map fst (dict_update d e))"
  by (induction e arbitrary: d) (auto simp: AList.distinct_update)

lemma map_of_rev_filter:
  "(\<And>p. p \<in> set ps \<Longrightarrow> fst (f p) = k \<Longrightarrow> P p) \<Longrightarrow>
   map_of (rev (map f (filter P ps))) k = map_of (rev (map f ps)) k"
  by (induction ps) (auto simp: map_add_def split: option.splits)

lemma oget_simps [simp]:
  "oget [] k = JNull"
  "oget ((k', v) # d) k = (if k = k' then v else oget d k)"
  by (simp_all add: oget_def)

lemma oget_or_simps [simp]:
  "oget_or [] k x = x"
  "oget_or ((k', v) # d) k x = (if k = k' then v else oget_or d k x)"
  by (simp_all add: oget_or_def)

lemma mget_simps [simp]:
  "mget [] k x = x"
  "mget ((k', v) # d) k x = (if k = k' then v else mget d k x)"
  by (simp_all add: mget_def)

lemma mget_update [simp]: "mget (AList.update k v d) k' x = (if k' = k then v else mget d k' x)"
  by (simp add: mget_def update_conv')

lemma oget_update [simp]: "oget (AList.update k v d) k' = (if k' = k then v else oget d k')"
  by (simp add: oget_def update_conv')

section \<open>Machines: operations that raise, run in sequence\<close>

text \<open>
  A component is a state, operations that may raise, and an invariant every operation
  keeps whether it returns or raises. The client of a component relies on nothing but
  that contract: the invariant then holds after every sequence of operations.
\<close>

definition commit :: "'e + ('r \<times> 's) \<Rightarrow> 's \<Rightarrow> ('e + 'r) \<times> 's" where
  \<comment> \<open>an operation that writes only when it returns\<close>
  "commit r s = (case r of Inl e \<Rightarrow> (Inl e, s) | Inr (a, s') \<Rightarrow> (Inr a, s'))"

primrec run_ops :: "('op \<Rightarrow> 's \<Rightarrow> ('e + 'r) \<times> 's) \<Rightarrow> 'op list \<Rightarrow> 's \<Rightarrow> 's" where
  "run_ops exec [] s = s"
| "run_ops exec (op # ops) s = run_ops exec ops (snd (exec op s))"

primrec run_replies :: "('op \<Rightarrow> 's \<Rightarrow> ('e + 'r) \<times> 's) \<Rightarrow> 'op list \<Rightarrow> 's \<Rightarrow> ('op \<times> ('e + 'r)) list" where
  "run_replies exec [] s = []"
| "run_replies exec (op # ops) s = (op, fst (exec op s)) # run_replies exec ops (snd (exec op s))"

lemma run_ops_append: "run_ops exec (xs @ ys) s = run_ops exec ys (run_ops exec xs s)"
  by (induction xs arbitrary: s) auto

lemma run_replies_append:
  "run_replies exec (xs @ ys) s = run_replies exec xs s @ run_replies exec ys (run_ops exec xs s)"
  by (induction xs arbitrary: s) auto

locale machine =
  fixes exec :: "'op \<Rightarrow> 's \<Rightarrow> ('e + 'r) \<times> 's"
    and ok :: "'op \<Rightarrow> bool"
    and inv :: "'s \<Rightarrow> bool"
  assumes exec_inv: "ok op \<Longrightarrow> inv s \<Longrightarrow> inv (snd (exec op s))"
begin

lemma run_inv: "list_all ok ops \<Longrightarrow> inv s \<Longrightarrow> inv (run_ops exec ops s)"
  by (induction ops arbitrary: s) (auto intro: exec_inv)

lemma run_replies_inv:
  "list_all ok ops \<Longrightarrow> inv s \<Longrightarrow> (op, r) \<in> set (run_replies exec ops s) \<Longrightarrow> \<exists>s'. ok op \<and> inv s' \<and> r = fst (exec op s')"
  by (induction ops arbitrary: s) (auto intro: exec_inv)

end

text \<open>
  A machine whose marks only grow, and where an operation that asks for a mark is granted
  at most while the mark is absent: then a mark is granted at most once in any run.
\<close>

locale granting_machine = machine exec ok inv
  for exec :: "'op \<Rightarrow> 's \<Rightarrow> ('e + 'r) \<times> 's" and ok :: "'op \<Rightarrow> bool" and inv :: "'s \<Rightarrow> bool" +
  fixes marked :: "'s \<Rightarrow> 'x \<Rightarrow> bool"
    and grants :: "'op \<Rightarrow> ('e + 'r) \<Rightarrow> 'x \<Rightarrow> bool"
  assumes marked_stays: "ok op \<Longrightarrow> inv s \<Longrightarrow> marked s x \<Longrightarrow> marked (snd (exec op s)) x"
    and grant_marks: "ok op \<Longrightarrow> inv s \<Longrightarrow> grants op (fst (exec op s)) x \<Longrightarrow> marked (snd (exec op s)) x"
    and grant_fresh: "ok op \<Longrightarrow> inv s \<Longrightarrow> grants op (fst (exec op s)) x \<Longrightarrow> \<not> marked s x"
begin

lemma run_marked: "list_all ok ops \<Longrightarrow> inv s \<Longrightarrow> marked s x \<Longrightarrow> marked (run_ops exec ops s) x"
  by (induction ops arbitrary: s) (auto intro: exec_inv marked_stays)

lemma marked_no_grant:
  "list_all ok ops \<Longrightarrow> inv s \<Longrightarrow> marked s x \<Longrightarrow>
   filter (\<lambda>(op, r). grants op r x) (run_replies exec ops s) = []"
  by (induction ops arbitrary: s) (auto dest: grant_fresh intro: exec_inv marked_stays)

lemma granted_at_most_once:
  "list_all ok ops \<Longrightarrow> inv s \<Longrightarrow>
   length (filter (\<lambda>(op, r). grants op r x) (run_replies exec ops s)) \<le> 1"
proof (induction ops arbitrary: s)
  case (Cons op ops)
  then have inv': "inv (snd (exec op s))" and ok: "ok op" "list_all ok ops"
    by (auto intro: exec_inv)
  show ?case
  proof (cases "grants op (fst (exec op s)) x")
    case True
    with Cons.prems ok have "marked (snd (exec op s)) x" by (blast intro: grant_marks)
    with True inv' ok show ?thesis by (simp add: marked_no_grant)
  next
    case False
    with Cons.IH [OF ok(2) inv'] show ?thesis by simp
  qed
qed simp

end

text \<open>
  A machine with a budget: between two resets at most \<open>limit\<close> operations are granted a unit of it.
\<close>

locale budgeted_machine = machine exec ok inv
  for exec :: "'op \<Rightarrow> 's \<Rightarrow> ('e + 'r) \<times> 's" and ok :: "'op \<Rightarrow> bool" and inv :: "'s \<Rightarrow> bool" +
  fixes spent :: "'s \<Rightarrow> nat"
    and limit :: nat
    and spends :: "'op \<Rightarrow> ('e + 'r) \<Rightarrow> bool"
    and resets :: "'op \<Rightarrow> bool"
  assumes spent_bounded: "inv s \<Longrightarrow> spent s \<le> limit"
    and spend_counts: "ok op \<Longrightarrow> inv s \<Longrightarrow> spends op (fst (exec op s)) \<Longrightarrow> spent s < spent (snd (exec op s))"
    and spent_stays: "ok op \<Longrightarrow> inv s \<Longrightarrow> \<not> resets op \<Longrightarrow> spent s \<le> spent (snd (exec op s))"
begin

lemma spends_within:
  "list_all ok ops \<Longrightarrow> inv s \<Longrightarrow> list_all (\<lambda>op. \<not> resets op) ops \<Longrightarrow>
   length (filter (\<lambda>(op, r). spends op r) (run_replies exec ops s)) + spent s \<le> limit"
proof (induction ops arbitrary: s)
  case (Cons op ops)
  let ?s' = "snd (exec op s)"
  from Cons.prems have op: "ok op" "\<not> resets op" and inv': "inv ?s'" by (simp_all add: exec_inv)
  with Cons.IH [OF _ inv'] Cons.prems
  have "length (filter (\<lambda>(op, r). spends op r) (run_replies exec ops ?s')) + spent ?s' \<le> limit" by simp
  with spend_counts [OF op(1) Cons.prems(2)] spent_stays [OF op(1) Cons.prems(2) op(2)] show ?case
    by (cases "spends op (fst (exec op s))") auto
qed (simp add: spent_bounded)

end

text \<open>
  A machine that binds a key to a value, once and for all: whoever is answered for a key is answered
  with the value it is bound to. Then all answers of a run agree.
\<close>

locale agreeing_machine = machine exec ok inv
  for exec :: "'op \<Rightarrow> 's \<Rightarrow> ('e + 'r) \<times> 's" and ok :: "'op \<Rightarrow> bool" and inv :: "'s \<Rightarrow> bool" +
  fixes bound :: "'s \<Rightarrow> 'k \<Rightarrow> 'v \<Rightarrow> bool"
    and answers :: "'op \<Rightarrow> ('e + 'r) \<Rightarrow> 'k \<Rightarrow> 'v \<Rightarrow> bool"
  assumes bound_stays: "ok op \<Longrightarrow> inv s \<Longrightarrow> bound s k v \<Longrightarrow> bound (snd (exec op s)) k v"
    and answer_binds: "ok op \<Longrightarrow> inv s \<Longrightarrow> answers op (fst (exec op s)) k v \<Longrightarrow> bound (snd (exec op s)) k v"
    and answer_agrees: "ok op \<Longrightarrow> inv s \<Longrightarrow> answers op (fst (exec op s)) k v \<Longrightarrow> bound s k u \<Longrightarrow> v = u"
    and answer_unique: "answers op r k v \<Longrightarrow> answers op r k u \<Longrightarrow> v = u"
begin

lemma bound_answers:
  "list_all ok ops \<Longrightarrow> inv s \<Longrightarrow> bound s k u \<Longrightarrow> (op, r) \<in> set (run_replies exec ops s) \<Longrightarrow> answers op r k v \<Longrightarrow> v = u"
  by (induction ops arbitrary: s) (auto dest: answer_agrees intro: exec_inv bound_stays)

lemma answers_agree:
  "list_all ok ops \<Longrightarrow> inv s \<Longrightarrow> (op, r) \<in> set (run_replies exec ops s) \<Longrightarrow> (op', r') \<in> set (run_replies exec ops s) \<Longrightarrow>
   answers op r k v \<Longrightarrow> answers op' r' k u \<Longrightarrow> v = u"
proof (induction ops arbitrary: s)
  case (Cons x ops)
  have ok: "ok x" "list_all ok ops" using Cons.prems(1) by simp_all
  have inv': "inv (snd (exec x s))" using ok Cons.prems(2) by (simp add: exec_inv)
  show ?case
  proof (cases "(op, r) = (x, fst (exec x s))")
    case True
    then have "bound (snd (exec x s)) k v" using Cons.prems(2,5) ok by (simp add: answer_binds)
    with True show ?thesis
      using Cons.prems(4,5,6) bound_answers [OF ok(2) inv'] answer_unique by (fastforce simp del: split_paired_All)
  next
    case op: False
    show ?thesis
    proof (cases "(op', r') = (x, fst (exec x s))")
      case True
      then have "bound (snd (exec x s)) k u" using Cons.prems(2,6) ok by (simp add: answer_binds)
      moreover from op have "(op, r) \<in> set (run_replies exec ops (snd (exec x s)))" using Cons.prems(3) by auto
      ultimately show ?thesis using Cons.prems(5) bound_answers [OF ok(2) inv'] by blast
    next
      case False
      with op have "(op, r) \<in> set (run_replies exec ops (snd (exec x s)))" "(op', r') \<in> set (run_replies exec ops (snd (exec x s)))"
        using Cons.prems(3,4) by auto
      then show ?thesis using Cons.IH [OF ok(2) inv'] Cons.prems(5,6) by blast
    qed
  qed
qed simp

end

text \<open>
  A machine that implements an abstract one: every operation moves the abstraction by the abstract
  step, so every run does.
\<close>

locale refining_machine = machine exec ok inv
  for exec :: "'op \<Rightarrow> 's \<Rightarrow> ('e + 'r) \<times> 's" and ok :: "'op \<Rightarrow> bool" and inv :: "'s \<Rightarrow> bool" +
  fixes abs :: "'s \<Rightarrow> 'a"
    and step :: "'op \<Rightarrow> 'a \<Rightarrow> 'a"
  assumes exec_step: "ok op \<Longrightarrow> inv s \<Longrightarrow> abs (snd (exec op s)) = step op (abs s)"
begin

lemma run_step: "list_all ok ops \<Longrightarrow> inv s \<Longrightarrow> abs (run_ops exec ops s) = fold step ops (abs s)"
  by (induction ops arbitrary: s) (auto simp: exec_step exec_inv)

end

end
