(* ===== verification/Registry_Rows.thy ===== *)
theory Registry_Rows
  imports Prelude "HOL-Library.Product_Lexorder"
begin

text \<open>
  Rows of the attempt registry (\<open>jobs.log\<close>) and their metadata, from
  \<open>utilities/dispatch_contract.py\<close>: the six tab-separated columns, the comma-separated
  \<open>key=value\<close> pipe in the last one, the validator of the attempt axes, the immutable identity of
  an attempt and the only function that rewrites a row's metadata. A
  \<open>DispatchContractError\<close> is its \<open>reason\<close>; the human-readable detail is not modelled.
\<close>

section \<open>Constants\<close>

definition ATTEMPT_SCHEMA_VERSION :: int where "ATTEMPT_SCHEMA_VERSION = 2"

definition STANDARD_PLUS_INTENSITIES :: "string list" where
  "STANDARD_PLUS_INTENSITIES = [''standard'', ''strong'', ''thorough'', ''adversarial'']"

definition WRAPPER_TRANSPORTS :: "string list" where
  "WRAPPER_TRANSPORTS = [''headless'', ''interactive'']"

definition EXECUTION_SURFACES :: "string list" where
  "EXECUTION_SURFACES = [''registered-headless'', ''codex-native-subagent'', ''claude-subagent'',
     ''claude-agent-team-teammate'', ''inline'']"

definition FALLBACK_HOPS :: "string list" where
  "FALLBACK_HOPS = [''same-harness-headless'', ''cross-harness-headless'', ''native-subagent'', ''inline'']"

definition ATTEMPT_MUTABLE_METADATA :: "string list" where
  "ATTEMPT_MUTABLE_METADATA =
    [''launch_claimed'', ''pid'', ''pid_start'', ''pid_scope'', ''pid_host'', ''pid_host_start'',
     ''pid_host_ns'', ''pid_ns'', ''pid_observer_ns'', ''pid_host_proof'', ''pgid'', ''pgid_host'',
     ''group_reap_proof'', ''group_reap_pgid'', ''launch_lifecycle'', ''launch_lifecycle_requested'',
     ''launch_lifecycle_reselection'', ''lifecycle_selector_source'', ''lifecycle_nspid_width'',
     ''lifecycle_pid1_class'', ''launch_started'', ''launch_outcome'', ''updated_at'', ''note'',
     ''completion_marker'', ''completion_marker_history'', ''parent_completion_harvested'',
     ''managed_delivery_state'', ''managed_sealed_batch_id'', ''managed_sidecar_pid'',
     ''managed_sidecar_log'', ''summary_owner'', ''summary_sid'', ''summary_owner_pid'',
     ''summary_owner_pid_start'', ''summary_owner_pid_scope'', ''summary_owner_pid_host'',
     ''summary_owner_pid_host_start'', ''summary_owner_pid_host_ns'',
     ''summary_owner_pid_observer_ns'', ''summary_owner_pid_host_proof'', ''summary_state_file'',
     ''watchdog'', ''heartbeat'', ''teardown_claim'', ''teardown_claimed_at'',
     ''teardown_claim_pid'', ''teardown_claim_pid_start'']"

definition ATTEMPT_TERMINAL_EVIDENCE_KEYS :: "string list" where
  "ATTEMPT_TERMINAL_EVIDENCE_KEYS =
    [''api_status'', ''capacity_log'', ''classifier_source'', ''detected_by'', ''failure_class'',
     ''process_exit'', ''reconcile_reason'', ''reset'', ''terminal_event'', ''watchdog_windows'',
     ''terminal_conflict'', ''prior_terminal_note'', ''prior_classifier_source'',
     ''prior_failure_class'', ''conflicting_classifier_source'', ''conflicting_failure_class'']"

section \<open>The metadata pipe\<close>

definition has_eq :: "string \<Rightarrow> bool" where
  "has_eq part \<longleftrightarrow> CHR ''='' \<in> set part"

definition part_key :: "string \<Rightarrow> string" where
  \<comment> \<open>\<open>part.split("=", 1)[0]\<close>\<close>
  "part_key part = takeWhile (\<lambda>c. c \<noteq> CHR ''='') part"

definition part_kv :: "string \<Rightarrow> string \<times> string" where
  \<comment> \<open>\<open>part.split("=", 1)\<close>\<close>
  "part_kv part = (part_key part, tl (dropWhile (\<lambda>c. c \<noteq> CHR ''='') part))"

definition pipe_parts :: "string \<Rightarrow> string list" where
  "pipe_parts pipe = split_on (CHR '','') pipe"

definition parse_registry_metadata :: "string \<Rightarrow> meta" where
  "parse_registry_metadata pipe = dict_update [] (map part_kv (filter has_eq (pipe_parts pipe)))"

definition jmeta :: "meta \<Rightarrow> obj" where
  \<comment> \<open>a registry row's metadata as the validator sees it: every value a string\<close>
  "jmeta md = map (\<lambda>(k, v). (k, JStr v)) md"

definition row_fields :: "string \<Rightarrow> string list" where
  "row_fields line = split_on tab line"

definition kv_part :: "string \<Rightarrow> string \<Rightarrow> string" where
  \<comment> \<open>\<open>f"{key}={value}"\<close>\<close>
  "kv_part k v = k @ ''='' @ v"

lemma part_kv_fst [simp]: "fst (part_kv p) = part_key p"
  by (simp add: part_kv_def)

lemma part_key_kv [simp]: "CHR ''='' \<notin> set k \<Longrightarrow> part_key (kv_part k v) = k"
  by (induction k) (auto simp: part_key_def kv_part_def)

lemma part_kv_kv [simp]: "CHR ''='' \<notin> set k \<Longrightarrow> part_kv (kv_part k v) = (k, v)"
  by (induction k) (auto simp: part_key_def kv_part_def part_kv_def)

lemma has_eq_kv [simp]: "has_eq (kv_part k v)"
  by (simp add: has_eq_def kv_part_def)

lemma distinct_parse: "distinct (map fst (parse_registry_metadata pipe))"
  by (simp add: parse_registry_metadata_def distinct_dict_update)

lemma map_of_parse:
  "map_of (parse_registry_metadata pipe) = map_of (rev (map part_kv (filter has_eq (pipe_parts pipe))))"
  by (simp add: parse_registry_metadata_def map_of_dict_update)

lemma pipe_parts_no_comma: "p \<in> set (pipe_parts pipe) \<Longrightarrow> CHR '','' \<notin> set p"
  by (auto simp: pipe_parts_def dest: split_on_no_sep)

lemma pipe_parts_join:
  "ps \<noteq> [] \<Longrightarrow> \<forall>p \<in> set ps. CHR '','' \<notin> set p \<Longrightarrow> pipe_parts (join '','' ps) = ps"
  by (simp add: pipe_parts_def split_on_join)

lemma pipe_parts_snoc:
  "CHR '','' \<notin> set p \<Longrightarrow> pipe_parts (pipe @ '','' @ p) = pipe_parts pipe @ [p]"
  by (simp add: pipe_parts_def split_on_append split_on_free)

lemma parse_snoc:
  "CHR '','' \<notin> set k \<Longrightarrow> CHR ''='' \<notin> set k \<Longrightarrow> CHR '','' \<notin> set v \<Longrightarrow>
   map_of (parse_registry_metadata (pipe @ '','' @ kv_part k v))
     = (map_of (parse_registry_metadata pipe))(k \<mapsto> v)"
proof -
  assume a: "CHR '','' \<notin> set k" "CHR ''='' \<notin> set k" "CHR '','' \<notin> set v"
  then have "CHR '','' \<notin> set (kv_part k v)" by (simp add: kv_part_def)
  then have "pipe_parts (pipe @ '','' @ kv_part k v) = pipe_parts pipe @ [kv_part k v]"
    by (rule pipe_parts_snoc)
  with a(2) show ?thesis by (simp add: map_of_parse map_add_def fun_eq_iff)
qed

section \<open>The attempt axes\<close>

definition registered_worker :: "json \<Rightarrow> string + bool" where
  "registered_worker v = (case v of
       JBool b \<Rightarrow> Inr b
     | _ \<Rightarrow> if lower (py_str v) \<in> {''1'', ''true''} then Inr True
           else if lower (py_str v) \<in> {''0'', ''false''} then Inr False
           else Inl ''invalid-registered-worker'')"

definition SUBSESSION_ID_RE :: "string \<Rightarrow> bool" where
  "SUBSESSION_ID_RE s = prefixed_class ''ss-'' ident_char 4 200 s"

definition SESSION_CHAIN_ID_RE :: "string \<Rightarrow> bool" where
  "SESSION_CHAIN_ID_RE s = prefixed_class ''ssc-'' ident_char 4 200 s"

definition hex64 :: "string \<Rightarrow> bool" where
  "hex64 s \<longleftrightarrow> length s = 64 \<and> list_all is_lower_hex s"

definition is_absolute :: "string \<Rightarrow> bool" where
  "is_absolute p \<longleftrightarrow> startswith ''/'' p"

definition subsession_required :: "string list" where
  "subsession_required =
    [''route_id'', ''route_node'', ''session_chain_id'', ''subsession_index'', ''subsession_count'',
     ''subsession_mode'', ''subsession_purpose'', ''phase_brief'', ''phase_brief_sha256'',
     ''state_ledger'', ''fixed_files_sha256'', ''narrow_verify_sha256'', ''expected_round_trips'']"

abbreviation ostr :: "obj \<Rightarrow> string \<Rightarrow> string" where
  \<comment> \<open>\<open>str(metadata.get(k, ""))\<close>\<close>
  "ostr md k \<equiv> py_str (oget_or md k (JStr []))"

definition validate_subsession :: "obj \<Rightarrow> int \<Rightarrow> string + unit" where
  "validate_subsession md dispatch_depth =
    (let subsession_id = ostr md ''subsession_id'' in
     bindr (registered_worker (oget_or md ''stage_authority'' (JStr ''1''))) (\<lambda>stage_authority.
     if subsession_id \<noteq> [] then
       if \<not> SUBSESSION_ID_RE subsession_id then Inl ''subsession-id-invalid''
       else if stage_authority then Inl ''subsession-stage-authority-forbidden''
       else if dispatch_depth \<noteq> 2 then Inl ''subsession-depth-invalid''
       else if filter (\<lambda>k. ostr md k = []) subsession_required \<noteq> [] then Inl ''subsession-metadata-missing''
       else if \<not> SESSION_CHAIN_ID_RE (ostr md ''session_chain_id'') then Inl ''session-chain-id-invalid''
       else if ostr md ''subsession_mode'' \<notin> {''serial'', ''parallel''} then Inl ''subsession-mode-invalid''
       else if ostr md ''subsession_purpose'' \<notin> {''planned'', ''gap-retry''} then Inl ''subsession-purpose-invalid''
       else case (py_int (ostr md ''subsession_index''), py_int (ostr md ''subsession_count''),
                  py_int (ostr md ''expected_round_trips'')) of
         (Some index, Some cnt, Some rounds) \<Rightarrow>
           if \<not> (1 \<le> index \<and> index \<le> cnt \<and> cnt \<le> 16) \<or> \<not> (1 \<le> rounds \<and> rounds \<le> 20)
           then Inl ''subsession-number-out-of-range''
           else if ostr md ''subsession_purpose'' = ''planned''
                \<and> py_str (oget_or md ''capacity_retry'' (JStr ''0'')) = ''1''
           then Inl ''planned-subsession-retry-conflation''
           else if filter (\<lambda>k. \<not> hex64 (ostr md k))
                  [''phase_brief_sha256'', ''fixed_files_sha256'', ''narrow_verify_sha256''] \<noteq> []
           then Inl ''subsession-digest-invalid''
           else if filter (\<lambda>k. \<not> is_absolute (ostr md k)) [''phase_brief'', ''state_ledger''] \<noteq> []
           then Inl ''subsession-path-not-absolute''
           else if ostr md ''subsession_mode'' = ''parallel''
                \<and> \<not> truthy (py_or (oget md ''parallel_group'') (oget md ''batch_group''))
           then Inl ''parallel-subsession-batch-required''
           else Inr ()
       | _ \<Rightarrow> Inl ''subsession-number-invalid''
     else if \<not> stage_authority then Inl ''stage-authority-zero-without-subsession''
     else Inr ()))"

definition validate_attempt_metadata :: "bool \<Rightarrow> obj \<Rightarrow> string + unit" where
  "validate_attempt_metadata registered_headless_wrapper md =
    (case (py_int_of (oget_or md ''attempt_schema_version'' (JInt 0)),
           py_int_of (oget_or md ''dispatch_depth'' (JInt (- 1)))) of
       (Some schema_version, Some dispatch_depth) \<Rightarrow>
         if schema_version \<noteq> ATTEMPT_SCHEMA_VERSION then Inl ''legacy-attempt-row-read-only''
         else if filter (\<lambda>k. k \<in> fst ` set md) [''depth'', ''owner_depth'', ''max_depth''] \<noteq> []
         then Inl ''bare-dispatch-depth-field''
         else if dispatch_depth \<notin> {0, 1, 2} then Inl ''invalid-dispatch-depth''
         else let transport = ostr md ''transport''; surface = ostr md ''execution_surface'';
                  fallback_hop = ostr md ''fallback_hop'' in
         bindr (registered_worker (oget md ''registered_worker'')) (\<lambda>registered.
         if transport \<notin> set WRAPPER_TRANSPORTS then Inl ''invalid-transport''
         else if surface \<notin> set EXECUTION_SURFACES then Inl ''invalid-execution-surface''
         else if fallback_hop \<notin> set FALLBACK_HOPS \<and> \<not> (dispatch_depth = 0 \<and> fallback_hop = [])
         then Inl ''invalid-fallback-hop''
         else if dispatch_depth = 0 \<and>
              (surface \<noteq> ''inline'' \<or> registered \<or> transport \<noteq> ''interactive'' \<or> fallback_hop \<noteq> [])
         then Inl ''direct-attempt-axes-mismatch''
         else if surface = ''claude-agent-team-teammate'' then Inl ''teammate-not-dispatch-attempt''
         else if registered \<noteq> (surface = ''registered-headless'')
         then Inl ''attempt-registration-surface-mismatch''
         else if registered \<and> transport \<noteq> ''headless'' then Inl ''registered-worker-transport-mismatch''
         else if surface = ''registered-headless''
              \<and> fallback_hop \<notin> {''same-harness-headless'', ''cross-harness-headless''}
         then Inl ''registered-worker-fallback-mismatch''
         else if surface \<in> {''codex-native-subagent'', ''claude-subagent''}
              \<and> (fallback_hop \<noteq> ''native-subagent'' \<or> transport \<noteq> ''headless'')
         then Inl ''native-surface-axes-mismatch''
         else if surface = ''inline'' \<and> 0 < dispatch_depth \<and> fallback_hop \<noteq> ''inline''
         then Inl ''inline-surface-fallback-mismatch''
         else if registered_headless_wrapper \<and> (surface \<noteq> ''registered-headless'' \<or> \<not> registered)
         then Inl ''headless-wrapper-surface-mismatch''
         else validate_subsession md dispatch_depth)
     | _ \<Rightarrow> Inl ''invalid-attempt-metadata'')"

definition valid_row_metadata :: "meta \<Rightarrow> bool" where
  \<comment> \<open>\<open>validate_attempt_metadata(metadata)\<close> returns instead of raising\<close>
  "valid_row_metadata md \<longleftrightarrow> validate_attempt_metadata False (jmeta md) = Inr ()"

section \<open>Identity and rewriting of a row's metadata\<close>

definition row_has_attempt :: "string \<Rightarrow> string \<Rightarrow> bool" where
  "row_has_attempt pipe attempt_id \<longleftrightarrow> map_of (parse_registry_metadata pipe) ''attempt_id'' = Some attempt_id"

definition immutable_metadata :: "string \<Rightarrow> (string \<times> string) list" where
  "immutable_metadata pipe =
     sort (filter (\<lambda>(k, v). k \<notin> set ATTEMPT_MUTABLE_METADATA) (parse_registry_metadata pipe))"

definition immutable_attempt_identity ::
  "string list \<Rightarrow> string + (string \<times> string \<times> string \<times> (string \<times> string) list)" where
  "immutable_attempt_identity fields =
    (if length fields \<noteq> 6 then Inl ''invalid-registry-row''
     else bindr (validate_attempt_metadata False (jmeta (parse_registry_metadata (fields ! 5)))) (\<lambda>_.
       Inr (fields ! 2, fields ! 3, fields ! 4, immutable_metadata (fields ! 5))))"

definition row_identity :: "string list \<Rightarrow> string list option" where
  "row_identity fields =
    (if length fields \<noteq> 6 then None
     else let md = parse_registry_metadata (fields ! 5);
              route_id = mget md ''route_id'' []; route_node = mget md ''route_node'' [];
              parent = mget md ''parent'' [] in
       if mget md ''attempt_id'' [] \<noteq> [] then Some [''attempt'', mget md ''attempt_id'' []]
       else if route_id \<noteq> [] \<and> route_node \<noteq> [] \<and> parent \<noteq> []
       then Some [''legacy'', route_id, route_node, parent, fields ! 4]
       else None)"

definition semicolons :: "string \<Rightarrow> string" where
  \<comment> \<open>\<open>value.replace(",", ";")\<close>\<close>
  "semicolons v = map (\<lambda>c. if c = CHR '','' then CHR '';'' else c) v"

text \<open>The loop over the requested vals, in their order; \<open>replace\<close> collects the accepted ones.\<close>

fun accepted_values :: "bool \<Rightarrow> meta \<Rightarrow> meta \<Rightarrow> meta \<Rightarrow> string + meta" where
  "accepted_values terminal md [] replace = Inr replace"
| "accepted_values terminal md ((key, raw) # rest) replace =
    (let value = semicolons raw in
     if key = [] \<or> CHR ''='' \<in> set key \<or> CHR '','' \<in> set key then Inl ''attempt-metadata-key-invalid''
     else if key \<notin> set ATTEMPT_MUTABLE_METADATA
          \<and> \<not> (terminal \<and> key \<in> set ATTEMPT_TERMINAL_EVIDENCE_KEYS)
     then if map_of md key = Some value then accepted_values terminal md rest replace
          else Inl ''attempt-immutable-metadata-mutation''
     else if key = ''launch_outcome'' \<and> mget md key [] \<noteq> [] \<and> mget md key [] \<noteq> value
     then Inl ''attempt-launch-outcome-conflict''
     else accepted_values terminal md rest (AList.update key value replace))"

definition immutable_duplicates :: "string \<Rightarrow> string list" where
  "immutable_duplicates pipe =
    (let keys = map part_key (filter has_eq (pipe_parts pipe))
     in filter (\<lambda>k. count_list keys k > 1 \<and> k \<notin> set ATTEMPT_MUTABLE_METADATA) keys)"

definition updated_attempt_metadata :: "bool \<Rightarrow> string \<Rightarrow> meta \<Rightarrow> string + string" where
  "updated_attempt_metadata terminal pipe vals =
    (let raw_parts = filter has_eq (pipe_parts pipe) in
     if immutable_duplicates pipe \<noteq> [] then Inl ''attempt-immutable-metadata-duplicate''
     else bindr (accepted_values terminal (parse_registry_metadata pipe) vals []) (\<lambda>replace.
       Inr (join '','' (filter (\<lambda>p. part_key p \<notin> fst ` set replace) raw_parts
              @ map (\<lambda>(k, v). kv_part k v) (sort replace)))))"


section \<open>What a rewrite keeps and what it changes\<close>

lemma parse_join:
  assumes "\<forall>p \<in> set ps. CHR '','' \<notin> set p"
  shows "map_of (parse_registry_metadata (join '','' ps)) = map_of (rev (map part_kv (filter has_eq ps)))"
proof (cases "ps = []")
  case True
  then show ?thesis by (simp add: map_of_parse pipe_parts_def has_eq_def)
next
  case False
  with assms show ?thesis by (simp add: map_of_parse pipe_parts_join)
qed

lemma parse_render:
  assumes "distinct (map fst md)" "\<forall>(k, v) \<in> set md. CHR '','' \<notin> set k \<and> CHR ''='' \<notin> set k \<and> CHR '','' \<notin> set v"
  shows "parse_registry_metadata (join '','' (map (\<lambda>(k, v). kv_part k v) md)) = md"
proof (cases "md = []")
  case True
  then show ?thesis by (simp add: parse_registry_metadata_def pipe_parts_def has_eq_def)
next
  case False
  let ?ps = "map (\<lambda>(k, v). kv_part k v) md"
  have "\<forall>p \<in> set ?ps. CHR '','' \<notin> set p" using assms(2) by (auto simp: kv_part_def)
  with False have "pipe_parts (join '','' ?ps) = ?ps" by (intro pipe_parts_join) auto
  moreover have "filter has_eq ?ps = ?ps" by (auto simp: filter_id_conv)
  moreover have "map part_kv ?ps = md" using assms(2) by (auto intro!: map_idI)
  ultimately show ?thesis using dict_update_distinct [of "[]" md] assms(1) by (simp add: parse_registry_metadata_def)
qed

lemma comma_semicolons [simp]: "CHR '','' \<notin> set (semicolons v)"
  by (auto simp: semicolons_def)

lemma semicolons_id: "CHR '','' \<notin> set v \<Longrightarrow> semicolons v = v"
  by (induction v) (auto simp: semicolons_def)

definition clean_replace :: "meta \<Rightarrow> bool" where
  "clean_replace rep \<longleftrightarrow> distinct (map fst rep) \<and>
     (\<forall>(k, v) \<in> set rep. CHR ''='' \<notin> set k \<and> CHR '','' \<notin> set k \<and> CHR '','' \<notin> set v)"

lemma clean_replace_update:
  assumes "clean_replace rep" "CHR ''='' \<notin> set k" "CHR '','' \<notin> set k" "CHR '','' \<notin> set v"
  shows "clean_replace (AList.update k v rep)"
proof -
  have "set (AList.update k v rep) \<subseteq> insert (k, v) (set rep)"
    by (induction rep) auto
  with assms show ?thesis by (auto simp: clean_replace_def AList.distinct_update)
qed

lemma accepted_values_clean:
  "accepted_values terminal md vals rep = Inr rep' \<Longrightarrow> clean_replace rep \<Longrightarrow> clean_replace rep'"
  by (induction terminal md vals rep rule: accepted_values.induct)
     (auto simp: Let_def clean_replace_update split: if_splits)

lemma keys_update: "fst ` set (AList.update k v d) = insert k (fst ` set d)"
  by (induction d) auto

lemma accepted_values_keys:
  assumes "accepted_values terminal md vals rep = Inr rep'"
  shows "fst ` set rep' \<subseteq> fst ` set rep \<union> {k \<in> fst ` set vals.
     k \<in> set ATTEMPT_MUTABLE_METADATA \<or> (terminal \<and> k \<in> set ATTEMPT_TERMINAL_EVIDENCE_KEYS)}"
  using assms
proof (induction terminal md vals rep rule: accepted_values.induct)
  case (2 terminal md key raw rest rep)
  show ?case
  proof (cases "key \<in> set ATTEMPT_MUTABLE_METADATA \<or> (terminal \<and> key \<in> set ATTEMPT_TERMINAL_EVIDENCE_KEYS)")
    case True
    with 2 have "fst ` set rep' \<subseteq> fst ` set (AList.update key (semicolons raw) rep) \<union> {k \<in> fst ` set rest.
       k \<in> set ATTEMPT_MUTABLE_METADATA \<or> (terminal \<and> k \<in> set ATTEMPT_TERMINAL_EVIDENCE_KEYS)}"
      by (simp add: Let_def split: if_splits)
    with True show ?thesis unfolding keys_update by auto
  next
    case False
    with 2 have "fst ` set rep' \<subseteq> fst ` set rep \<union> {k \<in> fst ` set rest.
       k \<in> set ATTEMPT_MUTABLE_METADATA \<or> (terminal \<and> k \<in> set ATTEMPT_TERMINAL_EVIDENCE_KEYS)}"
      by (simp add: Let_def split: if_splits)
    then show ?thesis by auto
  qed
qed simp

text \<open>A value that is not refused is stored with its commas replaced.\<close>

lemma accepted_values_lookup:
  "accepted_values terminal md vals rep = Inr rep' \<Longrightarrow> distinct (map fst vals) \<Longrightarrow>
   map_of vals k = Some v \<Longrightarrow>
   k \<in> set ATTEMPT_MUTABLE_METADATA \<or> (terminal \<and> k \<in> set ATTEMPT_TERMINAL_EVIDENCE_KEYS) \<Longrightarrow>
   map_of rep' k = Some (semicolons v)"
proof (induction terminal md vals rep rule: accepted_values.induct)
  case (2 terminal md key raw rest rep)
  have keep: "accepted_values terminal md rest r = Inr r' \<Longrightarrow> k \<notin> fst ` set rest \<Longrightarrow> map_of r' k = map_of r k"
    for r r'
    by (induction terminal md rest r rule: accepted_values.induct)
       (auto simp: Let_def update_conv' split: if_splits)
  show ?case
  proof (cases "k = key")
    case True
    with 2 keep show ?thesis by (auto simp: Let_def update_conv' split: if_splits)
  next
    case False
    with 2 show ?thesis by (auto simp: Let_def split: if_splits)
  qed
qed auto

lemma map_of_rev_distinct: "distinct (map fst xs) \<Longrightarrow> map_of (rev xs) = map_of xs"
  by (rule map_of_eqI) (auto simp: map_of_eq_Some_iff rev_map [symmetric])

lemma updated_attempt_metadata_lookup:
  assumes "updated_attempt_metadata terminal pipe vals = Inr pipe'"
  obtains rep where "accepted_values terminal (parse_registry_metadata pipe) vals [] = Inr rep"
    and "map_of (parse_registry_metadata pipe') = map_of (parse_registry_metadata pipe) ++ map_of rep"
proof -
  let ?raw = "filter has_eq (pipe_parts pipe)"
  from assms obtain rep where
    acc: "accepted_values terminal (parse_registry_metadata pipe) vals [] = Inr rep"
    and pipe': "pipe' = join '','' (filter (\<lambda>p. part_key p \<notin> fst ` set rep) ?raw
              @ map (\<lambda>(k, v). kv_part k v) (sort rep))"
    by (auto simp: updated_attempt_metadata_def Let_def bindr_Inr_iff split: if_splits)
  have clean: "clean_replace rep"
    by (rule accepted_values_clean [OF acc]) (simp add: clean_replace_def)
  let ?new = "map (\<lambda>(k, v). kv_part k v) (sort rep)"
  let ?old = "filter (\<lambda>p. part_key p \<notin> fst ` set rep) ?raw"
  have free: "\<forall>p \<in> set (?old @ ?new). CHR '','' \<notin> set p"
    using clean by (auto simp: clean_replace_def kv_part_def dest: pipe_parts_no_comma)
  have new: "map part_kv ?new = sort rep"
    using clean by (force simp: clean_replace_def intro!: map_idI)
  have dist: "distinct (map fst (sort rep))"
    using clean by (simp add: clean_replace_def distinct_map)
  have rep_map: "map_of (rev (sort rep)) = map_of rep"
    using clean dist by (simp add: map_of_rev_distinct clean_replace_def map_of_inject_set)
  have old: "map_of (rev (map part_kv ?old)) k = map_of (rev (map part_kv ?raw)) k"
    if "map_of rep k = None" for k
    using that by (intro map_of_rev_filter) (auto simp: map_of_eq_None_iff)
  have filt: "filter has_eq (?old @ ?new) = ?old @ ?new"
    unfolding filter_id_conv by auto
  have "map_of (parse_registry_metadata pipe') = map_of (rev (map part_kv ?old)) ++ map_of rep"
    unfolding pipe' using parse_join [OF free]
    by (simp only: filt map_append rev_append new map_of_append rep_map)
  with old have "map_of (parse_registry_metadata pipe') = map_of (parse_registry_metadata pipe) ++ map_of rep"
    by (auto simp: fun_eq_iff map_add_def map_of_parse split: option.splits)
  with acc show ?thesis by (rule that)
qed

lemma updated_attempt_metadata_frame:
  assumes "updated_attempt_metadata terminal pipe vals = Inr pipe'"
    and "k \<notin> fst ` set vals \<or> k \<notin> set ATTEMPT_MUTABLE_METADATA \<and> \<not> (terminal \<and> k \<in> set ATTEMPT_TERMINAL_EVIDENCE_KEYS)"
  shows "map_of (parse_registry_metadata pipe') k = map_of (parse_registry_metadata pipe) k"
  using assms(1)
proof (rule updated_attempt_metadata_lookup)
  fix rep
  assume acc: "accepted_values terminal (parse_registry_metadata pipe) vals [] = Inr rep"
    and eq: "map_of (parse_registry_metadata pipe') = map_of (parse_registry_metadata pipe) ++ map_of rep"
  from accepted_values_keys [OF acc] assms(2) have "map_of rep k = None"
    unfolding map_of_eq_None_iff by auto
  with eq show ?thesis by (simp add: map_add_def)
qed

lemma updated_attempt_metadata_stores:
  assumes "updated_attempt_metadata terminal pipe vals = Inr pipe'"
    and "distinct (map fst vals)" "map_of vals k = Some v"
    and "k \<in> set ATTEMPT_MUTABLE_METADATA \<or> (terminal \<and> k \<in> set ATTEMPT_TERMINAL_EVIDENCE_KEYS)"
  shows "map_of (parse_registry_metadata pipe') k = Some (semicolons v)"
  using assms(1)
proof (rule updated_attempt_metadata_lookup)
  fix rep
  assume acc: "accepted_values terminal (parse_registry_metadata pipe) vals [] = Inr rep"
    and eq: "map_of (parse_registry_metadata pipe') = map_of (parse_registry_metadata pipe) ++ map_of rep"
  from accepted_values_lookup [OF acc assms(2-4)] eq show ?thesis by simp
qed

text \<open>Two pipes with the same immutable lookups have the same identity part.\<close>

lemma mem_parse_iff:
  "(k, v) \<in> set (parse_registry_metadata r) \<longleftrightarrow> map_of (parse_registry_metadata r) k = Some v"
  by (simp add: distinct_parse)

lemma distinct_parse_pairs: "distinct (parse_registry_metadata r)"
  using distinct_parse distinct_map by blast

lemma immutable_metadata_eqI:
  assumes "\<And>k. k \<notin> set ATTEMPT_MUTABLE_METADATA \<Longrightarrow>
    map_of (parse_registry_metadata p) k = map_of (parse_registry_metadata q) k"
  shows "immutable_metadata p = immutable_metadata q"
  unfolding immutable_metadata_def
proof (rule sorted_distinct_set_unique)
  let ?F = "filter (\<lambda>(k, v). k \<notin> set ATTEMPT_MUTABLE_METADATA)"
  have "x \<in> set (?F (parse_registry_metadata p)) \<longleftrightarrow> x \<in> set (?F (parse_registry_metadata q))" for x
  proof (cases x)
    case (Pair k v)
    show ?thesis unfolding Pair using assms [of k]
      by (cases "k \<in> set ATTEMPT_MUTABLE_METADATA") (simp_all only: set_filter mem_Collect_eq mem_parse_iff case_prod_conv simp_thms)
  qed
  then show "set (sort (?F (parse_registry_metadata p))) = set (sort (?F (parse_registry_metadata q)))"
    by (simp only: set_sort set_eq_iff) blast
qed (simp_all only: sorted_sort distinct_sort distinct_filter distinct_parse_pairs)


section \<open>The validator reads fixed keys only\<close>

definition validated_keys :: "string list" where
  "validated_keys = [''attempt_schema_version'', ''dispatch_depth'', ''depth'', ''owner_depth'', ''max_depth'',
     ''transport'', ''execution_surface'', ''fallback_hop'', ''registered_worker'', ''subsession_id'',
     ''stage_authority'', ''capacity_retry'', ''parallel_group'', ''batch_group''] @ subsession_required"

lemma map_of_jmeta: "map_of (jmeta md) k = map_option JStr (map_of md k)"
  by (induction md) (auto simp: jmeta_def)

lemma keys_map_of: "k \<in> fst ` set md \<longleftrightarrow> map_of md k \<noteq> None"
  by (simp add: map_of_eq_None_iff)

lemma validate_cong:
  assumes "\<And>k. k \<in> set validated_keys \<Longrightarrow> map_of a k = map_of b k"
  shows "validate_attempt_metadata w a = validate_attempt_metadata w b"
proof -
  have "\<forall>k \<in> set validated_keys. oget_or a k = oget_or b k"
    using assms by (simp add: oget_or_def fun_eq_iff)
  then have get_or: "list_all (\<lambda>k. oget_or a k = oget_or b k) validated_keys" by (simp add: list_all_iff)
  have "\<forall>k \<in> set validated_keys. oget a k = oget b k"
    using assms by (simp add: oget_def)
  then have get: "list_all (\<lambda>k. oget a k = oget b k) validated_keys" by (simp add: list_all_iff)
  have "\<forall>k \<in> set validated_keys. (k \<in> fst ` set a) = (k \<in> fst ` set b)"
    using assms by (simp add: keys_map_of)
  then have mem: "list_all (\<lambda>k. (k \<in> fst ` set a) = (k \<in> fst ` set b)) validated_keys" by (simp add: list_all_iff)
  note facts = get_or [unfolded validated_keys_def subsession_required_def append_Cons append_Nil list.pred_inject]
    get [unfolded validated_keys_def subsession_required_def append_Cons append_Nil list.pred_inject]
    mem [unfolded validated_keys_def subsession_required_def append_Cons append_Nil list.pred_inject]
  have "\<forall>k \<in> set subsession_required. oget_or a k = oget_or b k"
    using get_or by (simp add: validated_keys_def list_all_iff)
  then have req: "filter (\<lambda>k. ostr a k = []) subsession_required = filter (\<lambda>k. ostr b k = []) subsession_required"
    by (intro filter_cong) simp_all
  have sub: "validate_subsession a d = validate_subsession b d" for d
    unfolding validate_subsession_def req by (simp only: facts filter.simps)
  show ?thesis
    unfolding validate_attempt_metadata_def sub by (simp only: facts filter.simps)
qed


section \<open>Properties\<close>

text \<open>Rewriting a row's metadata is exactly a map update: every requested key that is
  mutable (or terminal evidence in a terminal write) gets its value with commas replaced, every
  other key, immutable identity included, keeps the value it had.\<close>

theorem metadata_rewrite_law:
  assumes "updated_attempt_metadata terminal pipe vals = Inr pipe'" and "distinct (map fst vals)"
  shows "map_of (parse_registry_metadata pipe') k =
    (if k \<in> set ATTEMPT_MUTABLE_METADATA \<or> (terminal \<and> k \<in> set ATTEMPT_TERMINAL_EVIDENCE_KEYS)
     then (case map_of vals k of Some v \<Rightarrow> Some (semicolons v) | None \<Rightarrow> map_of (parse_registry_metadata pipe) k)
     else map_of (parse_registry_metadata pipe) k)"
proof (cases "map_of vals k")
  case None
  then have "k \<notin> fst ` set vals" by (simp add: map_of_eq_None_iff)
  with None show ?thesis using updated_attempt_metadata_frame [OF assms(1)] by simp
next
  case (Some v)
  with updated_attempt_metadata_stores [OF assms Some] updated_attempt_metadata_frame [OF assms(1)]
  show ?thesis by auto
qed

theorem metadata_rewrite_law_witness:
  "updated_attempt_metadata False ''attempt_id=a,note=x'' [(''note'', ''y,z'')] = Inr ''attempt_id=a,note=y;z'' \<and>
   map_of (parse_registry_metadata ''attempt_id=a,note=y;z'') ''note'' = Some ''y;z''"
proof
  show upd: "updated_attempt_metadata False ''attempt_id=a,note=x'' [(''note'', ''y,z'')] = Inr ''attempt_id=a,note=y;z''"
    by code_simp
  show "map_of (parse_registry_metadata ''attempt_id=a,note=y;z'') ''note'' = Some ''y;z''"
    by (subst metadata_rewrite_law [OF upd]) (simp, code_simp)
qed

text \<open>Metadata a headless wrapper accepts describes a registered headless worker on the
  headless transport, at dispatch depth 1 or 2, on one of the two headless fallback hops; a
  sub-session among them sits at depth 2 and carries no stage authority.\<close>

theorem headless_metadata_axes:
  assumes "validate_attempt_metadata True md = Inr ()"
  shows "py_int_of (oget_or md ''attempt_schema_version'' (JInt 0)) = Some 2 \<and>
    py_int_of (oget_or md ''dispatch_depth'' (JInt (- 1))) \<in> {Some 1, Some 2} \<and>
    registered_worker (oget md ''registered_worker'') = Inr True \<and>
    ostr md ''execution_surface'' = ''registered-headless'' \<and> ostr md ''transport'' = ''headless'' \<and>
    ostr md ''fallback_hop'' \<in> {''same-harness-headless'', ''cross-harness-headless''} \<and>
    (ostr md ''subsession_id'' \<noteq> [] \<longrightarrow>
       py_int_of (oget_or md ''dispatch_depth'' (JInt (- 1))) = Some 2 \<and>
       registered_worker (oget_or md ''stage_authority'' (JStr ''1'')) = Inr False)"
proof -
  from assms obtain d where d: "py_int_of (oget_or md ''dispatch_depth'' (JInt (- 1))) = Some d"
    and v: "py_int_of (oget_or md ''attempt_schema_version'' (JInt 0)) = Some 2"
    and axes: "d \<in> {0, 1, 2}" "registered_worker (oget md ''registered_worker'') = Inr True"
      "ostr md ''execution_surface'' = ''registered-headless''" "ostr md ''transport'' = ''headless''"
      "ostr md ''fallback_hop'' \<in> {''same-harness-headless'', ''cross-harness-headless''}" "d \<noteq> 0"
    and sub: "validate_subsession md d = Inr ()"
    unfolding validate_attempt_metadata_def Let_def
    by (auto simp: bindr_Inr_iff ATTEMPT_SCHEMA_VERSION_def split: option.splits if_splits)
  from sub have "ostr md ''subsession_id'' \<noteq> [] \<longrightarrow>
      d = 2 \<and> registered_worker (oget_or md ''stage_authority'' (JStr ''1'')) = Inr False"
    unfolding validate_subsession_def Let_def bindr_Inr_iff
    by (elim exE conjE) (simp split: if_splits)
  with d v axes show ?thesis by auto
qed

theorem headless_metadata_axes_witness:
  "py_int_of (oget_or [(''attempt_schema_version'', JInt 2), (''dispatch_depth'', JInt 1),
      (''transport'', JStr ''headless''), (''execution_surface'', JStr ''registered-headless''),
      (''registered_worker'', JBool True), (''fallback_hop'', JStr ''same-harness-headless'')]
      ''dispatch_depth'' (JInt (- 1))) \<in> {Some 1, Some 2}"
  by (rule headless_metadata_axes [THEN conjunct2, THEN conjunct1]) code_simp

end
