(* ===== verification/Attempt_Registry.thy ===== *)
theory Attempt_Registry
  imports Registry_Rows
begin

text \<open>
  The attempt registry \<open>jobs.log\<close> as its writers see it under the file lock
  (\<open>utilities/dispatch_contract.py\<close>, from \<open>new_attempt_id\<close> on): a list of lines, each six
  tab-separated fs. Every operation reads the lines, decides, and either rewrites the
  file or raises before any write. Opening, locking and fsync are not modelled; the lock
  makes one operation one step.
\<close>

section \<open>Searching rows\<close>

fun find_row :: "(string list \<Rightarrow> bool) \<Rightarrow> nat \<Rightarrow> string list \<Rightarrow> (nat \<times> string list) option" where
  "find_row P i [] = None"
| "find_row P i (line # lines) =
     (if P (row_fields line) then Some (i, row_fields line) else find_row P (Suc i) lines)"

fun all_rows :: "(string list \<Rightarrow> bool) \<Rightarrow> nat \<Rightarrow> string list \<Rightarrow> (nat \<times> string list) list" where
  "all_rows P i [] = []"
| "all_rows P i (line # lines) =
     (if P (row_fields line) then (i, row_fields line) # all_rows P (Suc i) lines
      else all_rows P (Suc i) lines)"

definition attempt_row :: "string \<Rightarrow> string list \<Rightarrow> bool" where
  "attempt_row a fs \<longleftrightarrow> length fs = 6 \<and> row_has_attempt (fs ! 5) a"

definition open_status :: "string \<Rightarrow> bool" where
  "open_status s \<longleftrightarrow> s = ''open'' \<or> s = ''running''"

definition open_attempt_row :: "string \<Rightarrow> string list \<Rightarrow> bool" where
  "open_attempt_row a fs \<longleftrightarrow> attempt_row a fs \<and> open_status (fs ! 1)"

definition row_meta :: "string list \<Rightarrow> meta" where
  "row_meta fs = parse_registry_metadata (fs ! 5)"

definition store_row :: "string list \<Rightarrow> nat \<Rightarrow> string list \<Rightarrow> string list" where
  \<comment> \<open>\<open>lines[index] = "\t".join(fields)\<close>\<close>
  "store_row lines index fs = lines[index := join [tab] fs]"

section \<open>Operations\<close>

definition new_attempt_id :: "string \<Rightarrow> string \<Rightarrow> string + string" where
  \<comment> \<open>\<open>uuid\<close> is the fresh \<open>uuid4().hex\<close>\<close>
  "new_attempt_id uuid value =
    (if value \<noteq> [] then
       if \<not> startswith ''att-'' value \<or> length value < 12 then Inl ''invalid-attempt-id'' else Inr value
     else Inr (''att-'' @ uuid))"

definition attempt_launch_is_available :: "string \<Rightarrow> string list \<Rightarrow> bool" where
  "attempt_launch_is_available attempt_id lines =
    (case all_rows (attempt_row attempt_id) 0 lines of
       [(i, fs)] \<Rightarrow> valid_row_metadata (row_meta fs) \<and> fs ! 1 = ''open''
          \<and> map_of (row_meta fs) ''launch_claimed'' = Some ''0''
     | _ \<Rightarrow> False)"

definition rstrip_newline :: "string \<Rightarrow> string" where
  "rstrip_newline s = rev (dropWhile (\<lambda>c. c = newline) (rev s))"

definition matches_all :: "meta \<Rightarrow> meta \<Rightarrow> bool" where
  \<comment> \<open>\<open>all(metadata.get(key) == value for key, value in wanted.items())\<close>\<close>
  "matches_all wanted md = list_all (\<lambda>(k, v). map_of md k = Some v) wanted"

text \<open>The scan for live or exhausted competitors: \<open>Inr None\<close> when an open competitor makes the
  claim return \<open>False\<close>, otherwise the attempts counted against each limit.\<close>

fun exclusive_live_scan ::
  "meta \<Rightarrow> string list \<Rightarrow> string list \<Rightarrow> string list \<Rightarrow> string list
   \<Rightarrow> string + (string list \<times> string list) option" where
  "exclusive_live_scan wanted notes [] ordinary replacement = Inr (Some (ordinary, replacement))"
| "exclusive_live_scan wanted notes (line # lines) ordinary replacement =
    (let fs = row_fields line; md = row_meta fs in
     if length fs \<noteq> 6 \<or> \<not> matches_all wanted md
     then exclusive_live_scan wanted notes lines ordinary replacement
     else bindr (validate_attempt_metadata False (jmeta md)) (\<lambda>_.
       if open_status (fs ! 1) then Inr None
       else if fs ! 1 = ''done'' \<and> mget md ''attempt_id'' [] \<noteq> [] then
         if map_of md ''note'' \<in> Some ` set notes
         then exclusive_live_scan wanted notes lines ordinary
                (List.insert (mget md ''attempt_id'' []) replacement)
         else exclusive_live_scan wanted notes lines
                (List.insert (mget md ''attempt_id'' []) ordinary) replacement
       else exclusive_live_scan wanted notes lines ordinary replacement))"

record claim_policy =
  exclusive_metadata :: meta
  exclusive_live_metadata :: meta
  terminal_attempt_limit :: "nat option"
  replacement_attempt_limit :: nat
  replacement_notes :: "string list"

definition no_policy :: claim_policy where
  "no_policy = \<lparr>exclusive_metadata = [], exclusive_live_metadata = [], terminal_attempt_limit = None,
     replacement_attempt_limit = 0, replacement_notes = []\<rparr>"

definition claim_existing_row ::
  "(string list \<Rightarrow> string + unit) \<Rightarrow> bool \<Rightarrow> string list \<Rightarrow> string list \<Rightarrow> nat \<Rightarrow> string list
   \<Rightarrow> string + (bool \<times> string list)" where
  "claim_existing_row preclaim launch rf lines index fs =
    bindr (validate_attempt_metadata False (jmeta (row_meta fs))) (\<lambda>_.
    bindr (immutable_attempt_identity fs) (\<lambda>known.
    bindr (immutable_attempt_identity rf) (\<lambda>requested.
      if known \<noteq> requested then Inl ''attempt-identity-conflict''
      else if \<not> launch \<or> map_of (row_meta fs) ''launch_claimed'' = Some ''1'' \<or> fs ! 1 \<noteq> ''open''
      then Inr (False, lines)
      else bindr (preclaim lines) (\<lambda>_.
        let pipe = join '','' (filter (\<lambda>p. \<not> startswith ''launch_claimed='' p) (pipe_parts (fs ! 5)))
        in Inr (True, store_row lines index (fs[5 := pipe @ '','' @ kv_part ''launch_claimed'' ''1'']))))))"

definition claim_new_row ::
  "(string list \<Rightarrow> string + unit) \<Rightarrow> claim_policy \<Rightarrow> bool \<Rightarrow> string list \<Rightarrow> string list
   \<Rightarrow> string + (bool \<times> string list)" where
  "claim_new_row preclaim policy launch rf lines =
    (if exclusive_metadata policy \<noteq> [] \<and>
        list_ex (\<lambda>line. length (row_fields line) = 6
                \<and> matches_all (exclusive_metadata policy) (row_meta (row_fields line))) lines
     then Inr (False, lines)
     else bindr (if exclusive_live_metadata policy \<noteq> []
                 then exclusive_live_scan (exclusive_live_metadata policy) (replacement_notes policy) lines [] []
                 else Inr (Some ([], []))) (\<lambda>scan.
       case scan of
         None \<Rightarrow> Inr (False, lines)
       | Some (ordinary, replacement) \<Rightarrow>
           if exclusive_live_metadata policy \<noteq> [] \<and>
              (case terminal_attempt_limit policy of None \<Rightarrow> False | Some n \<Rightarrow> n \<le> length ordinary)
           then Inl ''quick-registered-headless-exhausted''
           else if exclusive_live_metadata policy \<noteq> [] \<and> replacement_attempt_limit policy < length replacement
           then Inl ''quick-replacement-attempts-exhausted''
           else bindr (if launch then preclaim lines else Inr ()) (\<lambda>_.
             Inr (True, lines @ [join [tab] (rf[5 := (rf ! 5) @ '','' @
                kv_part ''launch_claimed'' (if launch then ''1'' else ''0'')])]))))"

definition claim_attempt_row ::
  "(string list \<Rightarrow> string + unit) \<Rightarrow> claim_policy \<Rightarrow> string \<Rightarrow> string \<Rightarrow> bool \<Rightarrow> string list
   \<Rightarrow> string + (bool \<times> string list)" where
  "claim_attempt_row preclaim policy attempt_id row launch lines =
    (let rf = row_fields (rstrip_newline row) in
     if attempt_id = [] then Inl ''attempt-id-required''
     else if length rf \<noteq> 6 then Inl ''invalid-registry-row''
     else bindr (validate_attempt_metadata False (jmeta (row_meta rf))) (\<lambda>_.
       if map_of (row_meta rf) ''attempt_id'' \<noteq> Some attempt_id then Inl ''attempt-row-identity-mismatch''
       else case find_row (attempt_row attempt_id) 0 lines of
         Some (index, fs) \<Rightarrow> claim_existing_row preclaim launch rf lines index fs
       | None \<Rightarrow> claim_new_row preclaim policy launch rf lines))"

definition drop_empty :: "meta \<Rightarrow> meta" where
  \<comment> \<open>\<open>{key: value for key, value in evidence.items() if value not in (None, "")}\<close>\<close>
  "drop_empty e = filter (\<lambda>(k, v). v \<noteq> []) e"

definition close_attempt_row :: "string \<Rightarrow> string \<Rightarrow> meta \<Rightarrow> string list \<Rightarrow> string + (bool \<times> string list)" where
  "close_attempt_row attempt_id note evidence lines =
    (if attempt_id = [] \<or> note = [] then Inl ''attempt-close-invalid''
     else case find_row (open_attempt_row attempt_id) 0 lines of
       None \<Rightarrow> Inr (False, lines)
     | Some (index, fs) \<Rightarrow>
        bindr (validate_attempt_metadata False (jmeta (row_meta fs))) (\<lambda>_.
          if mget (row_meta fs) ''teardown_claim'' [] \<noteq> [] then Inr (False, lines)
          else case updated_attempt_metadata True (fs ! 5)
                      (dict_update [(''note'', note)] (drop_empty evidence)) of
            Inl _ \<Rightarrow> Inr (False, lines)
          | Inr pipe \<Rightarrow> Inr (True, store_row lines index (fs[1 := ''done'', 5 := pipe]))))"

definition attempt_launch_state :: "string \<Rightarrow> bool \<Rightarrow> string \<Rightarrow> string list option \<Rightarrow> string" where
  \<comment> \<open>\<open>None\<close>: the registry could not be read\<close>
  "attempt_launch_state attempt_id claimed action registry =
    (if action = ''dry-run'' then ''preview''
     else if claimed then ''claimed''
     else case registry of
       None \<Rightarrow> ''existing-unknown''
     | Some lines \<Rightarrow>
        (let states = map (\<lambda>(i, fs). fs ! 1) (all_rows (attempt_row attempt_id) 0 lines) in
         if list_ex open_status states then ''existing-active''
         else if states \<noteq> [] then ''existing-completed''
         else ''existing-unknown''))"

definition terminal_authority :: "string \<Rightarrow> string \<Rightarrow> nat" where
  "terminal_authority source detected =
    (if source = ''supervisor-terminal-v1'' then 30
     else if source = ''completion-join-terminal-verdict-v1'' then 20
     else if detected = ''foreground-terminal-handoff'' then 10
     else 0)"

definition semantic_classes :: "string list" where
  "semantic_classes = [''pass'', ''fail'', ''blocked'']"

definition reconcile_closed_row ::
  "string \<Rightarrow> meta \<Rightarrow> string list \<Rightarrow> nat \<Rightarrow> string list \<Rightarrow> string + (string \<times> string list)" where
  "reconcile_closed_row note incoming lines index fs =
    (let md = row_meta fs;
         prior_class = mget md ''failure_class'' []; next_class = mget incoming ''failure_class'' [];
         prior_rank = terminal_authority (mget md ''classifier_source'' []) (mget md ''detected_by'' []);
         next_rank = terminal_authority (mget incoming ''classifier_source'' []) (mget incoming ''detected_by'' []);
         conflict = [(''terminal_conflict'', ''1''), (''prior_terminal_note'', mget md ''note'' []),
                     (''prior_classifier_source'', mget md ''classifier_source'' []),
                     (''prior_failure_class'', prior_class)]
     in if prior_class = [] \<or> next_class = [] \<or> prior_class = next_class then Inr (''already-terminal'', lines)
        else if prior_rank < next_rank \<and> next_class \<in> set semantic_classes
        then bindr (updated_attempt_metadata True (fs ! 5)
                     (dict_update conflict (dict_update [(''note'', note)] incoming))) (\<lambda>pipe.
               Inr (''repaired-terminal'', store_row lines index (fs[5 := pipe])))
        else if next_rank = prior_rank \<and> prior_class \<in> set semantic_classes \<and> next_class \<in> set semantic_classes
        then bindr (updated_attempt_metadata True (fs ! 5)
                     (dict_update conflict
                       [(''note'', ''dead-terminal-conflict''), (''failure_class'', ''contract''),
                        (''conflicting_classifier_source'', mget incoming ''classifier_source'' []),
                        (''conflicting_failure_class'', next_class)])) (\<lambda>pipe.
               Inr (''terminal-conflict'', store_row lines index (fs[5 := pipe])))
        else Inr (''already-terminal'', lines))"

definition closed_status :: "string \<Rightarrow> bool" where
  "closed_status s \<longleftrightarrow> s = ''done'' \<or> s = ''killed'' \<or> s = ''cancelled''"

definition reconcile_attempt_terminal ::
  "string \<Rightarrow> string \<Rightarrow> meta \<Rightarrow> string list \<Rightarrow> string + (string \<times> string list)" where
  "reconcile_attempt_terminal attempt_id note evidence lines =
    (if attempt_id = [] \<or> note = [] then Inl ''attempt-terminal-reconcile-invalid''
     else case all_rows (attempt_row attempt_id) 0 lines of
       [(index, fs)] \<Rightarrow>
         bindr (validate_attempt_metadata False (jmeta (row_meta fs))) (\<lambda>_.
           if closed_status (fs ! 1) then reconcile_closed_row note evidence lines index fs
           else if \<not> open_status (fs ! 1) then Inl ''attempt-terminal-status-invalid''
           else if mget (row_meta fs) ''teardown_claim'' [] \<noteq> [] then Inl ''attempt-terminal-teardown-claimed''
           else bindr (updated_attempt_metadata True (fs ! 5)
                  (dict_update [(''note'', note)] (drop_empty evidence))) (\<lambda>pipe.
             Inr (''closed'', store_row lines index (fs[1 := ''done'', 5 := pipe]))))
     | _ \<Rightarrow> Inl ''attempt-terminal-row-not-unique'')"

definition teardown_reset :: "string \<Rightarrow> meta" where
  "teardown_reset teardown =
    (if teardown \<noteq> [] then [(''teardown_claim'', []), (''teardown_claimed_at'', []),
       (''teardown_claim_pid'', []), (''teardown_claim_pid_start'', [])] else [])"

text \<open>The predicate may reject a row, in which case the loop goes on to the next match.\<close>

fun close_if_loop ::
  "string \<Rightarrow> string \<Rightarrow> (string list \<Rightarrow> bool) \<Rightarrow> meta \<Rightarrow> string \<Rightarrow> string list \<Rightarrow> (nat \<times> string list) list
   \<Rightarrow> string + (bool \<times> string list)" where
  "close_if_loop attempt_id note prd evidence teardown lines [] = Inr (False, lines)"
| "close_if_loop attempt_id note prd evidence teardown lines ((index, fs) # rest) =
    bindr (validate_attempt_metadata False (jmeta (row_meta fs))) (\<lambda>_.
      let recorded = mget (row_meta fs) ''teardown_claim'' [] in
      if recorded \<noteq> [] \<and> (teardown = [] \<or> recorded \<noteq> teardown) then Inr (False, lines)
      else if recorded = [] \<and> teardown \<noteq> [] then Inr (False, lines)
      else if \<not> prd fs then close_if_loop attempt_id note prd evidence teardown lines rest
      else case updated_attempt_metadata True (fs ! 5)
              (dict_update (dict_update [(''note'', note)]
                 (teardown_reset teardown))
                 (drop_empty evidence)) of
          Inl _ \<Rightarrow> Inr (False, lines)
        | Inr pipe \<Rightarrow> Inr (True, store_row lines index (fs[1 := ''done'', 5 := pipe])))"

definition close_attempt_row_if ::
  "string \<Rightarrow> string \<Rightarrow> (string list \<Rightarrow> bool) \<Rightarrow> meta \<Rightarrow> string \<Rightarrow> string list \<Rightarrow> string + (bool \<times> string list)" where
  "close_attempt_row_if attempt_id note prd evidence teardown lines =
    (if attempt_id = [] \<or> note = [] then Inl ''attempt-close-invalid''
     else close_if_loop attempt_id note prd evidence teardown lines
            (all_rows (open_attempt_row attempt_id) 0 lines))"

definition annotate_attempt_row :: "string \<Rightarrow> meta \<Rightarrow> string list \<Rightarrow> string + (bool \<times> string list)" where
  "annotate_attempt_row attempt_id vals lines =
    (case find_row (attempt_row attempt_id) 0 lines of
       None \<Rightarrow> Inr (False, lines)
     | Some (index, fs) \<Rightarrow>
         bindr (validate_attempt_metadata False (jmeta (row_meta fs))) (\<lambda>_.
         bindr (updated_attempt_metadata False (fs ! 5) vals) (\<lambda>pipe.
           Inr (True, store_row lines index (fs[5 := pipe])))))"

definition annotate_attempt_row_if ::
  "string \<Rightarrow> meta \<Rightarrow> (string list \<Rightarrow> bool) \<Rightarrow> string list \<Rightarrow> string + (bool \<times> string list)" where
  "annotate_attempt_row_if attempt_id vals prd lines =
    (if attempt_id = [] then Inl ''attempt-id-required''
     else case find_row (open_attempt_row attempt_id) 0 lines of
       None \<Rightarrow> Inr (False, lines)
     | Some (index, fs) \<Rightarrow>
         bindr (validate_attempt_metadata False (jmeta (row_meta fs))) (\<lambda>_.
         if \<not> prd fs then Inr (False, lines)
         else bindr (updated_attempt_metadata False (fs ! 5) vals) (\<lambda>pipe.
           Inr (True, store_row lines index (fs[5 := pipe])))))"

text \<open>\<open>reconcile_local_registry\<close>: the accepted local rows, in order, and the two counters.\<close>

fun local_additions ::
  "string \<Rightarrow> string list \<Rightarrow> string list list \<Rightarrow> string list \<times> nat \<times> nat" where
  "local_additions origin [] identities = ([], 0, 0)"
| "local_additions origin (line # lines) identities =
    (let fs = row_fields line in
     case row_identity fs of
       None \<Rightarrow> (let (add, n, m) = local_additions origin lines identities in (add, n, Suc m))
     | Some identity \<Rightarrow>
        if \<not> valid_row_metadata (row_meta fs)
        then (let (add, n, m) = local_additions origin lines identities in (add, n, Suc m))
        else if identity \<in> set identities then local_additions origin lines identities
        else (let (add, n, m) = local_additions origin lines (identity # identities)
              in (join [tab] (fs[5 := (fs ! 5) @ '','' @ kv_part ''reconciled_from'' origin]) # add, Suc n, m)))"

definition reconcile_local_registry ::
  "string \<Rightarrow> string list option \<Rightarrow> string list \<Rightarrow> (nat \<times> nat) \<times> string list" where
  \<comment> \<open>\<open>None\<close>: the local registry is not a file\<close>
  "reconcile_local_registry origin local_jobs global_lines =
    (case local_jobs of
       None \<Rightarrow> ((0, 0), global_lines)
     | Some local_lines \<Rightarrow>
        (let (additions, reconciled, malformed) =
           local_additions origin local_lines (List.map_filter (\<lambda>l. row_identity (row_fields l)) global_lines)
         in ((reconciled, malformed), global_lines @ additions)))"


section \<open>Row search laws\<close>

lemma find_row_shift: "find_row P (i + k) lines = map_option (\<lambda>(j, fs). (j + k, fs)) (find_row P i lines)"
  by (induction lines arbitrary: i) (auto simp flip: add_Suc)

lemma find_row_Suc0: "find_row P (Suc 0) lines = map_option (\<lambda>(j, fs). (Suc j, fs)) (find_row P 0 lines)"
  using find_row_shift [of P 0 1 lines] by (simp add: case_prod_unfold)

lemma find_row_None: "find_row P i lines = None \<longleftrightarrow> (\<forall>line \<in> set lines. \<not> P (row_fields line))"
  by (induction lines arbitrary: i) auto

lemma find_row_Some:
  "find_row P 0 lines = Some (j, fs) \<longleftrightarrow>
   j < length lines \<and> fs = row_fields (lines ! j) \<and> P fs \<and> (\<forall>m < j. \<not> P (row_fields (lines ! m)))"
proof (induction lines arbitrary: j)
  case (Cons line lines)
  show ?case
  proof (cases "P (row_fields line)")
    case True
    then show ?thesis by (auto simp: nth_Cons' split: if_splits)
  next
    case False
    then show ?thesis
      by (cases j) (auto simp: find_row_Suc0 Cons.IH All_less_Suc2)
  qed
qed simp

definition tab_free :: "string list \<Rightarrow> bool" where
  "tab_free fs \<longleftrightarrow> (\<forall>f \<in> set fs. tab \<notin> set f)"

lemma row_fields_join: "fs \<noteq> [] \<Longrightarrow> tab_free fs \<Longrightarrow> row_fields (join [tab] fs) = fs"
  by (simp add: row_fields_def split_on_join tab_free_def)

lemma row_fields_tab_free [simp]: "tab_free (row_fields line)"
  by (auto simp: tab_free_def row_fields_def dest: split_on_no_sep)

lemma tab_free_update: "tab_free fs \<Longrightarrow> tab \<notin> set f \<Longrightarrow> tab_free (fs[i := f])"
  by (auto simp: tab_free_def dest: set_update_subset_insert [THEN subsetD])

lemma length_store_row [simp]: "length (store_row lines i fs) = length lines"
  by (simp add: store_row_def)

lemma row_fields_store:
  "fs \<noteq> [] \<Longrightarrow> tab_free fs \<Longrightarrow> i < length lines \<Longrightarrow>
   row_fields (store_row lines i fs ! j) = (if j = i then fs else row_fields (lines ! j))"
  by (auto simp: store_row_def nth_list_update row_fields_join)

lemma all_rows_set: "set (map snd (all_rows P i lines)) = {fs. \<exists>line \<in> set lines. fs = row_fields line \<and> P fs}"
  by (induction lines arbitrary: i) auto

lemma all_rows_mem:
  "(j, fs) \<in> set (all_rows P i lines) \<Longrightarrow> i \<le> j \<and> j < i + length lines \<and> fs = row_fields (lines ! (j - i)) \<and> P fs"
  by (induction lines arbitrary: i)
     (auto split: if_splits simp: Suc_diff_le, (force simp: Suc_diff_le nth_Cons')+)

section \<open>The contract of the registry\<close>

text \<open>
  What an operation may do to one row: repository, worktree, slug and time stay, an open
  row may become \<open>done\<close> and a closed row keeps its status, metadata keys that are neither
  mutable nor terminal evidence keep their values, and a claimed launch stays claimed.
\<close>

definition claimed_row :: "string list \<Rightarrow> bool" where
  "claimed_row fs \<longleftrightarrow> map_of (row_meta fs) ''launch_claimed'' = Some ''1''"

definition fixed_key :: "string \<Rightarrow> bool" where
  "fixed_key k \<longleftrightarrow> k \<notin> set ATTEMPT_MUTABLE_METADATA \<and> k \<notin> set ATTEMPT_TERMINAL_EVIDENCE_KEYS"

definition row_rewrite :: "string list \<Rightarrow> string list \<Rightarrow> bool" where
  "row_rewrite fs gs \<longleftrightarrow> length fs = 6 \<and> length gs = 6 \<and> tab_free gs \<and>
     gs ! 0 = fs ! 0 \<and> gs ! 2 = fs ! 2 \<and> gs ! 3 = fs ! 3 \<and> gs ! 4 = fs ! 4 \<and>
     (gs ! 1 = fs ! 1 \<or> open_status (fs ! 1) \<and> gs ! 1 = ''done'') \<and>
     (\<forall>k. fixed_key k \<longrightarrow> map_of (row_meta gs) k = map_of (row_meta fs) k) \<and>
     (claimed_row fs \<longrightarrow> claimed_row gs)"

inductive registry_step :: "string list \<Rightarrow> string list \<Rightarrow> bool" where
  keep: "registry_step lines lines"
| append: "attempt_row a fs \<Longrightarrow> tab_free fs \<Longrightarrow> find_row (attempt_row a) 0 lines = None \<Longrightarrow>
     registry_step lines (lines @ [join [tab] fs])"
| rewrite: "i < length lines \<Longrightarrow> row_rewrite (row_fields (lines ! i)) gs \<Longrightarrow>
     registry_step lines (store_row lines i gs)"

inductive_cases registry_step_cases: "registry_step lines lines'"

lemma fixed_key_attempt_id: "fixed_key ''attempt_id''"
  by (simp add: fixed_key_def ATTEMPT_MUTABLE_METADATA_def ATTEMPT_TERMINAL_EVIDENCE_KEYS_def)

lemma row_rewrite_attempt: "row_rewrite fs gs \<Longrightarrow> attempt_row a gs \<longleftrightarrow> attempt_row a fs"
  using fixed_key_attempt_id by (auto simp: row_rewrite_def attempt_row_def row_has_attempt_def row_meta_def)

lemma attempt_row_unique: "attempt_row a fs \<Longrightarrow> attempt_row b fs \<Longrightarrow> a = b"
  by (simp add: attempt_row_def row_has_attempt_def)


lemma find_row_rewrite:
  assumes "i < length lines" "row_rewrite (row_fields (lines ! i)) gs"
  shows "find_row (attempt_row a) 0 (store_row lines i gs) =
    map_option (\<lambda>(j, fs). (j, if j = i then gs else fs)) (find_row (attempt_row a) 0 lines)"
proof -
  have gs: "gs \<noteq> []" "tab_free gs" using assms(2) by (auto simp: row_rewrite_def)
  have att: "attempt_row a (row_fields (store_row lines i gs ! j)) \<longleftrightarrow> attempt_row a (row_fields (lines ! j))" for j
    using row_rewrite_attempt [OF assms(2)] by (simp add: row_fields_store [OF gs assms(1)])
  show ?thesis
  proof (cases "find_row (attempt_row a) 0 lines")
    case None
    then have "\<forall>j < length lines. \<not> attempt_row a (row_fields (lines ! j))"
      by (auto simp: find_row_None)
    then have "find_row (attempt_row a) 0 (store_row lines i gs) = None"
      by (auto simp: find_row_None in_set_conv_nth att)
    with None show ?thesis by simp
  next
    case (Some p)
    obtain j fs where p: "p = (j, fs)" by (cases p)
    with Some have "j < length lines" "fs = row_fields (lines ! j)" "attempt_row a fs"
      "\<forall>m < j. \<not> attempt_row a (row_fields (lines ! m))"
      by (auto simp: find_row_Some)
    then have "find_row (attempt_row a) 0 (store_row lines i gs) = Some (j, if j = i then gs else fs)"
      using att row_rewrite_attempt [OF assms(2), of a]
      by (auto simp: find_row_Some row_fields_store [OF gs assms(1)])
    with Some p show ?thesis by simp
  qed
qed

lemma find_row_append_gen:
  "find_row P i (lines @ [line]) = (case find_row P i lines of
     None \<Rightarrow> if P (row_fields line) then Some (i + length lines, row_fields line) else None
   | Some r \<Rightarrow> Some r)"
  by (induction lines arbitrary: i) (auto split: option.splits)

lemmas find_row_append = find_row_append_gen [of _ 0, simplified]

text \<open>At most one row per attempt id: the invariant \<open>reconcile\<close> and the launch gates need.\<close>

definition unique_attempts :: "string list \<Rightarrow> bool" where
  "unique_attempts lines \<longleftrightarrow> (\<forall>a i j. i < length lines \<longrightarrow> j < length lines \<longrightarrow>
     attempt_row a (row_fields (lines ! i)) \<longrightarrow> attempt_row a (row_fields (lines ! j)) \<longrightarrow> i = j)"

definition launch_claimed :: "string list \<Rightarrow> string \<Rightarrow> bool" where
  "launch_claimed lines a \<longleftrightarrow>
     (case find_row (attempt_row a) 0 lines of None \<Rightarrow> False | Some (i, fs) \<Rightarrow> claimed_row fs)"

lemma registry_step_unique: "registry_step lines lines' \<Longrightarrow> unique_attempts lines \<Longrightarrow> unique_attempts lines'"
proof (induction rule: registry_step.induct)
  case (append a fs lines)
  then have fs: "fs \<noteq> []" by (auto simp: attempt_row_def)
  have old: "\<not> attempt_row b (row_fields (lines ! i))"
    if "attempt_row b fs" "i < length lines" for b i
    using that append attempt_row_unique by (metis find_row_None nth_mem)
  with append show ?case
    unfolding unique_attempts_def
    by (auto simp: nth_append less_Suc_eq row_fields_join [OF fs append(2)] split: if_splits)
next
  case (rewrite i lines gs)
  then have gs: "gs \<noteq> []" "tab_free gs" by (auto simp: row_rewrite_def)
  have "attempt_row a (row_fields (store_row lines i gs ! j)) \<longleftrightarrow> attempt_row a (row_fields (lines ! j))" for a j
    using row_rewrite_attempt [OF rewrite(2)] by (simp add: row_fields_store [OF gs rewrite(1)])
  with rewrite show ?case by (simp add: unique_attempts_def)
qed simp

lemma registry_step_claimed: "registry_step lines lines' \<Longrightarrow> launch_claimed lines a \<Longrightarrow> launch_claimed lines' a"
proof (induction rule: registry_step.induct)
  case (append b fs lines)
  then show ?case by (auto simp: launch_claimed_def find_row_append split: option.splits)
next
  case (rewrite i lines gs)
  then obtain j fs where row: "find_row (attempt_row a) 0 lines = Some (j, fs)" and "claimed_row fs"
    by (auto simp: launch_claimed_def split: option.splits)
  moreover from row have "fs = row_fields (lines ! j)" by (simp add: find_row_Some)
  ultimately show ?case
    using rewrite by (auto simp: launch_claimed_def find_row_rewrite row_rewrite_def)
qed simp

text \<open>Terminal rows are absorbing: a closed status never reopens or changes.\<close>

lemma registry_step_closed:
  "registry_step lines lines' \<Longrightarrow> i < length lines \<Longrightarrow> length (row_fields (lines ! i)) = 6 \<Longrightarrow>
   closed_status (row_fields (lines ! i) ! 1) \<Longrightarrow>
   i < length lines' \<and> row_fields (lines' ! i) ! 1 = row_fields (lines ! i) ! 1"
proof (induction rule: registry_step.induct)
  case (append b fs lines)
  then show ?case by (simp add: nth_append)
next
  case (rewrite j lines gs)
  then have gs: "gs \<noteq> []" "tab_free gs" by (auto simp: row_rewrite_def)
  from rewrite show ?case
    by (auto simp: row_fields_store [OF gs rewrite(1)] row_rewrite_def closed_status_def open_status_def)
qed simp


section \<open>Every operation meets the contract\<close>

lemma join_char_free: "c \<notin> set sep \<Longrightarrow> \<forall>p \<in> set ps. c \<notin> set p \<Longrightarrow> c \<notin> set (join sep ps)"
  using set_join [of sep ps] by auto

lemma set_pipe_parts: "p \<in> set (pipe_parts pipe) \<Longrightarrow> set p \<subseteq> set pipe"
proof -
  have "x \<in> set (split_on c s) \<Longrightarrow> set x \<subseteq> set s" for x c s
    by (induction s arbitrary: x) (auto split: if_splits list.splits, (metis list.set_intros subsetD)+)
  then show "p \<in> set (pipe_parts pipe) \<Longrightarrow> set p \<subseteq> set pipe" by (simp add: pipe_parts_def)
qed

text \<open>Metadata handed to a writer: no tab in a key or value, and the launch claim is not withdrawn.\<close>

definition plain_values :: "meta \<Rightarrow> bool" where
  "plain_values vals \<longleftrightarrow> (\<forall>(k, v) \<in> set vals. tab \<notin> set k \<and> tab \<notin> set v \<and> k \<noteq> ''launch_claimed'')"

lemma set_alist_update: "set (AList.update k v d) \<subseteq> insert (k, v) (set d)"
  by (induction d) auto

lemma accepted_values_subset:
  "accepted_values terminal md vals rep = Inr rep' \<Longrightarrow>
   set rep' \<subseteq> set rep \<union> (\<lambda>(k, v). (k, semicolons v)) ` set vals"
proof (induction terminal md vals rep rule: accepted_values.induct)
  case (2 terminal md key raw rest rep)
  have "set rep' \<subseteq> set rep \<union> (\<lambda>(k, v). (k, semicolons v)) ` set rest \<or>
    set rep' \<subseteq> set (AList.update key (semicolons raw) rep) \<union> (\<lambda>(k, v). (k, semicolons v)) ` set rest"
    using 2 by (auto simp only: Let_def accepted_values.simps sum.simps split: if_splits)
  then show ?case using set_alist_update [of key "semicolons raw" rep] by auto
qed simp

lemma accepted_values_plain:
  assumes "accepted_values terminal md vals [] = Inr rep" "plain_values vals" "(k, v) \<in> set rep"
  shows "tab \<notin> set k \<and> tab \<notin> set v \<and> k \<noteq> ''launch_claimed''"
proof -
  have semi: "tab \<in> set (semicolons w) \<longleftrightarrow> tab \<in> set w" for w
    by (auto simp: semicolons_def)
  from accepted_values_subset [OF assms(1)] assms(3)
  obtain w where "(k, w) \<in> set vals" "v = semicolons w" by auto
  with assms(2) show ?thesis by (auto simp: plain_values_def semi)
qed

lemma updated_pipe_tab_free:
  assumes "updated_attempt_metadata terminal pipe vals = Inr pipe'" "plain_values vals" "tab \<notin> set pipe"
  shows "tab \<notin> set pipe'"
proof -
  from assms(1) obtain rep where
    acc: "accepted_values terminal (parse_registry_metadata pipe) vals [] = Inr rep"
    and pipe': "pipe' = join '','' (filter (\<lambda>p. part_key p \<notin> fst ` set rep) (filter has_eq (pipe_parts pipe))
              @ map (\<lambda>(k, v). kv_part k v) (sort rep))"
    by (auto simp: updated_attempt_metadata_def Let_def bindr_Inr_iff split: if_splits)
  have old: "tab \<notin> set p" if "p \<in> set (pipe_parts pipe)" for p
    using set_pipe_parts [OF that] assms(3) by blast
  have new: "tab \<notin> set (kv_part k v)" if "(k, v) \<in> set rep" for k v
    using accepted_values_plain [OF acc assms(2) that] by (simp add: kv_part_def)
  show ?thesis
    unfolding pipe'
  proof (rule join_char_free, simp, rule ballI)
    fix p
    assume "p \<in> set (filter (\<lambda>p. part_key p \<notin> fst ` set rep) (filter has_eq (pipe_parts pipe))
              @ map (\<lambda>(k, v). kv_part k v) (sort rep))"
    then consider "p \<in> set (pipe_parts pipe)" | k v where "(k, v) \<in> set rep" "p = kv_part k v"
      unfolding set_append set_map set_sort set_filter by auto
    then show "tab \<notin> set p" by cases (simp_all only: old new not_False_eq_True)
  qed
qed

text \<open>Rewriting one row's metadata, with or without closing it, is a contract step.\<close>

lemma rewrite_row:
  assumes row: "length fs = 6" "tab_free fs"
    and upd: "updated_attempt_metadata terminal (fs ! 5) vals = Inr pipe" and plain: "plain_values vals"
  shows "row_rewrite fs (fs[5 := pipe])"
    and "open_status (fs ! 1) \<Longrightarrow> row_rewrite fs (fs[1 := ''done'', 5 := pipe])"
proof -
  have "tab \<notin> set (fs ! 5)" using row by (simp add: tab_free_def)
  then have pipe: "tab \<notin> set pipe" by (rule updated_pipe_tab_free [OF upd plain])
  have keys: "map_of (parse_registry_metadata pipe) k = map_of (parse_registry_metadata (fs ! 5)) k"
    if "fixed_key k" for k
    using that by (intro updated_attempt_metadata_frame [OF upd]) (simp add: fixed_key_def)
  have "map_of (parse_registry_metadata pipe) ''launch_claimed'' =
        map_of (parse_registry_metadata (fs ! 5)) ''launch_claimed''"
    using plain by (intro updated_attempt_metadata_frame [OF upd]) (auto simp: plain_values_def)
  with keys show "row_rewrite fs (fs[5 := pipe])"
    using row pipe by (simp add: row_rewrite_def row_meta_def claimed_row_def tab_free_update)
  show "row_rewrite fs (fs[1 := ''done'', 5 := pipe])" if "open_status (fs ! 1)"
    using that row pipe keys \<open>map_of (parse_registry_metadata pipe) ''launch_claimed'' = _\<close>
    by (simp add: row_rewrite_def row_meta_def claimed_row_def tab_free_update)
qed

lemma find_row_row:
  assumes "find_row P 0 lines = Some (i, fs)"
  shows "i < length lines" "fs = row_fields (lines ! i)" "P fs" "tab_free fs"
  using assms by (auto simp: find_row_Some)

lemma plain_values_dict_update [simp]:
  "plain_values d \<Longrightarrow> plain_values e \<Longrightarrow> plain_values (dict_update d e)"
proof (induction e arbitrary: d)
  case (Cons kv e)
  obtain k v where kv: "kv = (k, v)" by (cases kv)
  have "plain_values (AList.update k v d)"
    unfolding plain_values_def
  proof
    fix x assume "x \<in> set (AList.update k v d)"
    with set_alist_update [of k v d] have "x = (k, v) \<or> x \<in> set d" by blast
    with Cons.prems kv show "case x of (k, v) \<Rightarrow> tab \<notin> set k \<and> tab \<notin> set v \<and> k \<noteq> ''launch_claimed''"
      by (auto simp: plain_values_def)
  qed
  moreover from Cons.prems have "plain_values e" by (auto simp: plain_values_def)
  ultimately have "plain_values (dict_update (AList.update k v d) e)" by (rule Cons.IH)
  then show ?case by (simp add: kv)
qed simp

lemma plain_values_drop_empty [simp]: "plain_values e \<Longrightarrow> plain_values (drop_empty e)"
  by (auto simp: plain_values_def drop_empty_def)

lemma plain_values_Cons [simp]:
  "plain_values ((k, v) # e) \<longleftrightarrow> tab \<notin> set k \<and> tab \<notin> set v \<and> k \<noteq> ''launch_claimed'' \<and> plain_values e"
  "plain_values []"
  by (auto simp: plain_values_def)


lemma step_rewrite:
  "find_row P 0 lines = Some (i, fs) \<Longrightarrow> row_rewrite fs gs \<Longrightarrow> registry_step lines (store_row lines i gs)"
  by (rule registry_step.rewrite) (auto simp: find_row_Some)

lemma step_rewrite_all:
  assumes "(i, fs) \<in> set (all_rows P 0 lines)" "row_rewrite fs gs"
  shows "registry_step lines (store_row lines i gs)"
  using all_rows_mem [OF assms(1)] assms(2) by (auto intro: registry_step.rewrite)

lemma all_rows_row:
  assumes "(i, fs) \<in> set (all_rows P 0 lines)"
  shows "P fs" "tab_free fs"
  using all_rows_mem [OF assms] by auto

lemma attempt_row_length: "attempt_row a fs \<Longrightarrow> length fs = 6"
  by (simp add: attempt_row_def)

lemma open_attempt_rowD: "open_attempt_row a fs \<Longrightarrow> length fs = 6" "open_attempt_row a fs \<Longrightarrow> open_status (fs ! 1)"
  by (simp_all add: open_attempt_row_def attempt_row_def)

lemma close_attempt_row_step:
  assumes "close_attempt_row a note ev lines = Inr (r, lines')" "tab \<notin> set note" "plain_values ev"
  shows "registry_step lines lines'"
proof (cases "find_row (open_attempt_row a) 0 lines")
  case None
  with assms show ?thesis by (auto simp: close_attempt_row_def registry_step.keep split: if_splits)
next
  case (Some p)
  obtain i fs where p: "p = (i, fs)" by (cases p)
  note row = find_row_row [OF Some [unfolded p]]
  show ?thesis
  proof (cases "lines' = lines")
    case False
    with assms(1) Some p obtain pipe where
      upd: "updated_attempt_metadata True (fs ! 5) (dict_update [(''note'', note)] (drop_empty ev)) = Inr pipe"
      and lines': "lines' = store_row lines i (fs[1 := ''done'', 5 := pipe])"
      by (auto simp: close_attempt_row_def bindr_Inr_iff split: if_splits sum.splits)
    have "row_rewrite fs (fs[1 := ''done'', 5 := pipe])"
      using rewrite_row(2) [OF _ row(4) upd] open_attempt_rowD [OF row(3)] assms(2,3) by simp
    then show ?thesis unfolding lines' by (rule step_rewrite [OF Some [unfolded p]])
  qed (simp add: registry_step.keep)
qed

lemma annotate_attempt_row_step:
  assumes "annotate_attempt_row a vals lines = Inr (r, lines')" "plain_values vals"
  shows "registry_step lines lines'"
proof (cases "find_row (attempt_row a) 0 lines")
  case None
  with assms show ?thesis by (auto simp: annotate_attempt_row_def registry_step.keep)
next
  case (Some p)
  obtain i fs where p: "p = (i, fs)" by (cases p)
  note row = find_row_row [OF Some [unfolded p]]
  from assms(1) Some p obtain pipe where
    upd: "updated_attempt_metadata False (fs ! 5) vals = Inr pipe"
    and lines': "lines' = store_row lines i (fs[5 := pipe])"
    by (auto simp: annotate_attempt_row_def bindr_Inr_iff)
  show ?thesis unfolding lines'
    by (rule step_rewrite [OF Some [unfolded p] rewrite_row(1) [OF attempt_row_length [OF row(3)] row(4) upd assms(2)]])
qed

lemma annotate_attempt_row_if_step:
  assumes "annotate_attempt_row_if a vals prd lines = Inr (r, lines')" "plain_values vals"
  shows "registry_step lines lines'"
proof (cases "find_row (open_attempt_row a) 0 lines")
  case None
  with assms show ?thesis by (auto simp: annotate_attempt_row_if_def registry_step.keep split: if_splits)
next
  case (Some p)
  obtain i fs where p: "p = (i, fs)" by (cases p)
  note row = find_row_row [OF Some [unfolded p]]
  show ?thesis
  proof (cases "lines' = lines")
    case False
    with assms(1) Some p obtain pipe where
      upd: "updated_attempt_metadata False (fs ! 5) vals = Inr pipe"
      and lines': "lines' = store_row lines i (fs[5 := pipe])"
      by (auto simp: annotate_attempt_row_if_def bindr_Inr_iff split: if_splits)
    show ?thesis unfolding lines'
      by (rule step_rewrite [OF Some [unfolded p] rewrite_row(1) [OF open_attempt_rowD(1) [OF row(3)] row(4) upd assms(2)]])
  qed (simp add: registry_step.keep)
qed

lemma close_if_loop_step:
  assumes "close_if_loop a nt prd ev teardown lines rows = Inr (r, lines')"
    and "tab \<notin> set nt" "plain_values ev"
    and "set rows \<subseteq> set (all_rows (open_attempt_row a) 0 lines)"
  shows "registry_step lines lines'"
  using assms
proof (induction a nt prd ev teardown lines rows rule: close_if_loop.induct)
  case (2 a nt prd ev teardown lines i fs rest)
  then have mem: "(i, fs) \<in> set (all_rows (open_attempt_row a) 0 lines)" by simp
  note row = all_rows_row [OF mem]
  show ?case
  proof (cases "prd fs \<and> lines' \<noteq> lines")
    case True
    then obtain pipe where
      upd: "updated_attempt_metadata True (fs ! 5)
         (dict_update (dict_update [(''note'', nt)] (teardown_reset teardown)) (drop_empty ev)) = Inr pipe"
      and lines': "lines' = store_row lines i (fs[1 := ''done'', 5 := pipe])"
      using "2.prems"(1) by (auto simp: bindr_Inr_iff Let_def split: if_splits sum.splits)
    have "plain_values (teardown_reset teardown)" by (simp add: teardown_reset_def)
    then have "row_rewrite fs (fs[1 := ''done'', 5 := pipe])"
      using rewrite_row(2) [OF _ row(2) upd] open_attempt_rowD [OF row(1)] "2.prems"(2,3) by simp
    then show ?thesis unfolding lines' by (rule step_rewrite_all [OF mem])
  next
    case False
    with "2.prems" "2.IH" show ?thesis
      by (auto simp: bindr_Inr_iff Let_def registry_step.keep split: if_splits)
  qed
qed (simp add: registry_step.keep)

lemma close_attempt_row_if_step:
  "close_attempt_row_if a note prd ev teardown lines = Inr (r, lines') \<Longrightarrow> tab \<notin> set note \<Longrightarrow>
   plain_values ev \<Longrightarrow> registry_step lines lines'"
  by (auto simp: close_attempt_row_if_def split: if_splits intro: close_if_loop_step)


lemma reconcile_attempt_terminal_step:
  assumes "reconcile_attempt_terminal a nt ev lines = Inr (r, lines')" "tab \<notin> set nt" "plain_values ev"
  shows "registry_step lines lines'"
proof (cases "lines' = lines")
  case False
  with assms(1) obtain i fs where rows: "all_rows (attempt_row a) 0 lines = [(i, fs)]"
    by (auto simp: reconcile_attempt_terminal_def split: if_splits list.splits)
  then have mem: "(i, fs) \<in> set (all_rows (attempt_row a) 0 lines)" by simp
  note row = all_rows_row [OF mem]
  have len: "length fs = 6" by (rule attempt_row_length [OF row(1)])
  have plain_md: "tab \<notin> set (mget (row_meta fs) k [])" for k
  proof (cases "map_of (row_meta fs) k")
    case (Some v)
    then have "(k, v) \<in> set (map part_kv (filter has_eq (pipe_parts (fs ! 5))))"
      by (auto simp: row_meta_def map_of_parse dest!: map_of_SomeD)
    then obtain p where "p \<in> set (pipe_parts (fs ! 5))" "v = tl (dropWhile (\<lambda>c. c \<noteq> CHR ''='') p)"
      by (auto simp: part_kv_def)
    moreover from this have "set v \<subseteq> set p"
      by (metis dropWhile_eq_drop drop_Suc set_drop_subset tl_drop)
    ultimately have "set v \<subseteq> set (fs ! 5)" using set_pipe_parts by blast
    moreover have "tab \<notin> set (fs ! 5)" using row(2) len by (simp add: tab_free_def)
    ultimately show ?thesis using Some by (auto simp: mget_def)
  qed (simp add: mget_def)
  have plain_ev: "tab \<notin> set (mget ev k [])" for k
    using assms(3) by (cases "map_of ev k") (auto simp: plain_values_def mget_def dest!: map_of_SomeD)
  consider (closed) pipe where "open_status (fs ! 1)"
      "updated_attempt_metadata True (fs ! 5) (dict_update [(''note'', nt)] (drop_empty ev)) = Inr pipe"
      "lines' = store_row lines i (fs[1 := ''done'', 5 := pipe])"
    | (amended) pipe vals where "plain_values vals"
      "updated_attempt_metadata True (fs ! 5) vals = Inr pipe" "lines' = store_row lines i (fs[5 := pipe])"
  proof (cases "closed_status (fs ! 1)")
    case True
    with assms(1) rows have "reconcile_closed_row nt ev lines i fs = Inr (r, lines')"
      by (auto simp: reconcile_attempt_terminal_def bindr_Inr_iff split: if_splits)
    then show thesis
      using False assms(2,3) plain_md plain_ev
      by (auto simp: reconcile_closed_row_def Let_def bindr_Inr_iff split: if_splits intro: amended [rotated])
  next
    case False
    with assms(1) rows show thesis
      by (auto simp: reconcile_attempt_terminal_def bindr_Inr_iff split: if_splits intro: closed)
  qed
  then show ?thesis
  proof cases
    case closed
    show ?thesis unfolding closed(3)
      by (rule step_rewrite_all [OF mem rewrite_row(2) [OF len row(2) closed(2) _ closed(1)]])
        (use assms(2,3) in simp)
  next
    case amended
    show ?thesis unfolding amended(3)
      by (rule step_rewrite_all [OF mem rewrite_row(1) [OF len row(2) amended(2,1)]])
  qed
qed (simp add: registry_step.keep)


text \<open>Claiming: the launch flag is set last, every other key keeps its value.\<close>

lemma claim_pipe_lookup:
  assumes "k \<noteq> ''launch_claimed''" and that: "CHR '','' \<notin> set v"
  shows "map_of (parse_registry_metadata
      (join '','' (filter (\<lambda>p. \<not> startswith ''launch_claimed='' p) (pipe_parts pipe)) @ '','' @ kv_part ''launch_claimed'' v)) k
    = map_of (parse_registry_metadata pipe) k" (is "map_of (parse_registry_metadata (join '','' ?ps @ _)) k = _")
proof -
  have free: "\<forall>p \<in> set ?ps. CHR '','' \<notin> set p"
    by (auto dest: pipe_parts_no_comma)
  have key: "part_key p = ''launch_claimed''" if pre: "startswith ''launch_claimed='' p" for p
  proof -
    obtain t where "p = ''launch_claimed='' @ t" using pre unfolding startswith_iff by blast
    then have "p = kv_part ''launch_claimed'' t" by (simp add: kv_part_def)
    then show ?thesis using part_key_kv [of "''launch_claimed''" t] by simp
  qed
  have "map_of (parse_registry_metadata (join '','' ?ps @ '','' @ kv_part ''launch_claimed'' v)) k
      = map_of (parse_registry_metadata (join '','' ?ps)) k"
    using parse_snoc [of "''launch_claimed''" v "join '','' ?ps"] that assms by simp
  also have "\<dots> = map_of (rev (map part_kv (filter has_eq ?ps))) k"
    by (simp only: parse_join [OF free])
  also have "filter has_eq ?ps = filter (\<lambda>p. \<not> startswith ''launch_claimed='' p) (filter has_eq (pipe_parts pipe))"
    by (simp add: conj_commute)
  also have "map_of (rev (map part_kv \<dots>)) k = map_of (rev (map part_kv (filter has_eq (pipe_parts pipe)))) k"
    by (rule map_of_rev_filter) (use assms key in auto)
  finally show ?thesis by (simp only: map_of_parse)
qed

lemma claim_pipe_flag:
  "CHR '','' \<notin> set v \<Longrightarrow>
   map_of (parse_registry_metadata (pipe @ '','' @ kv_part ''launch_claimed'' v)) ''launch_claimed'' = Some v"
  using parse_snoc [of "''launch_claimed''" v pipe] by simp

lemma launch_claimed_not_fixed: "fixed_key k \<Longrightarrow> k \<noteq> ''launch_claimed''"
  by (auto simp: fixed_key_def ATTEMPT_MUTABLE_METADATA_def)

lemma claim_existing_row_result:
  assumes "claim_existing_row preclaim launch rf lines i fs = Inr (r, lines')"
    and "length fs = 6" "tab_free fs"
  shows "(r = False \<and> lines' = lines) \<or>
    (r = True \<and> launch \<and> \<not> claimed_row fs \<and>
      (\<exists>gs. row_rewrite fs gs \<and> claimed_row gs \<and> lines' = store_row lines i gs))"
proof -
  let ?pipe = "join '','' (filter (\<lambda>p. \<not> startswith ''launch_claimed='' p) (pipe_parts (fs ! 5))) @ '','' @ kv_part ''launch_claimed'' ''1''"
  have "tab \<notin> set (fs ! 5)" using assms(2,3) by (simp add: tab_free_def)
  then have "\<forall>p \<in> set (filter (\<lambda>p. \<not> startswith ''launch_claimed='' p) (pipe_parts (fs ! 5))). tab \<notin> set p"
    using set_pipe_parts by auto
  then have tab: "tab \<notin> set ?pipe"
    using join_char_free [of tab "'',''"] by (simp add: kv_part_def)
  have "row_rewrite fs (fs[5 := ?pipe])"
    using assms(2,3) tab claim_pipe_lookup [OF launch_claimed_not_fixed, of _ "''1''" "fs ! 5"] claim_pipe_flag [of "''1''"]
    by (simp add: row_rewrite_def row_meta_def claimed_row_def tab_free_update)
  moreover have "claimed_row (fs[5 := ?pipe])"
    using assms(2) claim_pipe_flag [of "''1''"] by (simp add: claimed_row_def row_meta_def)
  ultimately show ?thesis
    using assms(1) by (auto simp: claim_existing_row_def bindr_Inr_iff claimed_row_def Let_def split: if_splits)
qed

lemma claim_new_row_result:
  assumes "claim_new_row preclaim policy launch rf lines = Inr (r, lines')"
  shows "(r = False \<and> lines' = lines) \<or>
    (r = True \<and> lines' = lines @ [join [tab] (rf[5 := (rf ! 5) @ '','' @
        kv_part ''launch_claimed'' (if launch then ''1'' else ''0'')])])"
  using assms by (auto simp: claim_new_row_def bindr_Inr_iff split: if_splits option.splits)


lemma claim_append:
  assumes len: "length rf = 6" and id: "map_of (row_meta rf) ''attempt_id'' = Some a" and free: "tab_free rf"
    and none: "find_row (attempt_row a) 0 lines = None" and v: "CHR '','' \<notin> set v" "tab \<notin> set v"
    and gs: "gs = rf[5 := (rf ! 5) @ '','' @ kv_part ''launch_claimed'' v]"
  shows "registry_step lines (lines @ [join [tab] gs])"
    and "find_row (attempt_row a) 0 (lines @ [join [tab] gs]) = Some (length lines, gs)"
    and "claimed_row gs \<longleftrightarrow> v = ''1''"
proof -
  have "rf ! 5 \<in> set rf" using len by simp
  then have "tab \<notin> set (rf ! 5)" using free unfolding tab_free_def by blast
  then have free': "tab_free gs"
    unfolding gs using free v by (intro tab_free_update) (simp_all add: kv_part_def)
  have att: "attempt_row a gs"
    using len id parse_snoc [of "''launch_claimed''" v "rf ! 5"] v
    by (simp add: gs attempt_row_def row_has_attempt_def row_meta_def)
  have "gs \<noteq> []" using len gs by auto
  show "registry_step lines (lines @ [join [tab] gs])" by (rule registry_step.append [OF att free' none])
  show "find_row (attempt_row a) 0 (lines @ [join [tab] gs]) = Some (length lines, gs)"
    using none att by (simp add: find_row_append row_fields_join [OF \<open>gs \<noteq> []\<close> free'])
  show "claimed_row gs \<longleftrightarrow> v = ''1''"
    using len claim_pipe_flag [OF v(1)] by (simp add: gs claimed_row_def row_meta_def)
qed

lemma claim_attempt_row_result:
  assumes "claim_attempt_row preclaim policy a row launch lines = Inr (r, lines')"
  shows "registry_step lines lines' \<and> (r \<and> launch \<longrightarrow> launch_claimed lines' a \<and> \<not> launch_claimed lines a)"
proof -
  let ?rf = "row_fields (rstrip_newline row)"
  from assms have len: "length ?rf = 6" and id: "map_of (row_meta ?rf) ''attempt_id'' = Some a"
    and res: "(case find_row (attempt_row a) 0 lines of
         Some (index, fs) \<Rightarrow> claim_existing_row preclaim launch ?rf lines index fs
       | None \<Rightarrow> claim_new_row preclaim policy launch ?rf lines) = Inr (r, lines')"
    by (auto simp: claim_attempt_row_def Let_def bindr_Inr_iff split: if_splits)
  show ?thesis
  proof (cases "find_row (attempt_row a) 0 lines")
    case None
    define v where "v = (if launch then ''1'' else ''0'')"
    have v: "CHR '','' \<notin> set v" "tab \<notin> set v" by (simp_all add: v_def)
    note new = claim_append [OF len id row_fields_tab_free None v refl]
    from None res have "(r = False \<and> lines' = lines) \<or>
        (r = True \<and> lines' = lines @ [join [tab] (?rf[5 := (?rf ! 5) @ '','' @ kv_part ''launch_claimed'' v])])"
      using claim_new_row_result [of preclaim policy launch ?rf lines r lines'] by (simp only: option.case v_def)
    then show ?thesis
      using new None by (auto simp: launch_claimed_def registry_step.keep) (simp add: v_def)
  next
    case (Some p)
    obtain i fs where p: "p = (i, fs)" by (cases p)
    note row = find_row_row [OF Some [unfolded p]]
    from res Some p have "claim_existing_row preclaim launch ?rf lines i fs = Inr (r, lines')" by simp
    from claim_existing_row_result [OF this attempt_row_length [OF row(3)] row(4)] show ?thesis
    proof (elim disjE conjE exE)
      fix gs
      assume "\<not> claimed_row fs" and rw: "row_rewrite fs gs" and "claimed_row gs" "lines' = store_row lines i gs"
      then show ?thesis
        using step_rewrite [OF Some [unfolded p] rw] Some p find_row_rewrite [OF row(1), of gs a] row(2)
        by (simp add: launch_claimed_def)
    qed (simp add: registry_step.keep)
  qed
qed

section \<open>The registry as a machine\<close>

datatype registry_op =
    Claim "string list \<Rightarrow> string + unit" claim_policy string string bool
  | Close string string meta
  | CloseIf string string "string list \<Rightarrow> bool" meta string
  | Annotate string meta
  | AnnotateIf string meta "string list \<Rightarrow> bool"
  | Reconcile string string meta

datatype registry_reply = Flag bool | State string

fun registry_exec :: "registry_op \<Rightarrow> string list \<Rightarrow> (string + registry_reply) \<times> string list" where
  "registry_exec (Claim preclaim policy a row launch) lines =
     commit (map_sum id (map_prod Flag id) (claim_attempt_row preclaim policy a row launch lines)) lines"
| "registry_exec (Close a nt ev) lines =
     commit (map_sum id (map_prod Flag id) (close_attempt_row a nt ev lines)) lines"
| "registry_exec (CloseIf a nt P ev teardown) lines =
     commit (map_sum id (map_prod Flag id) (close_attempt_row_if a nt P ev teardown lines)) lines"
| "registry_exec (Annotate a vals) lines =
     commit (map_sum id (map_prod Flag id) (annotate_attempt_row a vals lines)) lines"
| "registry_exec (AnnotateIf a vals P) lines =
     commit (map_sum id (map_prod Flag id) (annotate_attempt_row_if a vals P lines)) lines"
| "registry_exec (Reconcile a nt ev) lines =
     commit (map_sum id (map_prod State id) (reconcile_attempt_terminal a nt ev lines)) lines"

fun registry_ok :: "registry_op \<Rightarrow> bool" where
  "registry_ok (Claim preclaim policy a row launch) = True"
| "registry_ok (Close a nt ev) = (tab \<notin> set nt \<and> plain_values ev)"
| "registry_ok (CloseIf a nt P ev teardown) = (tab \<notin> set nt \<and> plain_values ev)"
| "registry_ok (Annotate a vals) = plain_values vals"
| "registry_ok (AnnotateIf a vals P) = plain_values vals"
| "registry_ok (Reconcile a nt ev) = (tab \<notin> set nt \<and> plain_values ev)"

fun registry_grants :: "registry_op \<Rightarrow> string + registry_reply \<Rightarrow> string \<Rightarrow> bool" where
  "registry_grants (Claim preclaim policy a row launch) (Inr (Flag b)) x = (launch \<and> b \<and> a = x)"
| "registry_grants _ _ _ = False"

lemma commit_step:
  "(\<And>a s'. r = Inr (a, s') \<Longrightarrow> registry_step s s') \<Longrightarrow> registry_step s (snd (commit (map_sum id (map_prod f id) r) s))"
  by (cases r) (auto simp: commit_def registry_step.keep)

lemma registry_exec_step: "registry_ok op \<Longrightarrow> registry_step lines (snd (registry_exec op lines))"
  by (cases op)
     (auto intro!: commit_step dest: claim_attempt_row_result close_attempt_row_step close_attempt_row_if_step
        annotate_attempt_row_step annotate_attempt_row_if_step reconcile_attempt_terminal_step)

lemma registry_exec_grant:
  assumes "registry_grants op (fst (registry_exec op lines)) a"
  shows "launch_claimed (snd (registry_exec op lines)) a \<and> \<not> launch_claimed lines a"
proof (cases op)
  case (Claim preclaim policy b row launch)
  with assms show ?thesis
    by (cases "claim_attempt_row preclaim policy b row launch lines")
       (auto simp: commit_def dest!: claim_attempt_row_result)
qed (use assms in \<open>auto simp: commit_def split: sum.splits\<close>)

interpretation registry: granting_machine registry_exec registry_ok unique_attempts launch_claimed registry_grants
  by unfold_locales
     (auto dest: registry_exec_step registry_exec_grant intro: registry_step_unique registry_step_claimed)

text \<open>Row by row, a run of operations composes the permitted rewrites.\<close>

definition rows_evolve :: "string list \<Rightarrow> string list \<Rightarrow> bool" where
  "rows_evolve lines lines' \<longleftrightarrow> length lines \<le> length lines' \<and>
     (\<forall>i < length lines. length (row_fields (lines ! i)) = 6 \<longrightarrow>
        row_rewrite (row_fields (lines ! i)) (row_fields (lines' ! i)))"

lemma row_rewrite_refl: "length fs = 6 \<Longrightarrow> tab_free fs \<Longrightarrow> row_rewrite fs fs"
  by (simp add: row_rewrite_def)

lemma row_rewrite_trans: "row_rewrite fs gs \<Longrightarrow> row_rewrite gs hs \<Longrightarrow> row_rewrite fs hs"
  by (auto simp: row_rewrite_def open_status_def)

lemma rows_evolve_refl: "rows_evolve lines lines"
  by (simp add: rows_evolve_def row_rewrite_refl)

lemma rows_evolve_step: "registry_step lines lines' \<Longrightarrow> rows_evolve l0 lines \<Longrightarrow> rows_evolve l0 lines'"
proof (induction rule: registry_step.induct)
  case (append a fs lines)
  then show ?case by (auto simp: rows_evolve_def nth_append)
next
  case (rewrite i lines gs)
  then have gs: "gs \<noteq> []" "tab_free gs" by (auto simp: row_rewrite_def)
  from rewrite show ?case
    by (auto simp: rows_evolve_def row_fields_store [OF gs rewrite(1)] intro: row_rewrite_trans)
qed simp

interpretation registry_history: machine registry_exec registry_ok "rows_evolve l0" for l0
  by unfold_locales (auto dest: registry_exec_step intro: rows_evolve_step)


section \<open>Reading back a rewritten row\<close>

lemma all_rows_shift:
  "all_rows P i lines = map (\<lambda>j. (i + j, row_fields (lines ! j))) (filter (\<lambda>j. P (row_fields (lines ! j))) [0..<length lines])"
proof (induction lines arbitrary: i)
  case (Cons line lines)
  have "[0..<length (line # lines)] = 0 # map Suc [0..<length lines]"
    by (simp add: upt_conv_Cons map_Suc_upt del: upt_Suc)
  then show ?case by (simp add: Cons.IH filter_map o_def del: upt_Suc)
qed simp

lemma all_rows_eq:
  "all_rows P 0 lines = map (\<lambda>j. (j, row_fields (lines ! j))) (filter (\<lambda>j. P (row_fields (lines ! j))) [0..<length lines])"
  by (simp add: all_rows_shift)

lemma all_rows_rewrite:
  assumes "i < length lines" "row_rewrite (row_fields (lines ! i)) gs"
  shows "all_rows (attempt_row a) 0 (store_row lines i gs) =
    map (\<lambda>(j, fs). (j, if j = i then gs else fs)) (all_rows (attempt_row a) 0 lines)"
proof -
  have gs: "gs \<noteq> []" "tab_free gs" using assms(2) by (auto simp: row_rewrite_def)
  have att: "attempt_row a (row_fields (store_row lines i gs ! j)) \<longleftrightarrow> attempt_row a (row_fields (lines ! j))" for j
    using row_rewrite_attempt [OF assms(2)] by (simp add: row_fields_store [OF gs assms(1)])
  show ?thesis
    by (simp add: all_rows_eq att) (simp add: row_fields_store [OF gs assms(1)])
qed

lemma row_rewrite_valid:
  assumes "row_rewrite fs gs"
  shows "validate_attempt_metadata w (jmeta (row_meta gs)) = validate_attempt_metadata w (jmeta (row_meta fs))"
proof (rule validate_cong)
  fix k assume k: "k \<in> set validated_keys"
  have "list_all fixed_key validated_keys" by code_simp
  with k have "fixed_key k" by (simp add: list_all_iff)
  with assms show "map_of (jmeta (row_meta gs)) k = map_of (jmeta (row_meta fs)) k"
    by (simp add: row_rewrite_def map_of_jmeta)
qed

lemma map_of_drop_empty: "distinct (map fst e) \<Longrightarrow> map_of (drop_empty e) k =
    (case map_of e k of None \<Rightarrow> None | Some v \<Rightarrow> if v = [] then None else Some v)"
proof (induction e)
  case (Cons kv e)
  then have "fst kv \<notin> dom (map_of e)" by (simp add: dom_map_of_conv_image_fst)
  with Cons show ?case by (cases kv) (auto simp: drop_empty_def split: option.splits)
qed (simp add: drop_empty_def)

section \<open>Properties\<close>

definition demo_pipe :: string where
  "demo_pipe = join '','' [''attempt_schema_version=2'', ''dispatch_depth=1'', ''transport=headless'',
     ''execution_surface=registered-headless'', ''registered_worker=1'',
     ''fallback_hop=same-harness-headless'', ''attempt_id=att-00000001'']"

definition demo_row :: string where
  "demo_row = join [tab] [''t0'', ''open'', ''repo'', ''/w'', ''slug'', demo_pipe]"

definition demo_claim :: registry_op where
  "demo_claim = Claim (\<lambda>_. Inr ()) no_policy ''att-00000001'' demo_row True"






text \<open>A supervisor that reconciles an open attempt closes it, and repeating the same
  reconciliation reports \<open>already-terminal\<close> and changes nothing.\<close>

theorem reconcile_idempotent:
  assumes "reconcile_attempt_terminal a nt ev lines = Inr (''closed'', lines')"
    and "tab \<notin> set nt" and "plain_values ev" and "distinct (map fst ev)"
    and "CHR '','' \<notin> set (mget ev ''failure_class'' [])"
  shows "reconcile_attempt_terminal a nt ev lines' = Inr (''already-terminal'', lines')"
proof -
  from assms(1) obtain i fs pipe where
    rows: "all_rows (attempt_row a) 0 lines = [(i, fs)]"
    and valid: "validate_attempt_metadata False (jmeta (row_meta fs)) = Inr ()" and op: "open_status (fs ! 1)"
    and upd: "updated_attempt_metadata True (fs ! 5) (dict_update [(''note'', nt)] (drop_empty ev)) = Inr pipe"
    and lines': "lines' = store_row lines i (fs[1 := ''done'', 5 := pipe])" and ne: "a \<noteq> []" "nt \<noteq> []"
    by (auto simp: reconcile_attempt_terminal_def reconcile_closed_row_def bindr_Inr_iff Let_def
        split: if_splits list.splits)
  from rows have mem: "(i, fs) \<in> set (all_rows (attempt_row a) 0 lines)" by simp
  note row = all_rows_row [OF mem]
  have len: "length fs = 6" by (rule attempt_row_length [OF row(1)])
  have i: "i < length lines" "fs = row_fields (lines ! i)" using all_rows_mem [OF mem] by auto
  let ?gs = "fs[1 := ''done'', 5 := pipe]"
  have rw: "row_rewrite fs ?gs"
    using rewrite_row(2) [OF len row(2) upd _ op] assms(2,3) by simp
  have rows': "all_rows (attempt_row a) 0 lines' = [(i, ?gs)]"
    unfolding lines' using all_rows_rewrite [OF i(1) rw [unfolded i(2)], of a] rows by (simp add: i(2))
  have valid': "validate_attempt_metadata False (jmeta (row_meta ?gs)) = Inr ()"
    using row_rewrite_valid [OF rw] valid by simp
  have "mget (row_meta ?gs) ''failure_class'' [] = mget ev ''failure_class'' []"
    if "mget ev ''failure_class'' [] \<noteq> []"
  proof -
    from that obtain v where v: "map_of ev ''failure_class'' = Some v" "v \<noteq> []"
      by (auto simp: mget_def split: option.splits)
    have dist: "distinct (map fst (drop_empty ev))"
      using assms(4) by (simp add: drop_empty_def distinct_map_filter)
    have "map_of (dict_update [(''note'', nt)] (drop_empty ev)) ''failure_class'' = Some v"
      using v assms(4) by (simp add: map_of_dict_update map_of_rev_distinct [OF dist] map_of_drop_empty)
    then have "map_of (parse_registry_metadata pipe) ''failure_class'' = Some (semicolons v)"
      using updated_attempt_metadata_stores [OF upd] by (simp add: distinct_dict_update ATTEMPT_TERMINAL_EVIDENCE_KEYS_def)
    then show ?thesis
      using v assms(5) len by (simp add: mget_def row_meta_def semicolons_id)
  qed
  then show ?thesis
    using ne rows' valid' len
    by (auto simp: reconcile_attempt_terminal_def reconcile_closed_row_def closed_status_def Let_def)
qed

theorem reconcile_idempotent_witness:
  "reconcile_attempt_terminal ''att-00000001'' ''dead'' [(''failure_class'', ''fail'')]
     (snd (registry_exec (Reconcile ''att-00000001'' ''dead'' [(''failure_class'', ''fail'')]) [demo_row]))
   = Inr (''already-terminal'',
     snd (registry_exec (Reconcile ''att-00000001'' ''dead'' [(''failure_class'', ''fail'')]) [demo_row]))"
  by (rule reconcile_idempotent [of _ _ _ "[demo_row]"]) (code_simp, simp, simp, simp, simp)

end
