(* ===== verification/Json_Text.thy ===== *)
theory Json_Text
  imports Prelude
begin

text \<open>
  The text of JSON values: a reader that does what \<open>json.loads\<close> does on texts without fractions and
  exponents, and the proof that it reads back what \<open>dumps\<close> writes, with the keys of every object in
  order. Files that hold a JSON line, and the lines hashed over JSON text, rest on this.
\<close>

section \<open>Decimal numerals\<close>

lemma nat_str_digit: "nat_str n \<noteq> [] \<and> list_all is_digit (nat_str n)"
proof (induction n rule: nat_str.induct)
  case (1 n)
  have low: "m < 10 \<Longrightarrow> is_digit (char_of (48 + m :: nat))" for m
    by (auto simp: less_eq_char_def)
  have mod: "n mod 10 < 10" by simp
  show ?case
  proof (cases "n < 10")
    case True
    with low [OF True] show ?thesis by (simp add: nat_str.simps [of n])
  next
    case False
    with 1 low [OF mod] show ?thesis by (simp add: nat_str.simps [of n])
  qed
qed

lemma digits_val_snoc: "digits_val (s @ [c]) = 10 * digits_val s + digit_val c"
  by (simp add: digits_val_def)

lemma digits_val_nat_str: "digits_val (nat_str n) = int n"
proof (induction n rule: nat_str.induct)
  case (1 n)
  have val: "m < 10 \<Longrightarrow> digit_val (char_of (48 + m :: nat)) = int m" for m
    by (simp add: digit_val_def of_nat_of_char [symmetric, where ?'a = int] del: of_nat_of_char)
  show ?case
  proof (cases "n < 10")
    case True
    with val [OF True] show ?thesis by (simp add: nat_str.simps [of n] digits_val_def)
  next
    case False
    have mod: "n mod 10 < 10" by simp
    from False 1 val [OF mod] show ?thesis
      by (simp add: nat_str.simps [of n] digits_val_snoc) (metis div_mult_mod_eq mult.commute of_nat_add of_nat_mult of_nat_numeral)
  qed
qed

lemma isdigit_int_str: "0 \<le> i \<Longrightarrow> isdigit (int_str i)"
  using nat_str_digit by (simp add: int_str_def isdigit_def)

lemma digits_val_int_str: "0 \<le> i \<Longrightarrow> digits_val (int_str i) = i"
  by (simp add: int_str_def digits_val_nat_str)

section \<open>Equality of Python values\<close>

fun wf_json :: "json \<Rightarrow> bool" where
  \<comment> \<open>dictionaries have distinct keys\<close>
  "wf_json (JObj d) = (distinct (map fst d) \<and> list_all (\<lambda>(k, v). wf_json v) d)"
| "wf_json (JList xs) = list_all wf_json xs"
| "wf_json _ = True"

lemma py_eq_refl: "wf_json v \<Longrightarrow> py_eq v v"
proof (induction v)
  case (JList xs)
  then show ?case by (auto simp: list_all2_same list_all_iff)
next
  case (JObj d)
  have "case map_of d k of None \<Rightarrow> False | Some w \<Rightarrow> py_eq v w" if "(k, v) \<in> set d" for k v
  proof -
    have "map_of d k = Some v" using JObj.prems that by simp
    moreover have "py_eq v v" using JObj.IH [of "(k, v)" v] JObj.prems that by (auto simp: list_all_iff)
    ultimately show ?thesis by simp
  qed
  then show ?case by (auto simp: list_all_iff)
qed simp_all

section \<open>Reading\<close>

definition json_space :: "char \<Rightarrow> bool" where
  "json_space c \<longleftrightarrow> c = CHR '' '' \<or> c = tab \<or> c = newline \<or> c = CHR 0x0D"

definition skip_space :: "string \<Rightarrow> string" where
  "skip_space s = dropWhile json_space s"

definition hex_val :: "char \<Rightarrow> nat option" where
  "hex_val c = (if is_digit c then Some (of_char c - 48)
     else if CHR ''a'' \<le> c \<and> c \<le> CHR ''f'' then Some (of_char c - 87)
     else if CHR ''A'' \<le> c \<and> c \<le> CHR ''F'' then Some (of_char c - 55) else None)"

definition unescape :: "char \<Rightarrow> char option" where
  "unescape e = map_of [(CHR 0x22, CHR 0x22), (CHR 0x5C, CHR 0x5C), (CHR ''/'', CHR ''/''), (CHR ''b'', CHR 0x08),
     (CHR ''f'', CHR 0x0C), (CHR ''n'', newline), (CHR ''r'', CHR 0x0D), (CHR ''t'', tab)] e"

definition cons_char :: "char \<Rightarrow> (string \<times> string) option \<Rightarrow> (string \<times> string) option" where
  "cons_char c r = map_option (\<lambda>(s, rest). (c # s, rest)) r"

fun parse_string :: "string \<Rightarrow> (string \<times> string) option" where
  \<comment> \<open>after the opening quote; a code point above 255 is outside the model's characters\<close>
  "parse_string [] = None"
| "parse_string (c # s) =
    (if c = CHR 0x22 then Some ([], s)
     else if c = CHR 0x5C then
       (case s of
          [] \<Rightarrow> None
        | e # t \<Rightarrow>
            if e = CHR ''u'' then (case t of
                h1 # h2 # h3 # h4 # r \<Rightarrow>
                  (case (hex_val h1, hex_val h2, hex_val h3, hex_val h4) of
                     (Some 0, Some 0, Some a, Some b) \<Rightarrow> cons_char (char_of (16 * a + b)) (parse_string r)
                   | _ \<Rightarrow> None)
              | _ \<Rightarrow> None)
            else (case unescape e of None \<Rightarrow> None | Some d \<Rightarrow> cons_char d (parse_string t)))
     else if c < CHR '' '' then None
     else cons_char c (parse_string s))"

definition parse_number :: "string \<Rightarrow> (json \<times> string) option" where
  "parse_number s =
    (let neg = (s \<noteq> [] \<and> hd s = CHR ''-''); t = (if neg then tl s else s);
         ds = takeWhile is_digit t; rest = dropWhile is_digit t in
     if ds = [] \<or> (hd ds = CHR ''0'' \<and> tl ds \<noteq> []) then None
     else if rest \<noteq> [] \<and> hd rest \<in> set ''.eE'' then None
     else Some (JInt (if neg then - digits_val ds else digits_val ds), rest))"

text \<open>The first argument bounds the depth of calls; the length of the text is enough.\<close>

fun parse_value :: "nat \<Rightarrow> string \<Rightarrow> (json \<times> string) option"
  and parse_items :: "nat \<Rightarrow> string \<Rightarrow> (json list \<times> string) option"
  and parse_members :: "nat \<Rightarrow> string \<Rightarrow> (obj \<times> string) option" where
  "parse_value 0 s = None"
| "parse_value (Suc n) s = (case skip_space s of
      [] \<Rightarrow> None
    | c # t \<Rightarrow>
        if c = CHR 0x22 then map_option (\<lambda>(x, r). (JStr x, r)) (parse_string t)
        else if c = CHR ''['' then
          (if skip_space t \<noteq> [] \<and> hd (skip_space t) = CHR '']'' then Some (JList [], tl (skip_space t))
           else map_option (\<lambda>(xs, r). (JList xs, r)) (parse_items n t))
        else if c = CHR ''{'' then
          (if skip_space t \<noteq> [] \<and> hd (skip_space t) = CHR ''}'' then Some (JObj [], tl (skip_space t))
           else map_option (\<lambda>(d, r). (JObj (dict_update [] d), r)) (parse_members n t))
        else if startswith ''null'' (c # t) then Some (JNull, drop 3 t)
        else if startswith ''true'' (c # t) then Some (JBool True, drop 3 t)
        else if startswith ''false'' (c # t) then Some (JBool False, drop 4 t)
        else parse_number (c # t))"
| "parse_items 0 s = None"
| "parse_items (Suc n) s = (case parse_value n s of
      None \<Rightarrow> None
    | Some (v, r) \<Rightarrow> (case skip_space r of
        [] \<Rightarrow> None
      | c # t \<Rightarrow> if c = CHR '','' then map_option (\<lambda>(vs, r'). (v # vs, r')) (parse_items n t)
          else if c = CHR '']'' then Some ([v], t) else None))"
| "parse_members 0 s = None"
| "parse_members (Suc n) s = (case skip_space s of
      [] \<Rightarrow> None
    | q # t \<Rightarrow>
        if q \<noteq> CHR 0x22 then None
        else (case parse_string t of
          None \<Rightarrow> None
        | Some (k, r) \<Rightarrow> (case skip_space r of
            [] \<Rightarrow> None
          | c # u \<Rightarrow>
              if c \<noteq> CHR '':'' then None
              else (case parse_value n u of
                None \<Rightarrow> None
              | Some (v, w) \<Rightarrow> (case skip_space w of
                  [] \<Rightarrow> None
                | e # x \<Rightarrow> if e = CHR '','' then map_option (\<lambda>(ms, r'). ((k, v) # ms, r')) (parse_members n x)
                    else if e = CHR ''}'' then Some ([(k, v)], x) else None)))))"

definition loads :: "string \<Rightarrow> json option" where
  "loads s = (case parse_value (Suc (length s)) s of
      Some (v, rest) \<Rightarrow> if skip_space rest = [] then Some v else None
    | None \<Rightarrow> None)"

section \<open>The order of keys\<close>

fun canonical :: "json \<Rightarrow> json" where
  "canonical (JObj d) = JObj (sort_key fst (map (\<lambda>(k, v). (k, canonical v)) d))"
| "canonical (JList xs) = JList (map canonical xs)"
| "canonical v = v"

lemma insort_key_map: "insort_key f (h x) (map h ys) = map h (insort_key (f \<circ> h) x ys)"
  by (induction ys) auto

lemma sort_key_map: "sort_key f (map h xs) = map h (sort_key (f \<circ> h) xs)"
  by (induction xs) (auto simp: insort_key_map [unfolded comp_def] comp_def)

lemma sort_key_pairs:
  fixes d :: "('k::linorder \<times> 'v) list"
  shows "sort_key fst (map (\<lambda>(k, v). (k, g v)) d) = map (\<lambda>(k, v). (k, g v)) (sort_key fst d)"
proof -
  have "fst \<circ> (\<lambda>(k, v). (k, g v)) = (fst :: 'k \<times> 'v \<Rightarrow> 'k)" by auto
  then show ?thesis by (simp add: sort_key_map)
qed

section \<open>What is written is read back\<close>

lemma hex_val_digit: "n < 16 \<Longrightarrow> hex_val (hex_digit n) = Some n"
proof -
  have "list_all (\<lambda>n. hex_val (hex_digit n) = Some n) [0 ..< 16]" by code_simp
  then show "n < 16 \<Longrightarrow> hex_val (hex_digit n) = Some n" by (simp add: list_all_iff)
qed

lemma parse_esc: "parse_string (esc_char c @ t) = cons_char c (parse_string t)"
proof -
  have bound: "of_char c < (256::nat)" using range_nat_of_char by (metis atLeastLessThan_iff rangeI)
  then have nibbles: "of_char c div 16 < (16::nat)" "of_char c mod 16 < (16::nat)" by (simp_all add: less_mult_imp_div_less)
  have same: "char_of (16 * (of_char c div 16) + of_char c mod 16 :: nat) = c" by simp
  have plain: "parse_string (c # t) = cons_char c (parse_string t)" if "c \<noteq> CHR 0x22" "c \<noteq> CHR 0x5C" "\<not> c < CHR '' ''"
    using that by simp
  have zero: "hex_val (CHR ''0'') = Some 0" by code_simp
  show ?thesis
    using plain hex_val_digit [OF nibbles(1)] hex_val_digit [OF nibbles(2)] same
    by (auto simp: esc_char_def unescape_def zero)
qed

lemma parse_quoted: "parse_string (concat (map esc_char s) @ CHR 0x22 # rest) = Some (s, rest)"
  by (induction s) (auto simp: parse_esc cons_char_def)

lemma parse_dumps_str: "\<exists>t. dumps_str s @ rest = CHR 0x22 # t \<and> parse_string t = Some (s, rest)"
  by (auto simp: dumps_str_def parse_quoted)

definition stops :: "string \<Rightarrow> bool" where
  \<comment> \<open>a number ends here\<close>
  "stops rest \<longleftrightarrow> rest = [] \<or> (\<not> is_digit (hd rest) \<and> hd rest \<notin> set ''.eE'')"

lemma stops_simps [simp]: "stops []" "stops (CHR '','' # s)" "stops (CHR '']'' # s)" "stops (CHR ''}'' # s)"
  by (simp_all add: stops_def)

lemma skip_space_simps [simp]:
  "skip_space [] = []"
  "\<not> json_space c \<Longrightarrow> skip_space (c # s) = c # s"
  by (simp_all add: skip_space_def)

lemma not_space [simp]:
  "\<not> json_space (CHR '','')" "\<not> json_space (CHR '']'')" "\<not> json_space (CHR ''}'')" "\<not> json_space (CHR '':'')"
  "\<not> json_space (CHR ''['')" "\<not> json_space (CHR ''{'')" "\<not> json_space (CHR 0x22)"
  "\<not> json_space (CHR ''n'')" "\<not> json_space (CHR ''t'')" "\<not> json_space (CHR ''f'')" "\<not> json_space (CHR ''-'')"
  by (simp_all add: json_space_def)

lemma takeWhile_stops: "list_all is_digit ds \<Longrightarrow> stops rest \<Longrightarrow> takeWhile is_digit (ds @ rest) = ds \<and> dropWhile is_digit (ds @ rest) = rest"
  by (cases rest) (auto simp: takeWhile_append dropWhile_append list_all_iff stops_def)

lemma nat_str_no_zero: "tl (nat_str n) \<noteq> [] \<Longrightarrow> hd (nat_str n) \<noteq> CHR ''0''"
proof (induction n rule: nat_str.induct)
  case (1 n)
  show ?case
  proof (cases "n < 10")
    case True
    with 1 show ?thesis by (simp add: nat_str.simps [of n])
  next
    case False
    let ?m = "n div 10"
    have ne: "nat_str ?m \<noteq> []" using nat_str_digit by blast
    have "hd (nat_str ?m) \<noteq> CHR ''0''"
    proof (cases "tl (nat_str ?m) = []")
      case True
      have "?m < 10"
      proof (rule ccontr)
        assume "\<not> ?m < 10"
        with True show False using nat_str_digit [of "?m div 10"] by (simp add: nat_str.simps [of ?m])
      qed
      moreover have "0 < ?m" using False by simp
      moreover have "list_all (\<lambda>d. char_of (48 + d :: nat) \<noteq> CHR ''0'') [1 ..< 10]" by code_simp
      ultimately show ?thesis by (simp add: nat_str.simps [of ?m] list_all_iff)
    next
      case long: False
      with 1 False show ?thesis by simp
    qed
    with False ne show ?thesis by (simp add: nat_str.simps [of n])
  qed
qed

lemma parse_digits:
  assumes "list_all is_digit ds" "ds \<noteq> []" "tl ds \<noteq> [] \<longrightarrow> hd ds \<noteq> CHR ''0''" "stops rest"
  shows "parse_number (ds @ rest) = Some (JInt (digits_val ds), rest)"
    and "parse_number (CHR ''-'' # ds @ rest) = Some (JInt (- digits_val ds), rest)"
proof -
  have split: "takeWhile is_digit (ds @ rest) = ds" "dropWhile is_digit (ds @ rest) = rest"
    using takeWhile_stops [OF assms(1,4)] by blast+
  have "hd (ds @ rest) \<noteq> CHR ''-''" using assms(1,2) by (cases ds) (auto simp: less_eq_char_def)
  moreover have "\<not> (rest \<noteq> [] \<and> hd rest \<in> set ''.eE'')" using assms(4) by (auto simp: stops_def)
  moreover have "ds @ rest \<noteq> []" using assms(2) by simp
  moreover have "\<not> (ds = [] \<or> (hd ds = CHR ''0'' \<and> tl ds \<noteq> []))" using assms(2,3) by blast
  ultimately show "parse_number (ds @ rest) = Some (JInt (digits_val ds), rest)"
    "parse_number (CHR ''-'' # ds @ rest) = Some (JInt (- digits_val ds), rest)"
    unfolding parse_number_def Let_def
    by (simp_all only: split list.sel if_True if_False simp_thms list.distinct)
qed

lemma parse_int: "stops rest \<Longrightarrow> parse_number (int_str i @ rest) = Some (JInt i, rest)"
proof -
  assume stops: "stops rest"
  have digits: "list_all is_digit (nat_str n)" "nat_str n \<noteq> []" "tl (nat_str n) \<noteq> [] \<longrightarrow> hd (nat_str n) \<noteq> CHR ''0''" for n
    using nat_str_digit [of n] nat_str_no_zero [of n] by blast+
  show ?thesis
  proof (cases "i < 0")
    case True
    with parse_digits(2) [OF digits stops, of "nat (- i)"] show ?thesis by (simp add: int_str_def digits_val_nat_str)
  next
    case False
    with parse_digits(1) [OF digits stops, of "nat i"] show ?thesis by (simp add: int_str_def digits_val_nat_str)
  qed
qed

lemma int_str_hd: "\<exists>c t. int_str i = c # t \<and> (is_digit c \<or> c = CHR ''-'')"
  using nat_str_digit [of "nat i"] by (cases "nat_str (nat i)") (auto simp: int_str_def)

lemma digit_start:
  "is_digit c \<or> c = CHR ''-'' \<Longrightarrow> \<not> json_space c \<and> c \<noteq> CHR 0x22 \<and> c \<noteq> CHR ''['' \<and> c \<noteq> CHR ''{'' \<and>
     c \<noteq> CHR ''n'' \<and> c \<noteq> CHR ''t'' \<and> c \<noteq> CHR ''f'' \<and> c \<noteq> CHR '']'' \<and> c \<noteq> CHR ''}''"
  by (auto simp: json_space_def less_eq_char_def)

definition reads_back :: "json \<Rightarrow> bool" where
  "reads_back v \<longleftrightarrow> (\<forall>n rest. length (dumps v) \<le> n \<longrightarrow> stops rest \<longrightarrow> parse_value n (dumps v @ rest) = Some (canonical v, rest))"

lemma dumps_start: "\<exists>c t. dumps v = c # t \<and> \<not> json_space c \<and> c \<noteq> CHR '']'' \<and> c \<noteq> CHR ''}''"
proof (cases v)
  case (JInt i)
  with int_str_hd [of i] digit_start show ?thesis by fastforce
qed (auto simp: dumps_str_def)

lemma reads_back_string: "reads_back (JStr s)"
proof -
  have "parse_value n (dumps_str s @ rest) = Some (JStr s, rest)" if n: "length (dumps_str s) \<le> n" for n rest
  proof -
    obtain m where m: "n = Suc m" using n by (cases n) (auto simp: dumps_str_def)
    obtain t where "dumps_str s @ rest = CHR 0x22 # t" "parse_string t = Some (s, rest)" using parse_dumps_str by blast
    then show ?thesis by (simp add: m)
  qed
  then show ?thesis by (simp add: reads_back_def)
qed

lemma reads_back_int: "reads_back (JInt i)"
proof -
  have "parse_value n (int_str i @ rest) = Some (JInt i, rest)" if n: "length (int_str i) \<le> n" and stops: "stops rest" for n rest
  proof -
    obtain c t where c: "int_str i = c # t" "is_digit c \<or> c = CHR ''-''" using int_str_hd by blast
    with n obtain m where m: "n = Suc m" by (cases n) auto
    from parse_int [OF stops, of i] c(1) have "parse_number (c # t @ rest) = Some (JInt i, rest)" by simp
    with digit_start [OF c(2)] show ?thesis by (simp add: m c(1) startswith_def)
  qed
  then show ?thesis by (simp add: reads_back_def)
qed

lemma reads_back_items:
  assumes "\<forall>x \<in> set xs. reads_back x" "xs \<noteq> []"
  shows "length (join '','' (map dumps xs)) < n \<Longrightarrow>
    parse_items n (join '','' (map dumps xs) @ CHR '']'' # rest) = Some (map canonical xs, rest)"
  using assms
proof (induction xs arbitrary: n)
  case (Cons x xs)
  from Cons.prems(1) obtain m where m: "n = Suc m" by (cases n) auto
  from Cons.prems(2) have x: "reads_back x" by simp
  show ?case
  proof (cases "xs = []")
    case True
    with Cons.prems(1) m x show ?thesis by (simp add: reads_back_def)
  next
    case False
    let ?t = "join '','' (map dumps xs)"
    have written: "join '','' (map dumps (x # xs)) = dumps x @ CHR '','' # ?t" using False by (simp add: join_Cons)
    have "parse_value m (dumps x @ CHR '','' # ?t @ CHR '']'' # rest) = Some (canonical x, CHR '','' # ?t @ CHR '']'' # rest)"
      using x Cons.prems(1) unfolding written m reads_back_def by simp
    moreover have "parse_items m (?t @ CHR '']'' # rest) = Some (map canonical xs, rest)"
      using Cons.IH [of m] Cons.prems False unfolding written m by (cases "dumps x") (use dumps_start [of x] in auto)
    ultimately show ?thesis unfolding written by (simp add: m)
  qed
qed simp

definition member_text :: "string \<times> json \<Rightarrow> string" where
  "member_text kv = dumps_str (fst kv) @ '':'' @ dumps (snd kv)"

lemma reads_back_members:
  assumes "\<forall>kv \<in> set d. reads_back (snd kv)" "d \<noteq> []"
  shows "length (join '','' (map member_text d)) < n \<Longrightarrow>
    parse_members n (join '','' (map member_text d) @ CHR ''}'' # rest) = Some (map (\<lambda>(k, v). (k, canonical v)) d, rest)"
  using assms
proof (induction d arbitrary: n)
  case (Cons kv d)
  obtain k v where kv: "kv = (k, v)" by (cases kv)
  from Cons.prems(1) obtain m where m: "n = Suc m" by (cases n) auto
  from Cons.prems(2) kv have v: "reads_back v" by simp
  have step: "parse_members n (dumps_str k @ '':'' @ dumps v @ c # x) =
      (if c = CHR '','' then map_option (\<lambda>(ms, r'). ((k, canonical v) # ms, r')) (parse_members m x) else Some ([(k, canonical v)], x))"
    if "c = CHR '','' \<or> c = CHR ''}''" and len: "length (dumps v) \<le> m" for c x
  proof -
    have "stops (c # x)" using that(1) by auto
    with v len have val: "parse_value m (dumps v @ c # x) = Some (canonical v, c # x)" by (simp add: reads_back_def)
    obtain t where "dumps_str k @ CHR '':'' # dumps v @ c # x = CHR 0x22 # t" "parse_string t = Some (k, CHR '':'' # dumps v @ c # x)"
      using parse_dumps_str [of k "CHR '':'' # dumps v @ c # x"] by auto
    with val that(1) show ?thesis by (auto simp: m)
  qed
  show ?case
  proof (cases "d = []")
    case True
    with Cons.prems(1) step [of "CHR ''}''" rest] show ?thesis by (simp add: kv member_text_def m del: parse_members.simps)
  next
    case False
    let ?t = "join '','' (map member_text d)"
    have written: "join '','' (map member_text (kv # d)) = dumps_str k @ '':'' @ dumps v @ CHR '','' # ?t"
      using False by (simp add: join_Cons member_text_def kv)
    have "parse_members m (?t @ CHR ''}'' # rest) = Some (map (\<lambda>(k, v). (k, canonical v)) d, rest)"
      using Cons.IH [of m] Cons.prems False unfolding written m by simp
    moreover have "length (dumps v) \<le> m" using Cons.prems(1) unfolding written m by simp
    ultimately show ?thesis unfolding written using step [of "CHR '',''" "?t @ CHR ''}'' # rest"] by (simp add: kv)
  qed
qed simp

text \<open>The reader inverts the writer, up to the order of keys.\<close>

lemma dumps_reads_back: "wf_json v \<Longrightarrow> reads_back v"
proof (induction v)
  case (JList xs)
  then have items: "\<forall>x \<in> set xs. reads_back x" by (auto simp: list_all_iff)
  have "parse_value n (dumps (JList xs) @ rest) = Some (canonical (JList xs), rest)"
    if "length (dumps (JList xs)) \<le> n" for n rest
  proof -
    from that obtain m where m: "n = Suc m" by (cases n) auto
    show ?thesis
    proof (cases "xs = []")
      case True
      then show ?thesis by (simp add: m)
    next
      case False
      then obtain x ys where xs: "xs = x # ys" by (cases xs) auto
      obtain c t where c: "join '','' (map dumps xs) = c # t" "\<not> json_space c" "c \<noteq> CHR '']''"
        using dumps_start [of x] by (cases ys) (auto simp: xs)
      have "parse_items m (join '','' (map dumps xs) @ CHR '']'' # rest) = Some (map canonical xs, rest)"
        using that by (intro reads_back_items items False) (simp add: m)
      with c show ?thesis by (simp add: m)
    qed
  qed
  then show ?case by (simp add: reads_back_def)
next
  case (JObj d)
  let ?e = "sort_key fst d"
  have members: "\<forall>kv \<in> set ?e. reads_back (snd kv)"
    using JObj by (force simp: list_all_iff)
  have written: "dumps (JObj d) = ''{'' @ join '','' (map member_text ?e) @ ''}''"
    using sort_key_pairs [of dumps d] by (simp add: member_text_def [abs_def] comp_def case_prod_unfold)
  have dist: "distinct (map fst (map (\<lambda>(k, v). (k, canonical v)) ?e))"
  proof -
    have "map fst (map (\<lambda>(k, v). (k, canonical v)) ?e) = map fst ?e" by (simp add: comp_def case_prod_unfold)
    moreover have "distinct (map fst ?e)" using JObj.prems by (simp add: distinct_map)
    ultimately show ?thesis by (simp only:)
  qed
  have canon: "canonical (JObj d) = JObj (map (\<lambda>(k, v). (k, canonical v)) ?e)" by (simp add: sort_key_pairs)
  have "parse_value n (dumps (JObj d) @ rest) = Some (canonical (JObj d), rest)"
    if len: "length (dumps (JObj d)) \<le> n" for n rest
  proof -
    from len obtain m where m: "n = Suc m" unfolding written by (cases n) auto
    show ?thesis
    proof (cases "d = []")
      case True
      then show ?thesis by (simp add: m)
    next
      case False
      then have ne: "?e \<noteq> []" by (metis length_0_conv length_sort)
      then obtain x ys where e: "?e = x # ys" by (cases ?e) auto
      obtain t where start: "join '','' (map member_text ?e) = CHR 0x22 # t"
        by (cases ys) (auto simp: e member_text_def dumps_str_def)
      have "parse_members m (join '','' (map member_text ?e) @ CHR ''}'' # rest) = Some (map (\<lambda>(k, v). (k, canonical v)) ?e, rest)"
        using len unfolding written m by (intro reads_back_members members ne) simp
      then show ?thesis
        unfolding written canon using start dist dict_update_distinct [of "[]" "map (\<lambda>(k, v). (k, canonical v)) ?e"] by (simp add: m)
    qed
  qed
  then show ?case by (simp add: reads_back_def del: dumps.simps canonical.simps)
next
  case (JBool b)
  then show ?case by (auto simp: reads_back_def startswith_def neq_Nil_conv dest!: Suc_le_D)
next
  case JNull
  then show ?case by (auto simp: reads_back_def startswith_def dest!: Suc_le_D)
qed (simp_all add: reads_back_string reads_back_int)

lemma loads_dumps:
  assumes "wf_json v"
  shows "loads (dumps v) = Some (canonical v)"
proof -
  have "parse_value (Suc (length (dumps v))) (dumps v @ []) = Some (canonical v, [])"
    using dumps_reads_back [OF assms] unfolding reads_back_def by (metis le_SucI order_refl stops_simps(1))
  then show ?thesis by (simp add: loads_def del: dumps.simps parse_value.simps)
qed

section \<open>No proper prefix of an object is a value\<close>

lemma skip_space_append: "skip_space s \<noteq> [] \<Longrightarrow> skip_space (s @ x) = skip_space s @ x"
  unfolding skip_space_def by (induction s) auto

lemma parse_string_extends: "parse_string s = Some (a, r) \<Longrightarrow> parse_string (s @ x) = Some (a, r @ x)"
proof (induction s arbitrary: a r rule: parse_string.induct)
  case (2 c s)
  show ?case
  proof (cases "c = CHR 0x22 \<or> c \<noteq> CHR 0x5C")
    case True
    with 2 show ?thesis by (auto simp: cons_char_def split: if_splits)
  next
    case False
    then have c: "c = CHR 0x5C" by simp
    from 2 c obtain e t where s: "s = e # t" by (auto split: list.splits)
    show ?thesis
    proof (cases "e = CHR ''u''")
      case True
      with 2(4) c s obtain h1 h2 h3 h4 w where t: "t = h1 # h2 # h3 # h4 # w" by (auto split: list.splits)
      with 2(4) c s True obtain i j where h: "hex_val h1 = Some 0" "hex_val h2 = Some 0" "hex_val h3 = Some i" "hex_val h4 = Some j"
        by (simp split: option.splits nat.splits)
      with 2(4) c s True t obtain b where "parse_string w = Some (b, r)" "a = char_of (16 * i + j) # b" by (auto simp: cons_char_def)
      with 2(1) [OF _ c s True t] h have "parse_string (w @ x) = Some (b, r @ x)" "a = char_of (16 * i + j) # b" using c by auto
      with c s True t h show ?thesis by (simp add: cons_char_def)
    next
      case False
      with 2 c s show ?thesis by (auto simp: cons_char_def split: option.splits)
    qed
  qed
qed simp

lemma if_None_Some: "(if P then None else z) = Some y \<longleftrightarrow> \<not> P \<and> z = Some y"
  by simp

lemma parse_number_extends: "parse_number s = Some (v, r) \<Longrightarrow> r \<noteq> [] \<Longrightarrow> parse_number (s @ x) = Some (v, r @ x)"
proof -
  assume a: "parse_number s = Some (v, r)" and ne: "r \<noteq> []"
  define unsigned where "unsigned = (\<lambda>s. if s \<noteq> [] \<and> hd s = CHR ''-'' then tl s else s)"
  define neg where "neg = (\<lambda>s. s \<noteq> [] \<and> hd s = CHR ''-'')"
  have unfold: "parse_number s =
    (let ds = takeWhile is_digit (unsigned s); rest = dropWhile is_digit (unsigned s) in
     if ds = [] \<or> (hd ds = CHR ''0'' \<and> tl ds \<noteq> []) then None
     else if rest \<noteq> [] \<and> hd rest \<in> set ''.eE'' then None
     else Some (JInt (if neg s then - digits_val ds else digits_val ds), rest))" for s
    by (simp add: parse_number_def unsigned_def neg_def Let_def)
  have drop: "dropWhile is_digit (unsigned s) = r"
    using a unfolding unfold Let_def if_None_Some option.inject prod.inject by (elim conjE)
  with ne have "\<not> (\<forall>y \<in> set (unsigned s). is_digit y)" unfolding dropWhile_eq_Nil_conv [symmetric] by simp
  then obtain y where y: "y \<in> set (unsigned s)" "\<not> is_digit y" by blast
  then have s: "s \<noteq> []" by (auto simp: unsigned_def)
  then have ext: "unsigned (s @ x) = unsigned s @ x" "neg (s @ x) = neg s" by (simp_all add: unsigned_def neg_def)
  have split: "takeWhile is_digit (unsigned s @ x) = takeWhile is_digit (unsigned s)" "dropWhile is_digit (unsigned s @ x) = r @ x"
    using takeWhile_append1 [of y "unsigned s" is_digit x] dropWhile_append1 [of y "unsigned s" is_digit x] y drop by simp_all
  have hd: "hd (r @ x) = hd r" using ne by simp
  have "r @ x \<noteq> []" using ne by simp
  with a ne show ?thesis
    unfolding unfold ext split drop Let_def hd if_None_Some option.inject prod.inject by (elim conjE) (intro conjI; blast)
qed

lemma parse_number_start: "parse_number (c # t) = Some (v, r) \<Longrightarrow> is_digit c \<or> c = CHR ''-''"
  by (auto simp: parse_number_def Let_def split: if_splits)

lemma skip_space_Cons: "skip_space s = c # t \<Longrightarrow> skip_space (s @ x) = c # t @ x"
  using skip_space_append [of s x] by simp

lemma skip_head: "skip_space t \<noteq> [] \<Longrightarrow> skip_space (t @ x) \<noteq> [] \<and> hd (skip_space (t @ x)) = hd (skip_space t) \<and> tl (skip_space (t @ x)) = tl (skip_space t) @ x"
  using skip_space_append [of t x] by simp

lemma items_start: "parse_items n s = Some (vs, q) \<Longrightarrow> skip_space s \<noteq> []"
  by (cases n; cases "n - 1") (auto split: option.splits list.splits)

lemma members_start: "parse_members n s = Some (d, q) \<Longrightarrow> skip_space s \<noteq> []"
  by (cases n) (auto split: list.splits)

lemma startswith_append: "startswith p s \<Longrightarrow> startswith p (s @ x)"
  by (auto simp: startswith_iff)

lemma parse_extends:
  "parse_value n s = Some (v, r) \<Longrightarrow> (r = [] \<longrightarrow> (\<forall>i. v \<noteq> JInt i)) \<Longrightarrow> n \<le> m \<Longrightarrow> parse_value m (s @ x) = Some (v, r @ x)"
  "parse_items n s = Some (vs, q) \<Longrightarrow> n \<le> m \<Longrightarrow> parse_items m (s @ x) = Some (vs, q @ x)"
  "parse_members n s = Some (d, q) \<Longrightarrow> n \<le> m \<Longrightarrow> parse_members m (s @ x) = Some (d, q @ x)"
proof (induction n s and n s and n s arbitrary: v r m and vs q m and d q m rule: parse_value_parse_items_parse_members.induct)
  case (2 n s)
  then obtain k where m: "m = Suc k" "n \<le> k" by (cases m) auto
  from 2(3) obtain c t where c: "skip_space s = c # t" by (cases "skip_space s") auto
  note ext = skip_space_Cons [OF c]
  show ?case
  proof (cases "c = CHR 0x22")
    case True
    with 2(3) c show ?thesis by (auto simp: m ext parse_string_extends)
  next
    case c1: False
    show ?thesis
    proof (cases "c = CHR ''['' \<or> c = CHR ''{''")
      case True
      have ne: "skip_space t \<noteq> []"
        using True 2(3) c c1 items_start [of n t] members_start [of n t] by (auto split: if_splits)
      note ext' = skip_space_append [OF ne, of x]
      from True show ?thesis
      proof
        assume cc: "c = CHR ''[''"
        show ?thesis
        proof (cases "hd (skip_space t) = CHR '']''")
          case True
          with 2(3) c cc ne show ?thesis by (simp add: m ext ext')
        next
          case False
          with 2(3) c cc ne obtain xs where xs: "parse_items n t = Some (xs, r)" "v = JList xs" by auto
          have "parse_items k (t @ x) = Some (xs, r @ x)" using False by (intro 2(1) [OF c c1 cc _ xs(1) m(2)]) simp
          with False cc xs ne show ?thesis by (simp add: m ext ext')
        qed
      next
        assume cc: "c = CHR ''{''"
        then have nb: "c \<noteq> CHR ''[''" by simp
        show ?thesis
        proof (cases "hd (skip_space t) = CHR ''}''")
          case True
          with 2(3) c cc ne show ?thesis by (simp add: m ext ext')
        next
          case False
          with 2(3) c cc ne obtain d where d: "parse_members n t = Some (d, r)" "v = JObj (dict_update [] d)" by auto
          have "parse_members k (t @ x) = Some (d, r @ x)" using False by (intro 2(2) [OF c c1 nb cc _ d(1) m(2)]) simp
          with False cc d ne show ?thesis by (simp add: m ext ext')
        qed
      qed
    next
      case c2: False
      show ?thesis
      proof (cases "startswith ''null'' (c # t) \<or> startswith ''true'' (c # t) \<or> startswith ''false'' (c # t)")
        case True
        then consider w where "c = CHR ''n''" "t = ''ull'' @ w" | w where "c = CHR ''t''" "t = ''rue'' @ w"
          | w where "c = CHR ''f''" "t = ''alse'' @ w"
          by (auto simp: startswith_iff)
        then show ?thesis using 2(3) c by cases (simp_all add: m ext startswith_def)
      next
        case False
        with 2(3) c c1 c2 have num: "parse_number (c # t) = Some (v, r)" by simp
        then have "\<exists>i. v = JInt i" by (auto simp: parse_number_def Let_def split: if_splits)
        with 2(4) have "r \<noteq> []" by blast
        with parse_number_extends [OF num] have "parse_number (c # t @ x) = Some (v, r @ x)" by simp
        moreover have "c \<noteq> CHR ''n'' \<and> c \<noteq> CHR ''t'' \<and> c \<noteq> CHR ''f''"
          using digit_start [OF parse_number_start [OF num]] by blast
        ultimately show ?thesis using c1 c2 by (simp add: m ext startswith_def)
      qed
    qed
  qed
next
  case (4 n s)
  then obtain k where m: "m = Suc k" "n \<le> k" by (cases m) auto
  from 4(3) obtain v r where v: "parse_value n s = Some (v, r)" by (auto split: option.splits)
  with 4(3) obtain c t where c: "skip_space r = c # t" by (cases "skip_space r") auto
  then have "r \<noteq> []" by auto
  with 4(1) [OF v _ m(2)] have v': "parse_value k (s @ x) = Some (v, r @ x)" by blast
  show ?case
  proof (cases "c = CHR '',''")
    case True
    with 4(3) v c obtain ws where w: "parse_items n t = Some (ws, q)" "vs = v # ws" by auto
    with 4(2) [OF v refl c True _ m(2)] have "parse_items k (t @ x) = Some (ws, q @ x)" by blast
    with v' c w True show ?thesis by (simp add: m skip_space_Cons [OF c])
  next
    case False
    with 4(3) v c v' show ?thesis by (auto simp: m skip_space_Cons [OF c] split: if_splits)
  qed
next
  case (6 n s)
  then obtain j where m: "m = Suc j" "n \<le> j" by (cases m) auto
  from 6(3) obtain t where t: "skip_space s = CHR 0x22 # t" by (cases "skip_space s") (auto split: if_splits)
  with 6(3) obtain k r where k: "parse_string t = Some (k, r)" by (auto split: option.splits)
  with 6(3) t obtain u where u: "skip_space r = CHR '':'' # u" by (cases "skip_space r") (auto split: if_splits)
  with 6(3) t k obtain v w where v: "parse_value n u = Some (v, w)" by (auto split: option.splits)
  with 6(3) t k u obtain e y where e: "skip_space w = e # y" by (cases "skip_space w") auto
  then have "w \<noteq> []" by auto
  with 6(1) [OF t _ k refl u _ v _ m(2)] have v': "parse_value j (u @ x) = Some (v, w @ x)" by blast
  note ext = skip_space_Cons [OF t] parse_string_extends [OF k] skip_space_Cons [OF u] v' skip_space_Cons [OF e]
  show ?case
  proof (cases "e = CHR '',''")
    case True
    with 6(3) t k u v e obtain ms where w: "parse_members n y = Some (ms, q)" "d = (k, v) # ms" by auto
    have "parse_members j (y @ x) = Some (ms, q @ x)"
      by (rule 6(2) [OF t _ k refl u _ v refl e True w(1) m(2)]) simp_all
    with w True show ?thesis by (simp add: m ext)
  next
    case False
    with 6(3) t k u v e show ?thesis by (auto simp: m ext split: if_splits)
  qed
qed simp_all

lemma loads_prefix:
  assumes "wf_json (JObj d)" and split: "dumps (JObj d) = p @ x" and w: "loads p = Some w"
  shows "x = []"
proof -
  from w obtain r where p: "parse_value (Suc (length p)) p = Some (w, r)"
    by (auto simp: loads_def split: option.splits if_splits)
  then have "p \<noteq> []" by auto
  with split obtain t where t: "p = CHR ''{'' # t" by (cases p) auto
  with p have "\<forall>i. w \<noteq> JInt i" by (auto split: if_splits)
  with parse_extends(1) [OF p] have "parse_value (Suc (length (p @ x))) (p @ x) = Some (w, r @ x)"
    by (simp del: parse_value.simps)
  moreover have "parse_value (Suc (length (p @ x))) ((p @ x) @ []) = Some (canonical (JObj d), [])"
    using dumps_reads_back [OF assms(1)] unfolding reads_back_def split by (metis le_SucI order_refl stops_simps(1))
  ultimately show ?thesis by (simp del: parse_value.simps)
qed

end
