(* ===== verification/Processes.thy ===== *)
theory Processes
  imports Registry_Rows Json_Text
begin

text \<open>
  Process evidence of one attempt (\<open>utilities/dispatch_contract.py\<close>, from
  \<open>process_start_ticks\<close> to \<open>observed_attempt_liveness\<close>). The kernel is a parameter: an \<open>os\<close>
  record answers what reading \<open>/proc\<close>, a namespace link or a process group returns at the moment
  of the call, errors included; no law is assumed of it. The text of \<open>/proc/<pid>/stat\<close> is parsed as
  the code parses it.
\<close>

section \<open>What the kernel answers\<close>

datatype 'a os_read = ReadOk 'a | NotFound | Permission | OSErr int

record os =
  os_entries :: "string list os_read"          \<comment> \<open>names under \<open>/proc\<close>\<close>
  os_stat :: "string \<Rightarrow> string os_read"        \<comment> \<open>\<open>/proc/<name>/stat\<close>\<close>
  os_environ :: "string \<Rightarrow> string os_read"     \<comment> \<open>\<open>/proc/<name>/environ\<close>\<close>
  os_nspid :: "string \<Rightarrow> string list option"   \<comment> \<open>lines of \<open>/proc/<name>/status\<close>\<close>
  os_ns :: "string \<Rightarrow> string option"           \<comment> \<open>\<open>readlink /proc/<name>/ns/pid\<close>\<close>
  os_getpgid :: "int \<Rightarrow> int os_read"

definition ENOENT :: int where "ENOENT = 2"
definition ESRCH :: int where "ESRCH = 3"
definition EACCES :: int where "EACCES = 13"
definition EPERM :: int where "EPERM = 1"

definition PID_HOST_NAMESPACE_PROOF :: string where
  "PID_HOST_NAMESPACE_PROOF = ''nspid-procfs-root-v1''"

definition GROUP_REAP_PROOF :: string where
  "GROUP_REAP_PROOF = ''pgid-empty-v1''"

definition split_blank :: "string \<Rightarrow> string list" where
  \<comment> \<open>\<open>str.split()\<close>\<close>
  "split_blank s = filter (\<lambda>w. w \<noteq> []) (split_on CHR '' '' (map (\<lambda>c. if is_space c then CHR '' '' else c) s))"

definition stat_tail :: "string \<Rightarrow> string list" where
  \<comment> \<open>\<open>raw[raw.rfind(")") + 2 :].split()\<close>\<close>
  "stat_tail raw = split_blank (drop 1 (rev (takeWhile (\<lambda>c. c \<noteq> CHR '')'') (rev raw))))"

definition os_error :: "int \<Rightarrow> string" where
  \<comment> \<open>\<open>exc.errno or 'error'\<close>\<close>
  "os_error e = (if e = 0 then ''error'' else int_str e)"

section \<open>One process\<close>

definition process_start_ticks :: "os \<Rightarrow> int \<Rightarrow> string option" where
  "process_start_ticks os pid =
    (if pid \<le> 0 then None
     else case os_stat os (int_str pid) of
       ReadOk raw \<Rightarrow> if 19 < length (stat_tail raw) then Some (stat_tail raw ! 19) else None
     | _ \<Rightarrow> None)"

definition process_state :: "os \<Rightarrow> int \<Rightarrow> string option" where
  "process_state os pid =
    (if pid \<le> 0 then None
     else case os_stat os (int_str pid) of
       ReadOk raw \<Rightarrow> if stat_tail raw \<noteq> [] then Some (stat_tail raw ! 0) else None
     | _ \<Rightarrow> None)"

definition proc_observation :: "os \<Rightarrow> int \<Rightarrow> string \<times> string \<times> string" where
  "proc_observation os pid = (case os_stat os (int_str pid) of
       NotFound \<Rightarrow> (''missing'', [], [])
     | Permission \<Rightarrow> (''inaccessible'', [], [])
     | OSErr e \<Rightarrow> if e = ENOENT \<or> e = ESRCH then (''missing'', [], []) else (''inaccessible'', [], [])
     | ReadOk raw \<Rightarrow>
         if 19 < length (stat_tail raw) then (''present'', stat_tail raw ! 19, stat_tail raw ! 0)
         else (''inaccessible'', [], []))"

definition process_identity_is_live :: "os \<Rightarrow> int \<Rightarrow> string \<Rightarrow> bool" where
  "process_identity_is_live os pid expected_start =
    (let (visibility, actual_start, state) = proc_observation os pid in
     expected_start \<noteq> [] \<and> visibility = ''present'' \<and> actual_start = expected_start \<and> state \<noteq> ''Z'')"

definition exact_process_group_signal_authority :: "os \<Rightarrow> int \<Rightarrow> string \<Rightarrow> string" where
  "exact_process_group_signal_authority os pid expected_start =
    (let (visibility, actual_start, state) = proc_observation os pid in
     if visibility = ''missing'' then ''leader-gone''
     else if visibility \<noteq> ''present'' then ''identity-unverifiable''
     else if actual_start \<noteq> expected_start then ''pid-reused''
     else if state = ''Z'' then ''leader-gone''
     else case os_getpgid os pid of
       ReadOk g \<Rightarrow> if g = pid then ''authoritative'' else ''non-group-leader''
     | NotFound \<Rightarrow> ''leader-gone''
     | _ \<Rightarrow> ''signal-error'')"

text \<open>The two validations happen at two moments; \<open>kill\<close> is what \<open>killpg\<close> answers. The flag says
  whether the signal was sent.\<close>

definition signal_exact_process_group ::
  "os \<Rightarrow> os \<Rightarrow> unit os_read \<Rightarrow> int \<Rightarrow> string \<Rightarrow> string \<times> bool" where
  "signal_exact_process_group os1 os2 kill pid expected_start =
    (let first = exact_process_group_signal_authority os1 pid expected_start in
     if first \<noteq> ''authoritative'' then (first, False)
     else let second = exact_process_group_signal_authority os2 pid expected_start in
     if second \<noteq> ''authoritative'' then (second, False)
     else case kill of
       ReadOk _ \<Rightarrow> (''signalled'', True)
     | NotFound \<Rightarrow> (''leader-gone'', True)
     | _ \<Rightarrow> (''signal-error'', True))"

section \<open>Process groups and tagged descendants\<close>

record group_observation =
  g_state :: string
  g_members :: "(int \<times> string \<times> string) list"
  g_reason :: string

primrec group_scan ::
  "os \<Rightarrow> int \<Rightarrow> string list \<Rightarrow> (int \<times> string \<times> string) list \<Rightarrow> string
   \<Rightarrow> (int \<times> string \<times> string) list \<times> string" where
  "group_scan os pgid [] members reason = (members, reason)"
| "group_scan os pgid (name # names) members reason =
    (if \<not> isdigit name then group_scan os pgid names members reason
     else case os_stat os name of
       NotFound \<Rightarrow> group_scan os pgid names members reason
     | Permission \<Rightarrow> group_scan os pgid names members (''procfs-member:'' @ name @ '':'' @ os_error EACCES)
     | OSErr e \<Rightarrow> if e = ENOENT \<or> e = ESRCH then group_scan os pgid names members reason
                 else group_scan os pgid names members (''procfs-member:'' @ name @ '':'' @ os_error e)
     | ReadOk raw \<Rightarrow>
        (let tail = stat_tail raw; malformed = ''procfs-member:'' @ name @ '':malformed'' in
         if length tail \<le> 2 then group_scan os pgid names members malformed
         else case py_int (tail ! 2) of
           None \<Rightarrow> group_scan os pgid names members malformed
         | Some g \<Rightarrow>
             if g \<noteq> pgid then group_scan os pgid names members reason
             else if length tail \<le> 19 then group_scan os pgid names members malformed
             else group_scan os pgid names (members @ [(digits_val name, tail ! 19, tail ! 0)]) reason))"

definition process_group_observation :: "os \<Rightarrow> int \<Rightarrow> group_observation" where
  "process_group_observation os pgid =
    (if pgid \<le> 0 then \<lparr>g_state = ''unverifiable'', g_members = [], g_reason = ''invalid-pgid''\<rparr>
     else case os_entries os of
       ReadOk names \<Rightarrow>
         (let (members, reason) = group_scan os pgid names [] []; ordered = sort_key fst members in
          if list_ex (\<lambda>(p, s, st). st \<noteq> ''Z'') ordered
          then \<lparr>g_state = ''populated'', g_members = ordered, g_reason = reason\<rparr>
          else if reason \<noteq> [] then \<lparr>g_state = ''unverifiable'', g_members = ordered, g_reason = reason\<rparr>
          else \<lparr>g_state = ''empty'', g_members = ordered, g_reason = []\<rparr>)
     | _ \<Rightarrow> \<lparr>g_state = ''unverifiable'', g_members = [], g_reason = ''procfs-enumeration''\<rparr>)"

definition local_identity_namespace_authority :: "os \<Rightarrow> meta \<Rightarrow> bool" where
  "local_identity_namespace_authority os md =
    (let recorded_observer = mget md ''pid_observer_ns'' []; recorded_pid = mget md ''pid_ns'' [];
         pid_scope = mget md ''pid_scope'' ''host-visible'' in
     (recorded_observer \<noteq> [] \<and> os_ns os ''self'' = Some recorded_observer \<and>
        (recorded_pid = [] \<or> recorded_pid = recorded_observer)) \<or>
     (recorded_observer = [] \<and> pid_scope \<noteq> ''namespace-local''))"

definition attempt_scan_namespace_authority :: "os \<Rightarrow> meta \<Rightarrow> bool" where
  "attempt_scan_namespace_authority os md =
    (case os_ns os ''self'' of
       None \<Rightarrow> False
     | Some current \<Rightarrow>
        (if current = [] then False
         else let recorded_observer = mget md ''pid_observer_ns'' [] in
         if recorded_observer \<noteq> [] then
           recorded_observer = current \<or>
           (map_of md ''pid_host_proof'' = Some PID_HOST_NAMESPACE_PROOF \<and> map_of md ''pid_host_ns'' = Some current)
         else mget md ''pid_scope'' ''host-visible'' \<noteq> ''namespace-local''))"

definition nul :: char where "nul = CHR 0x00"

primrec descendant_scan ::
  "os \<Rightarrow> string \<Rightarrow> string list \<Rightarrow> (int \<times> string \<times> string) list \<Rightarrow> string
   \<Rightarrow> (int \<times> string \<times> string) list \<times> string" where
  "descendant_scan os tag [] members reason = (members, reason)"
| "descendant_scan os tag (name # names) members reason =
    (if \<not> isdigit name then descendant_scan os tag names members reason
     else case os_stat os name of
       ReadOk raw \<Rightarrow>
        (let tail = stat_tail raw in
         if length tail \<le> 19
         then descendant_scan os tag names members (''procfs-member:'' @ name @ '':malformed'')
         else if tail ! 0 = ''Z'' then descendant_scan os tag names members reason
         else case os_environ os name of
           ReadOk environ \<Rightarrow>
             if tag \<in> set (split_on nul environ)
             then descendant_scan os tag names (members @ [(digits_val name, tail ! 19, tail ! 0)]) reason
             else descendant_scan os tag names members reason
         | OSErr e \<Rightarrow>
             if e \<in> {ENOENT, ESRCH, EACCES, EPERM} then descendant_scan os tag names members reason
             else descendant_scan os tag names members (''procfs-environ:'' @ name @ '':'' @ os_error e)
         | _ \<Rightarrow> descendant_scan os tag names members reason)
     | OSErr e \<Rightarrow>
         if e \<in> {ENOENT, ESRCH, EACCES, EPERM} then descendant_scan os tag names members reason
         else descendant_scan os tag names members (''procfs-environ:'' @ name @ '':'' @ os_error e)
     | _ \<Rightarrow> descendant_scan os tag names members reason)"

definition attempt_tag :: "meta \<Rightarrow> string" where
  "attempt_tag md = ''AGENT_DISPATCH_ATTEMPT_ID='' @ mget md ''attempt_id'' []"

definition attempt_tagged_descendants :: "os \<Rightarrow> meta \<Rightarrow> group_observation" where
  "attempt_tagged_descendants os md =
    (if mget md ''attempt_id'' [] = []
     then \<lparr>g_state = ''unverifiable'', g_members = [], g_reason = ''attempt-id-missing''\<rparr>
     else case os_entries os of
       ReadOk names \<Rightarrow>
         (let (members, reason) = descendant_scan os (attempt_tag md) names [] [];
              ordered = sort_key fst members in
          if ordered \<noteq> [] then \<lparr>g_state = ''populated'', g_members = ordered, g_reason = reason\<rparr>
          else if reason \<noteq> [] then \<lparr>g_state = ''unverifiable'', g_members = [], g_reason = reason\<rparr>
          else if \<not> attempt_scan_namespace_authority os md
          then \<lparr>g_state = ''unverifiable'', g_members = [], g_reason = ''observer-namespace-mismatch''\<rparr>
          else \<lparr>g_state = ''empty'', g_members = [], g_reason = []\<rparr>)
     | _ \<Rightarrow> \<lparr>g_state = ''unverifiable'', g_members = [], g_reason = ''procfs-enumeration''\<rparr>)"

section \<open>Authoritative identities\<close>

record process_identity =
  i_source :: string
  i_pid :: int
  i_start :: string

definition local_candidates :: "os \<Rightarrow> meta \<Rightarrow> process_identity list" where
  "local_candidates os md =
    (let raw_pid = mget md ''pid'' []; local_start = mget md ''pid_start'' [] in
     if isdigit raw_pid \<and> local_start \<noteq> [] \<and> local_identity_namespace_authority os md
     then [\<lparr>i_source = ''local'', i_pid = digits_val raw_pid, i_start = local_start\<rparr>] else [])"

definition authoritative_process_identities :: "os \<Rightarrow> meta \<Rightarrow> process_identity list" where
  "authoritative_process_identities os md =
    (let candidates = local_candidates os md;
         local_start = mget md ''pid_start'' [];
         raw_host = mget md ''pid_host'' [];
         host_start = (if mget md ''pid_host_start'' [] \<noteq> [] then mget md ''pid_host_start'' [] else local_start);
         recorded_host_namespace = mget md ''pid_host_ns'' [];
         host_authoritative = (isdigit raw_host \<and> host_start \<noteq> [] \<and>
           (local_start = [] \<or> host_start = local_start) \<and>
           map_of md ''pid_host_proof'' = Some PID_HOST_NAMESPACE_PROOF \<and>
           (case os_ns os ''self'' of None \<Rightarrow> False
              | Some current \<Rightarrow> current \<noteq> [] \<and> current = recorded_host_namespace));
         candidate = \<lparr>i_source = ''host'', i_pid = digits_val raw_host, i_start = host_start\<rparr>;
         all = (if host_authoritative \<and>
                   \<not> list_ex (\<lambda>c. i_pid c = i_pid candidate \<and> i_start c = i_start candidate) candidates
                then candidates @ [candidate] else candidates)
     in if 1 < length all then [] else all)"

definition foreground_reap_receipt :: "meta \<Rightarrow> bool" where
  "foreground_reap_receipt md =
    (let raw_pid = mget md ''pid'' []; raw_group = mget md ''pgid'' [];
         observer_namespace = mget md ''pid_observer_ns'' []; process_namespace = mget md ''pid_ns'' [] in
     isdigit raw_pid \<and> mget md ''pid_start'' [] \<noteq> [] \<and> raw_group = raw_pid \<and>
     observer_namespace \<noteq> [] \<and> process_namespace = observer_namespace \<and>
     map_of md ''launch_lifecycle'' = Some ''foreground-scoped'' \<and>
     map_of md ''launch_outcome'' = Some ''governed-process-reaped'' \<and>
     map_of md ''group_reap_proof'' = Some GROUP_REAP_PROOF \<and>
     map_of md ''group_reap_pgid'' = Some raw_group)"

section \<open>Quiescence\<close>

record quiescence =
  q_state :: string
  q_reason :: string
  q_pid :: "int option"
  q_identity :: "process_identity option"

abbreviation verdict :: "string \<Rightarrow> string \<Rightarrow> quiescence" where
  "verdict state reason \<equiv> \<lparr>q_state = state, q_reason = reason, q_pid = None, q_identity = None\<rparr>"

definition group_is_owned :: "meta \<Rightarrow> process_identity \<Rightarrow> bool" where
  "group_is_owned md c =
    (let raw_group = mget md (if i_source c = ''host'' then ''pgid_host'' else ''pgid'') [] in
     isdigit raw_group \<and> digits_val raw_group = i_pid c)"

primrec quiescence_loop ::
  "os \<Rightarrow> meta \<Rightarrow> bool \<Rightarrow> process_identity list \<Rightarrow> quiescence list \<Rightarrow> string list \<Rightarrow> quiescence" where
  "quiescence_loop os md reap [] terminal unresolved =
    (if reap then verdict ''quiescent'' ''governed-process-group-reaped''
     else if unresolved \<noteq> [] then verdict ''unverifiable'' (hd unresolved)
     else if terminal \<noteq> [] then hd terminal
     else verdict ''unverifiable'' ''process-identity-unverifiable'')"
| "quiescence_loop os md reap (c # cs) terminal unresolved =
    (let (visibility, actual_start, state) = proc_observation os (i_pid c);
         quiet = (\<lambda>reason. \<lparr>q_state = ''quiescent'', q_reason = reason, q_pid = Some (i_pid c), q_identity = Some c\<rparr>) in
     if visibility = ''inaccessible''
     then quiescence_loop os md reap cs terminal (unresolved @ [i_source c @ ''-process-identity-inaccessible''])
     else if visibility = ''missing'' then
       (if \<not> group_is_owned md c
        then quiescence_loop os md reap cs terminal (unresolved @ [i_source c @ ''-process-group-identity-unverifiable''])
        else let group = process_group_observation os (i_pid c);
                 live_members = filter (\<lambda>(p, s, st). st \<noteq> ''Z'') (g_members group) in
          if live_members \<noteq> []
          then \<lparr>q_state = ''live'', q_reason = i_source c @ ''-process-group-live'',
                 q_pid = Some (fst (hd live_members)), q_identity = Some c\<rparr>
          else if g_state group \<noteq> ''empty''
          then quiescence_loop os md reap cs terminal (unresolved @ [i_source c @ ''-process-group-unverifiable''])
          else quiescence_loop os md reap cs
                 (terminal @ [quiet (if reap then ''governed-process-group-reaped'' else i_source c @ ''-pid-gone'')])
                 unresolved)
     else if actual_start \<noteq> i_start c
     then quiescence_loop os md reap cs (terminal @ [quiet (i_source c @ ''-pid-reused'')]) unresolved
     else if state = ''Z'' then
       (if \<not> group_is_owned md c
        then quiescence_loop os md reap cs terminal (unresolved @ [i_source c @ ''-process-group-identity-unverifiable''])
        else let group = process_group_observation os (i_pid c);
                 live_members = filter (\<lambda>(p, s, st). p \<noteq> i_pid c \<and> st \<noteq> ''Z'') (g_members group) in
          if live_members \<noteq> []
          then \<lparr>q_state = ''live'', q_reason = i_source c @ ''-process-group-live'',
                 q_pid = Some (fst (hd live_members)), q_identity = Some c\<rparr>
          else if g_state group \<noteq> ''empty''
          then quiescence_loop os md reap cs terminal (unresolved @ [i_source c @ ''-process-group-unverifiable''])
          else quiescence_loop os md reap cs (terminal @ [quiet (i_source c @ ''-pid-zombie'')]) unresolved)
     else \<lparr>q_state = ''live'', q_reason = i_source c @ ''-pid-live'', q_pid = Some (i_pid c), q_identity = Some c\<rparr>)"

definition attempt_process_quiescence_impl :: "os \<Rightarrow> meta \<Rightarrow> quiescence" where
  "attempt_process_quiescence_impl os md =
    (let launch_outcome = mget md ''launch_outcome'' []; raw_pid = mget md ''pid'' [] in
     if raw_pid = [] then
       (if launch_outcome \<in> {''never-launched'', ''reaped-before-publish''}
        then verdict ''quiescent'' launch_outcome
        else verdict ''unverifiable'' ''process-identity-missing'')
     else if \<not> isdigit raw_pid \<or> mget md ''pid_start'' [] = []
     then verdict ''unverifiable'' ''process-identity-invalid''
     else let candidates = authoritative_process_identities os md; reap = foreground_reap_receipt md in
       if candidates = [] then
         (if reap then verdict ''quiescent'' ''governed-process-group-reaped''
          else verdict ''unverifiable'' ''process-namespace-unverifiable'')
       else quiescence_loop os md reap candidates [] [])"

definition attempt_process_quiescence :: "os \<Rightarrow> meta \<Rightarrow> quiescence" where
  "attempt_process_quiescence os md =
    (let result = attempt_process_quiescence_impl os md in
     if q_state result \<noteq> ''quiescent'' then result
     else if mget md ''attempt_id'' [] = [] then result
     else let probe = attempt_tagged_descendants os md in
       if g_state probe = ''populated''
       then \<lparr>q_state = ''live'', q_reason = ''attempt-descendant-live'',
              q_pid = Some (fst (hd (g_members probe))), q_identity = None\<rparr>
       else if g_state probe = ''unverifiable''
       then verdict ''unverifiable'' ''attempt-descendant-unverifiable''
       else result)"

section \<open>Registry state combined with process evidence\<close>

record observed_liveness =
  o_state :: string
  o_reason :: string
  o_process_state :: string
  o_process_reason :: string

definition observed_attempt_liveness :: "os \<Rightarrow> string \<Rightarrow> meta \<Rightarrow> bool \<Rightarrow> observed_liveness" where
  "observed_attempt_liveness os status md terminal_envelope =
    (let process = attempt_process_quiescence os md;
         (state, reason) =
           (if status \<in> {''open'', ''running''} then
              if q_state process = ''live'' then (''alive'', q_reason process)
              else if q_state process = ''quiescent''
              then (''reconcile-needed'', if terminal_envelope then ''terminal-observed'' else ''process-exited'')
              else (''unverifiable'', q_reason process)
            else if status \<in> {''done'', ''killed'', ''cancelled''} then
              if q_state process = ''quiescent'' then (''terminal'', ''registry-closed'')
              else if q_state process = ''live'' then (''alive'', ''registry-terminal-process-live'')
              else (''unverifiable'', q_reason process)
            else (''unverifiable'', ''registry-status-invalid''))
     in \<lparr>o_state = state, o_reason = reason, o_process_state = q_state process, o_process_reason = q_reason process\<rparr>)"

section \<open>Capturing and checking a launch identity\<close>

definition process_namespace_pids :: "os \<Rightarrow> int \<Rightarrow> int list" where
  \<comment> \<open>the first \<open>NSpid:\<close> line decides; an unparsable one gives no vector\<close>
  "process_namespace_pids os pid = (case os_nspid os (int_str pid) of
       None \<Rightarrow> []
     | Some lines \<Rightarrow> (case find (startswith ''NSpid:'') lines of
         None \<Rightarrow> []
       | Some line \<Rightarrow> (let ws = map py_int (drop 1 (split_blank line)) in
           if None \<in> set ws then [] else map the ws)))"

definition process_launch_identity :: "os \<Rightarrow> int \<Rightarrow> meta" where
  "process_launch_identity os pid =
    (let observer = os_ns os ''self''; child = os_ns os (int_str pid);
         present = (\<lambda>ns. case ns of None \<Rightarrow> False | Some n \<Rightarrow> n \<noteq> []);
         aligned = (present observer \<and> present child \<and> observer = child);
         start = (if aligned then process_start_ticks os pid else None);
         pids = (if aligned then process_namespace_pids os pid else []);
         root0 = (if aligned then os_ns os ''1'' else None);
         root = (if \<not> present root0 \<and> length pids = 1 \<and> present observer \<and> child = observer
                 then observer else root0);
         hosted = (pids \<noteq> [] \<and> last pids = pid \<and> present root);
         base = [(''pid'', int_str pid)]
           @ (if present observer then [(''pid_observer_ns'', the observer)] else [])
           @ (if present child then [(''pid_ns'', the child)] else [])
           @ (if present start then [(''pid_start'', the start)] else [])
           @ (if hosted then [(''pid_host'', int_str (hd pids))]
                @ (if present start then [(''pid_host_start'', the start)] else [])
                @ [(''pid_host_ns'', the root), (''pid_host_proof'', PID_HOST_NAMESPACE_PROOF)] else [])
     in case os_getpgid os pid of
       ReadOk g \<Rightarrow> base @ [(''pgid'', int_str g)]
          @ (if g = pid \<and> mget base ''pid_host'' [] \<noteq> [] then [(''pgid_host'', mget base ''pid_host'' [])] else [])
     | _ \<Rightarrow> base)"

definition launch_identity_complete :: "os \<Rightarrow> int \<Rightarrow> meta \<Rightarrow> bool" where
  "launch_identity_complete os pid identity =
    (let observer = mget identity ''pid_observer_ns'' []; expected_start = mget identity ''pid_start'' [] in
     if \<not> (map_of identity ''pid'' = Some (int_str pid) \<and> expected_start \<noteq> [] \<and> observer \<noteq> [] \<and>
           map_of identity ''pid_ns'' = Some observer \<and> map_of identity ''pgid'' = Some (int_str pid))
     then False
     else let (visibility, actual_start, state) = proc_observation os pid in
     if \<not> (visibility = ''present'' \<and> actual_start = expected_start \<and> state \<noteq> ''Z'' \<and>
           exact_process_group_signal_authority os pid expected_start = ''authoritative'')
     then False
     else if list_ex (\<lambda>k. mget identity k [] \<noteq> [])
          [''pid_host'', ''pid_host_start'', ''pid_host_ns'', ''pid_host_proof'', ''pgid_host'']
     then let raw_host = mget identity ''pid_host'' [] in
       isdigit raw_host \<and> map_of identity ''pid_host_start'' = Some expected_start \<and>
       mget identity ''pid_host_ns'' [] \<noteq> [] \<and>
       map_of identity ''pid_host_proof'' = Some PID_HOST_NAMESPACE_PROOF \<and>
       map_of identity ''pgid_host'' = Some raw_host
     else True)"


section \<open>What quiescence means\<close>

text \<open>The scans only ever add members and never forget a reason.\<close>

lemma descendant_scan_mono:
  "descendant_scan os tag names ms r = (ms', r') \<Longrightarrow> (\<exists>xs. ms' = ms @ xs) \<and> (r \<noteq> [] \<longrightarrow> r' \<noteq> [])"
proof (induction names arbitrary: ms r)
  case (Cons name names)
  show ?case
    using Cons.prems
    by (auto simp: Let_def split: if_splits os_read.splits dest!: Cons.IH)
qed simp

definition tag_absent :: "os \<Rightarrow> string \<Rightarrow> string \<Rightarrow> bool" where
  \<comment> \<open>no readable, unreaped process of that name carries the tag\<close>
  "tag_absent os tag name = (case os_stat os name of
       ReadOk raw \<Rightarrow> 19 < length (stat_tail raw) \<and> (stat_tail raw ! 0 = ''Z'' \<or>
         (case os_environ os name of ReadOk environ \<Rightarrow> tag \<notin> set (split_on nul environ) | _ \<Rightarrow> True))
     | _ \<Rightarrow> True)"

lemma descendant_scan_empty:
  "descendant_scan os tag names [] [] = ([], []) \<Longrightarrow> \<forall>name \<in> set names. isdigit name \<longrightarrow> tag_absent os tag name"
proof (induction names)
  case (Cons name names)
  have step: "descendant_scan os tag names ms r = ([], []) \<Longrightarrow> ms = [] \<and> r = []" for ms r
    using descendant_scan_mono [of os tag names ms r "[]" "[]"] by auto
  show ?case
    using Cons.prems
    by (auto simp: Let_def tag_absent_def split: if_splits os_read.splits dest!: step Cons.IH)
qed simp

lemma descendants_empty:
  assumes "g_state (attempt_tagged_descendants os md) \<notin> {''populated'', ''unverifiable''}"
  obtains names where "os_entries os = ReadOk names" "attempt_scan_namespace_authority os md"
    "\<forall>name \<in> set names. isdigit name \<longrightarrow> tag_absent os (attempt_tag md) name"
proof -
  obtain names where names: "os_entries os = ReadOk names"
    using assms by (auto simp: attempt_tagged_descendants_def split: if_splits os_read.splits)
  obtain ms r where scan: "descendant_scan os (attempt_tag md) names [] [] = (ms, r)"
    by fastforce
  have sorted: "sort_key fst ms = [] \<longleftrightarrow> ms = []"
    by (metis length_0_conv length_sort)
  have "ms = []" "r = []" "attempt_scan_namespace_authority os md"
    using assms by (auto simp: attempt_tagged_descendants_def names scan sorted Let_def split: if_splits)
  with scan names that descendant_scan_empty show thesis by blast
qed

lemma quiescence_impl_live_or_quiet:
  "q_state (attempt_process_quiescence os md) = ''quiescent'' \<Longrightarrow>
   q_state (attempt_process_quiescence_impl os md) = ''quiescent''"
  by (auto simp: attempt_process_quiescence_def Let_def split: if_splits)

text \<open>A live exact leader stops the loop: the answer is \<open>live\<close>, whatever the receipt says.\<close>

lemma quiescence_loop_quiescent:
  "q_state (quiescence_loop os md reap cs t u) = ''quiescent'' \<Longrightarrow>
   \<forall>c \<in> set cs. \<not> process_identity_is_live os (i_pid c) (i_start c)"
proof (induction cs arbitrary: t u)
  case (Cons c cs)
  obtain v a s where obs: "proc_observation os (i_pid c) = (v, a, s)"
    by (cases "proc_observation os (i_pid c)")
  show ?case
  proof (cases "process_identity_is_live os (i_pid c) (i_start c)")
    case True
    then have "v = ''present''" "a = i_start c" "s \<noteq> ''Z''"
      by (auto simp: process_identity_is_live_def obs)
    with Cons.prems show ?thesis by (simp add: obs)
  next
    case False
    have "\<exists>t' u'. q_state (quiescence_loop os md reap cs t' u') = ''quiescent''"
      using Cons.prems
      by (simp add: obs Let_def split: if_splits) blast+
    with False Cons.IH show ?thesis by auto
  qed
qed simp

lemma quiescence_impl_no_live_identity:
  assumes "q_state (attempt_process_quiescence_impl os md) = ''quiescent''" "mget md ''pid'' [] \<noteq> []"
    "c \<in> set (authoritative_process_identities os md)"
  shows "\<not> process_identity_is_live os (i_pid c) (i_start c)"
proof -
  have "q_state (quiescence_loop os md (foreground_reap_receipt md) (authoritative_process_identities os md) [] []) = ''quiescent''"
    using assms by (auto simp: attempt_process_quiescence_impl_def Let_def split: if_splits)
  from quiescence_loop_quiescent [OF this] assms(3) show ?thesis by blast
qed

lemma identities_at_most_one: "length (authoritative_process_identities os md) \<le> 1"
  by (auto simp: authoritative_process_identities_def Let_def)


section \<open>Capture and use of an identity\<close>

lemma stat_tail_nonempty: "w \<in> set (stat_tail raw) \<Longrightarrow> w \<noteq> []"
  by (auto simp: stat_tail_def split_blank_def)

lemma observation_start_nonempty:
  "proc_observation os pid = (''present'', a, s) \<Longrightarrow> a \<noteq> []"
  by (auto simp: proc_observation_def split: os_read.splits if_splits dest!: nth_mem stat_tail_nonempty)

lemma authority_exact:
  assumes "exact_process_group_signal_authority os pid start = ''authoritative''"
  shows "process_identity_is_live os pid start \<and> os_getpgid os pid = ReadOk pid"
proof -
  obtain v a s where obs: "proc_observation os pid = (v, a, s)"
    by (cases "proc_observation os pid")
  with assms have "v = ''present''" "a = start" "s \<noteq> ''Z''" "os_getpgid os pid = ReadOk pid"
    by (auto simp: exact_process_group_signal_authority_def split: if_splits os_read.splits)
  with obs observation_start_nonempty [of os pid a s] show ?thesis
    by (simp add: process_identity_is_live_def)
qed

lemma authority_intro:
  "process_identity_is_live os pid start \<Longrightarrow> os_getpgid os pid = ReadOk pid \<Longrightarrow>
   exact_process_group_signal_authority os pid start = ''authoritative''"
  by (auto simp: process_identity_is_live_def exact_process_group_signal_authority_def Let_def split: prod.splits)

lemma live_ticks:
  assumes "process_identity_is_live os pid start" "0 < pid"
  shows "process_start_ticks os pid = Some start"
  using assms by (auto simp: process_identity_is_live_def proc_observation_def process_start_ticks_def
      split: os_read.splits if_splits)

lemma int_str_nonempty: "0 \<le> i \<Longrightarrow> int_str i \<noteq> []"
  using nat_str_digit by (simp add: int_str_def)

text \<open>The identity captured for a group leader seen in the observer's own namespace.\<close>

lemma launch_identity_local:
  assumes "0 < pid" "process_identity_is_live os pid start" "os_getpgid os pid = ReadOk pid"
    "os_ns os ''self'' = Some ns" "os_ns os (int_str pid) = Some ns" "ns \<noteq> []"
    "os_ns os ''1'' = None \<or> os_ns os ''1'' = Some ns"
    "process_namespace_pids os pid = [pid]"
  shows "process_launch_identity os pid =
    [(''pid'', int_str pid), (''pid_observer_ns'', ns), (''pid_ns'', ns), (''pid_start'', start),
     (''pid_host'', int_str pid), (''pid_host_start'', start), (''pid_host_ns'', ns),
     (''pid_host_proof'', PID_HOST_NAMESPACE_PROOF), (''pgid'', int_str pid), (''pgid_host'', int_str pid)]"
proof -
  have "start \<noteq> []"
    using assms(2) by (simp add: process_identity_is_live_def split: prod.splits)
  then show ?thesis
    using assms live_ticks [OF assms(2,1)] int_str_nonempty [of pid]
    by (auto simp: process_launch_identity_def)
qed

text \<open>A verdict is one of three states.\<close>

lemma quiescence_loop_states:
  "(\<forall>q \<in> set t. q_state q = ''quiescent'') \<Longrightarrow>
   q_state (quiescence_loop os md reap cs t u) \<in> {''live'', ''quiescent'', ''unverifiable''}"
proof (induction cs arbitrary: t u)
  case Nil
  then show ?case by (cases t) auto
next
  case (Cons c cs)
  obtain v a s where obs: "proc_observation os (i_pid c) = (v, a, s)"
    by (cases "proc_observation os (i_pid c)")
  have ih: "q_state (quiescence_loop os md reap cs t' u') = ''live'' \<or>
      q_state (quiescence_loop os md reap cs t' u') = ''quiescent'' \<or>
      q_state (quiescence_loop os md reap cs t' u') = ''unverifiable''"
    if "\<forall>q \<in> set t'. q_state q = ''quiescent''" for t' u'
    using Cons.IH [OF that, of u'] by simp
  show ?case
    using Cons.prems by (simp add: obs Let_def ih)
qed

lemma quiescence_states:
  "q_state (attempt_process_quiescence os md) \<in> {''live'', ''quiescent'', ''unverifiable''}"
proof -
  have "q_state (attempt_process_quiescence_impl os md) \<in> {''live'', ''quiescent'', ''unverifiable''}"
    using quiescence_loop_states [of "[]" os md "foreground_reap_receipt md" "authoritative_process_identities os md" "[]"]
    by (simp add: attempt_process_quiescence_impl_def Let_def)
  then show ?thesis
    by (auto simp: attempt_process_quiescence_def Let_def)
qed


section \<open>Properties\<close>

definition demo_stat :: string where
  \<comment> \<open>\<open>7 (x) S 1 7 7 ... start ...\<close>: start time 99 in field 22\<close>
  "demo_stat = ''7 (x) S 1 7 7 0 0 0 0 0 0 0 0 0 0 0 0 0 0 0 99 0''"

definition demo_os :: os where
  "demo_os = \<lparr>os_entries = ReadOk [''self'', ''7''],
     os_stat = (\<lambda>n. if n = ''7'' then ReadOk demo_stat else NotFound),
     os_environ = (\<lambda>n. ReadOk ''AGENT_DISPATCH_ATTEMPT_ID=other''),
     os_nspid = (\<lambda>n. Some [''NSpid: 7'']),
     os_ns = (\<lambda>n. Some ''pid:[1]''),
     os_getpgid = (\<lambda>p. if p = 7 then ReadOk 7 else NotFound)\<rparr>"

definition demo_dead :: meta where
  "demo_dead = [(''attempt_id'', ''att-a''), (''pid'', ''9''), (''pid_start'', ''50''), (''pgid'', ''9''),
     (''pid_observer_ns'', ''pid:[1]''), (''pid_ns'', ''pid:[1]'')]"

lemma demo_stat_tail:
  "stat_tail demo_stat = [''S'', ''1'', ''7'', ''7'', ''0'', ''0'', ''0'', ''0'', ''0'', ''0'', ''0'', ''0'',
     ''0'', ''0'', ''0'', ''0'', ''0'', ''0'', ''0'', ''99'', ''0'']"
  by code_simp

text \<open>C3: when an attempt with an id and a recorded process is judged quiescent, no authoritative
  identity of it is a live process, the scan was made with authority over the attempt's namespace,
  the whole of \<open>/proc\<close> was enumerated, and no readable, unreaped process in it carries the
  attempt's tag in its environment.\<close>

theorem quiescent_means_nothing_runs:
  assumes "q_state (attempt_process_quiescence os md) = ''quiescent''"
    and "mget md ''attempt_id'' [] \<noteq> []" and "mget md ''pid'' [] \<noteq> []"
  shows "(\<forall>c \<in> set (authoritative_process_identities os md). \<not> process_identity_is_live os (i_pid c) (i_start c)) \<and>
    attempt_scan_namespace_authority os md \<and>
    (\<exists>names. os_entries os = ReadOk names \<and>
      (\<forall>name \<in> set names. isdigit name \<longrightarrow> tag_absent os (attempt_tag md) name))"
proof -
  have impl: "q_state (attempt_process_quiescence_impl os md) = ''quiescent''"
    using quiescence_impl_live_or_quiet assms(1) .
  have "g_state (attempt_tagged_descendants os md) \<notin> {''populated'', ''unverifiable''}"
    using assms impl by (auto simp: attempt_process_quiescence_def Let_def split: if_splits)
  then obtain names where "os_entries os = ReadOk names" "attempt_scan_namespace_authority os md"
      "\<forall>name \<in> set names. isdigit name \<longrightarrow> tag_absent os (attempt_tag md) name"
    by (rule descendants_empty)
  then show ?thesis
    using quiescence_impl_no_live_identity [OF impl assms(3)] by blast
qed

theorem quiescent_means_nothing_runs_witness:
  "q_state (attempt_process_quiescence demo_os demo_dead) = ''quiescent'' \<and>
   attempt_scan_namespace_authority demo_os demo_dead \<and> tag_absent demo_os (attempt_tag demo_dead) ''7''"
proof -
  have q: "q_state (attempt_process_quiescence demo_os demo_dead) = ''quiescent''"
    and d: "mget demo_dead ''attempt_id'' [] \<noteq> []" "mget demo_dead ''pid'' [] \<noteq> []" "isdigit ''7''"
    and e: "os_entries demo_os = ReadOk [''self'', ''7'']"
    by code_simp+
  show ?thesis
    using quiescent_means_nothing_runs [OF q d(1,2)] q d(3) e by auto
qed

text \<open>Liveness of an attempt combines registry and processes in one table: it is
  \<open>terminal\<close> exactly for a closed row whose processes are quiescent, \<open>alive\<close> exactly when a row
  with a known status has live processes, and \<open>reconcile-needed\<close> exactly for an open row whose
  processes are quiescent; every other combination is \<open>unverifiable\<close>.\<close>

theorem observed_liveness_table:
  "(let l = observed_attempt_liveness os st md env; q = q_state (attempt_process_quiescence os md);
        opened = (st = ''open'' \<or> st = ''running''); closed = (st = ''done'' \<or> st = ''killed'' \<or> st = ''cancelled'') in
    o_process_state l = q \<and>
    (o_state l = ''terminal'') = (closed \<and> q = ''quiescent'') \<and>
    (o_state l = ''alive'') = ((opened \<or> closed) \<and> q = ''live'') \<and>
    (o_state l = ''reconcile-needed'') = (opened \<and> q = ''quiescent'') \<and>
    (o_state l = ''unverifiable'') = ((\<not> opened \<and> \<not> closed) \<or> q = ''unverifiable''))"
  using quiescence_states [of os md] by (auto simp: observed_attempt_liveness_def Let_def)

text \<open>C4: a group signal is sent only to the exact process group that was recorded: at both
  validations the leader is a live process with the recorded start time and leads its own group, so
  a reused or reaped pid is never signalled.\<close>

theorem signal_only_exact_leader:
  assumes "snd (signal_exact_process_group os1 os2 kill pid start)"
  shows "process_identity_is_live os1 pid start \<and> process_identity_is_live os2 pid start \<and>
    os_getpgid os1 pid = ReadOk pid \<and> os_getpgid os2 pid = ReadOk pid"
proof -
  have "exact_process_group_signal_authority os1 pid start = ''authoritative''"
    "exact_process_group_signal_authority os2 pid start = ''authoritative''"
    using assms by (auto simp: signal_exact_process_group_def Let_def split: if_splits)
  then show ?thesis by (blast dest: authority_exact)
qed

theorem signal_only_exact_leader_witness:
  "snd (signal_exact_process_group demo_os demo_os (ReadOk ()) 7 ''99'') \<and> process_identity_is_live demo_os 7 ''99''"
proof -
  have "snd (signal_exact_process_group demo_os demo_os (ReadOk ()) 7 ''99'')" by code_simp
  then show ?thesis using signal_only_exact_leader [of demo_os demo_os "ReadOk ()" 7 "''99''"] by blast
qed

text \<open>The identity recorded at launch for a live group leader in the observer's own namespace
  is complete, is read back from the registry metadata as that one process, and makes the attempt
  \<open>live\<close>: capture and use of an identity are inverse.\<close>

theorem launch_identity_round_trip:
  assumes "0 < pid" "process_identity_is_live os pid start" "os_getpgid os pid = ReadOk pid"
    "os_ns os ''self'' = Some ns" "os_ns os (int_str pid) = Some ns" "ns \<noteq> []"
    "os_ns os ''1'' = None \<or> os_ns os ''1'' = Some ns"
    "process_namespace_pids os pid = [pid]"
  shows "launch_identity_complete os pid (process_launch_identity os pid) \<and>
    authoritative_process_identities os (process_launch_identity os pid)
      = [\<lparr>i_source = ''local'', i_pid = pid, i_start = start\<rparr>] \<and>
    q_state (attempt_process_quiescence os (process_launch_identity os pid)) = ''live''"
proof -
  have start: "start \<noteq> []" and obs: "\<exists>s. proc_observation os pid = (''present'', start, s) \<and> s \<noteq> ''Z''"
    using assms(2) by (auto simp: process_identity_is_live_def split: prod.splits)
  have auth: "exact_process_group_signal_authority os pid start = ''authoritative''"
    using authority_intro assms(2,3) .
  have digit: "isdigit (int_str pid)" "digits_val (int_str pid) = pid" "int_str pid \<noteq> []"
    using assms(1) by (auto intro: isdigit_int_str digits_val_int_str simp: int_str_nonempty)
  have complete: "launch_identity_complete os pid (process_launch_identity os pid)"
    using start obs auth digit assms by (auto simp: launch_identity_local launch_identity_complete_def)
  have ids: "authoritative_process_identities os (process_launch_identity os pid)
      = [\<lparr>i_source = ''local'', i_pid = pid, i_start = start\<rparr>]"
    using start digit assms
    by (simp add: launch_identity_local authoritative_process_identities_def local_candidates_def
        local_identity_namespace_authority_def Let_def)
  have "q_state (attempt_process_quiescence_impl os (process_launch_identity os pid)) = ''live''"
    using ids obs start digit assms
    by (auto simp: attempt_process_quiescence_impl_def launch_identity_local)
  then show ?thesis
    using complete ids by (simp add: attempt_process_quiescence_def)
qed

theorem launch_identity_round_trip_witness:
  "launch_identity_complete demo_os 7 (process_launch_identity demo_os 7)"
proof -
  have "process_identity_is_live demo_os 7 ''99''" "os_getpgid demo_os 7 = ReadOk 7"
    "os_ns demo_os ''self'' = Some ''pid:[1]''" "os_ns demo_os (int_str 7) = Some ''pid:[1]''"
    "os_ns demo_os ''1'' = None \<or> os_ns demo_os ''1'' = Some ''pid:[1]''"
    "process_namespace_pids demo_os 7 = [7]"
    by code_simp+
  then show ?thesis
    using launch_identity_round_trip [of 7 demo_os "''99''" "''pid:[1]''"] by simp
qed

end
