(* ===== verification/Workflow_State.thy ===== *)
theory Workflow_State
  imports Prelude
begin

text \<open>
  The tracked-workflow state machine and its ledger (\<open>utilities/workflow_state.py\<close>): the vocabulary
  of states and transitions read from \<open>capabilities/topologies.json\<close>, the append-only journal with
  its derived cache, the exactly-once successor claims, and the aggregation of node states.

  The journal is a list of terminated lines and, after a crash in the middle of an append, one
  unterminated last line. A line is an entry, blank, or text that \<open>json.loads\<close> refuses. A line
  that carries the separator 0x85 inside a string is written as one line and read back by
  \<open>splitlines\<close> as fragments, none of which is an object.
\<close>

section \<open>Vocabulary\<close>

record vocab =
  v_states :: "string list"
  v_failure_states :: "string list"
  v_transitions :: "(string \<times> string list) list"

definition NODE_STATES :: "string list" where
  "NODE_STATES = [''READY'', ''RUNNING'', ''STAGE_SUCCEEDED'', ''BLOCKED_HUMAN_GATE'', ''FAILED_RETRYABLE'',
     ''FAILED_TERMINAL'', ''CANCELLED'']"

definition str_tuple :: "json \<Rightarrow> string + string list" where
  \<comment> \<open>\<open>tuple(v)\<close> on the registry's lists of strings\<close>
  "str_tuple v = (case v of JList xs \<Rightarrow> if list_all is_str xs then Inr (map the_str xs)
       else Inl ''topology registry lacks workflow vocabulary''
     | _ \<Rightarrow> Inl ''topology registry lacks workflow vocabulary'')"

primrec transition_table :: "obj \<Rightarrow> string + (string \<times> string list) list" where
  "transition_table [] = Inr []"
| "transition_table (p # ps) = bindr (str_tuple (snd p)) (\<lambda>ts.
     bindr (transition_table ps) (\<lambda>rest. Inr ((fst p, ts) # rest)))"

definition vocabulary :: "obj \<Rightarrow> string + vocab" where
  "vocabulary registry =
    bindr (str_tuple (oget registry ''workflow_states'')) (\<lambda>st.
    bindr (str_tuple (oget registry ''workflow_failure_states'')) (\<lambda>fl.
    if \<not> is_obj (oget registry ''workflow_transitions'') \<or> \<not> is_obj (oget registry ''continuation_kinds'')
    then Inl ''topology registry lacks workflow vocabulary''
    else bindr (transition_table (the_obj (oget registry ''workflow_transitions''))) (\<lambda>tr.
    bindr (str_tuple (oget registry ''human_gate_positions'')) (\<lambda>_.
    Inr \<lparr>v_states = st, v_failure_states = fl, v_transitions = tr\<rparr>))))"

definition known_states :: "vocab \<Rightarrow> string list" where
  "known_states v = v_states v @ v_failure_states v"

definition can_transition :: "vocab \<Rightarrow> string \<Rightarrow> string \<Rightarrow> bool" where
  "can_transition v current target =
    (case map_of (v_transitions v) current of
       None \<Rightarrow> False
     | Some targets \<Rightarrow> target \<in> set (known_states v) \<and> target \<in> set targets)"

definition assert_transition :: "vocab \<Rightarrow> string \<Rightarrow> string \<Rightarrow> string + string" where
  "assert_transition v current target =
    (if current = target then Inr target
     else if \<not> can_transition v current target
     then Inl (''illegal workflow transition '' @ current @ '' -> '' @ target)
     else Inr target)"

definition assert_node_state :: "string \<Rightarrow> string + string" where
  "assert_node_state state =
    (if state \<notin> set NODE_STATES then Inl (''invalid node state: '' @ repr_str state) else Inr state)"

text \<open>The vocabulary the repository ships.\<close>

definition topology_vocab :: vocab where
  "topology_vocab = \<lparr>
    v_states = [''CREATED'', ''READY'', ''RUNNING'', ''STAGE_SUCCEEDED'', ''NEXT_REGISTERED'', ''NEXT_RUNNING'',
      ''TERMINAL_VERIFY'', ''COMPLETE''],
    v_failure_states = [''BLOCKED_HUMAN_GATE'', ''FAILED_RETRYABLE'', ''FAILED_TERMINAL'', ''CANCELLED''],
    v_transitions = [
      (''CREATED'', [''READY'', ''BLOCKED_HUMAN_GATE'', ''CANCELLED'', ''FAILED_TERMINAL'']),
      (''READY'', [''RUNNING'', ''BLOCKED_HUMAN_GATE'', ''FAILED_RETRYABLE'', ''FAILED_TERMINAL'', ''CANCELLED'']),
      (''RUNNING'', [''STAGE_SUCCEEDED'', ''BLOCKED_HUMAN_GATE'', ''FAILED_RETRYABLE'', ''FAILED_TERMINAL'', ''CANCELLED'']),
      (''STAGE_SUCCEEDED'', [''NEXT_REGISTERED'', ''TERMINAL_VERIFY'', ''BLOCKED_HUMAN_GATE'', ''FAILED_RETRYABLE'',
         ''FAILED_TERMINAL'', ''CANCELLED'']),
      (''NEXT_REGISTERED'', [''NEXT_RUNNING'', ''FAILED_RETRYABLE'', ''FAILED_TERMINAL'', ''CANCELLED'']),
      (''NEXT_RUNNING'', [''STAGE_SUCCEEDED'', ''BLOCKED_HUMAN_GATE'', ''FAILED_RETRYABLE'', ''FAILED_TERMINAL'', ''CANCELLED'']),
      (''TERMINAL_VERIFY'', [''COMPLETE'', ''BLOCKED_HUMAN_GATE'', ''FAILED_RETRYABLE'', ''FAILED_TERMINAL'', ''CANCELLED'']),
      (''COMPLETE'', []),
      (''BLOCKED_HUMAN_GATE'', [''RUNNING'', ''CANCELLED'', ''FAILED_TERMINAL'']),
      (''FAILED_RETRYABLE'', [''READY'', ''FAILED_TERMINAL'', ''CANCELLED'']),
      (''FAILED_TERMINAL'', []),
      (''CANCELLED'', [])]\<rparr>"

section \<open>Successor keys\<close>

definition successor_payload :: "string \<Rightarrow> string \<Rightarrow> string \<Rightarrow> string \<Rightarrow> string" where
  \<comment> \<open>the separator \<open>"\\0"\<close> is a backslash and the digit zero\<close>
  "successor_payload route_hash predecessor_node predecessor_identity successor_node =
     join [CHR 0x5C, CHR ''0''] [route_hash, predecessor_node, predecessor_identity, successor_node]"

definition successor_key :: "(string \<Rightarrow> string) \<Rightarrow> string \<Rightarrow> string \<Rightarrow> string \<Rightarrow> string \<Rightarrow> string" where
  "successor_key sha256 route_hash predecessor_node predecessor_identity successor_node =
     take 32 (sha256 (successor_payload route_hash predecessor_node predecessor_identity successor_node))"

section \<open>The ledger\<close>

record entry =
  e_at :: string
  e_route_id :: string
  e_route_hash :: string
  e_node :: "string option"
  e_state :: "string option"
  e_workflow_state :: "string option"
  e_evidence :: json
  e_actor :: string
  e_pid :: int

datatype jline = Entry entry | Blank | Unreadable

record node_row =
  n_state :: string
  n_updated_at :: string
  n_evidence :: json

record wstate =
  w_route_id :: string
  w_route_hash :: string
  w_state :: string
  w_nodes :: "(string \<times> node_row) list"
  w_entries :: nat
  w_updated_at :: "string option"

record ledger =
  l_route_id :: string
  l_route_hash :: string
  l_dir :: bool                        \<comment> \<open>the ledger directory exists\<close>
  l_file :: bool                       \<comment> \<open>\<open>journal.jsonl\<close> exists\<close>
  l_lines :: "jline list"
  l_tail :: "jline option"             \<comment> \<open>an unterminated last line\<close>
  l_cache :: "wstate option"           \<comment> \<open>\<open>state.json\<close>, when it can be read\<close>
  l_claims :: "(string \<times> obj option) list" \<comment> \<open>claim files; \<open>None\<close> is one that cannot be parsed\<close>

definition fresh_ledger :: "string \<Rightarrow> string \<Rightarrow> ledger" where
  "fresh_ledger rid rhash = \<lparr>l_route_id = rid, l_route_hash = rhash, l_dir = False, l_file = False,
     l_lines = [], l_tail = None, l_cache = None, l_claims = []\<rparr>"

definition workflow_ledger :: "string \<Rightarrow> string \<Rightarrow> string + ledger" where
  \<comment> \<open>\<open>WorkflowLedger.__init__\<close> on a root without files\<close>
  "workflow_ledger rid rhash =
    (if rid = [] \<or> CHR ''/'' \<in> set rid \<or> startswith ''.'' rid
     then Inl (''unsafe route id: '' @ repr_str rid) else Inr (fresh_ledger rid rhash))"

text \<open>Strings that \<open>splitlines\<close> cuts and \<open>json.dumps(ensure_ascii=False)\<close> leaves as they are.\<close>

definition line_sep :: char where "line_sep = CHR 0x85"

fun breaks_line :: "json \<Rightarrow> bool" where
  "breaks_line (JStr s) = (line_sep \<in> set s)"
| "breaks_line (JList xs) = list_ex breaks_line xs"
| "breaks_line (JObj d) = list_ex (\<lambda>(k, v). line_sep \<in> set k \<or> breaks_line v) d"
| "breaks_line _ = False"

definition ostr_set :: "string option \<Rightarrow> char set" where
  "ostr_set x = (case x of None \<Rightarrow> {} | Some s \<Rightarrow> set s)"

definition entry_breaks :: "entry \<Rightarrow> bool" where
  "entry_breaks e \<longleftrightarrow> line_sep \<in> set (e_at e) \<or> line_sep \<in> set (e_route_id e) \<or> line_sep \<in> set (e_route_hash e) \<or>
     line_sep \<in> ostr_set (e_node e) \<or> line_sep \<in> ostr_set (e_state e) \<or> line_sep \<in> ostr_set (e_workflow_state e) \<or>
     breaks_line (e_evidence e) \<or> line_sep \<in> set (e_actor e)"

definition line_entries :: "jline list \<Rightarrow> entry list" where
  "line_entries ls = concat (map (\<lambda>l. case l of Entry e \<Rightarrow> [e] | _ \<Rightarrow> []) ls)"

definition all_lines :: "ledger \<Rightarrow> jline list" where
  "all_lines l = l_lines l @ (case l_tail l of None \<Rightarrow> [] | Some t \<Rightarrow> [t])"

definition journal :: "ledger \<Rightarrow> entry list" where
  "journal l = line_entries (all_lines l)"

definition append_line :: "jline option \<Rightarrow> entry \<Rightarrow> jline" where
  \<comment> \<open>the new text continues an unterminated last line\<close>
  "append_line tail e =
    (if entry_breaks e then Unreadable
     else case tail of None \<Rightarrow> Entry e | Some Blank \<Rightarrow> Entry e | Some _ \<Rightarrow> Unreadable)"

definition append_entry :: "entry \<Rightarrow> ledger \<Rightarrow> ledger" where
  "append_entry e l = l\<lparr>l_dir := True, l_file := True, l_lines := l_lines l @ [append_line (l_tail l) e], l_tail := None\<rparr>"

definition rebuild_step :: "vocab \<Rightarrow> entry \<Rightarrow> (string \<times> node_row) list \<times> string \<Rightarrow> (string \<times> node_row) list \<times> string" where
  "rebuild_step v e = (\<lambda>(nodes, wfs).
     ((case (e_node e, e_state e) of
         (Some n, Some s) \<Rightarrow> if n \<noteq> [] \<and> s \<in> set NODE_STATES
           then AList.update n \<lparr>n_state = s, n_updated_at = e_at e, n_evidence = e_evidence e\<rparr> nodes else nodes
       | _ \<Rightarrow> nodes),
      (case e_workflow_state e of Some c \<Rightarrow> if c \<in> set (known_states v) then c else wfs | None \<Rightarrow> wfs)))"

definition rebuild_from :: "vocab \<Rightarrow> entry list \<Rightarrow> (string \<times> node_row) list \<times> string" where
  "rebuild_from v es = fold (rebuild_step v) es ([], ''CREATED'')"

definition rebuild :: "vocab \<Rightarrow> ledger \<Rightarrow> entry list \<Rightarrow> wstate" where
  "rebuild v l es = \<lparr>w_route_id = l_route_id l, w_route_hash = l_route_hash l,
     w_state = snd (rebuild_from v es), w_nodes = fst (rebuild_from v es), w_entries = length es,
     w_updated_at = (if es = [] then None else Some (e_at (last es)))\<rparr>"

definition read_state :: "vocab \<Rightarrow> (ledger, string, wstate) cmd" where
  \<comment> \<open>\<open>WorkflowLedger.state\<close>: repairs the cache when it differs\<close>
  "read_state v l =
    (let es = journal l; rebuilt = rebuild v l es in
     (Inr rebuilt, if l_cache l \<noteq> Some rebuilt \<and> es \<noteq> [] then l\<lparr>l_cache := Some rebuilt, l_dir := True\<rparr> else l))"

record survey_state =
  s_state :: wstate
  s_dir_exists :: bool
  s_journal_exists :: bool
  s_journal_unreadable :: bool

definition read_only_state :: "vocab \<Rightarrow> ledger \<Rightarrow> survey_state" where
  "read_only_state v l =
    (let es = journal l; raw_nonblank = list_ex (\<lambda>x. x \<noteq> Blank) (all_lines l) in
     \<lparr>s_state = rebuild v l es, s_dir_exists = l_dir l, s_journal_exists = l_file l,
      s_journal_unreadable = (l_file l \<and> raw_nonblank \<and> es = [])\<rparr>)"

definition node_state :: "wstate \<Rightarrow> string \<Rightarrow> string option" where
  \<comment> \<open>\<open>(current["nodes"].get(node) or {}).get("state")\<close>\<close>
  "node_state w n = map_option n_state (map_of (w_nodes w) n)"

record context_info =
  c_now :: string
  c_pid :: int

definition new_entry :: "context_info \<Rightarrow> ledger \<Rightarrow> string option \<Rightarrow> string option \<Rightarrow> string option \<Rightarrow> json \<Rightarrow> string \<Rightarrow> entry" where
  "new_entry c l node state wfs evidence actor =
    \<lparr>e_at = c_now c, e_route_id = l_route_id l, e_route_hash = l_route_hash l, e_node = node, e_state = state,
     e_workflow_state = wfs, e_evidence = evidence, e_actor = actor, e_pid = c_pid c\<rparr>"

definition append_and_read ::
  "vocab \<Rightarrow> context_info \<Rightarrow> string option \<Rightarrow> string option \<Rightarrow> string option \<Rightarrow> json \<Rightarrow> string
   \<Rightarrow> (ledger, string, wstate) cmd" where
  "append_and_read v c node state wfs evidence actor l =
     read_state v (append_entry (new_entry c l node state wfs evidence actor) l)"

definition record_checks :: "vocab \<Rightarrow> wstate \<Rightarrow> string \<Rightarrow> string \<Rightarrow> string option \<Rightarrow> string + unit" where
  "record_checks v current node state wfs =
    bindr (case node_state current node of
        Some previous \<Rightarrow> if previous \<noteq> state then bindr (assert_transition v previous state) (\<lambda>_. Inr ()) else Inr ()
      | None \<Rightarrow> Inr ()) (\<lambda>_.
    (case wfs of None \<Rightarrow> Inr () | Some target \<Rightarrow> bindr (assert_transition v (w_state current) target) (\<lambda>_. Inr ())))"

definition record_node ::
  "vocab \<Rightarrow> context_info \<Rightarrow> string \<Rightarrow> string \<Rightarrow> json \<Rightarrow> string option \<Rightarrow> string \<Rightarrow> (ledger, string, wstate) cmd" where
  "record_node v c node state evidence wfs actor l =
    (case assert_node_state state of
       Inl err \<Rightarrow> (Inl err, l)
     | Inr _ \<Rightarrow> bindc (read_state v) (\<lambda>current l1.
         case record_checks v current node state wfs of
           Inl err \<Rightarrow> (Inl err, l1)
         | Inr _ \<Rightarrow> append_and_read v c (Some node) (Some state) wfs evidence actor l1) l)"

definition set_workflow_state ::
  "vocab \<Rightarrow> context_info \<Rightarrow> string \<Rightarrow> json \<Rightarrow> string \<Rightarrow> (ledger, string, wstate) cmd" where
  "set_workflow_state v c wfs evidence actor =
     bindc (read_state v) (\<lambda>current l1.
       case assert_transition v (w_state current) wfs of
         Inl err \<Rightarrow> (Inl err, l1)
       | Inr _ \<Rightarrow> append_and_read v c None None (Some wfs) evidence actor l1)"

section \<open>Exactly-once claims\<close>

definition safe_claim_key :: "string \<Rightarrow> bool" where
  "safe_claim_key key \<longleftrightarrow> key \<noteq> [] \<and> list_all is_lower_hex key"

definition claim :: "context_info \<Rightarrow> string \<Rightarrow> obj \<Rightarrow> (ledger, string, bool \<times> obj) cmd" where
  "claim c key payload l =
    (if \<not> safe_claim_key key then (Inl (''unsafe claim key: '' @ repr_str key), l)
     else case map_of (l_claims l) key of
       Some stored \<Rightarrow> (Inr (False, case stored of Some body \<Rightarrow> body | None \<Rightarrow> []), l)
     | None \<Rightarrow>
        (let body = dict_update payload [(''claimed_at'', JStr (c_now c)), (''claimed_by_pid'', JInt (c_pid c))] in
         (Inr (True, body), l\<lparr>l_dir := True, l_claims := l_claims l @ [(key, Some body)]\<rparr>)))"

definition claims :: "ledger \<Rightarrow> (string \<times> obj) list" where
  "claims l = map (\<lambda>(k, b). (k, case b of Some body \<Rightarrow> body | None \<Rightarrow> [(''malformed'', JBool True)]))
     (sort_key fst (l_claims l))"

text \<open>Crashes: in the middle of an append, and between creating a claim file and writing it.\<close>

datatype crash_point = Before | Within | Unterminated | After_line

definition crash_append :: "crash_point \<Rightarrow> entry \<Rightarrow> ledger \<Rightarrow> ledger" where
  "crash_append p e l = (case p of
       Before \<Rightarrow> l
     | Within \<Rightarrow> l\<lparr>l_dir := True, l_file := True, l_tail := Some Unreadable\<rparr>
     | Unterminated \<Rightarrow> l\<lparr>l_dir := True, l_file := True, l_tail := Some (append_line (l_tail l) e)\<rparr>
     | After_line \<Rightarrow> append_entry e l)"

definition crash_claim :: "string \<Rightarrow> ledger \<Rightarrow> ledger" where
  "crash_claim key l =
    (if \<not> safe_claim_key key \<or> map_of (l_claims l) key \<noteq> None then l
     else l\<lparr>l_dir := True, l_claims := l_claims l @ [(key, None)]\<rparr>)"

section \<open>Aggregation and route helpers\<close>

definition derive_workflow_state :: "(string \<times> string) list \<Rightarrow> string list \<Rightarrow> bool \<Rightarrow> bool \<Rightarrow> bool \<Rightarrow> string" where
  "derive_workflow_state states terminal terminal_gates_passed open_human_gate pending_claims =
    (let vals = map snd states in
     if states = [] then ''CREATED''
     else if ''FAILED_TERMINAL'' \<in> set vals then ''FAILED_TERMINAL''
     else if ''CANCELLED'' \<in> set vals then ''CANCELLED''
     else if ''BLOCKED_HUMAN_GATE'' \<in> set vals \<or> open_human_gate then ''BLOCKED_HUMAN_GATE''
     else if ''FAILED_RETRYABLE'' \<in> set vals then ''FAILED_RETRYABLE''
     else if terminal \<noteq> [] \<and> list_all (\<lambda>n. map_of states n = Some ''STAGE_SUCCEEDED'') terminal
     then (if terminal_gates_passed then ''COMPLETE'' else ''TERMINAL_VERIFY'')
     else if ''RUNNING'' \<in> set vals then (if 1 < length states then ''NEXT_RUNNING'' else ''RUNNING'')
     else if pending_claims then ''NEXT_REGISTERED''
     else if list_all (\<lambda>x. x = ''STAGE_SUCCEEDED'') vals then ''STAGE_SUCCEEDED''
     else ''READY'')"

record route_node =
  rn_id :: string
  rn_terminal :: bool
  rn_continuation :: json
  rn_depends_on :: "string list"
  rn_attrs :: obj

definition route_terminal_nodes :: "route_node list \<Rightarrow> string list" where
  "route_terminal_nodes nodes = map rn_id (filter rn_terminal nodes)"

definition route_node_of :: "route_node list \<Rightarrow> string \<Rightarrow> route_node option" where
  "route_node_of nodes nid = find (\<lambda>n. rn_id n = nid) nodes"

definition route_continuation :: "route_node list \<Rightarrow> string \<Rightarrow> json" where
  "route_continuation nodes nid = (case route_node_of nodes nid of None \<Rightarrow> JNull | Some n \<Rightarrow> rn_continuation n)"

definition route_successors :: "route_node list \<Rightarrow> string \<Rightarrow> string list" where
  "route_successors nodes nid = map rn_id (filter (\<lambda>n. nid \<in> set (rn_depends_on n)) nodes)"


section \<open>Journal laws\<close>

lemma line_entries_simps [simp]:
  "line_entries [] = []"
  "line_entries (Entry e # ls) = e # line_entries ls"
  "line_entries (Blank # ls) = line_entries ls"
  "line_entries (Unreadable # ls) = line_entries ls"
  "line_entries (xs @ ys) = line_entries xs @ line_entries ys"
  by (simp_all add: line_entries_def)

lemma journal_cache [simp]: "journal (l\<lparr>l_cache := c\<rparr>) = journal l"
  by (simp add: journal_def all_lines_def)

lemma journal_dir [simp]: "journal (l\<lparr>l_dir := d\<rparr>) = journal l"
  by (simp add: journal_def all_lines_def)

lemma journal_claims [simp]: "journal (l\<lparr>l_claims := c\<rparr>) = journal l"
  by (simp add: journal_def all_lines_def)

lemma rebuild_fields [simp]:
  "rebuild v (l\<lparr>l_cache := c\<rparr>) es = rebuild v l es"
  "rebuild v (l\<lparr>l_dir := d\<rparr>) es = rebuild v l es"
  "rebuild v (append_entry e l) es = rebuild v l es"
  by (simp_all add: rebuild_def append_entry_def)

lemma append_entry_fields [simp]:
  "l_route_id (append_entry e l) = l_route_id l" "l_route_hash (append_entry e l) = l_route_hash l"
  "l_claims (append_entry e l) = l_claims l" "l_tail (append_entry e l) = None" "l_cache (append_entry e l) = l_cache l"
  by (simp_all add: append_entry_def)

definition clean_tail :: "ledger \<Rightarrow> bool" where
  "clean_tail l \<longleftrightarrow> l_tail l = None \<or> l_tail l = Some Blank"

text \<open>An append adds its entry, or loses it together with an unterminated line before it.\<close>

lemma journal_append:
  "journal (append_entry e l) =
    (if clean_tail l \<and> \<not> entry_breaks e then journal l @ [e] else line_entries (l_lines l))"
  by (auto simp: journal_def all_lines_def append_entry_def append_line_def clean_tail_def
      split: option.splits jline.splits)

lemma journal_prefix: "\<exists>es. journal l = line_entries (l_lines l) @ es"
  by (auto simp: journal_def all_lines_def split: option.splits)

lemma rebuild_from_snoc: "rebuild_from v (es @ [e]) = rebuild_step v e (rebuild_from v es)"
  by (simp add: rebuild_from_def)

lemma read_state_result: "fst (read_state v l) = Inr (rebuild v l (journal l))"
  by (simp add: read_state_def Let_def)

lemma read_state_fields:
  "journal (snd (read_state v l)) = journal l" "l_tail (snd (read_state v l)) = l_tail l"
  "l_claims (snd (read_state v l)) = l_claims l" "l_lines (snd (read_state v l)) = l_lines l"
  "l_route_id (snd (read_state v l)) = l_route_id l" "l_route_hash (snd (read_state v l)) = l_route_hash l"
  by (auto simp: read_state_def Let_def journal_def all_lines_def split: option.splits)

lemmas ledger_reads = read_state_result read_state_fields

section \<open>Legal histories\<close>

definition entry_legal :: "vocab \<Rightarrow> (string \<times> node_row) list \<times> string \<Rightarrow> entry \<Rightarrow> bool" where
  "entry_legal v st e \<longleftrightarrow>
     (case (e_node e, e_state e) of
        (Some n, Some s) \<Rightarrow> s \<in> set NODE_STATES \<and>
          (case map_of (fst st) n of Some r \<Rightarrow> n_state r = s \<or> can_transition v (n_state r) s | None \<Rightarrow> True)
      | (None, None) \<Rightarrow> True | _ \<Rightarrow> False) \<and>
     (case e_workflow_state e of None \<Rightarrow> True | Some c \<Rightarrow> c = snd st \<or> can_transition v (snd st) c)"

primrec legal_from :: "vocab \<Rightarrow> (string \<times> node_row) list \<times> string \<Rightarrow> entry list \<Rightarrow> bool" where
  "legal_from v st [] = True"
| "legal_from v st (e # es) = (entry_legal v st e \<and> legal_from v (rebuild_step v e st) es)"

definition legal_history :: "vocab \<Rightarrow> entry list \<Rightarrow> bool" where
  "legal_history v es = legal_from v ([], ''CREATED'') es"

lemma legal_from_append:
  "legal_from v st (es @ fs) \<longleftrightarrow> legal_from v st es \<and> legal_from v (fold (rebuild_step v) es st) fs"
  by (induction es arbitrary: st) auto

lemma legal_history_snoc:
  "legal_history v (es @ [e]) \<longleftrightarrow> legal_history v es \<and> entry_legal v (rebuild_from v es) e"
  by (simp add: legal_history_def legal_from_append rebuild_from_def)

lemma legal_history_prefix: "legal_history v (es @ fs) \<Longrightarrow> legal_history v es"
  by (simp add: legal_history_def legal_from_append)

lemma assert_transition_ok: "assert_transition v a b = Inr c \<longleftrightarrow> c = b \<and> (b = a \<or> can_transition v a b)"
  by (auto simp: assert_transition_def)

text \<open>One append that respects the checks: the shape every writing operation has.\<close>

definition appends :: "vocab \<Rightarrow> ledger \<Rightarrow> ledger \<Rightarrow> bool" where
  "appends v l l' \<longleftrightarrow> journal l' = journal l \<or> journal l' = line_entries (l_lines l) \<or>
     (\<exists>e. journal l' = journal l @ [e] \<and> entry_legal v (rebuild_from v (journal l)) e)"

lemma appends_legal: "appends v l l' \<Longrightarrow> legal_history v (journal l) \<Longrightarrow> legal_history v (journal l')"
  using journal_prefix [of l] unfolding appends_def by (metis legal_history_prefix legal_history_snoc)

lemma appends_entry: "entry_legal v (rebuild_from v (journal l)) e \<Longrightarrow> appends v l (append_entry e l)"
  by (auto simp: appends_def journal_append)

lemma record_checks_legal:
  assumes "record_checks v (rebuild v l (journal l)) node state wfs = Inr u" "state \<in> set NODE_STATES"
  shows "entry_legal v (rebuild_from v (journal l)) (new_entry c l (Some node) (Some state) wfs evidence actor)"
  using assms
  by (auto simp: record_checks_def entry_legal_def new_entry_def node_state_def rebuild_def bindr_Inr_iff
      assert_transition_ok split: option.splits if_splits)

lemma set_checks_legal:
  assumes "assert_transition v (w_state (rebuild v l (journal l))) wfs = Inr u"
  shows "entry_legal v (rebuild_from v (journal l)) (new_entry c l None None (Some wfs) evidence actor)"
  using assms by (auto simp: entry_legal_def new_entry_def rebuild_def assert_transition_ok)

section \<open>Sequences of operations, crashes included\<close>

datatype ledger_op =
    ReadState
  | Record context_info string string json "string option" string
  | SetState context_info string json string
  | Claim context_info string obj
  | CrashRecord crash_point context_info string string json "string option" string
  | CrashSet crash_point context_info string json string
  | CrashClaim string

datatype ledger_reply = Derived wstate | Claimed bool obj | Crashed

definition crash_record ::
  "vocab \<Rightarrow> crash_point \<Rightarrow> context_info \<Rightarrow> string \<Rightarrow> string \<Rightarrow> json \<Rightarrow> string option \<Rightarrow> string \<Rightarrow> ledger \<Rightarrow> ledger" where
  \<comment> \<open>\<open>record_node\<close> interrupted at its append\<close>
  "crash_record v p c node state evidence wfs actor l =
    (let l1 = snd (read_state v l) in
     if state \<in> set NODE_STATES \<and> record_checks v (rebuild v l (journal l)) node state wfs = Inr ()
     then crash_append p (new_entry c l1 (Some node) (Some state) wfs evidence actor) l1 else l1)"

definition crash_set :: "vocab \<Rightarrow> crash_point \<Rightarrow> context_info \<Rightarrow> string \<Rightarrow> json \<Rightarrow> string \<Rightarrow> ledger \<Rightarrow> ledger" where
  "crash_set v p c wfs evidence actor l =
    (let l1 = snd (read_state v l) in
     case assert_transition v (w_state (rebuild v l (journal l))) wfs of
       Inr _ \<Rightarrow> crash_append p (new_entry c l1 None None (Some wfs) evidence actor) l1
     | Inl _ \<Rightarrow> l1)"

fun ledger_exec :: "vocab \<Rightarrow> ledger_op \<Rightarrow> ledger \<Rightarrow> (string + ledger_reply) \<times> ledger" where
  "ledger_exec v ReadState l = apfst (map_sum id Derived) (read_state v l)"
| "ledger_exec v (Record c n s ev w a) l = apfst (map_sum id Derived) (record_node v c n s ev w a l)"
| "ledger_exec v (SetState c w ev a) l = apfst (map_sum id Derived) (set_workflow_state v c w ev a l)"
| "ledger_exec v (Claim c k p) l = apfst (map_sum id (\<lambda>(b, d). Claimed b d)) (claim c k p l)"
| "ledger_exec v (CrashRecord p c n s ev w a) l = (Inr Crashed, crash_record v p c n s ev w a l)"
| "ledger_exec v (CrashSet p c w ev a) l = (Inr Crashed, crash_set v p c w ev a l)"
| "ledger_exec v (CrashClaim k) l = (Inr Crashed, crash_claim k l)"

lemma bindc_read: "bindc (read_state v) f l = f (rebuild v l (journal l)) (snd (read_state v l))"
  using read_state_result [of v l] by (cases "read_state v l") (simp add: bindc_def)

lemma record_node_cases:
  "record_node v c n s ev w a l =
    (if s \<notin> set NODE_STATES then (Inl (''invalid node state: '' @ repr_str s), l)
     else let l1 = snd (read_state v l) in
       case record_checks v (rebuild v l (journal l)) n s w of
         Inl err \<Rightarrow> (Inl err, l1)
       | Inr _ \<Rightarrow> append_and_read v c (Some n) (Some s) w ev a l1)"
  by (simp add: record_node_def assert_node_state_def bindc_read Let_def)

lemma set_workflow_state_cases:
  "set_workflow_state v c w ev a l =
    (let l1 = snd (read_state v l) in
     case assert_transition v (w_state (rebuild v l (journal l))) w of
       Inl err \<Rightarrow> (Inl err, l1)
     | Inr _ \<Rightarrow> append_and_read v c None None (Some w) ev a l1)"
  by (simp add: set_workflow_state_def bindc_read Let_def)

lemma append_and_read_journal:
  "journal (snd (append_and_read v c n s w ev a l)) = journal (append_entry (new_entry c l n s w ev a) l)"
  "l_tail (snd (append_and_read v c n s w ev a l)) = None"
  "l_claims (snd (append_and_read v c n s w ev a l)) = l_claims l"
  by (simp_all add: append_and_read_def ledger_reads append_entry_def)

lemma new_entry_read: "new_entry c (snd (read_state v l)) n s w ev a = new_entry c l n s w ev a"
  by (simp add: new_entry_def ledger_reads)

lemma journal_append_read:
  "journal (append_entry e (snd (read_state v l))) = journal (append_entry e l)"
  by (simp add: journal_append clean_tail_def ledger_reads)

lemma crash_append_appends:
  assumes "entry_legal v (rebuild_from v (journal l)) e"
  shows "appends v l (crash_append p e l)"
proof (cases p)
  case Within
  then show ?thesis
    by (simp add: crash_append_def appends_def journal_def all_lines_def)
next
  case Unterminated
  show ?thesis
  proof (cases "append_line (l_tail l) e")
    case (Entry e')
    then have "e' = e" "clean_tail l"
      by (auto simp: append_line_def clean_tail_def split: if_splits option.splits jline.splits)
    with Unterminated Entry assms show ?thesis
      by (auto simp: crash_append_def appends_def journal_def all_lines_def clean_tail_def)
  qed (use Unterminated in \<open>simp_all add: crash_append_def appends_def journal_def all_lines_def\<close>)
qed (use assms appends_entry in \<open>auto simp: crash_append_def appends_def\<close>)

lemma appends_read: "appends v (snd (read_state v l)) l' \<Longrightarrow> appends v l l'"
  by (simp add: appends_def ledger_reads)

lemma ledger_exec_appends: "appends v l (snd (ledger_exec v op l))"
proof (cases op)
  case ReadState
  then show ?thesis by (simp add: appends_def ledger_reads)
next
  case (Record c n s ev w a)
  have "appends v l (snd (record_node v c n s ev w a l))"
  proof (cases "s \<in> set NODE_STATES \<and> (\<exists>u. record_checks v (rebuild v l (journal l)) n s w = Inr u)")
    case True
    then have "entry_legal v (rebuild_from v (journal l)) (new_entry c l (Some n) (Some s) w ev a)"
      using record_checks_legal by blast
    from appends_entry [OF this] True show ?thesis
      by (auto simp: record_node_cases appends_def append_and_read_journal journal_append_read new_entry_read)
  qed (auto simp: record_node_cases appends_def ledger_reads Let_def split: sum.splits)
  with Record show ?thesis by simp
next
  case (SetState c w ev a)
  have "appends v l (snd (set_workflow_state v c w ev a l))"
  proof (cases "\<exists>u. assert_transition v (w_state (rebuild v l (journal l))) w = Inr u")
    case True
    then have "entry_legal v (rebuild_from v (journal l)) (new_entry c l None None (Some w) ev a)"
      using set_checks_legal by blast
    from appends_entry [OF this] True show ?thesis
      by (auto simp: set_workflow_state_cases appends_def append_and_read_journal journal_append_read new_entry_read)
  qed (auto simp: set_workflow_state_cases appends_def ledger_reads Let_def split: sum.splits)
  with SetState show ?thesis by simp
next
  case (Claim c k p)
  then show ?thesis by (auto simp: claim_def appends_def Let_def split: option.splits)
next
  case (CrashRecord p c n s ev w a)
  have "appends v (snd (read_state v l)) (crash_record v p c n s ev w a l)"
  proof (cases "s \<in> set NODE_STATES \<and> record_checks v (rebuild v l (journal l)) n s w = Inr ()")
    case True
    then have "entry_legal v (rebuild_from v (journal l)) (new_entry c l (Some n) (Some s) w ev a)"
      using record_checks_legal by blast
    with True show ?thesis
      by (simp add: crash_record_def crash_append_appends new_entry_read ledger_reads)
  qed (auto simp: crash_record_def appends_def Let_def)
  with CrashRecord show ?thesis by (simp add: appends_read)
next
  case (CrashSet p c w ev a)
  have "appends v (snd (read_state v l)) (crash_set v p c w ev a l)"
  proof (cases "assert_transition v (w_state (rebuild v l (journal l))) w")
    case (Inr u)
    then have "entry_legal v (rebuild_from v (journal l)) (new_entry c l None None (Some w) ev a)"
      using set_checks_legal by blast
    with Inr show ?thesis
      by (simp add: crash_set_def crash_append_appends new_entry_read ledger_reads)
  qed (auto simp: crash_set_def appends_def Let_def)
  with CrashSet show ?thesis by (simp add: appends_read)
next
  case (CrashClaim k)
  then show ?thesis by (simp add: crash_claim_def appends_def)
qed


section \<open>The ledger as a machine\<close>

text \<open>Legal histories survive every sequence of operations, whatever crashes.\<close>

interpretation ledger_history: machine "ledger_exec v" "\<lambda>_. True" "\<lambda>l. legal_history v (journal l)" for v
  by unfold_locales (blast intro: appends_legal ledger_exec_appends)

text \<open>A claim file, once created, stays; only its creation is answered with \<open>True\<close>.\<close>

definition claim_taken :: "ledger \<Rightarrow> string \<Rightarrow> bool" where
  "claim_taken l key \<longleftrightarrow> map_of (l_claims l) key \<noteq> None"

fun claim_granted :: "ledger_op \<Rightarrow> string + ledger_reply \<Rightarrow> string \<Rightarrow> bool" where
  "claim_granted (Claim c k p) (Inr (Claimed b d)) key = (k = key \<and> b)"
| "claim_granted _ _ _ = False"

lemma crash_append_claims [simp]: "l_claims (crash_append p e l) = l_claims l"
  by (cases p) (simp_all add: crash_append_def append_entry_def)

lemma ledger_exec_claims:
  "\<exists>new. l_claims (snd (ledger_exec v op l)) = l_claims l @ new"
  by (cases op) (auto simp: ledger_reads record_node_cases set_workflow_state_cases append_and_read_journal
      claim_def crash_record_def crash_set_def crash_claim_def Let_def split: sum.splits option.splits)

lemma claim_granted_iff:
  "claim_granted op (fst (ledger_exec v op l)) key \<Longrightarrow>
   \<not> claim_taken l key \<and> claim_taken (snd (ledger_exec v op l)) key"
  by (cases op) (auto simp: claim_def claim_taken_def Let_def map_add_def split: option.splits if_splits)

interpretation ledger_claims: granting_machine "ledger_exec v" "\<lambda>_. True" "\<lambda>_. True" claim_taken claim_granted for v
proof
  fix op s x
  assume "claim_taken s x"
  then show "claim_taken (snd (ledger_exec v op s)) x"
    using ledger_exec_claims [of v op s] by (auto simp: claim_taken_def map_add_def split: option.splits)
qed (auto dest: claim_granted_iff)

text \<open>A workflow state without transitions is never left, unless a crash leaves a complete but
  unterminated line behind.\<close>

definition frozen_in :: "vocab \<Rightarrow> string \<Rightarrow> ledger \<Rightarrow> bool" where
  "frozen_in v w l \<longleftrightarrow> (\<forall>t. \<not> can_transition v w t) \<and> (\<forall>e. l_tail l \<noteq> Some (Entry e)) \<and>
     snd (rebuild_from v (journal l)) = w"

definition terminated_crash :: "ledger_op \<Rightarrow> bool" where
  "terminated_crash op = (case op of CrashRecord p _ _ _ _ _ _ \<Rightarrow> p \<noteq> Unterminated
     | CrashSet p _ _ _ _ \<Rightarrow> p \<noteq> Unterminated | _ \<Rightarrow> True)"

lemma crash_append_tail: "p \<noteq> Unterminated \<Longrightarrow> \<forall>e. l_tail l \<noteq> Some (Entry e) \<Longrightarrow>
   l_tail (crash_append p e' l) \<noteq> Some (Entry e)"
  by (cases p) (simp_all add: crash_append_def append_entry_def)

lemma ledger_exec_tail:
  assumes "terminated_crash op" "\<forall>e. l_tail l \<noteq> Some (Entry e)"
  shows "l_tail (snd (ledger_exec v op l)) \<noteq> Some (Entry e)"
  using assms
  by (cases op) (auto simp: ledger_reads record_node_cases set_workflow_state_cases append_and_read_journal
      claim_def crash_record_def crash_set_def crash_claim_def terminated_crash_def Let_def crash_append_tail
      split: sum.splits option.splits)

lemma entry_legal_terminal:
  "entry_legal v st e \<Longrightarrow> \<forall>t. \<not> can_transition v (snd st) t \<Longrightarrow> snd (rebuild_step v e st) = snd st"
  by (auto simp: entry_legal_def rebuild_step_def split: option.splits prod.splits)

lemma frozen_step:
  assumes "terminated_crash op" "frozen_in v w l"
  shows "frozen_in v w (snd (ledger_exec v op l))"
proof -
  have "journal l = line_entries (l_lines l)"
    using assms(2) by (auto simp: frozen_in_def journal_def all_lines_def split: option.splits)
      (metis jline.exhaust line_entries_simps(1,3,4))
  then show ?thesis
    using assms ledger_exec_appends [of v l op] ledger_exec_tail [OF assms(1), of l v]
    by (auto simp: frozen_in_def appends_def rebuild_from_snoc entry_legal_terminal)
qed

interpretation ledger_frozen: machine "ledger_exec v" terminated_crash "frozen_in v w" for v w
  by unfold_locales (rule frozen_step)

section \<open>Properties\<close>

definition demo_context :: context_info where
  "demo_context = \<lparr>c_now = ''2026-08-04T00:00:00Z'', c_pid = 7\<rparr>"

definition demo_run :: "ledger_op list" where
  "demo_run = [SetState demo_context ''READY'' JNull ''arm'', Record demo_context ''n1'' ''RUNNING'' JNull None ''arm'',
     CrashRecord Within demo_context ''n1'' ''STAGE_SUCCEEDED'' JNull None ''poll'',
     Claim demo_context ''ab'' [], Claim demo_context ''ab'' []]"

text \<open>C8: whatever sequence of records, state changes, reads, claims and crashes is applied to a
  ledger, the history its journal tells is legal: every node moves only along declared
  transitions from one node state to another, and so does the workflow.\<close>

theorem ledger_history_is_legal:
  assumes "legal_history v (journal l)"
  shows "legal_history v (journal (run_ops (ledger_exec v) ops l))"
  using ledger_history.run_inv [of ops v l] assms by (simp add: list_all_iff)

theorem ledger_history_is_legal_witness:
  "legal_history topology_vocab (journal (run_ops (ledger_exec topology_vocab) demo_run (fresh_ledger ''r1'' ''h'')))"
  by (rule ledger_history_is_legal) (simp add: fresh_ledger_def journal_def all_lines_def legal_history_def)

text \<open>C14: a successor is claimed at most once: in any sequence of ledger operations, crashes
  between the creation and the writing of the claim file included, at most one claim of a key is
  answered with \<open>True\<close>.\<close>

theorem successor_claimed_at_most_once:
  "length (filter (\<lambda>(op, r). claim_granted op r key) (run_replies (ledger_exec v) ops l)) \<le> 1"
  by (rule ledger_claims.granted_at_most_once) (simp_all add: list_all_iff)

text \<open>A workflow state that declares no transition (\<open>COMPLETE\<close>, \<open>FAILED_TERMINAL\<close>,
  \<open>CANCELLED\<close>) is never left by any sequence of operations, as long as no crash leaves a complete
  entry without its newline.\<close>

theorem terminal_workflow_state_is_final:
  assumes "\<And>t. \<not> can_transition v (w_state (rebuild v l (journal l))) t"
    and "\<And>e. l_tail l \<noteq> Some (Entry e)" and "list_all terminated_crash ops"
  shows "w_state (s_state (read_only_state v (run_ops (ledger_exec v) ops l))) = w_state (rebuild v l (journal l))"
proof -
  have "frozen_in v (w_state (rebuild v l (journal l))) l"
    using assms by (simp add: frozen_in_def rebuild_def)
  from ledger_frozen.run_inv [OF assms(3) this] show ?thesis
    by (simp add: frozen_in_def read_only_state_def rebuild_def Let_def)
qed

definition demo_cancelled :: ledger where
  "demo_cancelled = (fresh_ledger ''r1'' ''h'')\<lparr>l_dir := True, l_file := True,
     l_lines := [Entry (new_entry demo_context (fresh_ledger ''r1'' ''h'') None None (Some ''CANCELLED'') JNull ''user'')]\<rparr>"

lemma demo_cancelled_state:
  "w_state (rebuild topology_vocab demo_cancelled (journal demo_cancelled)) = ''CANCELLED''" "l_tail demo_cancelled = None"
  by (simp_all add: demo_cancelled_def fresh_ledger_def journal_def all_lines_def rebuild_def rebuild_from_def
      rebuild_step_def new_entry_def known_states_def topology_vocab_def)

theorem terminal_workflow_state_is_final_witness:
  "w_state (s_state (read_only_state topology_vocab (run_ops (ledger_exec topology_vocab) demo_run demo_cancelled))) = ''CANCELLED''"
proof -
  have "\<not> can_transition topology_vocab (w_state (rebuild topology_vocab demo_cancelled (journal demo_cancelled))) t" for t
    unfolding demo_cancelled_state can_transition_def by (simp add: topology_vocab_def)
  moreover have "l_tail demo_cancelled \<noteq> Some (Entry e)" for e
    by (simp add: demo_cancelled_state)
  moreover have "list_all terminated_crash demo_run"
    by code_simp
  ultimately show ?thesis
    using terminal_workflow_state_is_final [of topology_vocab demo_cancelled demo_run]
    by (simp add: demo_cancelled_state)
qed

text \<open>A recorded transition is durable: on a journal whose last line is terminated, and for an
  entry without a line separator in its text, the returned state is the one any later reader
  derives from the journal, it shows the node in its new state, and the journal has grown by
  exactly that entry.\<close>

theorem record_is_durable:
  assumes "record_node v c node state evidence wfs actor l = (Inr w, l')" and "clean_tail l" and "node \<noteq> []"
    and "\<not> entry_breaks (new_entry c l (Some node) (Some state) wfs evidence actor)"
  shows "journal l' = journal l @ [new_entry c l (Some node) (Some state) wfs evidence actor] \<and>
    w = s_state (read_only_state v l') \<and> node_state w node = Some state \<and> l_tail l' = None"
proof -
  let ?e = "new_entry c l (Some node) (Some state) wfs evidence actor"
  have st: "state \<in> set NODE_STATES"
    and rest: "(Inr w, l') = append_and_read v c (Some node) (Some state) wfs evidence actor (snd (read_state v l))"
    using assms(1) by (auto simp: record_node_cases Let_def split: if_splits sum.splits)
  then have l': "l' = snd (append_and_read v c (Some node) (Some state) wfs evidence actor (snd (read_state v l)))"
    and w: "Inr w = fst (append_and_read v c (Some node) (Some state) wfs evidence actor (snd (read_state v l)))"
    by (metis snd_conv) (metis fst_conv rest)
  have "journal l' = journal (append_entry ?e l)"
    by (simp only: l' append_and_read_journal journal_append_read new_entry_read)
  then have j: "journal l' = journal l @ [?e]"
    using assms(2,4) by (simp add: journal_append)
  have "w = rebuild v l' (journal l')"
    using w by (simp add: l' append_and_read_def ledger_reads) (simp add: rebuild_def ledger_reads append_entry_def)
  then show ?thesis
    using j st assms(3)
    by (simp add: read_only_state_def node_state_def rebuild_def rebuild_from_snoc rebuild_step_def new_entry_def
        l' append_and_read_journal update_conv' split: prod.splits)
qed

theorem record_is_durable_witness:
  "\<exists>w l'. record_node topology_vocab demo_context ''n1'' ''RUNNING'' JNull None ''arm'' (fresh_ledger ''r1'' ''h'') = (Inr w, l') \<and>
     node_state w ''n1'' = Some ''RUNNING''"
proof -
  obtain w l' where r: "record_node topology_vocab demo_context ''n1'' ''RUNNING'' JNull None ''arm'' (fresh_ledger ''r1'' ''h'') = (Inr w, l')"
    by (simp add: record_node_def assert_node_state_def NODE_STATES_def bindc_def read_state_def fresh_ledger_def
        journal_def all_lines_def rebuild_def rebuild_from_def record_checks_def node_state_def append_and_read_def Let_def)
  have "clean_tail (fresh_ledger ''r1'' ''h'')"
    "\<not> entry_breaks (new_entry demo_context (fresh_ledger ''r1'' ''h'') (Some ''n1'') (Some ''RUNNING'') None JNull ''arm'')"
    by code_simp+
  with record_is_durable [OF r] r show ?thesis by blast
qed

text \<open>After a crash in the middle of an append, the next record is acknowledged and lost: its
  entry continues the torn line, the journal does not grow, and the state returned is the old one.\<close>

theorem record_after_torn_line_is_lost:
  assumes "l_tail l = Some Unreadable"
    and "record_node v c node state evidence wfs actor l = (Inr w, l')"
  shows "journal l' = journal l \<and> w = rebuild v l (journal l)"
proof -
  have rest: "(Inr w, l') = append_and_read v c (Some node) (Some state) wfs evidence actor (snd (read_state v l))"
    using assms(2) by (auto simp: record_node_cases Let_def split: if_splits sum.splits)
  then have l': "l' = snd (append_and_read v c (Some node) (Some state) wfs evidence actor (snd (read_state v l)))"
    and w: "Inr w = fst (append_and_read v c (Some node) (Some state) wfs evidence actor (snd (read_state v l)))"
    by (metis snd_conv) (metis fst_conv rest)
  have base: "line_entries (l_lines l) = journal l"
    using assms(1) by (simp add: journal_def all_lines_def)
  have j: "journal (append_entry e (snd (read_state v l))) = journal l" for e
    by (rule trans [OF journal_append_read]) (simp add: journal_append clean_tail_def base assms(1))
  show ?thesis
    using w j by (simp add: l' append_and_read_journal) (simp add: append_and_read_def ledger_reads j rebuild_def)
qed

definition demo_torn :: ledger where
  "demo_torn = (fresh_ledger ''r1'' ''h'')\<lparr>l_dir := True, l_file := True, l_tail := Some Unreadable\<rparr>"

theorem record_after_torn_line_is_lost_witness:
  "\<exists>w l'. record_node topology_vocab demo_context ''n1'' ''RUNNING'' JNull None ''arm'' demo_torn = (Inr w, l') \<and>
     node_state w ''n1'' = None"
proof -
  obtain w l' where r: "record_node topology_vocab demo_context ''n1'' ''RUNNING'' JNull None ''arm'' demo_torn = (Inr w, l')"
    by (simp add: record_node_def assert_node_state_def NODE_STATES_def bindc_def read_state_def fresh_ledger_def demo_torn_def
        journal_def all_lines_def rebuild_def rebuild_from_def record_checks_def node_state_def append_and_read_def Let_def)
  have "l_tail demo_torn = Some Unreadable" by code_simp
  from record_after_torn_line_is_lost [OF this r] have "w = rebuild topology_vocab demo_torn (journal demo_torn)" ..
  moreover have "node_state (rebuild topology_vocab demo_torn (journal demo_torn)) ''n1'' = None" by code_simp
  ultimately show ?thesis using r by blast
qed

text \<open>C13: the cached \<open>state.json\<close> never decides anything: reading the state answers what the journal
  says, equals the read-only projection, and a second read changes nothing more.\<close>

theorem cache_is_only_a_cache:
  "fst (read_state v l) = Inr (s_state (read_only_state v l)) \<and>
   fst (read_state v (l\<lparr>l_cache := any\<rparr>)) = fst (read_state v l) \<and>
   read_state v (snd (read_state v l)) = read_state v l"
  by (auto simp: read_state_def read_only_state_def Let_def)

text \<open>The successor key does not separate all field tuples: two different tuples have the same
  hashed text, whatever the hash, because the separator is a backslash and a zero, which a field may
  contain.\<close>

theorem successor_keys_collide:
  "(''a'' @ [CHR 0x5C, CHR ''0'', CHR ''r''], ''x'') \<noteq> (''a'', [CHR ''r'', CHR 0x5C, CHR ''0'', CHR ''x'']) \<and>
   successor_key sha256 ''h'' (''a'' @ [CHR 0x5C, CHR ''0'', CHR ''r'']) ''x'' ''b'' =
   successor_key sha256 ''h'' ''a'' [CHR ''r'', CHR 0x5C, CHR ''0'', CHR ''x''] ''b''"
  by (simp add: successor_payload_def successor_key_def)

text \<open>\<open>COMPLETE\<close> is derived exactly when there is at least one recorded node, no node failed,
  was cancelled or is blocked, no human gate is open, and every declared terminal node (at least
  one) has succeeded with its gates verified.\<close>

theorem complete_is_earned:
  "derive_workflow_state states terminal gates open_gate pending = ''COMPLETE'' \<longleftrightarrow>
     states \<noteq> [] \<and> set (map snd states) \<inter> {''FAILED_TERMINAL'', ''CANCELLED'', ''BLOCKED_HUMAN_GATE'', ''FAILED_RETRYABLE''} = {} \<and>
     \<not> open_gate \<and> terminal \<noteq> [] \<and> list_all (\<lambda>n. map_of states n = Some ''STAGE_SUCCEEDED'') terminal \<and> gates"
  by (auto simp: derive_workflow_state_def Let_def)

end
