(* ===== verification/Resource_Runs.thy ===== *)
theory Resource_Runs
  imports Prelude Complex_Main
begin

text \<open>
  Detached resource runs (\<open>utilities/resource_run_registry.py\<close>, \<open>utilities/resource-runner.py\<close>): exact
  identity liveness, the settling of a run that has ended, the registry rows a start reserves
  and publishes, the stop authority, and the global index with its scan.

  What the code reads from outside is a parameter: \<open>env\<close> answers \<open>/proc\<close>, files and process groups.
  Clock readings in a row are whole seconds.
\<close>

section \<open>Environment and exact identity\<close>

record proc_id =
  p_pid :: int
  p_starttime :: string
  p_command_hash :: string

record env =
  env_identity :: "int \<Rightarrow> proc_id option"   \<comment> \<open>\<open>identity_reader(pid)\<close>\<close>
  env_proc_dir :: "int \<Rightarrow> bool"             \<comment> \<open>\<open>/proc/<pid>\<close> exists\<close>
  env_file :: "string \<Rightarrow> string option"     \<comment> \<open>\<open>read_text\<close>; \<open>None\<close> for \<open>OSError\<close>\<close>
  env_mtime :: "string \<Rightarrow> int option"
  env_pgid :: "int \<Rightarrow> int option"

definition after_last_paren :: "string \<Rightarrow> string option" where
  \<comment> \<open>\<open>raw.rsplit(") ", 1)[1]\<close>; \<open>None\<close> where it raises \<open>IndexError\<close>\<close>
  "after_last_paren raw =
    (let cuts = filter (\<lambda>i. take 2 (drop i raw) = '') '') [0 ..< length raw] in
     if cuts = [] then None else Some (drop (last cuts + 2) raw))"

definition words :: "string \<Rightarrow> string list" where
  \<comment> \<open>\<open>str.split()\<close>\<close>
  "words s = filter (\<lambda>w. w \<noteq> []) (split_on CHR '' '' (map (\<lambda>c. if is_space c then CHR '' '' else c) s))"

definition proc_identity :: "(string \<Rightarrow> string) \<Rightarrow> string option \<Rightarrow> string option \<Rightarrow> int \<Rightarrow> proc_id option" where
  \<comment> \<open>from the texts of \<open>stat\<close> and \<open>cmdline\<close>\<close>
  "proc_identity sha256 stat cmdline pid = (case stat of None \<Rightarrow> None
     | Some raw \<Rightarrow> (case after_last_paren raw of None \<Rightarrow> None
       | Some rest \<Rightarrow> (case cmdline of None \<Rightarrow> None
         | Some command \<Rightarrow>
             if length (words rest) \<le> 19 \<or> command = [] then None
             else Some \<lparr>p_pid = pid, p_starttime = words rest ! 19, p_command_hash = sha256 command\<rparr>)))"

definition IDENTITY_KEYS :: "string list" where
  "IDENTITY_KEYS = [''pid'', ''starttime'', ''command_hash'']"

definition identity_value :: "proc_id \<Rightarrow> string \<Rightarrow> string" where
  \<comment> \<open>\<open>str(current[key])\<close>\<close>
  "identity_value c key = (if key = ''pid'' then int_str (p_pid c)
     else if key = ''starttime'' then p_starttime c else p_command_hash c)"

definition identity_incomplete :: "obj \<Rightarrow> bool" where
  "identity_incomplete run = list_ex (\<lambda>k. oget run k = JNull \<or> oget run k = JStr []) IDENTITY_KEYS"

definition identity_matches :: "proc_id \<Rightarrow> obj \<Rightarrow> bool" where
  "identity_matches c run = list_all (\<lambda>k. identity_value c k = py_str (oget run k)) IDENTITY_KEYS"

definition classify_identity :: "env \<Rightarrow> obj \<Rightarrow> string \<times> proc_id option \<times> string" where
  "classify_identity en run =
    (if identity_incomplete run then (''stale'', None, ''recorded-identity-incomplete'')
     else case py_int_of (oget run ''pid'') of
       None \<Rightarrow> (''stale'', None, ''recorded-pid-invalid'')
     | Some pid \<Rightarrow> (case env_identity en pid of
         None \<Rightarrow> if env_proc_dir en pid then (''stale'', None, ''process-identity-unreadable'')
                 else (''exited'', None, ''process-absent'')
       | Some current \<Rightarrow>
           if identity_matches current run then (''working'', Some current, ''exact-identity-match'')
           else (''stale'', Some current, ''process-identity-mismatch'')))"

abbreviation liveness_of :: "env \<Rightarrow> obj \<Rightarrow> string" where
  "liveness_of en run \<equiv> fst (classify_identity en run)"

definition is_alive :: "env \<Rightarrow> obj \<Rightarrow> bool" where
  "is_alive en run \<longleftrightarrow> liveness_of en run = ''working''"

section \<open>Settling a run\<close>

definition TERMINAL_STATUSES :: "string list" where
  "TERMINAL_STATUSES = [''succeeded'', ''failed'']"

definition terminal_row :: "obj \<Rightarrow> bool" where
  "terminal_row row = list_ex (\<lambda>s. oget row ''status'' = JStr s) TERMINAL_STATUSES"

definition read_sentinel :: "env \<Rightarrow> json \<Rightarrow> int option" where
  "read_sentinel en path =
    (if \<not> truthy path then None
     else case env_file en (py_str path) of None \<Rightarrow> None | Some raw \<Rightarrow> py_int (strip raw))"

definition settle_verdict :: "env \<Rightarrow> obj \<Rightarrow> string \<times> string \<times> json" where
  \<comment> \<open>\<open>status, state, failure\<close>\<close>
  "settle_verdict en run =
    (let (liveness, current, reason) = classify_identity en run in
     case read_sentinel en (oget run ''sentinel'') of
       Some ec \<Rightarrow> if ec = 0 then (''succeeded'', ''STAGE_SUCCEEDED'', JNull)
                  else (''failed'', ''FAILED_RETRYABLE'', JStr (''exit-'' @ int_str ec))
     | None \<Rightarrow> if liveness = ''stale'' then (''failed'', ''FAILED_RETRYABLE'', JStr reason)
               else (''failed'', ''FAILED_RETRYABLE'', JStr ''no-exit-sentinel''))"

definition json_int :: "int option \<Rightarrow> json" where
  "json_int x = (case x of None \<Rightarrow> JNull | Some i \<Rightarrow> JInt i)"

definition settled_row :: "env \<Rightarrow> int \<Rightarrow> obj \<Rightarrow> obj \<Rightarrow> obj" where
  "settled_row en now run row =
    (let (status, state, failure) = settle_verdict en run in
     dict_update row [(''status'', JStr status), (''exit_code'', json_int (read_sentinel en (oget run ''sentinel''))),
       (''ended_at'', JInt now), (''workflow_state'', JStr state), (''failure_class'', failure),
       (''liveness_reason'', JStr (snd (snd (classify_identity en run))))])"

type_synonym runs = "(string \<times> obj) list"

definition settle :: "env \<Rightarrow> int \<Rightarrow> string \<Rightarrow> obj \<Rightarrow> (runs, string, obj \<times> bool) cmd" where
  \<comment> \<open>\<open>run\<close> is the row the observer read before; the update sees the rows as they are now\<close>
  "settle en now run_id run runs =
    (if liveness_of en run = ''working'' then (Inr (run, False), runs)
     else case map_of runs run_id of
       None \<Rightarrow> (Inl ''unknown run id'', runs)
     | Some row \<Rightarrow>
         if terminal_row row then (Inr (row, False), runs)
         else let row' = settled_row en now run row in (Inr (row', True), AList.update run_id row' runs))"

section \<open>Starting and stopping\<close>

definition valid_retry :: "string \<Rightarrow> string \<Rightarrow> bool" where
  \<comment> \<open>\<open>RETRY.fullmatch(run_id)\<close> with that base: \<open><base>__a<N>\<close>\<close>
  "valid_retry base run_id =
    (base \<noteq> [] \<and> startswith (base @ ''__a'') run_id \<and>
     (let n = drop (length base + 3) run_id in isdigit n \<and> hd n \<noteq> CHR ''0''))"

definition run_id_allowed :: "string \<Rightarrow> string \<Rightarrow> bool" where
  "run_id_allowed manifest_run_id run_id = (run_id = manifest_run_id \<or> valid_retry manifest_run_id run_id)"

record launch =
  la_run_id :: string
  la_cwd :: string
  la_log :: string
  la_command :: json
  la_provenance :: obj         \<comment> \<open>the sealed configuration, empty without a manifest\<close>
  la_route :: json
  la_node :: json
  la_parent :: json
  la_started_at :: int

definition placeholder_row :: "launch \<Rightarrow> obj" where
  "placeholder_row la =
    dict_update (dict_update
      [(''run_id'', JStr (la_run_id la)), (''cwd'', JStr (la_cwd la)), (''log'', JStr (la_log la)), (''command'', la_command la)]
      (la_provenance la))
      [(''route'', la_route la), (''node'', la_node la), (''status'', JStr ''launching''),
       (''sentinel'', JStr (la_log la @ ''.exit'')), (''parent_attempt_id'', la_parent la),
       (''workflow_state'', JStr ''READY''), (''started_at'', JInt (la_started_at la))]"

definition reserve_run :: "string \<Rightarrow> obj \<Rightarrow> (runs, string, unit) cmd" where
  "reserve_run run_id placeholder runs =
    (if map_of runs run_id \<noteq> None then (Inl ''run id already exists'', runs)
     else (Inr (), AList.update run_id placeholder runs))"

definition abort_run :: "string \<Rightarrow> runs \<Rightarrow> runs" where
  "abort_run run_id runs = AList.delete run_id runs"

definition publish_run :: "string \<Rightarrow> obj \<Rightarrow> runs \<Rightarrow> runs" where
  "publish_run run_id run runs = AList.update run_id run runs"

definition running_row :: "proc_id \<Rightarrow> int \<Rightarrow> json \<Rightarrow> launch \<Rightarrow> obj" where
  "running_row ident grp launch_argv la =
    dict_update (dict_update
      [(''pid'', JInt (p_pid ident)), (''starttime'', JStr (p_starttime ident)),
       (''command_hash'', JStr (p_command_hash ident)), (''run_id'', JStr (la_run_id la)), (''process_group'', JInt grp),
       (''cwd'', JStr (la_cwd la)), (''log'', JStr (la_log la)), (''command'', la_command la),
       (''launch_argv'', launch_argv), (''sentinel'', JStr (la_log la @ ''.exit'')), (''parent_attempt_id'', la_parent la)]
      (la_provenance la))
      [(''route'', la_route la), (''node'', la_node la), (''status'', JStr ''running''),
       (''workflow_state'', JStr ''RUNNING''), (''started_at'', JInt (la_started_at la))]"

text \<open>\<open>main start\<close> after its checks: reserve the id, publish the registry in the global index, start the
  payload, read its identity (up to twenty tries), and publish the row; each failure takes the
  reservation back.\<close>

record start_outcome =
  so_indexed :: bool                        \<comment> \<open>\<open>register_registry\<close> did not raise\<close>
  so_spawned :: bool                        \<comment> \<open>\<open>Popen\<close> did not raise\<close>
  so_identity :: "proc_id option list"      \<comment> \<open>what each look at the new process saw\<close>
  so_pgid :: int
  so_argv :: json

definition start_run :: "start_outcome \<Rightarrow> launch \<Rightarrow> (runs, string, obj) cmd" where
  "start_run so la runs =
    (case reserve_run (la_run_id la) (placeholder_row la) runs of
       (Inl err, runs1) \<Rightarrow> (Inl err, runs1)
     | (Inr _, runs1) \<Rightarrow>
         if \<not> so_indexed so then (Inl ''OSError'', abort_run (la_run_id la) runs1)
         else if \<not> so_spawned so then (Inl ''OSError'', abort_run (la_run_id la) runs1)
         else case find (\<lambda>i. i \<noteq> None) (take 20 (so_identity so)) of
           Some (Some ident) \<Rightarrow>
             (let run = running_row ident (so_pgid so) (so_argv so) la
              in (Inr run, publish_run (la_run_id la) run runs1))
         | _ \<Rightarrow> (Inl ''could not establish process identity'', abort_run (la_run_id la) runs1))"

definition stop_group :: "env \<Rightarrow> env \<Rightarrow> obj \<Rightarrow> string + int" where
  \<comment> \<open>the group that receives \<open>SIGTERM\<close>; the second environment is the re-read before the signal\<close>
  "stop_group en1 en2 run =
    (if liveness_of en1 run \<noteq> ''working'' then Inl ''process identity is stale''
     else case (py_int_of (oget run ''pid''), py_int_of (oget run ''process_group'')) of
       (Some pid, Some grp) \<Rightarrow>
         if env_pgid en1 pid \<noteq> Some grp \<or> grp \<noteq> pid then Inl ''process group identity is stale''
         else if liveness_of en2 run \<noteq> ''working'' then Inl ''process identity changed before signal''
         else if env_pgid en2 pid \<noteq> Some grp then Inl ''process group changed before signal''
         else Inr grp
     | _ \<Rightarrow> Inl ''process group identity is stale'')"

definition reported_status :: "env \<Rightarrow> obj \<Rightarrow> json" where
  "reported_status en run =
    (if terminal_row run then oget run ''status''
     else JStr (if liveness_of en run = ''working'' then ''running'' else liveness_of en run))"

section \<open>The global index\<close>

datatype json_file = Missing | Malformed | Parsed json

definition INDEX_SCHEMA :: int where "INDEX_SCHEMA = 1"
definition REGISTRY_SCHEMA :: int where "REGISTRY_SCHEMA = 1"

definition valid_registry :: "json \<Rightarrow> bool" where
  "valid_registry data = (case data of JObj d \<Rightarrow>
     py_eq (oget d ''schema_version'') (JInt REGISTRY_SCHEMA) \<and> is_obj (oget d ''runs'') | _ \<Rightarrow> False)"

definition valid_index :: "json \<Rightarrow> bool" where
  "valid_index data = (case data of JObj d \<Rightarrow>
     py_eq (oget d ''schema_version'') (JInt INDEX_SCHEMA) \<and> is_obj (oget d ''registries'') | _ \<Rightarrow> False)"

definition register_registry ::
  "(string \<Rightarrow> string) \<Rightarrow> bool \<Rightarrow> string \<Rightarrow> json_file \<Rightarrow> int \<Rightarrow> json_file \<Rightarrow> string + obj \<times> obj" where
  \<comment> \<open>the record returned and the index written\<close>
  "register_registry sha256 require_existing registry data now index =
    (if require_existing \<and> (case data of Parsed d \<Rightarrow> \<not> valid_registry d | _ \<Rightarrow> True)
     then Inl ''invalid resource-run registry''
     else bindr (case index of Missing \<Rightarrow> Inr (JObj [(''schema_version'', JInt INDEX_SCHEMA), (''registries'', JObj [])])
         | Malformed \<Rightarrow> Inl ''malformed resource-run global index'' | Parsed p \<Rightarrow> Inr p) (\<lambda>payload.
     if \<not> valid_index payload then Inl ''invalid resource-run global index''
     else let d = the_obj payload; registries = the_obj (oget d ''registries''); key = sha256 registry;
          registered = (case oget registries key of JObj old \<Rightarrow> oget_or old ''registered_at'' (JInt now) | _ \<Rightarrow> JInt now);
          row = [(''path'', JStr registry), (''registered_at'', registered), (''updated_at'', JInt now)]
       in Inr (row, AList.update ''registries'' (JObj (AList.update key (JObj row) registries)) d)))"

datatype diagnostic = Malformed_index | Malformed_entry string | Malformed_registry string | Malformed_run string string

primrec index_walk :: "(string \<Rightarrow> string) \<Rightarrow> (string \<times> json) list \<Rightarrow> string list \<Rightarrow> diagnostic list \<Rightarrow> string list \<times> diagnostic list" where
  "index_walk resolve [] paths diags = (paths, diags)"
| "index_walk resolve (p # ps) paths diags =
    (let raw = (case snd p of JObj r \<Rightarrow> oget r ''path'' | _ \<Rightarrow> JNull) in
     if \<not> nonempty_str raw then index_walk resolve ps paths (diags @ [Malformed_entry (fst p)])
     else let path = resolve (the_str raw) in
       index_walk resolve ps (if path \<in> set paths then paths else paths @ [path]) diags)"

definition indexed_paths :: "(string \<Rightarrow> string) \<Rightarrow> json_file \<Rightarrow> string list \<times> diagnostic list" where
  "indexed_paths resolve index = (case index of
       Missing \<Rightarrow> ([], [])
     | Malformed \<Rightarrow> ([], [Malformed_index])
     | Parsed p \<Rightarrow> if \<not> valid_index p then ([], [Malformed_index])
         else index_walk resolve (the_obj (oget (the_obj p) ''registries'')) [] [])"

section \<open>Projection and counting\<close>

definition numeric :: "json \<Rightarrow> int option" where
  \<comment> \<open>\<open>isinstance(v, (int, float))\<close>, booleans included\<close>
  "numeric v = num_of v"

definition start_epoch :: "int option \<Rightarrow> int \<Rightarrow> obj \<Rightarrow> rat option" where
  "start_epoch boot clk_tck run = (case oget run ''started_at'' of
       JInt v \<Rightarrow> if 0 < v then Some (of_int v) else
         (case (boot, py_int_of (oget run ''starttime'')) of
            (Some b, Some t) \<Rightarrow> if b = 0 then None else Some (of_int b + of_int t / of_int clk_tck) | _ \<Rightarrow> None)
     | _ \<Rightarrow> (case (boot, py_int_of (oget run ''starttime'')) of
            (Some b, Some t) \<Rightarrow> if b = 0 then None else Some (of_int b + of_int t / of_int clk_tck) | _ \<Rightarrow> None))"

record run_row =
  r_run_id :: string
  r_cwd :: string
  r_liveness :: string
  r_elapsed_min :: "int option"
  r_registry_status :: json
  r_registry_path :: string
  r_reason :: string
  r_log_path :: json
  r_log_updated_at :: "int option"
  r_started_at :: "rat option"
  r_ended_at :: json
  r_current_identity :: "proc_id option"
  r_copied :: obj              \<comment> \<open>the fields taken over as recorded\<close>

definition COPIED_KEYS :: "string list" where
  "COPIED_KEYS = [''pid'', ''starttime'', ''command_hash'', ''process_group'', ''route'', ''node'', ''config_ref'',
     ''config_sha256'', ''source_commit'', ''source_dirty'', ''source_git_state'', ''workflow_state'', ''exit_code'',
     ''failure_class'', ''parent_attempt_id'', ''sentinel'']"

definition normalize_run :: "env \<Rightarrow> int option \<Rightarrow> int \<Rightarrow> int \<Rightarrow> string \<Rightarrow> string \<Rightarrow> obj \<Rightarrow> run_row" where
  "normalize_run en boot clk_tck now registry run_id run =
    (let (liveness, current, reason) = classify_identity en run;
         log_path = py_or (oget run ''log'') (oget run ''log_path'');
         log_updated_at = (if nonempty_str log_path then env_mtime en (the_str log_path) else None);
         started_at = start_epoch boot clk_tck run;
         ended = numeric (oget run ''ended_at'');
         end_time = (if liveness = ''working'' then Some now else if ended \<noteq> None then ended else log_updated_at)
     in \<lparr>r_run_id = run_id, r_cwd = (if is_str (oget run ''cwd'') then the_str (oget run ''cwd'') else []),
         r_liveness = liveness,
         r_elapsed_min = (case (started_at, end_time) of
            (Some s, Some e) \<Rightarrow> if s = 0 \<or> e = 0 then None else Some (max 0 \<lfloor>(of_int e - s) / 60\<rfloor>) | _ \<Rightarrow> None),
         r_registry_status = oget run ''status'', r_registry_path = registry, r_reason = reason,
         r_log_path = log_path, r_log_updated_at = log_updated_at, r_started_at = started_at,
         r_ended_at = (if ended \<noteq> None then oget run ''ended_at'' else JNull),
         r_current_identity = current, r_copied = map (\<lambda>k. (k, oget run k)) COPIED_KEYS\<rparr>)"

primrec scan_runs ::
  "env \<Rightarrow> int option \<Rightarrow> int \<Rightarrow> int \<Rightarrow> string \<Rightarrow> (string \<times> json) list \<Rightarrow> run_row list \<times> diagnostic list" where
  "scan_runs en boot clk now registry [] = ([], [])"
| "scan_runs en boot clk now registry (p # ps) =
    (let (rows, diags) = scan_runs en boot clk now registry ps in
     case snd p of
       JObj run \<Rightarrow> (normalize_run en boot clk now registry (fst p) run # rows, diags)
     | _ \<Rightarrow> (rows, Malformed_run registry (fst p) # diags))"

primrec scan_registries ::
  "env \<Rightarrow> int option \<Rightarrow> int \<Rightarrow> int \<Rightarrow> (string \<Rightarrow> json_file) \<Rightarrow> string list \<Rightarrow> run_row list \<times> diagnostic list" where
  "scan_registries en boot clk now load [] = ([], [])"
| "scan_registries en boot clk now load (registry # rest) =
    (let (rows, diags) = scan_registries en boot clk now load rest in
     case load registry of
       Parsed p \<Rightarrow> if \<not> valid_registry p then (rows, Malformed_registry registry # diags)
         else (let (rs, ds) = scan_runs en boot clk now registry (the_obj (oget (the_obj p) ''runs''))
               in (rs @ rows, ds @ diags))
     | _ \<Rightarrow> (rows, Malformed_registry registry # diags))"

definition scan :: "(string \<Rightarrow> string) \<Rightarrow> env \<Rightarrow> int option \<Rightarrow> int \<Rightarrow> int \<Rightarrow> (string \<Rightarrow> json_file) \<Rightarrow> json_file
    \<Rightarrow> run_row list \<times> diagnostic list" where
  "scan resolve en boot clk now load index =
    (let (paths, diags) = indexed_paths resolve index;
         (rows, more) = scan_registries en boot clk now load paths
     in (rows, diags @ more))"

definition count_liveness :: "string \<Rightarrow> run_row list \<Rightarrow> nat" where
  "count_liveness liveness rows = length (filter (\<lambda>r. r_liveness r = liveness) rows)"

definition counts :: "run_row list \<times> diagnostic list \<Rightarrow> nat \<times> nat \<times> nat \<times> nat" where
  \<comment> \<open>working, stale, exited, malformed\<close>
  "counts = (\<lambda>(rows, diags). (count_liveness ''working'' rows, count_liveness ''stale'' rows,
     count_liveness ''exited'' rows, length diags))"


section \<open>Laws\<close>

lemma classify_cong:
  assumes "\<And>k. k \<in> set IDENTITY_KEYS \<Longrightarrow> oget run k = oget run' k"
  shows "classify_identity en run = classify_identity en run'"
proof -
  have "identity_incomplete run = identity_incomplete run'" "oget run ''pid'' = oget run' ''pid''"
    and "identity_matches c run = identity_matches c run'" for c
    using assms by (simp_all add: identity_incomplete_def identity_matches_def IDENTITY_KEYS_def)
  then show ?thesis by (simp add: classify_identity_def split: option.split)
qed

lemma classify_working:
  "liveness_of en run = ''working'' \<longleftrightarrow>
     \<not> identity_incomplete run \<and> (\<exists>pid c. py_int_of (oget run ''pid'') = Some pid \<and> env_identity en pid = Some c \<and>
       identity_matches c run)"
  by (auto simp: classify_identity_def split: option.splits)

lemma liveness_values: "liveness_of en run \<in> {''working'', ''exited'', ''stale''}"
  by (auto simp: classify_identity_def split: option.splits)

lemma oget_dict_update: "oget (dict_update d e) k = (case map_of (rev e) k of Some v \<Rightarrow> v | None \<Rightarrow> oget d k)"
  by (simp add: oget_def map_of_dict_update map_add_def split: option.splits)

lemma settled_row_fields:
  "oget (settled_row en now run row) ''status'' = JStr (fst (settle_verdict en run))"
  "oget (settled_row en now run row) ''exit_code'' = json_int (read_sentinel en (oget run ''sentinel''))"
  "k \<in> set IDENTITY_KEYS \<Longrightarrow> oget (settled_row en now run row) k = oget row k"
  by (auto simp: settled_row_def oget_dict_update IDENTITY_KEYS_def split: prod.splits)

lemma settle_verdict_values: "fst (settle_verdict en run) \<in> {''succeeded'', ''failed''}"
  by (auto simp: settle_verdict_def split: prod.splits option.splits)

lemma settled_row_terminal: "terminal_row (settled_row en now run row)"
  using settle_verdict_values [of en run] by (simp add: terminal_row_def TERMINAL_STATUSES_def settled_row_fields)

lemma settle_frame: "run_id' \<noteq> run_id \<Longrightarrow> map_of (snd (settle en now run_id run runs)) run_id' = map_of runs run_id'"
  by (auto simp: settle_def update_conv' Let_def split: option.splits)

text \<open>A terminal row is never rewritten by a settle of any observer.\<close>

lemma settle_terminal_fixed:
  "map_of runs rid = Some row \<Longrightarrow> terminal_row row \<Longrightarrow>
   map_of (snd (settle en now run_id run runs)) rid = Some row"
  by (auto simp: settle_def update_conv' Let_def split: option.splits)

section \<open>Observers in sequence\<close>

text \<open>An observer may be any of \<open>reap\<close>, \<open>status\<close>, \<open>list\<close> and the continuation supervisor, each with
  its own snapshot of the row and its own view of the system.\<close>

datatype observation = Observe env int string obj

fun observe :: "observation \<Rightarrow> runs \<Rightarrow> (string + obj \<times> bool) \<times> runs" where
  "observe (Observe en now run_id run) runs = settle en now run_id run runs"

definition settled_in :: "runs \<Rightarrow> string \<Rightarrow> bool" where
  "settled_in runs run_id \<longleftrightarrow> (\<exists>row. map_of runs run_id = Some row \<and> terminal_row row)"

fun settles :: "observation \<Rightarrow> string + obj \<times> bool \<Rightarrow> string \<Rightarrow> bool" where
  "settles (Observe en now run_id run) (Inr (row, b)) rid = (run_id = rid \<and> b)"
| "settles _ (Inl _) rid = False"

lemma settles_once:
  "settles ob (fst (observe ob runs)) rid \<Longrightarrow> \<not> settled_in runs rid \<and> settled_in (snd (observe ob runs)) rid"
  by (cases ob) (auto simp: settle_def settled_in_def update_conv' settled_row_terminal Let_def
      split: option.splits if_splits)

interpretation settlement: granting_machine observe "\<lambda>_. True" "\<lambda>_. True" settled_in settles
proof
  fix op :: observation and s :: runs and x
  assume "settled_in s x"
  then show "settled_in (snd (observe op s)) x"
    by (cases op) (auto simp: settled_in_def intro: settle_terminal_fixed)
qed (auto dest: settles_once)

text \<open>The terminal row of one run, once written, is the row every later observer sees.\<close>

definition row_is :: "string \<Rightarrow> obj \<Rightarrow> runs \<Rightarrow> bool" where
  "row_is rid row runs \<longleftrightarrow> map_of runs rid = Some row \<and> terminal_row row"

lemma observe_row_is: "row_is rid row runs \<Longrightarrow> row_is rid row (snd (observe ob runs))"
  by (cases ob) (simp add: row_is_def settle_terminal_fixed)

interpretation settled_value: machine observe "\<lambda>_. True" "row_is rid row" for rid row
  by unfold_locales (rule observe_row_is)

section \<open>Index and scan laws\<close>

lemma index_walk_keeps: "x \<in> set paths \<Longrightarrow> x \<in> set (fst (index_walk resolve ps paths diags))"
  by (induction ps arbitrary: paths diags) (simp_all add: Let_def)

lemma index_walk_finds:
  "(key, JObj r) \<in> set ps \<Longrightarrow> nonempty_str (oget r ''path'') \<Longrightarrow>
   resolve (the_str (oget r ''path'')) \<in> set (fst (index_walk resolve ps paths diags))"
proof (induction ps arbitrary: paths diags)
  case (Cons p ps)
  show ?case
  proof (cases "p = (key, JObj r)")
    case True
    with Cons.prems show ?thesis by (simp add: Let_def index_walk_keeps)
  next
    case False
    with Cons show ?thesis by (simp add: Let_def)
  qed
qed simp

lemma index_walk_distinct: "distinct paths \<Longrightarrow> distinct (fst (index_walk resolve ps paths diags))"
  by (induction ps arbitrary: paths diags) (simp_all add: Let_def)

lemma normalize_liveness: "r_liveness (normalize_run en boot clk now registry run_id run) = liveness_of en run"
  by (simp add: normalize_run_def Let_def split: prod.splits)

lemma scan_runs_liveness: "row \<in> set (fst (scan_runs en boot clk now registry ps)) \<Longrightarrow>
   r_liveness row \<in> {''working'', ''exited'', ''stale''}"
proof (induction ps)
  case (Cons p ps)
  obtain rows diags where "scan_runs en boot clk now registry ps = (rows, diags)" by fastforce
  note scan = this
  show ?case
  proof (cases "snd p")
    case (JObj run)
    with Cons scan liveness_values [of en run] show ?thesis by (auto simp: normalize_liveness)
  qed (use Cons scan in auto)
qed simp

lemma scan_registries_liveness: "row \<in> set (fst (scan_registries en boot clk now load paths)) \<Longrightarrow>
   r_liveness row \<in> {''working'', ''exited'', ''stale''}"
proof (induction paths)
  case (Cons path paths)
  obtain rows diags where r: "scan_registries en boot clk now load paths = (rows, diags)" by fastforce
  show ?case
  proof (cases "load path")
    case (Parsed p)
    obtain rs ds where s: "scan_runs en boot clk now path (the_obj (oget (the_obj p) ''runs'')) = (rs, ds)" by fastforce
    with Cons r Parsed show ?thesis
      using scan_runs_liveness [of row en boot clk now path "the_obj (oget (the_obj p) ''runs'')"]
      by (auto split: if_splits)
  qed (use Cons r in auto)
qed simp

lemma count_split:
  "\<forall>r \<in> set rows. r_liveness r \<in> {''working'', ''exited'', ''stale''} \<Longrightarrow>
   count_liveness ''working'' rows + count_liveness ''stale'' rows + count_liveness ''exited'' rows = length rows"
  by (induction rows) (auto simp: count_liveness_def)


lemma update_binding: "(k, v) \<in> set (AList.update k v al)"
  by (induction al) auto

lemma classify_ignores_other_keys:
  "k \<notin> set IDENTITY_KEYS \<Longrightarrow> classify_identity en (AList.update k v run) = classify_identity en run"
  by (rule classify_cong) auto

section \<open>Properties\<close>

definition demo_env :: env where
  "demo_env = \<lparr>env_identity = (\<lambda>p. if p = 7 then Some \<lparr>p_pid = 7, p_starttime = ''99'', p_command_hash = ''c0''\<rparr> else None),
     env_proc_dir = (\<lambda>p. p = 7), env_file = (\<lambda>f. if f = ''ok.exit'' then Some ''0'' else None),
     env_mtime = (\<lambda>_. None), env_pgid = (\<lambda>p. if p = 7 then Some 7 else None)\<rparr>"

definition demo_launch :: launch where
  "demo_launch = \<lparr>la_run_id = ''r1'', la_cwd = ''/w'', la_log = ''run.log'', la_command = JList [], la_provenance = [],
     la_route = JStr ''route.json'', la_node = JStr ''n1'', la_parent = JNull, la_started_at = 100\<rparr>"

definition demo_placeholder :: obj where
  "demo_placeholder = placeholder_row demo_launch"

definition demo_running :: obj where
  "demo_running = running_row \<lparr>p_pid = 7, p_starttime = ''99'', p_command_hash = ''c0''\<rparr> 7 (JList []) demo_launch"

definition demo_ended :: obj where
  "demo_ended = [(''pid'', JInt 8), (''starttime'', JStr ''50''), (''command_hash'', JStr ''c1''),
     (''sentinel'', JStr ''ok.exit''), (''status'', JStr ''running'')]"

lemma delete_update_fresh: "map_of m k = None \<Longrightarrow> AList.delete k (AList.update k v m) = m"
  by (induction m) (auto simp: delete_conv' split: if_splits)


text \<open>When a settle records the end of a run, the process recorded for it was not seen alive, the
  row becomes terminal and no other row changes, and it says \<open>succeeded\<close> exactly when the exit
  sentinel reads 0; the absence of evidence is never success.\<close>

theorem success_needs_exit_proof:
  assumes "settle en now run_id run runs = (Inr (row, True), runs')"
  shows "\<not> is_alive en run \<and> map_of runs' run_id = Some row \<and> terminal_row row \<and>
    (oget row ''status'' = JStr ''succeeded'') = (read_sentinel en (oget run ''sentinel'') = Some 0) \<and>
    (run_id' \<noteq> run_id \<longrightarrow> map_of runs' run_id' = map_of runs run_id')"
proof -
  have frame: "run_id' \<noteq> run_id \<longrightarrow> map_of runs' run_id' = map_of runs run_id'"
    using settle_frame [of run_id' run_id en now run runs] assms by simp
  have live: "\<not> is_alive en run" and row: "\<exists>old. row = settled_row en now run old" "map_of runs' run_id = Some row"
    using assms by (auto simp: settle_def is_alive_def update_conv' Let_def split: if_splits option.splits)
  have "(fst (settle_verdict en run) = ''succeeded'') = (read_sentinel en (oget run ''sentinel'') = Some 0)"
    by (auto simp: settle_verdict_def split: prod.splits option.splits)
  with frame live row show ?thesis
    by (auto simp: settled_row_fields settled_row_terminal)
qed

theorem success_needs_exit_proof_witness:
  "\<exists>row runs'. settle demo_env 200 ''r2'' demo_ended [(''r2'', demo_ended)] = (Inr (row, True), runs') \<and>
     oget row ''status'' = JStr ''succeeded''"
proof -
  have "fst (settle demo_env 200 ''r2'' demo_ended [(''r2'', demo_ended)]) = Inr (settled_row demo_env 200 demo_ended demo_ended, True)"
    by code_simp
  then obtain runs' where r: "settle demo_env 200 ''r2'' demo_ended [(''r2'', demo_ended)]
      = (Inr (settled_row demo_env 200 demo_ended demo_ended, True), runs')"
    by (metis prod.collapse)
  have "read_sentinel demo_env (oget demo_ended ''sentinel'') = Some 0" by code_simp
  with success_needs_exit_proof [OF r] r show ?thesis by blast
qed


text \<open>A settle whose snapshot was read before the start published the process identity fails a
  run that is alive: the row becomes a terminal \<open>failed\<close> row while its recorded identity is an exact
  match for the running process.\<close>

theorem early_snapshot_fails_a_live_run:
  assumes "identity_incomplete snapshot" and "read_sentinel en (oget snapshot ''sentinel'') = None"
    and "map_of runs run_id = Some row" and "\<not> terminal_row row" and "is_alive en row"
  shows "\<exists>row'. settle en now run_id snapshot runs = (Inr (row', True), AList.update run_id row' runs) \<and>
    oget row' ''status'' = JStr ''failed'' \<and> terminal_row row' \<and> is_alive en row'"
proof -
  have verdict: "fst (settle_verdict en snapshot) = ''failed''"
    using assms(1,2) by (simp add: settle_verdict_def classify_identity_def)
  have "classify_identity en (settled_row en now snapshot row) = classify_identity en row"
    by (rule classify_cong) (rule settled_row_fields)
  with assms verdict show ?thesis
    by (simp add: settle_def is_alive_def Let_def settled_row_terminal settled_row_fields)
      (simp add: classify_identity_def)
qed

theorem early_snapshot_fails_a_live_run_witness:
  "\<exists>row'. settle demo_env 101 ''r1'' demo_placeholder [(''r1'', demo_running)]
      = (Inr (row', True), AList.update ''r1'' row' [(''r1'', demo_running)]) \<and> is_alive demo_env row'"
proof -
  have "identity_incomplete demo_placeholder" "read_sentinel demo_env (oget demo_placeholder ''sentinel'') = None"
    "map_of [(''r1'', demo_running)] ''r1'' = Some demo_running" "\<not> terminal_row demo_running" "is_alive demo_env demo_running"
    by code_simp+
  from early_snapshot_fails_a_live_run [OF this] show ?thesis by blast
qed

text \<open>Every row the scan returns is counted under exactly one liveness, and the liveness does not
  depend on the status word the registry stores.\<close>

theorem counts_partition_the_scan:
  "(case counts (scan resolve en boot clk now load index) of (working, stale, exited, malformed) \<Rightarrow>
     working + stale + exited = length (fst (scan resolve en boot clk now load index)) \<and>
     malformed = length (snd (scan resolve en boot clk now load index))) \<and>
   r_liveness (normalize_run en boot clk now registry run_id (AList.update ''status'' word run))
     = r_liveness (normalize_run en boot clk now registry run_id run)"
proof -
  obtain rows diags where s: "scan resolve en boot clk now load index = (rows, diags)" by fastforce
  then have "r_liveness r \<in> {''working'', ''exited'', ''stale''}" if "r \<in> set rows" for r
    using that scan_registries_liveness [of r en boot clk now load "fst (indexed_paths resolve index)"]
    by (auto simp: scan_def Let_def split: prod.splits)
  then have "count_liveness ''working'' rows + count_liveness ''stale'' rows + count_liveness ''exited'' rows = length rows"
    by (intro count_split) blast
  moreover have "classify_identity en (AList.update ''status'' word run) = classify_identity en run"
    by (rule classify_ignores_other_keys) (simp add: IDENTITY_KEYS_def)
  ultimately show ?thesis by (simp add: s counts_def normalize_liveness)
qed

text \<open>A registry that was registered is found by the next reader of the index, whatever the index
  held before, and its first registration time is kept.\<close>

theorem registered_registry_is_indexed:
  assumes "register_registry sha256 require registry data now index = Inr (row, written)" and "registry \<noteq> []"
  shows "resolve registry \<in> set (fst (indexed_paths resolve (Parsed (JObj written)))) \<and>
    (\<forall>now'. \<exists>row' written'. register_registry sha256 False registry data now' (Parsed (JObj written)) = Inr (row', written') \<and>
      oget row' ''registered_at'' = oget row ''registered_at'')"
proof -
  obtain payload where p: "valid_index payload" and
    w: "written = AList.update ''registries'' (JObj (AList.update (sha256 registry) (JObj row)
          (the_obj (oget (the_obj payload) ''registries'')))) (the_obj payload)"
    and row: "oget row ''path'' = JStr registry"
    using assms(1) by (auto simp: register_registry_def Let_def bindr_Inr_iff split: if_splits json_file.splits)
  have valid: "valid_index (JObj written)"
    using p by (cases payload) (auto simp: valid_index_def w is_obj_def)
  have mem: "(sha256 registry, JObj row) \<in> set (the_obj (oget written ''registries''))"
    by (simp add: w update_binding)
  have "resolve registry \<in> set (fst (indexed_paths resolve (Parsed (JObj written))))"
    using index_walk_finds [OF mem, of resolve "[]" "[]"] assms(2) row valid
    by (simp add: indexed_paths_def nonempty_str_def)
  moreover have "oget (the_obj (oget written ''registries'')) (sha256 registry) = JObj row"
    by (simp add: w)
  moreover have "\<exists>r. map_of row ''registered_at'' = Some r"
    using assms(1) by (auto simp: register_registry_def Let_def bindr_Inr_iff split: if_splits)
  ultimately show ?thesis
    using valid by (auto simp: register_registry_def Let_def oget_def oget_or_def)
qed

theorem registered_registry_is_indexed_witness:
  "\<exists>row written. register_registry (\<lambda>s. s) False ''/a/runs.json'' Missing 5 Missing = Inr (row, written) \<and>
     ''/a/runs.json'' \<in> set (fst (indexed_paths (\<lambda>s. s) (Parsed (JObj written))))"
proof -
  obtain row written where r: "register_registry (\<lambda>s. s) False ''/a/runs.json'' Missing 5 Missing = Inr (row, written)"
    by (simp add: register_registry_def valid_index_def is_obj_def INDEX_SCHEMA_def Let_def)
  from registered_registry_is_indexed [OF r, of "\<lambda>s. s"] r show ?thesis by auto
qed

end
