(* ===== verification/Workflow_Supervisor.thy ===== *)
theory Workflow_Supervisor
  imports Workflow_State Resource_Runs Registry_Rows
begin

text \<open>
  The continuation supervisor (\<open>utilities/workflow-supervisor.py\<close>): the evidence about a
  predecessor, arming a watch, the poll that advances a workflow, the human gate, completion, and
  the ranking of the read-only survey.

  A world is the ledger of one route, its armed watches, the resource registries, and the
  successor processes started so far (with their claim keys). What the code reads from the
  system is one \<open>surroundings\<close> record per command: identities and files, the jobs registry, artifact
  files, monitor evidence, and what starting a process answers.
\<close>

section \<open>World and surroundings\<close>

record armed =
  a_node :: string
  a_continuation_kind :: string
  a_predecessor_kind :: string
  a_predecessor_id :: string
  a_resource_registry :: "string option"
  a_jobs :: "string option"
  a_successors :: "string list"
  a_successor_command :: "string list"   \<comment> \<open>empty where the code stores \<open>None\<close>\<close>
  a_successor_external :: bool
  a_artifact_base :: "string option"
  a_declared_outputs :: "json list"
  a_monitor_evidence :: "string option"
  a_armed_at :: string

record world =
  wd_ledger :: ledger
  wd_armed :: "(string \<times> armed) list"
  wd_runs :: "string \<Rightarrow> runs option"        \<comment> \<open>rows of a resource registry; \<open>None\<close> when unreadable\<close>
  wd_started :: "(string \<times> string) list"     \<comment> \<open>successor and claim key of each process started\<close>

record surroundings =
  su_context :: context_info
  su_now :: int
  su_env :: env
  su_is_file :: "string \<Rightarrow> bool"
  su_jobs :: "string \<Rightarrow> string list option"   \<comment> \<open>lines of the jobs registry\<close>
  su_exists :: "string \<Rightarrow> string \<Rightarrow> bool"      \<comment> \<open>artifact under its base\<close>
  su_monitor :: "string \<Rightarrow> json option"
  su_popen :: "string list \<Rightarrow> int option"     \<comment> \<open>the pid, or the start raised\<close>
  su_sha256 :: "string \<Rightarrow> string"

record route =
  rt_id :: string
  rt_hash :: string
  rt_nodes :: "route_node list"
  rt_gates :: "obj list"                    \<comment> \<open>\<open>human_gate_bindings\<close>\<close>

type_synonym 'a sup = "(world, string, 'a) cmd"

definition on_ledger :: "(ledger, string, 'a) cmd \<Rightarrow> 'a sup" where
  "on_ledger m w = (case m (wd_ledger w) of (r, l) \<Rightarrow> (r, w\<lparr>wd_ledger := l\<rparr>))"

section \<open>Predecessor evidence\<close>

definition not_terminal :: "string \<Rightarrow> obj" where
  "not_terminal reason = [(''terminal'', JBool False), (''reason'', JStr reason)]"

definition run_identity :: "string \<Rightarrow> obj \<Rightarrow> string" where
  "run_identity run_id row = run_id @ '':'' @ py_str (oget row ''pid'') @ '':'' @ py_str (oget row ''starttime'')
     @ '':'' @ py_str (oget row ''exit_code'')"

definition settled_evidence :: "surroundings \<Rightarrow> string \<Rightarrow> obj \<Rightarrow> obj" where
  \<comment> \<open>the evidence from a row after \<open>settle\<close>\<close>
  "settled_evidence su run_id row =
    (let (liveness, current, reason) = classify_identity (su_env su) row; identity = run_identity run_id row in
     if liveness = ''working'' then not_terminal ''resource-still-running'' @
        [(''liveness'', JStr liveness), (''identity'', JStr identity)]
     else if \<not> terminal_row row then not_terminal (''resource-unsettled:'' @ py_str (oget row ''status'')) @
        [(''liveness'', JStr liveness), (''identity'', JStr identity)]
     else [(''terminal'', JBool True), (''succeeded'', JBool (oget row ''status'' = JStr ''succeeded'')),
        (''identity'', JStr identity), (''liveness'', JStr liveness), (''exit_code'', oget row ''exit_code''),
        (''sentinel'', oget row ''sentinel''),
        (''sentinel_present'', JBool (truthy (oget row ''sentinel'') \<and> su_is_file su (py_str (oget row ''sentinel'')))),
        (''ended_at'', oget row ''ended_at''), (''failure_class'', oget row ''failure_class''), (''reason'', JStr reason),
        (''log'', oget row ''log''), (''parent_attempt_id'', oget row ''parent_attempt_id'')])"

definition resource_evidence :: "surroundings \<Rightarrow> armed \<Rightarrow> obj sup" where
  "resource_evidence su a w =
    (let run_id = a_predecessor_id a in
     case a_resource_registry a of None \<Rightarrow> (Inl ''TypeError'', w)
     | Some registry \<Rightarrow> (case wd_runs w registry of
         None \<Rightarrow> (Inr (not_terminal ''resource-registry-unreadable''), w)
       | Some runs \<Rightarrow> (case map_of runs run_id of
           None \<Rightarrow> (Inr (not_terminal ''resource-run-absent''), w)
         | Some row \<Rightarrow> (case settle (su_env su) (su_now su) run_id row runs of
             (Inl err, runs') \<Rightarrow> (Inl err, w)
           | (Inr (row', settled), runs') \<Rightarrow>
               (Inr (settled_evidence su run_id row'), w\<lparr>wd_runs := (wd_runs w)(registry \<mapsto> runs')\<rparr>)))))"

definition meta_str :: "meta \<Rightarrow> string \<Rightarrow> string" where
  \<comment> \<open>\<open>str(meta.get(key))\<close>\<close>
  "meta_str md k = (case map_of md k of None \<Rightarrow> ''None'' | Some v \<Rightarrow> v)"

definition attempt_rows :: "string list \<Rightarrow> string \<Rightarrow> string list list" where
  \<comment> \<open>rows of six fields that carry the attempt id\<close>
  "attempt_rows lines attempt_id =
     filter (\<lambda>fs. map_of (parse_registry_metadata (fs ! 5)) ''attempt_id'' = Some attempt_id)
       (filter (\<lambda>fs. length fs = 6) (map row_fields lines))"

definition row_evidence :: "surroundings \<Rightarrow> string \<Rightarrow> string list \<Rightarrow> obj" where
  "row_evidence su attempt_id row =
    (let md = parse_registry_metadata (row ! 5); status = row ! 1;
         identity = attempt_id @ '':'' @ meta_str md ''pid'' @ '':'' @ meta_str md ''pid_start'' @ '':'' @ status in
     if status \<noteq> ''done'' then not_terminal (''attempt-open:'' @ status) @ [(''identity'', JStr identity)]
     else let note_text = mget md ''note'' []; failure_class = mget md ''failure_class'' [];
          succeeded = (note_text \<in> {''completed-marker'', ''completed-supervisor'', ''completed''} \<and>
                       failure_class \<in> {[], ''pass''});
          pid = mget md ''pid'' []; pid_start = mget md ''pid_start'' [];
          current = (case py_int pid of None \<Rightarrow> None | Some p \<Rightarrow> env_identity (su_env su) p);
          quiescent = (\<not> (pid \<noteq> [] \<and> pid_start \<noteq> [] \<and>
            (case current of None \<Rightarrow> False | Some c \<Rightarrow> p_starttime c = pid_start))) in
     [(''terminal'', JBool True), (''succeeded'', JBool succeeded), (''quiescent'', JBool quiescent),
      (''identity'', JStr identity), (''note'', JStr note_text), (''failure_class'', JStr failure_class),
      (''reason'', JStr ''attempt-terminal'')])"

definition registered_evidence :: "surroundings \<Rightarrow> armed \<Rightarrow> obj" where
  "registered_evidence su a =
    (case (case a_jobs a of None \<Rightarrow> None | Some path \<Rightarrow> su_jobs su path) of
       None \<Rightarrow> not_terminal ''jobs registry unreadable''
     | Some lines \<Rightarrow>
        (let matches = attempt_rows lines (a_predecessor_id a) in
         if matches = [] then not_terminal ''attempt-row-absent''
         else row_evidence su (a_predecessor_id a) (last matches)))"

definition concrete_output :: "json \<Rightarrow> bool" where
  "concrete_output v = (case v of JStr s \<Rightarrow> CHR ''*'' \<notin> set s \<and> CHR ''/'' \<notin> set s \<and> CHR ''.'' \<in> set s | _ \<Rightarrow> False)"

record artifacts =
  ar_checked :: bool
  ar_missing :: "string list"
  ar_reason :: string

definition artifact_evidence :: "surroundings \<Rightarrow> armed \<Rightarrow> artifacts" where
  "artifact_evidence su a =
    (let concrete = map the_str (filter concrete_output (a_declared_outputs a)) in
     case a_artifact_base a of
       None \<Rightarrow> \<lparr>ar_checked = False, ar_missing = [], ar_reason = ''no-artifact-base''\<rparr>
     | Some base \<Rightarrow>
         if base = [] then \<lparr>ar_checked = False, ar_missing = [], ar_reason = ''no-artifact-base''\<rparr>
         else if concrete = [] then \<lparr>ar_checked = False, ar_missing = [], ar_reason = ''no-concrete-declared-output''\<rparr>
         else let missing = filter (\<lambda>name. \<not> su_exists su base name) concrete in
           \<lparr>ar_checked = True, ar_missing = missing,
            ar_reason = (if missing = [] then ''artifacts-present'' else ''declared-artifact-missing'')\<rparr>)"

definition artifacts_json :: "artifacts \<Rightarrow> json" where
  "artifacts_json ar = JObj [(''checked'', JBool (ar_checked ar)), (''missing'', JList (map JStr (ar_missing ar))),
     (''reason'', JStr (ar_reason ar))]"

section \<open>Arming a watch\<close>

record arm_args =
  aa_node :: string
  aa_predecessor_kind :: string
  aa_predecessor_id :: string
  aa_resource_registry :: "string option"
  aa_jobs :: "string option"
  aa_successor_command :: "json option"      \<comment> \<open>the parsed argument; \<open>Some JNull\<close> stands for text that is not JSON\<close>
  aa_successor_external :: bool
  aa_artifact_base :: "string option"
  aa_monitor_evidence :: "string option"

definition PREDECESSOR_KINDS :: "string list" where
  "PREDECESSOR_KINDS = [''resource'', ''registered'']"

definition arm_command :: "arm_args \<Rightarrow> string + string list" where
  "arm_command aa = (case aa_successor_command aa of
       Some v \<Rightarrow> (case v of JList parts \<Rightarrow>
            if parts = [] \<or> \<not> list_all is_str parts
            then Inl ''--successor-command must be a non-empty JSON array of strings''
            else Inr (map the_str parts)
          | _ \<Rightarrow> Inl ''--successor-command must be a non-empty JSON array of strings'')
     | None \<Rightarrow> if \<not> aa_successor_external aa
         then Inl ''supervised continuation requires --successor-command or --successor-external'' else Inr [])"

definition absent :: "string option \<Rightarrow> bool" where
  "absent x = (case x of None \<Rightarrow> True | Some s \<Rightarrow> s = [])"

definition armed_record :: "context_info \<Rightarrow> route \<Rightarrow> arm_args \<Rightarrow> string + armed" where
  "armed_record c rt aa = (case route_node_of (rt_nodes rt) (aa_node aa) of
       None \<Rightarrow> Inl (''unknown route node: '' @ aa_node aa)
     | Some n \<Rightarrow> (case rn_continuation n of
         JObj continuation \<Rightarrow>
          (let kind = py_str (oget continuation ''kind''); successors = route_successors (rt_nodes rt) (aa_node aa) in
           if kind \<notin> {''supervised'', ''monitor''}
           then Inl (''node '' @ aa_node aa @ '' declares continuation '' @ kind)
           else if aa_predecessor_kind aa \<notin> set PREDECESSOR_KINDS then Inl ''invalid predecessor kind''
           else if aa_predecessor_kind aa = ''resource'' \<and> absent (aa_resource_registry aa)
           then Inl ''--resource-registry is required for a resource predecessor''
           else if aa_predecessor_kind aa = ''registered'' \<and> absent (aa_jobs aa)
           then Inl ''--jobs is required for a registered predecessor''
           else if successors = [] then Inl (''node '' @ aa_node aa @ '' has no declared successor'')
           else bindr (arm_command aa) (\<lambda>command.
             if kind = ''monitor'' \<and> absent (aa_monitor_evidence aa)
             then Inl ''monitor continuation requires --monitor-evidence''
             else Inr \<lparr>a_node = aa_node aa, a_continuation_kind = kind,
               a_predecessor_kind = aa_predecessor_kind aa, a_predecessor_id = aa_predecessor_id aa,
               a_resource_registry = (if absent (aa_resource_registry aa) then None else aa_resource_registry aa),
               a_jobs = (if absent (aa_jobs aa) then None else aa_jobs aa), a_successors = successors,
               a_successor_command = command, a_successor_external = aa_successor_external aa,
               a_artifact_base = (if absent (aa_artifact_base aa) then None else aa_artifact_base aa),
               a_declared_outputs = the_list (oget (rn_attrs n) ''outputs''),
               a_monitor_evidence = aa_monitor_evidence aa, a_armed_at = c_now c\<rparr>))
       | _ \<Rightarrow> Inl (''node '' @ aa_node aa @ '' is terminal or declares no continuation; nothing to supervise'')))"

definition set_state :: "vocab \<Rightarrow> surroundings \<Rightarrow> string \<Rightarrow> json \<Rightarrow> string \<Rightarrow> unit sup" where
  "set_state v su target evidence actor =
     bindc (on_ledger (set_workflow_state v (su_context su) target evidence actor)) (\<lambda>_. ret ())"

definition set_node :: "vocab \<Rightarrow> surroundings \<Rightarrow> string \<Rightarrow> string \<Rightarrow> json \<Rightarrow> string \<Rightarrow> unit sup" where
  "set_node v su node state evidence actor =
     bindc (on_ledger (record_node v (su_context su) node state evidence None actor)) (\<lambda>_. ret ())"

definition get_state :: "vocab \<Rightarrow> wstate sup" where
  "get_state v = on_ledger (read_state v)"

definition when_c :: "bool \<Rightarrow> unit sup \<Rightarrow> unit sup" where
  "when_c b m = (if b then m else ret ())"

definition store_armed :: "string \<Rightarrow> armed \<Rightarrow> unit sup" where
  "store_armed node a w = (Inr (), w\<lparr>wd_armed := AList.update node a (wd_armed w)\<rparr>)"

definition cmd_arm :: "vocab \<Rightarrow> surroundings \<Rightarrow> route \<Rightarrow> arm_args \<Rightarrow> unit sup" where
  "cmd_arm v su rt aa =
    (case armed_record (su_context su) rt aa of
       Inl err \<Rightarrow> raise err
     | Inr a \<Rightarrow>
        bindc (store_armed (aa_node aa) a) (\<lambda>_.
        bindc (get_state v) (\<lambda>state.
        bindc (when_c (w_state state = ''CREATED'')
          (set_state v su ''READY'' (JObj [(''armed'', JStr (aa_node aa))]) ''arm'')) (\<lambda>_.
        bindc (when_c (map_of (w_nodes state) (aa_node aa) = None)
          (set_node v su (aa_node aa) ''RUNNING'' (JObj [(''armed'', JBool True)]) ''arm'')) (\<lambda>_.
        bindc (get_state v) (\<lambda>state2.
        when_c (w_state state2 = ''READY'')
          (set_state v su ''RUNNING'' (JObj [(''armed'', JStr (aa_node aa))]) ''arm'')))))))"

section \<open>Polling\<close>

record advance =
  ad_successor :: string
  ad_key :: string
  ad_created :: bool
  ad_started :: bool

record poll_row =
  po_node :: string
  po_action :: string
  po_successors :: "advance list"

abbreviation outcome :: "string \<Rightarrow> string \<Rightarrow> poll_row" where
  "outcome node action \<equiv> \<lparr>po_node = node, po_action = action, po_successors = []\<rparr>"

definition start_successor :: "surroundings \<Rightarrow> armed \<Rightarrow> string \<Rightarrow> string \<Rightarrow> bool sup" where
  "start_successor su a successor key w =
    (if a_successor_command a = [] then (Inr False, w)
     else case su_popen su (a_successor_command a) of
       None \<Rightarrow> (Inl ''OSError'', w)
     | Some pid \<Rightarrow> (Inr True, w\<lparr>wd_started := wd_started w @ [(successor, key)]\<rparr>))"

definition claim_payload :: "route \<Rightarrow> string \<Rightarrow> string \<Rightarrow> json \<Rightarrow> obj" where
  "claim_payload rt node successor identity = [(''route_id'', JStr (rt_id rt)), (''predecessor'', JStr node),
     (''successor'', JStr successor), (''predecessor_identity'', identity)]"

definition claim_and_start :: "surroundings \<Rightarrow> route \<Rightarrow> armed \<Rightarrow> json \<Rightarrow> string \<Rightarrow> advance sup" where
  "claim_and_start su rt a identity successor =
    (let key = successor_key (su_sha256 su) (rt_hash rt) (a_node a) (py_str identity) successor in
     bindc (on_ledger (claim (su_context su) key (claim_payload rt (a_node a) successor identity))) (\<lambda>(created, stored).
     if \<not> created then ret \<lparr>ad_successor = successor, ad_key = key, ad_created = False, ad_started = False\<rparr>
     else bindc (start_successor su a successor key) (\<lambda>started.
       ret \<lparr>ad_successor = successor, ad_key = key, ad_created = True, ad_started = started\<rparr>)))"

primrec advance_all :: "surroundings \<Rightarrow> route \<Rightarrow> armed \<Rightarrow> json \<Rightarrow> string list \<Rightarrow> advance list sup" where
  "advance_all su rt a identity [] = ret []"
| "advance_all su rt a identity (s # ss) =
     bindc (claim_and_start su rt a identity s) (\<lambda>ad.
     bindc (advance_all su rt a identity ss) (\<lambda>ads. ret (ad # ads)))"

definition monitor_matched :: "surroundings \<Rightarrow> armed \<Rightarrow> bool" where
  "monitor_matched su a = (case a_monitor_evidence a of None \<Rightarrow> False
     | Some path \<Rightarrow> (case su_monitor su path of
         Some (JObj d) \<Rightarrow> oget d ''condition'' = JStr ''matched'' | _ \<Rightarrow> False))"

definition predecessor_evidence :: "surroundings \<Rightarrow> armed \<Rightarrow> obj sup" where
  "predecessor_evidence su a =
    (if a_predecessor_kind a = ''resource'' then resource_evidence su a else ret (registered_evidence su a))"

definition halt :: "vocab \<Rightarrow> surroundings \<Rightarrow> string \<Rightarrow> json \<Rightarrow> string \<Rightarrow> poll_row sup" where
  "halt v su node evidence action =
     bindc (set_node v su node ''FAILED_RETRYABLE'' evidence ''poll'') (\<lambda>_.
     bindc (set_state v su ''FAILED_RETRYABLE'' (JObj [(''node'', JStr node)]) ''poll'') (\<lambda>_.
     ret (outcome node action)))"

definition advance_state :: "vocab \<Rightarrow> surroundings \<Rightarrow> armed \<Rightarrow> advance list \<Rightarrow> unit sup" where
  "advance_state v su a ads =
     when_c (list_ex ad_created ads)
      (bindc (get_state v) (\<lambda>current.
       bindc (when_c (can_transition v (w_state current) ''NEXT_REGISTERED'')
         (set_state v su ''NEXT_REGISTERED'' (JObj [(''node'', JStr (a_node a)),
            (''successors'', JList (map JStr (a_successors a)))]) ''poll'')) (\<lambda>_.
       when_c (list_ex ad_started ads)
        (bindc (get_state v) (\<lambda>current2.
         when_c (can_transition v (w_state current2) ''NEXT_RUNNING'')
          (set_state v su ''NEXT_RUNNING'' (JObj [(''node'', JStr (a_node a))]) ''poll''))))))"

definition evaluate_with :: "vocab \<Rightarrow> surroundings \<Rightarrow> route \<Rightarrow> armed \<Rightarrow> obj \<Rightarrow> poll_row sup" where
  \<comment> \<open>the part of \<open>_evaluate\<close> after the evidence has been gathered\<close>
  "evaluate_with v su rt a evidence0 =
    (let node = a_node a; ar = artifact_evidence su a;
         evidence = AList.update ''artifacts'' (artifacts_json ar) evidence0 in
     if \<not> truthy (oget evidence ''terminal'') then ret (outcome node ''wait'')
     else if oget evidence ''quiescent'' = JBool False then ret (outcome node ''wait-draining'')
     else if \<not> truthy (oget evidence ''succeeded'') then halt v su node (JObj evidence) ''halt-failed''
     else if ar_checked ar \<and> ar_missing ar \<noteq> [] then halt v su node (JObj evidence) ''halt-missing-artifact''
     else if a_continuation_kind a = ''monitor'' \<and> \<not> monitor_matched su a then ret (outcome node ''wait-monitor'')
     else let evidence1 = (if a_continuation_kind a = ''monitor''
            then AList.update ''monitor'' (JStr ''matched'') evidence else evidence) in
       bindc (set_node v su node ''STAGE_SUCCEEDED'' (JObj evidence1) ''poll'') (\<lambda>_.
       bindc (advance_all su rt a (oget evidence1 ''identity'') (a_successors a)) (\<lambda>ads.
       bindc (advance_state v su a ads) (\<lambda>_.
       ret \<lparr>po_node = node, po_action = ''advanced'', po_successors = ads\<rparr>))))"

definition evaluate :: "vocab \<Rightarrow> surroundings \<Rightarrow> route \<Rightarrow> armed \<Rightarrow> poll_row sup" where
  "evaluate v su rt a = bindc (predecessor_evidence su a) (evaluate_with v su rt a)"

definition poll_node :: "vocab \<Rightarrow> surroundings \<Rightarrow> route \<Rightarrow> string \<Rightarrow> armed \<Rightarrow> poll_row sup" where
  "poll_node v su rt node a =
     bindc (get_state v) (\<lambda>current.
       let state = node_state current node in
       if state \<in> {Some ''STAGE_SUCCEEDED'', Some ''FAILED_TERMINAL'', Some ''CANCELLED''} then ret (outcome node ''settled'')
       else if state = Some ''FAILED_RETRYABLE'' then ret (outcome node ''halted'')
       else if a_continuation_kind a = ''human-gate'' then ret (outcome node ''human-gate'')
       else evaluate v su rt a)"

primrec poll_nodes :: "vocab \<Rightarrow> surroundings \<Rightarrow> route \<Rightarrow> (string \<times> armed) list \<Rightarrow> poll_row list sup" where
  "poll_nodes v su rt [] = ret []"
| "poll_nodes v su rt (p # ps) =
     bindc (poll_node v su rt (fst p) (snd p)) (\<lambda>row.
     bindc (poll_nodes v su rt ps) (\<lambda>rows. ret (row # rows)))"

definition poll_once :: "vocab \<Rightarrow> surroundings \<Rightarrow> route \<Rightarrow> poll_row list sup" where
  "poll_once v su rt w = poll_nodes v su rt (sort_key fst (wd_armed w)) w"

text \<open>\<open>cmd_watch\<close>: one list element per poll, with the surroundings of that moment and whether the
  deadline had passed; the result is the exit status, \<open>None\<close> while the watch is still polling.\<close>

definition watch_stops :: "string \<Rightarrow> poll_row list \<Rightarrow> bool" where
  "watch_stops state rows =
    (state \<in> {''COMPLETE'', ''TERMINAL_VERIFY'', ''FAILED_TERMINAL'', ''FAILED_RETRYABLE'', ''CANCELLED'', ''BLOCKED_HUMAN_GATE''} \<or>
     (list_all (\<lambda>r. po_action r \<in> {''advanced'', ''settled'', ''halted'', ''human-gate''}) rows \<and> rows \<noteq> []))"

primrec cmd_watch :: "vocab \<Rightarrow> route \<Rightarrow> (surroundings \<times> bool) list \<Rightarrow> int option sup" where
  "cmd_watch v rt [] = ret None"
| "cmd_watch v rt (tick # ticks) =
     bindc (poll_once v (fst tick) rt) (\<lambda>rows.
     bindc (get_state v) (\<lambda>state.
       if watch_stops (w_state state) rows then ret (Some 0)
       else if snd tick then ret (Some 3)
       else cmd_watch v rt ticks))"

section \<open>Human gates and completion\<close>

definition gate_bindings :: "route \<Rightarrow> (string \<times> obj) list" where
  "gate_bindings rt = dict_update [] (map (\<lambda>row. (the_str (oget row ''gate''), row)) (rt_gates rt))"

definition cmd_gate :: "vocab \<Rightarrow> surroundings \<Rightarrow> route \<Rightarrow> string \<Rightarrow> bool \<Rightarrow> string \<Rightarrow> string sup" where
  "cmd_gate v su rt gate release by_whom =
    (case map_of (gate_bindings rt) gate of None \<Rightarrow> raise (''route declares no human gate '' @ repr_str gate)
     | Some binding \<Rightarrow> if release then
       bindc (get_state v) (\<lambda>state.
         if w_state state \<noteq> ''BLOCKED_HUMAN_GATE''
         then raise (''workflow is '' @ w_state state @ '', not blocked on a human gate'')
         else bindc (set_state v su ''RUNNING'' (JObj [(''released_gate'', JStr gate),
                (''released_by'', JStr (if by_whom = [] then ''user'' else by_whom))]) ''gate'')
              (\<lambda>_. ret ''released''))
     else bindc (set_state v su ''BLOCKED_HUMAN_GATE'' (JObj [(''gate'', JStr gate), (''binding'', JObj binding)]) ''gate'')
            (\<lambda>_. ret ''blocked''))"

type_synonym gates = "(string \<times> obj) list"
  \<comment> \<open>\<open>terminal_gate_observation\<close>: a row with its \<open>passed\<close> for each terminal node\<close>

definition gate_passed :: "obj \<Rightarrow> bool" where
  "gate_passed row = truthy (oget row ''passed'')"

definition gates_json :: "gates \<Rightarrow> json" where
  "gates_json gates = JObj [(''terminal_gates'', JObj (map (\<lambda>(n, row). (n, JObj row)) gates))]"

primrec record_terminal :: "vocab \<Rightarrow> surroundings \<Rightarrow> gates \<Rightarrow> wstate \<Rightarrow> string list \<Rightarrow> unit sup" where
  "record_terminal v su gates state [] = ret ()"
| "record_terminal v su gates state (n # ns) =
     bindc (when_c (node_state state n \<noteq> Some ''STAGE_SUCCEEDED'')
       (case map_of gates n of None \<Rightarrow> raise ''KeyError''
        | Some row \<Rightarrow> set_node v su n ''STAGE_SUCCEEDED'' (JObj [(''terminal_gate'', JObj row)]) ''complete''))
     (\<lambda>_. record_terminal v su gates state ns)"

definition cmd_complete :: "vocab \<Rightarrow> surroundings \<Rightarrow> route \<Rightarrow> gates \<Rightarrow> bool sup" where
  "cmd_complete v su rt gates =
    (let terminal_nodes = route_terminal_nodes (rt_nodes rt) in
     if terminal_nodes = [] then raise ''route declares no terminal node''
     else bindc (get_state v) (\<lambda>state.
       if \<not> list_all (\<lambda>(n, row). gate_passed row) gates then ret False
       else bindc (record_terminal v su gates state terminal_nodes) (\<lambda>_.
         bindc (get_state v) (\<lambda>state2.
         bindc (when_c (w_state state2 \<noteq> ''TERMINAL_VERIFY'')
           (set_state v su ''TERMINAL_VERIFY'' (gates_json gates) ''complete'')) (\<lambda>_.
         bindc (set_state v su ''COMPLETE'' (gates_json gates) ''complete'') (\<lambda>_. ret True))))))"

section \<open>Projection and survey ranking\<close>

definition stage_projection :: "route \<Rightarrow> (string \<times> string) list \<Rightarrow> string list \<times> string list" where
  \<comment> \<open>\<open>_stage_projection\<close> over node states: running nodes and the next stage\<close>
  "stage_projection rt states =
    (let running = sort (map fst (filter (\<lambda>p. snd p = ''RUNNING'') states));
         satisfied = map fst (filter (\<lambda>p. snd p = ''STAGE_SUCCEEDED'') states);
         next1 = sort (remdups (filter (\<lambda>s. map_of states s \<noteq> Some ''STAGE_SUCCEEDED'')
                   (concat (map (route_successors (rt_nodes rt)) satisfied))));
         next2 = sort (remdups (map rn_id (filter (\<lambda>n. map_of states (rn_id n) = None \<and>
                   set (rn_depends_on n) \<subseteq> set satisfied) (rt_nodes rt))))
     in (running, if next1 = [] then next2 else next1))"

definition resource_liveness_readonly :: "surroundings \<Rightarrow> world \<Rightarrow> armed \<Rightarrow> string" where
  "resource_liveness_readonly su w a =
    (case a_resource_registry a of None \<Rightarrow> ''unknown''
     | Some registry \<Rightarrow> (case wd_runs w registry of None \<Rightarrow> ''unknown''
       | Some runs \<Rightarrow> (case map_of runs (a_predecessor_id a) of None \<Rightarrow> ''unknown''
         | Some row \<Rightarrow> liveness_of (su_env su) row)))"

definition predecessor_liveness_readonly :: "surroundings \<Rightarrow> world \<Rightarrow> armed \<Rightarrow> string" where
  "predecessor_liveness_readonly su w a =
    (if a_predecessor_kind a = ''resource'' then resource_liveness_readonly su w a
     else let evidence = registered_evidence su a in
       if \<not> truthy (oget evidence ''terminal'') then ''working''
       else if oget evidence ''quiescent'' = JBool False then ''working''
       else ''exited'')"

definition has_claim_or_progress :: "(string \<times> string) list \<Rightarrow> (string \<times> obj) list \<Rightarrow> string \<Rightarrow> string list \<Rightarrow> bool" where
  "has_claim_or_progress states claim_rows node successors =
    (list_ex (\<lambda>(k, row). oget row ''predecessor'' = JStr node \<and>
        list_ex (\<lambda>s. oget row ''successor'' = JStr s) successors) claim_rows \<or>
     list_ex (\<lambda>s. map_of states s \<noteq> None \<and> map_of states s \<noteq> Some []) successors)"

record survey_input =
  si_closed :: bool
  si_proven :: "bool option"          \<comment> \<open>\<open>terminal_gate_proven\<close>\<close>
  si_gates_seen :: bool
  si_now :: int
  si_stale_after :: int
  si_epoch :: "string \<Rightarrow> int option"   \<comment> \<open>\<open>_iso_to_epoch\<close>\<close>

record survey_row =
  sr_workflow_state :: string
  sr_derived :: string
  sr_running :: "string list"
  sr_next :: "string list"
  sr_tier :: string
  sr_score :: int
  sr_reasons :: "string list"

definition states_of :: "wstate \<Rightarrow> (string \<times> string) list" where
  "states_of w = map (\<lambda>(n, r). (n, n_state r)) (w_nodes w)"

definition survey_times :: "survey_input \<Rightarrow> wstate \<Rightarrow> world \<Rightarrow> int list" where
  "survey_times si st w =
    (let epoch = (\<lambda>v. case v of JStr s \<Rightarrow> (if s = [] then None else si_epoch si s) | _ \<Rightarrow> None) in
     map the (filter (\<lambda>t. t \<noteq> None)
       ([case w_updated_at st of None \<Rightarrow> None | Some t \<Rightarrow> epoch (JStr t)]
        @ map (\<lambda>(n, a). epoch (JStr (a_armed_at a))) (wd_armed w)
        @ map (\<lambda>(k, row). epoch (oget row ''claimed_at'')) (claims (wd_ledger w)))))"

definition survey_ledger :: "vocab \<Rightarrow> survey_input \<Rightarrow> route \<Rightarrow> world \<Rightarrow> bool \<times> string list" where
  \<comment> \<open>whether the ledger's word counts, and why not\<close>
  "survey_ledger v si rt w =
    (let s = read_only_state v (wd_ledger w); entries = journal (wd_ledger w);
         times = survey_times si (s_state s) w;
         (known, reasons) =
          (if \<not> s_dir_exists s then (False, [''ledger-absent''])
           else if s_journal_unreadable s then (False, [''ledger-unreadable''])
           else if rt_hash rt \<noteq> [] \<and> list_ex (\<lambda>e. e_route_hash e \<noteq> [] \<and> e_route_hash e \<noteq> rt_hash rt) entries
           then (False, [''route-hash-mismatch'']) else (True, []));
         stale = (known \<and> entries \<noteq> [] \<and> times \<noteq> [] \<and> si_now si - Max (set times) > si_stale_after si)
     in if stale then (False, reasons @ [''evidence-stale'']) else (known, reasons))"

definition armed_flags :: "vocab \<Rightarrow> surroundings \<Rightarrow> route \<Rightarrow> world \<Rightarrow> bool \<Rightarrow> bool \<Rightarrow> string \<times> armed \<Rightarrow> bool \<times> bool" where
  \<comment> \<open>one watch: abandoned, active\<close>
  "armed_flags v su rt w known open_gate p =
    (let node = fst p; a = snd p; states = states_of (s_state (read_only_state v (wd_ledger w)));
         liveness = (if known then predecessor_liveness_readonly su w a else ''unknown'');
         claimed = (known \<and> has_claim_or_progress states (claims (wd_ledger w)) node (a_successors a));
         settled = map_of states node \<in> {Some ''STAGE_SUCCEEDED'', Some ''FAILED_TERMINAL'', Some ''CANCELLED''}
     in (known \<and> \<not> open_gate \<and> \<not> settled \<and> a_continuation_kind a = ''supervised'' \<and> liveness = ''exited'' \<and> \<not> claimed,
         liveness = ''working'' \<or> claimed))"

definition survey_tier ::
  "survey_input \<Rightarrow> bool \<Rightarrow> bool \<Rightarrow> bool \<Rightarrow> bool \<Rightarrow> bool \<Rightarrow> bool \<Rightarrow> string \<Rightarrow> string \<times> int \<times> string list" where
  \<comment> \<open>the ranking: tier, score, reason\<close>
  "survey_tier si known has_terminal abandoned external active open_gate derived =
    (if abandoned then (''abandoned'', if external then 15 else 10,
        [''supervised-predecessor-exited-unclaimed''] @ (if external then [''successor-external''] else []))
     else if si_closed si \<and> si_proven si = Some False then (''closure-mismatch'', 8, [''closed-with-unproven-terminal-gate''])
     else if \<not> si_closed si \<and> has_terminal \<and> si_proven si = Some False \<and> known
     then (''stale-open'', 5, [''open-with-unproven-terminal-gate''])
     else if active then (''active-or-owned'', 3, [''live-predecessor-or-claimed-successor''])
     else if open_gate then (''parked'', 2, [''blocked-human-gate''])
     else if si_proven si = Some True \<and> (si_closed si \<or> derived = ''COMPLETE'') then (''complete'', 0, [''terminal-gate-proven''])
     else if \<not> known then (''unknown'', 1, [])
     else (''unknown'', 0, [''no-actionable-risk-signal'']))"

definition survey_route :: "vocab \<Rightarrow> surroundings \<Rightarrow> survey_input \<Rightarrow> route \<Rightarrow> world \<Rightarrow> survey_row" where
  "survey_route v su si rt w =
    (let s = s_state (read_only_state v (wd_ledger w)); states = states_of s;
         known = fst (survey_ledger v si rt w); reasons = snd (survey_ledger v si rt w);
         terminal_nodes = route_terminal_nodes (rt_nodes rt);
         wfs = (if known then w_state s else ''unknown'');
         derived = (if known then derive_workflow_state states terminal_nodes
             (si_gates_seen si \<and> si_proven si = Some True) False (claims (wd_ledger w) \<noteq> []) else ''unknown'');
         stage = (if known then stage_projection rt states else ([], []));
         open_gate = (known \<and> wfs = ''BLOCKED_HUMAN_GATE'');
         rows = sort_key fst (wd_armed w);
         flags = map (armed_flags v su rt w known open_gate) rows;
         abandoned = list_ex fst flags;
         external = list_ex (\<lambda>(p, f). fst f \<and> a_successor_external (snd p)) (zip rows flags);
         active = list_ex snd flags;
         ranked = survey_tier si known (terminal_nodes \<noteq> []) abandoned external active open_gate derived
     in \<lparr>sr_workflow_state = wfs, sr_derived = derived, sr_running = fst stage, sr_next = snd stage,
         sr_tier = fst ranked, sr_score = fst (snd ranked), sr_reasons = reasons @ snd (snd ranked)\<rparr>)"

definition RISK_TIER_ORDER :: "string list" where
  "RISK_TIER_ORDER = [''abandoned'', ''closure-mismatch'', ''stale-open'', ''active-or-owned'', ''parked'', ''unknown'', ''complete'']"

definition tier_rank :: "string \<Rightarrow> nat" where
  "tier_rank tier = length (takeWhile (\<lambda>t. t \<noteq> tier) RISK_TIER_ORDER)"


text \<open>\<open>cmd_survey\<close> sorts its rows by rank, falling score, route id and file; a candidate that could not
  be read stays as an \<open>unknown\<close> row.\<close>

record ranked_row =
  rr_route_id :: "string option"
  rr_route_file :: string
  rr_tier :: string
  rr_score :: int
  rr_reasons :: "string list"

definition diagnostic_row :: "string option \<Rightarrow> string \<Rightarrow> string \<Rightarrow> ranked_row" where
  "diagnostic_row route_id route_file reason =
    \<lparr>rr_route_id = route_id, rr_route_file = route_file, rr_tier = ''unknown'', rr_score = 0, rr_reasons = [reason]\<rparr>"

definition survey_sort_key :: "ranked_row \<Rightarrow> nat \<times> int \<times> string \<times> string" where
  "survey_sort_key row =
    (tier_rank (rr_tier row), - rr_score row, (case rr_route_id row of None \<Rightarrow> [] | Some i \<Rightarrow> i), rr_route_file row)"

record candidate =
  ca_file :: string
  ca_route_id :: "string option"       \<comment> \<open>the id the route listing gave it\<close>
  ca_input :: survey_input
  ca_route :: "string + route"         \<comment> \<open>the route, or why it cannot be read\<close>

definition survey_candidate ::
  "vocab \<Rightarrow> surroundings \<Rightarrow> world \<Rightarrow> candidate \<Rightarrow> ranked_row" where
  "survey_candidate v su w c = (case ca_route c of
      Inl err \<Rightarrow> diagnostic_row (ca_route_id c) (ca_file c) (''route-unreadable:'' @ err)
    | Inr rt \<Rightarrow> (let r = survey_route v su (ca_input c) rt w in
        \<lparr>rr_route_id = Some (rt_id rt), rr_route_file = ca_file c, rr_tier = sr_tier r, rr_score = sr_score r,
         rr_reasons = sr_reasons r\<rparr>))"

definition cmd_survey ::
  "vocab \<Rightarrow> surroundings \<Rightarrow> (string \<Rightarrow> world) \<Rightarrow> int \<Rightarrow> candidate list
    \<Rightarrow> (string \<times> string) list \<Rightarrow> string + ranked_row list" where
  \<comment> \<open>\<open>world_of\<close> is the ledger of each route file\<close>
  "cmd_survey v su world_of stale_after candidates diagnostics =
    (if stale_after \<le> 0 then Inl ''--stale-after-seconds must be a positive float''
     else Inr (sort_key survey_sort_key
       (map (\<lambda>c. survey_candidate v su (world_of (ca_file c)) c) candidates @
        map (\<lambda>(file, reason). diagnostic_row None file reason) diagnostics)))"

text \<open>\<open>resource_children\<close>: the detached children of a workflow, from the global scan first, then from
  the registries the armed watches name, and by name alone when neither knows the run.\<close>

datatype child = Scanned run_row | Direct run_row | Unknown_child string "string option" string

definition armed_rows :: "world \<Rightarrow> (string \<times> armed) list" where
  \<comment> \<open>\<open>read_armed\<close>: the watch files in name order\<close>
  "armed_rows w = sort_key (\<lambda>p. fst p @ ''.json'') (wd_armed w)"

definition resource_watches :: "world \<Rightarrow> armed list" where
  "resource_watches w = filter (\<lambda>a. a_predecessor_kind a = ''resource'') (map snd (armed_rows w))"

definition child_owned :: "route \<Rightarrow> (string \<Rightarrow> json option) \<Rightarrow> world \<Rightarrow> run_row \<Rightarrow> bool" where
  \<comment> \<open>\<open>route_id_at\<close> reads the \<open>route_id\<close> of a route file\<close>
  "child_owned rt route_id_at w row =
    (r_run_id row \<in> set (filter (\<lambda>i. i \<noteq> []) (map a_predecessor_id (resource_watches w))) \<or>
     Some (r_registry_path row) \<in> set (map a_resource_registry (resource_watches w)) \<or>
     (truthy (oget (r_copied row) ''route'') \<and>
      route_id_at (py_str (oget (r_copied row) ''route'')) = Some (JStr (rt_id rt))))"

definition direct_child :: "env \<Rightarrow> int option \<Rightarrow> int \<Rightarrow> int \<Rightarrow> world \<Rightarrow> string \<Rightarrow> string \<Rightarrow> child" where
  "direct_child en boot clk now w registry run_id =
    (case wd_runs w registry of
       None \<Rightarrow> Unknown_child run_id (Some registry) ''resource-registry-unreadable''
     | Some runs \<Rightarrow> (case map_of runs run_id of
         None \<Rightarrow> Unknown_child run_id (Some registry) ''resource-registry-unreadable''
       | Some row \<Rightarrow> Direct (normalize_run en boot clk now registry run_id row)))"

definition add_direct :: "env \<Rightarrow> int option \<Rightarrow> int \<Rightarrow> int \<Rightarrow> world \<Rightarrow> (string \<times> child) list \<Rightarrow> armed \<Rightarrow> (string \<times> child) list" where
  "add_direct en boot clk now w unique a =
    (case a_resource_registry a of
       None \<Rightarrow> unique
     | Some registry \<Rightarrow> if map_of unique (a_predecessor_id a) \<noteq> None \<or> registry = [] then unique
         else AList.update (a_predecessor_id a) (direct_child en boot clk now w registry (a_predecessor_id a)) unique)"

definition resource_children ::
  "env \<Rightarrow> int option \<Rightarrow> int \<Rightarrow> int \<Rightarrow> route \<Rightarrow> (string \<Rightarrow> json option) \<Rightarrow> run_row list \<Rightarrow> world \<Rightarrow> child list" where
  \<comment> \<open>\<open>rows\<close> is the scan, empty when it raised\<close>
  "resource_children en boot clk now rt route_id_at rows w =
    (let scanned = dict_update [] (map (\<lambda>r. (r_run_id r, Scanned r)) (filter (child_owned rt route_id_at w) rows));
         direct = foldl (add_direct en boot clk now w) scanned (resource_watches w);
         named = filter (\<lambda>i. i \<noteq> [] \<and> map_of direct i = None) (map a_predecessor_id (resource_watches w));
         unique = dict_update direct (map (\<lambda>i. (i, Unknown_child i None ''not-in-resource-run-index'')) named)
     in map snd (sort_key fst unique))"

text \<open>\<open>cmd_status\<close>: the state of one workflow, read without the lock.\<close>

record status_view =
  st_workflow_state :: string
  st_derived :: string
  st_updated_at :: "string option"
  st_current :: "string list"
  st_next :: "string list"
  st_terminal_nodes :: "string list"
  st_failure_reason :: "(string \<times> json) list"
  st_nodes :: "(string \<times> string) list"
  st_armed :: "(string \<times> armed) list"
  st_claims :: "(string \<times> obj) list"
  st_children :: "child list"

definition cmd_status :: "vocab \<Rightarrow> route \<Rightarrow> gates \<Rightarrow> (world \<Rightarrow> child list) \<Rightarrow> status_view sup" where
  "cmd_status v rt gates children =
    bindc (get_state v) (\<lambda>state w.
      (let states = states_of state; stage = stage_projection rt states;
           terminal_nodes = route_terminal_nodes (rt_nodes rt);
           derived = derive_workflow_state states terminal_nodes
             (gates \<noteq> [] \<and> list_all (\<lambda>(n, row). gate_passed row) gates) False (claims (wd_ledger w) \<noteq> []);
           failed = filter (\<lambda>(n, r). startswith ''FAILED'' (n_state r)) (w_nodes state)
       in (Inr \<lparr>st_workflow_state = w_state state, st_derived = derived, st_updated_at = w_updated_at state,
            st_current = fst stage, st_next = snd stage, st_terminal_nodes = terminal_nodes,
            st_failure_reason = map (\<lambda>(n, r). (n, oget (the_obj (n_evidence r)) ''reason'')) failed,
            st_nodes = states, st_armed = armed_rows w, st_claims = claims (wd_ledger w), st_children = children w\<rparr>, w)))"

section \<open>The contract of supervisor commands\<close>

text \<open>The workflow states the supervisor ever writes.\<close>

definition supervisor_targets :: "string option set" where
  "supervisor_targets = {None, Some ''READY'', Some ''RUNNING'', Some ''FAILED_RETRYABLE'', Some ''NEXT_REGISTERED'',
     Some ''NEXT_RUNNING'', Some ''BLOCKED_HUMAN_GATE'', Some ''TERMINAL_VERIFY'', Some ''COMPLETE''}"

definition supervised_entries :: "entry list \<Rightarrow> bool" where
  "supervised_entries es \<longleftrightarrow> (\<forall>e \<in> set es. e_workflow_state e \<in> supervisor_targets)"

definition started_keys :: "world \<Rightarrow> string list" where
  "started_keys w = map snd (wd_started w)"

text \<open>What one supervisor command does to a world: legal journal entries with supervised targets, and
  successor processes started only under a claim created for them.\<close>

inductive sup_steps :: "vocab \<Rightarrow> world \<Rightarrow> world \<Rightarrow> bool" for v where
  sup_done: "sup_steps v w w"
| sup_ledger: "sup_steps v w w1 \<Longrightarrow> appends v (wd_ledger w1) l \<Longrightarrow> l_claims l = l_claims (wd_ledger w1) \<Longrightarrow>
    (supervised_entries (journal (wd_ledger w1)) \<Longrightarrow> supervised_entries (journal l)) \<Longrightarrow>
    sup_steps v w (w1\<lparr>wd_ledger := l\<rparr>)"
| sup_other: "sup_steps v w w1 \<Longrightarrow> sup_steps v w (w1\<lparr>wd_armed := a, wd_runs := r\<rparr>)"
| sup_claim: "sup_steps v w w1 \<Longrightarrow> \<not> claim_taken (wd_ledger w1) key \<Longrightarrow> claim_taken l key \<Longrightarrow>
    l_claims l = l_claims (wd_ledger w1) @ new \<Longrightarrow> journal l = journal (wd_ledger w1) \<Longrightarrow>
    starts = [] \<or> starts = [(s, key)] \<Longrightarrow>
    sup_steps v w (w1\<lparr>wd_ledger := l, wd_started := wd_started w1 @ starts\<rparr>)"

inductive_cases sup_steps_cases: "sup_steps v w w'"

lemma sup_steps_trans: "sup_steps v w2 w3 \<Longrightarrow> sup_steps v w1 w2 \<Longrightarrow> sup_steps v w1 w3"
  by (induction rule: sup_steps.induct) (auto intro: sup_ledger sup_other sup_claim)

definition safe_cmd :: "vocab \<Rightarrow> 'a sup \<Rightarrow> bool" where
  "safe_cmd v m \<longleftrightarrow> (\<forall>w. sup_steps v w (snd (m w)))"

named_theorems safe \<open>commands that keep the supervisor contract\<close>

lemma safe_ret [safe, intro]: "safe_cmd v (ret a)"
  by (simp add: safe_cmd_def sup_done)

lemma safe_return [safe, intro]: "safe_cmd v (Pair (Inr a))"
  by (simp add: safe_cmd_def sup_done)

lemma safe_raise [safe, intro]: "safe_cmd v (raise e)"
  by (simp add: safe_cmd_def sup_done)

lemma safe_bindc [intro]: "safe_cmd v m \<Longrightarrow> (\<And>a. safe_cmd v (f a)) \<Longrightarrow> safe_cmd v (bindc m f)"
  unfolding safe_cmd_def bindc_def
  by (auto split: prod.splits sum.splits intro: sup_done) (metis snd_conv sup_steps_trans)+

lemma safe_when [intro]: "safe_cmd v m \<Longrightarrow> safe_cmd v (when_c b m)"
  by (auto simp: when_c_def)

lemma safe_if [intro]: "(b \<Longrightarrow> safe_cmd v m) \<Longrightarrow> (\<not> b \<Longrightarrow> safe_cmd v n) \<Longrightarrow> safe_cmd v (if b then m else n)"
  by simp

lemma snd_on_ledger: "snd (on_ledger m w) = w\<lparr>wd_ledger := snd (m (wd_ledger w))\<rparr>"
  by (simp add: on_ledger_def split: prod.splits)

lemma supervised_append:
  assumes "supervised_entries (journal l)" "e_workflow_state e \<in> supervisor_targets"
  shows "supervised_entries (journal (append_entry e l))"
  using assms journal_prefix [of l] by (auto simp: journal_append supervised_entries_def)

lemma target_read: "e_workflow_state (new_entry c l n s w ev a) = w"
  by (simp add: new_entry_def)

lemma safe_get_state [safe, intro]: "safe_cmd v (get_state v)"
  unfolding safe_cmd_def get_state_def snd_on_ledger
  by (intro allI sup_ledger sup_done) (simp_all add: appends_def ledger_reads)

lemma safe_set_state [intro]:
  assumes "Some target \<in> supervisor_targets"
  shows "safe_cmd v (set_state v su target evidence actor)"
proof -
  have "sup_steps v w (snd (on_ledger (set_workflow_state v (su_context su) target evidence actor) w))" for w
    unfolding snd_on_ledger
  proof (intro sup_ledger sup_done)
    show "appends v (wd_ledger w) (snd (set_workflow_state v (su_context su) target evidence actor (wd_ledger w)))"
      using ledger_exec_appends [of v "wd_ledger w" "SetState (su_context su) target evidence actor"] by simp
  qed (use assms in \<open>auto simp: set_workflow_state_cases ledger_reads append_and_read_journal Let_def target_read
      intro!: supervised_append split: sum.splits\<close>)
  then show ?thesis
    unfolding set_state_def by (intro safe_bindc safe_ret) (simp add: safe_cmd_def)
qed

lemma safe_set_node [intro]: "safe_cmd v (set_node v su node state evidence actor)"
proof -
  have "sup_steps v w (snd (on_ledger (record_node v (su_context su) node state evidence None actor) w))" for w
    unfolding snd_on_ledger
  proof (intro sup_ledger sup_done)
    show "appends v (wd_ledger w) (snd (record_node v (su_context su) node state evidence None actor (wd_ledger w)))"
      using ledger_exec_appends [of v "wd_ledger w" "Record (su_context su) node state evidence None actor"] by simp
  qed (auto simp: record_node_cases ledger_reads append_and_read_journal Let_def target_read
      supervisor_targets_def intro!: supervised_append split: sum.splits)
  then show ?thesis
    unfolding set_node_def by (intro safe_bindc safe_ret) (simp add: safe_cmd_def)
qed

lemma safe_store_armed [intro]: "safe_cmd v (store_armed node a)"
  unfolding safe_cmd_def store_armed_def
  using sup_other [OF sup_done] by (metis (no_types, lifting) snd_conv world.surjective world.update_convs(2,3))


lemma sup_steps_runs: "sup_steps v w (w\<lparr>wd_runs := r\<rparr>)"
  using sup_other [OF sup_done [of v w], where a = "wd_armed w" and r = r] by simp

lemma safe_predecessor_evidence [intro]: "safe_cmd v (predecessor_evidence su a)"
proof -
  have "sup_steps v w (snd (resource_evidence su a w))" for w
    by (auto simp: resource_evidence_def Let_def intro: sup_done sup_steps_runs split: option.splits prod.splits sum.splits)
  then show ?thesis
    unfolding predecessor_evidence_def by (auto simp: safe_cmd_def intro: sup_done)
qed

lemma safe_halt [intro]: "safe_cmd v (halt v su node evidence action)"
  unfolding halt_def by (intro safe_bindc safe_ret safe_set_node safe_set_state) (simp add: supervisor_targets_def)

text \<open>Claiming and starting is one step: the process runs under a key nobody had claimed.\<close>

lemma claim_created:
  assumes "claim c key payload l = (Inr (True, stored), l')"
  shows "\<not> claim_taken l key" "claim_taken l' key" "journal l' = journal l" "\<exists>new. l_claims l' = l_claims l @ new"
  using assms by (auto simp: claim_def claim_taken_def Let_def map_add_def split: if_splits option.splits)

lemma claim_not_created:
  assumes "claim c key payload l = (r, l')" "\<And>stored. r \<noteq> Inr (True, stored)"
  shows "l' = l"
  using assms by (auto simp: claim_def Let_def split: if_splits option.splits)

lemma safe_claim_and_start [intro]: "safe_cmd v (claim_and_start su rt a identity successor)"
proof -
  have "sup_steps v w (snd (claim_and_start su rt a identity successor w))" for w
  proof -
    define key where "key = successor_key (su_sha256 su) (rt_hash rt) (a_node a) (py_str identity) successor"
    obtain r l' where c: "claim (su_context su) key (claim_payload rt (a_node a) successor identity) (wd_ledger w) = (r, l')"
      by fastforce
    show ?thesis
    proof (cases "\<exists>stored. r = Inr (True, stored)")
      case True
      then obtain stored where r: "r = Inr (True, stored)" ..
      note new = claim_created [OF c [unfolded r]]
      obtain added where added: "l_claims l' = l_claims (wd_ledger w) @ added" using new(4) ..
      have step: "sup_steps v w (w\<lparr>wd_ledger := l', wd_started := wd_started w @ starts\<rparr>)"
        if "starts = [] \<or> starts = [(successor, key)]" for starts
        by (rule sup_claim [OF sup_done new(1,2) added new(3) that])
      from step [of "[]"] step [of "[(successor, key)]"] show ?thesis
        by (simp add: claim_and_start_def key_def [symmetric] bindc_def on_ledger_def c r start_successor_def
            split: option.splits)
    next
      case False
      with c have "l' = wd_ledger w" by (blast dest: claim_not_created)
      with False show ?thesis
        by (cases r) (auto simp: claim_and_start_def key_def [symmetric] bindc_def on_ledger_def c intro: sup_done)
    qed
  qed
  then show ?thesis by (simp add: safe_cmd_def)
qed

lemma safe_advance_all [intro]: "safe_cmd v (advance_all su rt a identity ss)"
  by (induction ss) (auto intro!: safe_bindc)

lemma safe_advance_state [intro]: "safe_cmd v (advance_state v su a ads)"
  unfolding advance_state_def
  by (intro safe_when safe_bindc safe_get_state safe_set_state) (simp_all add: supervisor_targets_def)

lemma safe_evaluate [intro]: "safe_cmd v (evaluate v su rt a)"
  unfolding evaluate_def evaluate_with_def Let_def
  by (intro safe_bindc safe_if safe_ret safe_predecessor_evidence safe_halt safe_set_node safe_advance_all
      safe_advance_state)

lemma safe_poll_node [intro]: "safe_cmd v (poll_node v su rt node a)"
  unfolding poll_node_def Let_def by (intro safe_bindc safe_if safe_ret safe_get_state safe_evaluate)

lemma safe_poll_nodes [intro]: "safe_cmd v (poll_nodes v su rt ps)"
  by (induction ps) (auto intro!: safe_bindc)

lemma safe_poll_once [intro]: "safe_cmd v (poll_once v su rt)"
  using safe_poll_nodes unfolding safe_cmd_def poll_once_def by blast

lemma safe_arm [intro]: "safe_cmd v (cmd_arm v su rt aa)"
proof (cases "armed_record (su_context su) rt aa")
  case (Inr a)
  then show ?thesis
    unfolding cmd_arm_def
    by (simp, intro safe_bindc safe_when safe_store_armed safe_get_state safe_set_state safe_set_node)
      (simp_all add: supervisor_targets_def)
qed (simp add: cmd_arm_def safe_raise)

lemma safe_option: "safe_cmd v m \<Longrightarrow> (\<And>x. safe_cmd v (f x)) \<Longrightarrow> safe_cmd v (case o' of None \<Rightarrow> m | Some x \<Rightarrow> f x)"
  by (cases o') auto

lemma safe_gate [intro]: "safe_cmd v (cmd_gate v su rt gate release who)"
  unfolding cmd_gate_def
  by (intro safe_option safe_raise safe_if safe_bindc safe_ret safe_get_state safe_set_state)
    (simp_all add: supervisor_targets_def)

lemma safe_record_terminal [intro]: "safe_cmd v (record_terminal v su gates st ns)"
  by (induction ns) (auto intro!: safe_bindc safe_when split: option.split)

lemma safe_complete [intro]: "safe_cmd v (cmd_complete v su rt gates)"
  unfolding cmd_complete_def Let_def
  by (intro safe_if safe_bindc safe_raise safe_ret safe_get_state safe_when safe_set_state safe_record_terminal)
    (simp_all add: supervisor_targets_def)

lemma safe_watch [intro]: "safe_cmd v (cmd_watch v rt ticks)"
  by (induction ticks) (auto intro!: safe_bindc safe_if)


section \<open>The supervisor as a machine\<close>

datatype sup_op =
    Arm surroundings route arm_args
  | Poll surroundings route
  | Watch route "(surroundings \<times> bool) list"
  | Gate surroundings route string bool string
  | Complete surroundings route gates

datatype sup_reply = Done | Rows "poll_row list" | Exit "int option" | Gated string | Completed bool

fun sup_exec :: "vocab \<Rightarrow> sup_op \<Rightarrow> world \<Rightarrow> (string + sup_reply) \<times> world" where
  "sup_exec v (Arm su rt aa) w = apfst (map_sum id (\<lambda>_. Done)) (cmd_arm v su rt aa w)"
| "sup_exec v (Poll su rt) w = apfst (map_sum id Rows) (poll_once v su rt w)"
| "sup_exec v (Watch rt ticks) w = apfst (map_sum id Exit) (cmd_watch v rt ticks w)"
| "sup_exec v (Gate su rt g r b) w = apfst (map_sum id Gated) (cmd_gate v su rt g r b w)"
| "sup_exec v (Complete su rt gates) w = apfst (map_sum id Completed) (cmd_complete v su rt gates w)"

lemma sup_exec_steps: "sup_steps v w (snd (sup_exec v op w))"
  using safe_arm safe_poll_once safe_watch safe_gate safe_complete
  by (cases op) (auto simp: safe_cmd_def)

text \<open>Each started process has its own key, and the key is claimed.\<close>

definition starts_claimed :: "world \<Rightarrow> bool" where
  "starts_claimed w \<longleftrightarrow> distinct (started_keys w) \<and> (\<forall>k \<in> set (started_keys w). claim_taken (wd_ledger w) k)"

lemma claim_taken_cong: "l_claims l = l_claims l' \<Longrightarrow> claim_taken l k = claim_taken l' k"
  by (simp add: claim_taken_def)

lemma claim_taken_grows: "l_claims l = l_claims l' @ new \<Longrightarrow> claim_taken l' k \<Longrightarrow> claim_taken l k"
  by (auto simp: claim_taken_def map_add_def split: option.splits)

lemma sup_steps_starts: "sup_steps v w w' \<Longrightarrow> starts_claimed w \<Longrightarrow> starts_claimed w'"
proof (induction rule: sup_steps.induct)
  case (sup_ledger w w1 l)
  then show ?case
    by (simp add: starts_claimed_def started_keys_def claim_taken_cong [of l "wd_ledger w1"])
next
  case (sup_claim w w1 key l new starts s)
  then have inv: "starts_claimed w1" by simp
  then have fresh: "key \<notin> set (started_keys w1)"
    using sup_claim.hyps(2) by (auto simp: starts_claimed_def)
  show ?case
    using inv fresh sup_claim.hyps claim_taken_grows [OF sup_claim.hyps(4)]
    by (auto simp: starts_claimed_def started_keys_def)
qed (simp_all add: starts_claimed_def started_keys_def)

interpretation supervisor_starts: machine "sup_exec v" "\<lambda>_. True" starts_claimed for v
  by unfold_locales (rule sup_steps_starts [OF sup_exec_steps])

text \<open>Its journal stays legal and carries only supervised targets.\<close>

definition supervised_world :: "vocab \<Rightarrow> world \<Rightarrow> bool" where
  "supervised_world v w \<longleftrightarrow> legal_history v (journal (wd_ledger w)) \<and> supervised_entries (journal (wd_ledger w))"

lemma sup_steps_supervised: "sup_steps v w w' \<Longrightarrow> supervised_world v w \<Longrightarrow> supervised_world v w'"
  by (induction rule: sup_steps.induct) (auto simp: supervised_world_def intro: appends_legal)

interpretation supervisor_history: machine "sup_exec v" "\<lambda>_. True" "supervised_world v" for v
  by unfold_locales (rule sup_steps_supervised [OF sup_exec_steps])

section \<open>Which states the supervisor reaches\<close>

definition open_states :: "string list" where
  "open_states = [''CREATED'', ''READY'', ''RUNNING'', ''FAILED_RETRYABLE'', ''BLOCKED_HUMAN_GATE'']"

lemma list_setE:
  assumes "x \<in> set (y # ys)"
  obtains "x = y" | "x \<in> set ys"
  using assms by auto

lemma topology_targets:
  "map_of (v_transitions topology_vocab) ''CREATED'' = Some [''READY'', ''BLOCKED_HUMAN_GATE'', ''CANCELLED'', ''FAILED_TERMINAL'']"
  "map_of (v_transitions topology_vocab) ''READY'' = Some [''RUNNING'', ''BLOCKED_HUMAN_GATE'', ''FAILED_RETRYABLE'',
     ''FAILED_TERMINAL'', ''CANCELLED'']"
  "map_of (v_transitions topology_vocab) ''RUNNING'' = Some [''STAGE_SUCCEEDED'', ''BLOCKED_HUMAN_GATE'', ''FAILED_RETRYABLE'',
     ''FAILED_TERMINAL'', ''CANCELLED'']"
  "map_of (v_transitions topology_vocab) ''BLOCKED_HUMAN_GATE'' = Some [''RUNNING'', ''CANCELLED'', ''FAILED_TERMINAL'']"
  "map_of (v_transitions topology_vocab) ''FAILED_RETRYABLE'' = Some [''READY'', ''FAILED_TERMINAL'', ''CANCELLED'']"
  by (simp_all add: topology_vocab_def)

definition near_states :: "string list" where
  "near_states = open_states @ [''STAGE_SUCCEEDED'', ''FAILED_TERMINAL'', ''CANCELLED'']"

lemma near_targets:
  "s \<in> set open_states \<Longrightarrow> list_all (\<lambda>c. c \<in> set near_states) (the (map_of (v_transitions topology_vocab) s))"
  unfolding open_states_def by (elim list_setE) (simp_all add: topology_targets near_states_def open_states_def)

lemma open_step:
  assumes "s \<in> set open_states" "c = s \<or> can_transition topology_vocab s c" "Some c \<in> supervisor_targets"
  shows "c \<in> set open_states"
proof (cases "c = s")
  case False
  with assms(2) obtain ts where "map_of (v_transitions topology_vocab) s = Some ts" "c \<in> set ts"
    by (auto simp: can_transition_def split: option.splits)
  with near_targets [OF assms(1)] have "c \<in> set near_states"
    by (simp add: list_all_iff)
  moreover have "c \<notin> {''STAGE_SUCCEEDED'', ''FAILED_TERMINAL'', ''CANCELLED''}"
    using assms(3) by (auto simp: supervisor_targets_def)
  ultimately show ?thesis by (simp add: near_states_def)
qed (use assms(1) in simp)

lemma supervised_open:
  "legal_history topology_vocab es \<Longrightarrow> supervised_entries es \<Longrightarrow>
   snd (rebuild_from topology_vocab es) \<in> set open_states"
proof (induction es rule: rev_induct)
  case Nil
  then show ?case by (simp add: rebuild_from_def open_states_def)
next
  case (snoc e es)
  then have state: "snd (rebuild_from topology_vocab es) \<in> set open_states"
    and legal: "entry_legal topology_vocab (rebuild_from topology_vocab es) e"
    and target: "e_workflow_state e \<in> supervisor_targets"
    by (simp_all add: legal_history_snoc supervised_entries_def)
  show ?case
  proof (cases "e_workflow_state e")
    case None
    with state show ?thesis
      by (cases "rebuild_from topology_vocab es") (simp add: rebuild_from_snoc rebuild_step_def)
  next
    case (Some c)
    with legal have "c = snd (rebuild_from topology_vocab es) \<or> can_transition topology_vocab (snd (rebuild_from topology_vocab es)) c"
      by (simp add: entry_legal_def)
    from open_step [OF state this] target Some have "c \<in> set open_states" by simp
    with state Some show ?thesis
      by (cases "rebuild_from topology_vocab es") (simp add: rebuild_from_snoc rebuild_step_def)
  qed
qed

lemma safe_first:
  assumes "bindc m f w = (Inr b, w')" "safe_cmd v m"
  obtains a w1 where "sup_steps v w w1" "f a w1 = (Inr b, w')" "m w = (Inr a, w1)"
proof -
  obtain a w1 where m: "m w = (Inr a, w1)" and f: "f a w1 = (Inr b, w')"
    using assms(1) by (auto simp: bindc_Inr)
  have "sup_steps v w (snd (m w))"
    using assms(2) by (simp add: safe_cmd_def)
  with m f that show thesis by simp
qed

lemma set_state_done:
  assumes "set_state v su target evidence actor w = (Inr u, w')"
  shows "target = w_state (rebuild v (wd_ledger w) (journal (wd_ledger w))) \<or>
    can_transition v (w_state (rebuild v (wd_ledger w) (journal (wd_ledger w)))) target"
proof -
  obtain a where "assert_transition v (w_state (rebuild v (wd_ledger w) (journal (wd_ledger w)))) target = Inr a"
    using assms by (auto simp: set_state_def bindc_Inr on_ledger_def set_workflow_state_cases Let_def
        split: sum.splits prod.splits)
  then show ?thesis by (simp add: assert_transition_ok)
qed

lemma complete_done:
  assumes "cmd_complete v su rt gates w = (Inr True, w')"
  obtains w1 w2 where "sup_steps v w w1" "set_state v su ''COMPLETE'' (gates_json gates) ''complete'' w1 = (Inr (), w2)"
proof -
  let ?ns = "route_terminal_nodes (rt_nodes rt)"
  let ?set = "set_state v su"
  obtain st w1 where s1: "sup_steps v w w1" and
    c1: "(if \<not> list_all (\<lambda>(n, row). gate_passed row) gates then ret False
       else bindc (record_terminal v su gates st ?ns) (\<lambda>_. bindc (get_state v) (\<lambda>state2.
         bindc (when_c (w_state state2 \<noteq> ''TERMINAL_VERIFY'') (?set ''TERMINAL_VERIFY'' (gates_json gates) ''complete'')) (\<lambda>_.
         bindc (?set ''COMPLETE'' (gates_json gates) ''complete'') (\<lambda>_. ret True))))) w1 = (Inr True, w')"
    using assms by (auto simp: cmd_complete_def Let_def split: if_splits elim: safe_first [OF _ safe_get_state])
  then have c2: "bindc (record_terminal v su gates st ?ns) (\<lambda>_. bindc (get_state v) (\<lambda>state2.
         bindc (when_c (w_state state2 \<noteq> ''TERMINAL_VERIFY'') (?set ''TERMINAL_VERIFY'' (gates_json gates) ''complete'')) (\<lambda>_.
         bindc (?set ''COMPLETE'' (gates_json gates) ''complete'') (\<lambda>_. ret True)))) w1 = (Inr True, w')"
    by (simp split: if_splits)
  from c2 safe_record_terminal obtain u2 w2 where s2: "sup_steps v w1 w2" and
    c3: "bindc (get_state v) (\<lambda>state2.
         bindc (when_c (w_state state2 \<noteq> ''TERMINAL_VERIFY'') (?set ''TERMINAL_VERIFY'' (gates_json gates) ''complete'')) (\<lambda>_.
         bindc (?set ''COMPLETE'' (gates_json gates) ''complete'') (\<lambda>_. ret True))) w2 = (Inr True, w')"
    by (rule safe_first) blast
  from c3 safe_get_state obtain st3 :: wstate and w3 where s3: "sup_steps v w2 w3" and
    c4: "bindc (when_c (w_state st3 \<noteq> ''TERMINAL_VERIFY'') (?set ''TERMINAL_VERIFY'' (gates_json gates) ''complete'')) (\<lambda>_.
         bindc (?set ''COMPLETE'' (gates_json gates) ''complete'') (\<lambda>_. ret True)) w3 = (Inr True, w')"
    by (rule safe_first) blast
  have verify: "safe_cmd v (when_c (w_state st3 \<noteq> ''TERMINAL_VERIFY'') (?set ''TERMINAL_VERIFY'' (gates_json gates) ''complete''))"
    by (intro safe_when safe_set_state) (simp add: supervisor_targets_def)
  from c4 verify obtain u4 w4 where s4: "sup_steps v w3 w4" and
    c5: "bindc (?set ''COMPLETE'' (gates_json gates) ''complete'') (\<lambda>_. ret True) w4 = (Inr True, w')"
    by (rule safe_first)
  from c5 obtain w5 where "?set ''COMPLETE'' (gates_json gates) ''complete'' w4 = (Inr (), w5)"
    by (auto simp: bindc_Inr)
  moreover have "sup_steps v w w4"
    using s1 s2 s3 s4 by (blast intro: sup_steps_trans)
  ultimately show thesis using that by blast
qed


section \<open>What an advance rests on\<close>

text \<open>The evidence of success, spelled out for both kinds of predecessor.\<close>

definition resource_succeeded :: "surroundings \<Rightarrow> armed \<Rightarrow> world \<Rightarrow> bool" where
  "resource_succeeded su a w \<longleftrightarrow> (\<exists>registry runs row. a_resource_registry a = Some registry \<and>
     wd_runs w registry = Some runs \<and> map_of runs (a_predecessor_id a) = Some row \<and>
     oget row ''status'' = JStr ''succeeded'' \<and> \<not> is_alive (su_env su) row)"

definition attempt_succeeded :: "surroundings \<Rightarrow> armed \<Rightarrow> bool" where
  "attempt_succeeded su a \<longleftrightarrow> (\<exists>path lines fs. a_jobs a = Some path \<and> su_jobs su path = Some lines \<and>
     (\<exists>line \<in> set lines. fs = row_fields line) \<and> length fs = 6 \<and> fs ! 1 = ''done'' \<and>
     (let md = parse_registry_metadata (fs ! 5) in
      map_of md ''attempt_id'' = Some (a_predecessor_id a) \<and>
      mget md ''note'' [] \<in> {''completed-marker'', ''completed-supervisor'', ''completed''} \<and>
      mget md ''failure_class'' [] \<in> {[], ''pass''}))"

lemma oget_append: "oget (xs @ ys) k = (case map_of xs k of Some v \<Rightarrow> v | None \<Rightarrow> oget ys k)"
  by (simp add: oget_def map_add_def split: option.splits)

lemma settled_evidence_success:
  "truthy (oget (settled_evidence su run_id row) ''terminal'') \<Longrightarrow> truthy (oget (settled_evidence su run_id row) ''succeeded'') \<Longrightarrow>
   oget row ''status'' = JStr ''succeeded'' \<and> \<not> is_alive (su_env su) row"
  by (auto simp: settled_evidence_def not_terminal_def is_alive_def Let_def split: prod.splits if_splits)

lemma settle_row_stored:
  "settle en now rid row runs = (Inr (row', b), runs') \<Longrightarrow> map_of runs rid = Some row \<Longrightarrow> map_of runs' rid = Some row'"
  by (auto simp: settle_def update_conv' Let_def split: if_splits)

lemma resource_evidence_success:
  assumes "resource_evidence su a w = (Inr ev, w1)" "truthy (oget ev ''terminal'')" "truthy (oget ev ''succeeded'')"
  shows "resource_succeeded su a w1"
proof -
  obtain registry runs row where r: "a_resource_registry a = Some registry" "wd_runs w registry = Some runs"
    "map_of runs (a_predecessor_id a) = Some row"
    using assms by (auto simp: resource_evidence_def not_terminal_def Let_def split: option.splits)
  obtain row' b runs' where s: "settle (su_env su) (su_now su) (a_predecessor_id a) row runs = (Inr (row', b), runs')"
    and ev: "ev = settled_evidence su (a_predecessor_id a) row'" and w1: "w1 = w\<lparr>wd_runs := (wd_runs w)(registry \<mapsto> runs')\<rparr>"
    using assms(1) r by (auto simp: resource_evidence_def Let_def split: prod.splits sum.splits)
  from settled_evidence_success [of su "a_predecessor_id a" row'] assms(2,3) ev
  have "oget row' ''status'' = JStr ''succeeded''" "\<not> is_alive (su_env su) row'" by simp_all
  with settle_row_stored [OF s r(3)] r w1 show ?thesis
    by (auto simp: resource_succeeded_def)
qed

lemma row_evidence_success:
  assumes "truthy (oget (row_evidence su rid fs) ''terminal'')" "truthy (oget (row_evidence su rid fs) ''succeeded'')"
  shows "fs ! 1 = ''done'' \<and> mget (parse_registry_metadata (fs ! 5)) ''note'' [] \<in> {''completed-marker'', ''completed-supervisor'', ''completed''} \<and>
      mget (parse_registry_metadata (fs ! 5)) ''failure_class'' [] \<in> {[], ''pass''}"
proof (cases "fs ! 1 = ''done''")
  case True
  with assms(2) show ?thesis by (simp add: row_evidence_def Let_def)
next
  case False
  with assms(1) show ?thesis by (simp add: row_evidence_def not_terminal_def Let_def)
qed

lemma registered_evidence_success:
  assumes "truthy (oget (registered_evidence su a) ''terminal'')" "truthy (oget (registered_evidence su a) ''succeeded'')"
  shows "attempt_succeeded su a"
proof -
  obtain path lines where p: "a_jobs a = Some path" "su_jobs su path = Some lines"
    using assms by (auto simp: registered_evidence_def not_terminal_def split: option.splits)
  let ?ms = "attempt_rows lines (a_predecessor_id a)"
  have ne: "?ms \<noteq> []"
    using assms(1) p by (auto simp: registered_evidence_def not_terminal_def)
  then have "last ?ms \<in> set ?ms" by simp
  then have row: "length (last ?ms) = 6" "\<exists>line \<in> set lines. last ?ms = row_fields line"
    "map_of (parse_registry_metadata (last ?ms ! 5)) ''attempt_id'' = Some (a_predecessor_id a)"
    unfolding attempt_rows_def by auto
  have "registered_evidence su a = row_evidence su (a_predecessor_id a) (last ?ms)"
    using p ne by (simp add: registered_evidence_def)
  with assms row_evidence_success p row show ?thesis
    unfolding attempt_succeeded_def Let_def by metis
qed

lemma predecessor_evidence_success:
  assumes "predecessor_evidence su a w = (Inr ev, w1)" "truthy (oget ev ''terminal'')" "truthy (oget ev ''succeeded'')"
  shows "if a_predecessor_kind a = ''resource'' then resource_succeeded su a w1 else attempt_succeeded su a"
  using assms resource_evidence_success registered_evidence_success
  by (auto simp: predecessor_evidence_def)

text \<open>What the refusing branches leave alone: claims and started processes.\<close>

definition same_starts :: "world \<Rightarrow> world \<Rightarrow> bool" where
  "same_starts w w' \<longleftrightarrow> wd_started w' = wd_started w \<and> l_claims (wd_ledger w') = l_claims (wd_ledger w)"

definition idle_cmd :: "'a sup \<Rightarrow> bool" where
  "idle_cmd m \<longleftrightarrow> (\<forall>w. same_starts w (snd (m w)))"

lemma same_starts_refl: "same_starts w w"
  by (simp add: same_starts_def)

lemma same_starts_trans: "same_starts a b \<Longrightarrow> same_starts b c \<Longrightarrow> same_starts a c"
  by (simp add: same_starts_def)

lemma idle_bindc: "idle_cmd m \<Longrightarrow> (\<And>a. idle_cmd (f a)) \<Longrightarrow> idle_cmd (bindc m f)"
  unfolding idle_cmd_def bindc_def
  by (auto split: prod.splits sum.splits intro: same_starts_refl) (metis snd_conv same_starts_trans)+

lemma idle_ret: "idle_cmd (ret a)"
  by (simp add: idle_cmd_def same_starts_def)

lemma idle_set_node: "idle_cmd (set_node v su node state ev actor)"
  unfolding set_node_def
  by (intro idle_bindc idle_ret) (auto simp: idle_cmd_def snd_on_ledger same_starts_def record_node_cases ledger_reads
      append_and_read_journal Let_def split: sum.splits)

lemma idle_set_state: "idle_cmd (set_state v su target ev actor)"
  unfolding set_state_def
  by (intro idle_bindc idle_ret) (auto simp: idle_cmd_def snd_on_ledger same_starts_def set_workflow_state_cases ledger_reads
      append_and_read_journal Let_def split: sum.splits)

lemma idle_get_state: "idle_cmd (get_state v)"
  by (simp add: idle_cmd_def get_state_def snd_on_ledger same_starts_def ledger_reads)

lemma idle_halt: "idle_cmd (halt v su node ev action)"
  unfolding halt_def by (intro idle_bindc idle_ret idle_set_node idle_set_state)

lemma idle_evidence: "idle_cmd (predecessor_evidence su a)"
proof -
  have "same_starts w (snd (resource_evidence su a w))" for w
    by (auto simp: resource_evidence_def same_starts_def Let_def split: option.splits prod.splits sum.splits)
  then show ?thesis
    by (simp add: idle_cmd_def predecessor_evidence_def same_starts_def)
qed

definition advance_proved :: "surroundings \<Rightarrow> armed \<Rightarrow> obj \<Rightarrow> bool" where
  "advance_proved su a ev \<longleftrightarrow> truthy (oget ev ''terminal'') \<and> truthy (oget ev ''succeeded'') \<and>
     oget ev ''quiescent'' \<noteq> JBool False \<and>
     (ar_checked (artifact_evidence su a) \<longrightarrow> ar_missing (artifact_evidence su a) = []) \<and>
     (a_continuation_kind a = ''monitor'' \<longrightarrow> monitor_matched su a)"

lemma evaluate_unproved:
  "\<not> advance_proved su a ev \<Longrightarrow> same_starts w (snd (evaluate_with v su rt a ev w))"
  using idle_halt [unfolded idle_cmd_def] idle_ret [unfolded idle_cmd_def]
  by (auto simp: evaluate_with_def advance_proved_def Let_def same_starts_refl)


section \<open>Settled nodes and the survey\<close>

lemma poll_settled:
  assumes "\<forall>p \<in> set ps. node_state (rebuild v (wd_ledger w) (journal (wd_ledger w))) (fst p) = Some ''STAGE_SUCCEEDED''"
  shows "fst (poll_nodes v su rt ps w) = Inr (map (\<lambda>p. outcome (fst p) ''settled'') ps) \<and>
    same_starts w (snd (poll_nodes v su rt ps w))"
  using assms
proof (induction ps arbitrary: w)
  case Nil
  then show ?case by (simp add: same_starts_refl)
next
  case (Cons p ps)
  let ?w1 = "w\<lparr>wd_ledger := snd (read_state v (wd_ledger w))\<rparr>"
  have step: "poll_node v su rt (fst p) (snd p) w = (Inr (outcome (fst p) ''settled''), ?w1)"
    using Cons.prems by (simp add: poll_node_def get_state_def on_ledger_def bindc_def read_state_def Let_def)
  have same: "same_starts w ?w1" by (simp add: same_starts_def ledger_reads)
  have "rebuild v (snd (read_state v (wd_ledger w))) es = rebuild v (wd_ledger w) es" for es
    by (simp add: rebuild_def ledger_reads)
  with Cons.prems have "\<forall>p \<in> set ps. node_state (rebuild v (wd_ledger ?w1) (journal (wd_ledger ?w1))) (fst p) = Some ''STAGE_SUCCEEDED''"
    by (simp add: ledger_reads)
  from Cons.IH [OF this] show ?case
    using same by (cases "poll_nodes v su rt ps ?w1") (auto simp: bindc_def step intro: same_starts_trans)
qed

lemma survey_tier_values:
  "fst (survey_tier si k t a e act g d) \<in> set RISK_TIER_ORDER"
  "fst (survey_tier si k t a e act g d) = ''complete'' \<Longrightarrow> si_proven si = Some True \<and> (si_closed si \<or> d = ''COMPLETE'')"
  by (auto simp: survey_tier_def RISK_TIER_ORDER_def split: if_splits)

lemma survey_route_tier:
  "\<exists>known abandoned external active open_gate. sr_tier (survey_route v su si rt w) =
     fst (survey_tier si known (route_terminal_nodes (rt_nodes rt) \<noteq> [])
       abandoned external active open_gate (sr_derived (survey_route v su si rt w)))"
  unfolding survey_route_def Let_def survey_row.select_convs by (intro exI) (rule refl)

lemma tier_complete:
  assumes "sr_tier (survey_route v su si rt w) = ''complete''"
  shows "si_proven si = Some True \<and> (si_closed si \<or> sr_derived (survey_route v su si rt w) = ''COMPLETE'')"
  using survey_route_tier [of v su si rt w] survey_tier_values(2) assms by (elim exE) (simp only:)

lemma tier_known: "sr_tier (survey_route v su si rt w) \<in> set RISK_TIER_ORDER"
  using survey_route_tier [of v su si rt w] by (elim exE) (simp only: survey_tier_values(1))

lemma survey_derived_complete:
  assumes "sr_derived (survey_route v su si rt w) = ''COMPLETE''"
  shows "list_all (\<lambda>n. map_of (states_of (s_state (read_only_state v (wd_ledger w)))) n = Some ''STAGE_SUCCEEDED'')
     (route_terminal_nodes (rt_nodes rt)) \<and> route_terminal_nodes (rt_nodes rt) \<noteq> []"
  using assms by (auto simp: survey_route_def derive_workflow_state_def Let_def split: prod.splits if_splits)

section \<open>Properties\<close>

definition demo_node :: route_node where
  "demo_node = \<lparr>rn_id = ''n1'', rn_terminal = False, rn_continuation = JObj [(''kind'', JStr ''supervised'')],
     rn_depends_on = [], rn_attrs = []\<rparr>"

definition demo_route :: route where
  "demo_route = \<lparr>rt_id = ''r1'', rt_hash = ''h'',
     rt_nodes = [demo_node, \<lparr>rn_id = ''n2'', rn_terminal = True, rn_continuation = JNull, rn_depends_on = [''n1''], rn_attrs = []\<rparr>],
     rt_gates = [[(''gate'', JStr ''g1'')]]\<rparr>"

definition demo_su :: surroundings where
  "demo_su = \<lparr>su_context = demo_context, su_now = 200, su_env = demo_env, su_is_file = (\<lambda>_. True), su_jobs = (\<lambda>_. None),
     su_exists = (\<lambda>_ _. True), su_monitor = (\<lambda>_. None), su_popen = (\<lambda>_. Some 9), su_sha256 = (\<lambda>_. replicate 64 (CHR ''a''))\<rparr>"

definition demo_armed :: armed where
  "demo_armed = \<lparr>a_node = ''n1'', a_continuation_kind = ''supervised'', a_predecessor_kind = ''resource'', a_predecessor_id = ''r2'',
     a_resource_registry = Some ''/reg'', a_jobs = None, a_successors = [''n2''], a_successor_command = [''run''],
     a_successor_external = False, a_artifact_base = None, a_declared_outputs = [], a_monitor_evidence = None, a_armed_at = ''t''\<rparr>"

definition demo_journal :: "string option \<Rightarrow> string option \<Rightarrow> string option \<Rightarrow> jline" where
  "demo_journal n s w = Entry (new_entry demo_context (fresh_ledger ''r1'' ''h'') n s w JNull ''arm'')"

definition demo_world :: "jline list \<Rightarrow> world" where
  "demo_world extra = \<lparr>wd_ledger = (fresh_ledger ''r1'' ''h'')\<lparr>l_dir := True, l_file := True,
       l_lines := [demo_journal None None (Some ''READY''), demo_journal (Some ''n1'') (Some ''RUNNING'') None,
         demo_journal None None (Some ''RUNNING'')] @ extra\<rparr>,
     wd_armed = [(''n1'', demo_armed)], wd_runs = (\<lambda>p. if p = ''/reg'' then Some [(''r2'', demo_ended)] else None), wd_started = []\<rparr>"

text \<open>C5: over any sequence of arm, poll, watch, gate and complete commands, in whatever surroundings,
  no successor process is started twice under one key: every process started has its own claim,
  and the claim is in the ledger.\<close>

theorem successor_started_at_most_once:
  assumes "wd_started w = []"
  shows "distinct (started_keys (run_ops (sup_exec v) ops w)) \<and>
    (\<forall>k \<in> set (started_keys (run_ops (sup_exec v) ops w)). claim_taken (wd_ledger (run_ops (sup_exec v) ops w)) k)"
proof -
  have "starts_claimed w" using assms by (simp add: starts_claimed_def started_keys_def)
  from supervisor_starts.run_inv [OF _ this, of ops v] show ?thesis
    by (simp add: list_all_iff starts_claimed_def)
qed

theorem successor_started_at_most_once_witness:
  "distinct (started_keys (run_ops (sup_exec topology_vocab) [Poll demo_su demo_route, Poll demo_su demo_route] (demo_world [])))"
  using successor_started_at_most_once [of "demo_world []" topology_vocab "[Poll demo_su demo_route, Poll demo_su demo_route]"]
  by (simp add: demo_world_def)

text \<open>C7: a poll of one watch claims or starts a successor only after the whole proof: the predecessor
  is terminal and succeeded (a resource row settled as \<open>succeeded\<close> whose process is not alive, or a
  \<open>done\<close> attempt row with a completion note and no failure class), it is not draining, no checked
  artifact is missing, and a monitor has matched.\<close>

theorem advance_needs_every_proof:
  assumes "evaluate v su rt a w = (r, w')"
    and "wd_started w' \<noteq> wd_started w \<or> l_claims (wd_ledger w') \<noteq> l_claims (wd_ledger w)"
  shows "\<exists>ev w1. predecessor_evidence su a w = (Inr ev, w1) \<and> advance_proved su a ev \<and>
    (if a_predecessor_kind a = ''resource'' then resource_succeeded su a w1 else attempt_succeeded su a)"
proof -
  obtain x w1 where e: "predecessor_evidence su a w = (x, w1)" by fastforce
  have same: "same_starts w w1"
    using idle_evidence [of su a] e by (auto simp: idle_cmd_def dest: spec [of _ w])
  show ?thesis
  proof (cases x)
    case (Inl err)
    with e assms same show ?thesis by (auto simp: evaluate_def bindc_def same_starts_def)
  next
    case (Inr ev)
    then have step: "evaluate_with v su rt a ev w1 = (r, w')"
      using assms(1) e by (simp add: evaluate_def bindc_def)
    have proved: "advance_proved su a ev"
    proof (rule ccontr)
      assume "\<not> advance_proved su a ev"
      from evaluate_unproved [OF this, of w1 v rt] step same have "same_starts w w'"
        by (auto intro: same_starts_trans)
      with assms(2) show False by (auto simp: same_starts_def)
    qed
    with predecessor_evidence_success [OF e [unfolded Inr]] e Inr show ?thesis
      by (auto simp: advance_proved_def)
  qed
qed

theorem advance_needs_every_proof_witness:
  "\<exists>ev w1. predecessor_evidence demo_su demo_armed (demo_world []) = (Inr ev, w1) \<and> advance_proved demo_su demo_armed ev"
proof -
  obtain r w' where e: "evaluate topology_vocab demo_su demo_route demo_armed (demo_world []) = (r, w')" by fastforce
  have "wd_started (snd (evaluate topology_vocab demo_su demo_route demo_armed (demo_world []))) = [(''n2'', replicate 32 (CHR ''a''))]"
    by code_simp
  with e have "wd_started w' \<noteq> wd_started (demo_world [])" by (simp add: demo_world_def)
  with advance_needs_every_proof [OF e] show ?thesis by blast
qed

text \<open>A workflow driven by these commands from an empty ledger is never completed: with the
  shipped vocabulary its state stays among \<open>CREATED\<close>, \<open>READY\<close>, \<open>RUNNING\<close>, \<open>FAILED_RETRYABLE\<close> and
  \<open>BLOCKED_HUMAN_GATE\<close>, and \<open>complete\<close> never succeeds, even when every terminal gate has passed.\<close>

theorem supervised_workflow_never_completes:
  assumes "journal (wd_ledger w) = []"
  shows "w_state (s_state (read_only_state topology_vocab (wd_ledger (run_ops (sup_exec topology_vocab) ops w)))) \<in> set open_states \<and>
    fst (cmd_complete topology_vocab su rt gates (run_ops (sup_exec topology_vocab) ops w)) \<noteq> Inr True"
proof -
  let ?w = "run_ops (sup_exec topology_vocab) ops w"
  have "supervised_world topology_vocab w"
    using assms by (simp add: supervised_world_def legal_history_def supervised_entries_def)
  from supervisor_history.run_inv [OF _ this, of ops] have inv: "supervised_world topology_vocab ?w"
    by (simp add: list_all_iff)
  then have state: "w_state (s_state (read_only_state topology_vocab (wd_ledger ?w))) \<in> set open_states"
    by (simp add: supervised_world_def supervised_open read_only_state_def rebuild_def Let_def)
  have "fst (cmd_complete topology_vocab su rt gates ?w) \<noteq> Inr True"
  proof
    assume "fst (cmd_complete topology_vocab su rt gates ?w) = Inr True"
    then obtain w' where "cmd_complete topology_vocab su rt gates ?w = (Inr True, w')"
      by (metis prod.collapse)
    then obtain w1 w2 where s: "sup_steps topology_vocab ?w w1"
      and c: "set_state topology_vocab su ''COMPLETE'' (gates_json gates) ''complete'' w1 = (Inr (), w2)"
      by (rule complete_done)
    from sup_steps_supervised [OF s inv] have open1: "snd (rebuild_from topology_vocab (journal (wd_ledger w1))) \<in> set open_states"
      by (simp add: supervised_world_def supervised_open)
    have "''COMPLETE'' \<in> set open_states"
      by (rule open_step [OF open1]) (use set_state_done [OF c] in \<open>auto simp: rebuild_def supervisor_targets_def\<close>)
    then show False by (simp add: open_states_def)
  qed
  with state show ?thesis ..
qed

theorem supervised_workflow_never_completes_witness:
  "fst (cmd_complete topology_vocab demo_su demo_route [(''n2'', [(''passed'', JBool True)])]
     (run_ops (sup_exec topology_vocab) [Arm demo_su demo_route \<lparr>aa_node = ''n1'', aa_predecessor_kind = ''resource'',
        aa_predecessor_id = ''r2'', aa_resource_registry = Some ''/reg'', aa_jobs = None, aa_successor_command = None,
        aa_successor_external = True, aa_artifact_base = None, aa_monitor_evidence = None\<rparr>, Poll demo_su demo_route]
       ((demo_world [])\<lparr>wd_ledger := fresh_ledger ''r1'' ''h''\<rparr>))) \<noteq> Inr True"
proof -
  have "journal (wd_ledger ((demo_world [])\<lparr>wd_ledger := fresh_ledger ''r1'' ''h''\<rparr>)) = []" by code_simp
  from supervised_workflow_never_completes [OF this] show ?thesis by blast
qed

text \<open>A crash after a node is recorded as succeeded and before its successor is claimed strands the
  successor: every later poll answers \<open>settled\<close> for such a node and neither claims nor starts
  anything.\<close>

theorem succeeded_node_is_never_advanced:
  assumes "\<And>node a. (node, a) \<in> set (wd_armed w) \<Longrightarrow>
    node_state (rebuild v (wd_ledger w) (journal (wd_ledger w))) node = Some ''STAGE_SUCCEEDED''"
  shows "fst (poll_once v su rt w) = Inr (map (\<lambda>p. outcome (fst p) ''settled'') (sort_key fst (wd_armed w))) \<and>
    wd_started (snd (poll_once v su rt w)) = wd_started w \<and>
    l_claims (wd_ledger (snd (poll_once v su rt w))) = l_claims (wd_ledger w)"
proof -
  have "\<forall>p \<in> set (sort_key fst (wd_armed w)).
      node_state (rebuild v (wd_ledger w) (journal (wd_ledger w))) (fst p) = Some ''STAGE_SUCCEEDED''"
    using assms by auto
  from poll_settled [OF this, of su rt] show ?thesis
    by (simp add: poll_once_def same_starts_def)
qed

theorem succeeded_node_is_never_advanced_witness:
  "l_claims (wd_ledger (demo_world [demo_journal (Some ''n1'') (Some ''STAGE_SUCCEEDED'') None])) = [] \<and>
   wd_started (snd (poll_once topology_vocab demo_su demo_route
     (demo_world [demo_journal (Some ''n1'') (Some ''STAGE_SUCCEEDED'') None]))) = []"
proof -
  let ?w = "demo_world [demo_journal (Some ''n1'') (Some ''STAGE_SUCCEEDED'') None]"
  have st: "node_state (rebuild topology_vocab (wd_ledger ?w) (journal (wd_ledger ?w))) ''n1'' = Some ''STAGE_SUCCEEDED''"
    by code_simp
  then have "node_state (rebuild topology_vocab (wd_ledger ?w) (journal (wd_ledger ?w))) node = Some ''STAGE_SUCCEEDED''"
    if "(node, a) \<in> set (wd_armed ?w)" for node a
    using that by (simp add: demo_world_def)
  from succeeded_node_is_never_advanced [OF this] show ?thesis
    by (simp add: demo_world_def fresh_ledger_def)
qed

text \<open>An open human gate does not hold back the supervisor: in a workflow blocked on a gate, a poll
  claims and starts the successor of a finished stage, and the workflow still reads as blocked.\<close>

theorem open_gate_does_not_hold_the_poll:
  "let w = demo_world [demo_journal None None (Some ''BLOCKED_HUMAN_GATE'')];
       w' = snd (poll_once topology_vocab demo_su demo_route w) in
   w_state (rebuild topology_vocab (wd_ledger w) (journal (wd_ledger w))) = ''BLOCKED_HUMAN_GATE'' \<and>
   wd_started w' = [(''n2'', replicate 32 (CHR ''a''))] \<and>
   w_state (rebuild topology_vocab (wd_ledger w') (journal (wd_ledger w'))) = ''BLOCKED_HUMAN_GATE''"
  by code_simp

text \<open>The survey calls a route \<open>complete\<close> only when its terminal gates are proven and it is closed or
  every declared terminal node has succeeded in a ledger that can be trusted; every route is ranked
  in one of the declared tiers.\<close>

theorem survey_complete_is_proven:
  "sr_tier (survey_route v su si rt w) \<in> set RISK_TIER_ORDER \<and>
   (sr_tier (survey_route v su si rt w) = ''complete'' \<longrightarrow> si_proven si = Some True \<and>
     (si_closed si \<or> (route_terminal_nodes (rt_nodes rt) \<noteq> [] \<and>
        list_all (\<lambda>n. map_of (states_of (s_state (read_only_state v (wd_ledger w)))) n = Some ''STAGE_SUCCEEDED'')
          (route_terminal_nodes (rt_nodes rt)))))"
  using tier_known tier_complete survey_derived_complete by blast

definition demo_survey :: survey_input where
  "demo_survey = \<lparr>si_closed = True, si_proven = Some True, si_gates_seen = True, si_now = 300, si_stale_after = 60,
     si_epoch = (\<lambda>_. None)\<rparr>"

theorem survey_complete_is_proven_witness:
  "sr_tier (survey_route topology_vocab demo_su demo_survey demo_route ((demo_world [])\<lparr>wd_armed := []\<rparr>)) = ''complete'' \<and>
   si_proven demo_survey = Some True"
proof -
  have "sr_tier (survey_route topology_vocab demo_su demo_survey demo_route ((demo_world [])\<lparr>wd_armed := []\<rparr>)) = ''complete''"
    by code_simp
  then show ?thesis
    using survey_complete_is_proven [of topology_vocab demo_su demo_survey demo_route "(demo_world [])\<lparr>wd_armed := []\<rparr>"] by blast
qed

subsection \<open>The order of a survey and the children it lists\<close>

lemma tier_rank_bound: "tier_rank tier \<le> length RISK_TIER_ORDER"
  unfolding tier_rank_def by (rule length_takeWhile_le)

lemma sorted_map_fst: "sorted xs \<Longrightarrow> sorted (map fst xs)" for xs :: "('a :: linorder \<times> 'b :: linorder) list"
  by (induction xs) (auto simp: less_eq_prod_def)

text \<open>A survey is refused for a non-positive staleness bound; otherwise it reports every candidate
  and every unreadable file exactly once, in falling order of risk, the abandoned workflows first
  and the complete ones last.\<close>

theorem survey_reports_all_by_risk:
  "case cmd_survey v su world_of stale_after candidates diagnostics of
     Inl err \<Rightarrow> stale_after \<le> 0
   | Inr rows \<Rightarrow> 0 < stale_after \<and> sorted (map (\<lambda>r. tier_rank (rr_tier r)) rows) \<and>
       mset rows = mset (map (\<lambda>c. survey_candidate v su (world_of (ca_file c)) c) candidates) +
         mset (map (\<lambda>(file, reason). diagnostic_row None file reason) diagnostics)"
proof -
  have rank: "sorted (map (\<lambda>r. tier_rank (rr_tier r)) (sort_key survey_sort_key rows))" for rows
    using sorted_map_fst [OF sorted_sort_key [of survey_sort_key rows]]
    by (simp add: comp_def survey_sort_key_def)
  show ?thesis
    using rank by (simp add: cmd_survey_def)
qed

fun child_id :: "child \<Rightarrow> string" where
  "child_id (Scanned r) = r_run_id r"
| "child_id (Direct r) = r_run_id r"
| "child_id (Unknown_child i reg reason) = i"

definition ids_agree :: "(string \<times> child) list \<Rightarrow> bool" where
  "ids_agree unique = (distinct (map fst unique) \<and> (\<forall>(i, c) \<in> set unique. child_id c = i))"

lemma update_subset: "set (AList.update k v d) \<subseteq> insert (k, v) (set d)"
  by (induction d) auto

lemma keys_dict_update: "fst ` set (dict_update d e) = fst ` set d \<union> fst ` set e"
proof (induction e arbitrary: d)
  case (Cons p e)
  then show ?case by (cases p) (auto simp: dom_update)
qed simp

lemma in_keys_dict_update: "i \<in> set (map fst (dict_update d e)) \<longleftrightarrow> i \<in> fst ` set d \<or> i \<in> fst ` set e"
  by (simp add: keys_dict_update)

lemma ids_agree_update [intro]: "ids_agree u \<Longrightarrow> child_id c = i \<Longrightarrow> ids_agree (AList.update i c u)"
  using update_subset [of i c u] by (fastforce simp: ids_agree_def distinct_update)

lemma ids_agree_dict_update: "ids_agree u \<Longrightarrow> \<forall>(i, c) \<in> set e. child_id c = i \<Longrightarrow> ids_agree (dict_update u e)"
proof (induction e arbitrary: u)
  case (Cons p e)
  then have "ids_agree (AList.update (fst p) (snd p) u)" by (intro ids_agree_update) auto
  with Cons show ?case by (cases p) simp
qed simp

lemma normalize_id [simp]: "r_run_id (normalize_run en boot clk now registry run_id run) = run_id"
  by (simp add: normalize_run_def Let_def split: prod.split)

lemma direct_child_id [simp]: "child_id (direct_child en boot clk now w registry i) = i"
  by (simp add: direct_child_def split: option.split)

lemma add_direct_step: "ids_agree u \<Longrightarrow> ids_agree (add_direct en boot clk now w u a)"
  by (auto simp: add_direct_def split: option.split)

lemma ids_agree_direct: "ids_agree u \<Longrightarrow> ids_agree (foldl (add_direct en boot clk now w) u as)"
  by (induction "as" arbitrary: u) (auto simp: add_direct_step)

lemma ids_agree_values:
  assumes "ids_agree unique"
  shows "map child_id (map snd (sort_key fst unique)) = sort (map fst unique)"
proof -
  have "map child_id (map snd (sort_key fst unique)) = map fst (sort_key fst unique)"
    using assms by (auto simp: ids_agree_def)
  also have "\<dots> = sort (map fst unique)"
    by (rule map_sort_key)
  finally show ?thesis .
qed

text \<open>The list of resource children names each run once, in order, and never drops the run of an
  armed watch, even when neither the global index nor its registry knows it.\<close>

theorem armed_children_are_listed:
  "let ids = map child_id (resource_children en boot clk now rt route_id_at rows w) in
     sorted ids \<and> distinct ids \<and>
     set (filter (\<lambda>i. i \<noteq> []) (map a_predecessor_id (resource_watches w))) \<subseteq> set ids"
proof -
  let ?scanned = "dict_update [] (map (\<lambda>r. (r_run_id r, Scanned r)) (filter (child_owned rt route_id_at w) rows))"
  let ?direct = "foldl (add_direct en boot clk now w) ?scanned (resource_watches w)"
  let ?named = "filter (\<lambda>i. i \<noteq> [] \<and> map_of ?direct i = None) (map a_predecessor_id (resource_watches w))"
  let ?unique = "dict_update ?direct (map (\<lambda>i. (i, Unknown_child i None ''not-in-resource-run-index'')) ?named)"
  have agree: "ids_agree ?unique"
    by (intro ids_agree_dict_update ids_agree_direct) (auto simp: ids_agree_def)
  have "map child_id (resource_children en boot clk now rt route_id_at rows w) = sort (map fst ?unique)"
    unfolding resource_children_def Let_def by (rule ids_agree_values [OF agree])
  moreover have "distinct (map fst ?unique)"
    using agree by (simp add: ids_agree_def)
  moreover have "i \<in> set (map fst ?unique)" if "i \<in> set (filter (\<lambda>i. i \<noteq> []) (map a_predecessor_id (resource_watches w)))" for i
  proof (cases "map_of ?direct i")
    case None
    then have "i \<in> set ?named" using that by simp
    have "fst ` set (map (\<lambda>i. (i, Unknown_child i None ''not-in-resource-run-index'')) ?named) = set ?named" by force
    then show ?thesis unfolding in_keys_dict_update using \<open>i \<in> set ?named\<close> by (simp only:) simp
  next
    case (Some c)
    then have "i \<in> fst ` set ?direct" by (force dest: map_of_SomeD)
    then show ?thesis unfolding in_keys_dict_update by blast
  qed
  ultimately show ?thesis by (auto simp: Let_def simp del: set_filter set_map)
qed

end
