(* ===== verification/Governor.thy ===== *)
theory Governor
  imports Processes Complex_Main
begin

text \<open>
  Admission control of model workers (\<open>utilities/model-worker-governor.py\<close>): the shared state of
  leases, reservations, claim receipts and rolling starts; every operation loads and prunes it
  under the lock and writes it back only when it succeeds.

  The lock makes an operation one step. The kernel is the \<open>os\<close> record of \<open>Processes\<close> (one for the
  look before the lock, one for the look inside); \<open>secrets.token_hex\<close> is a list of the tokens it
  would draw. Times are rationals.
\<close>

section \<open>State\<close>

record lease =
  ls_class :: string
  ls_pid :: int
  ls_starttime :: string
  ls_acquired_at :: rat
  ls_reserved_at :: "rat option"
  ls_group_owned :: bool
  ls_pgid :: int                \<comment> \<open>\<open>-1\<close> when the group is not owned\<close>

record reservation =
  rv_class :: string
  rv_owner_pid :: int
  rv_owner_starttime :: string
  rv_reserved_at :: rat
  rv_batch :: obj               \<comment> \<open>the keys of \<open>BATCH_RESERVATION_KEYS\<close>\<close>

record claim_receipt =
  cl_claimant_pid :: int
  cl_claimant_starttime :: string
  cl_claimed_at :: rat
  cl_class :: string
  cl_owner_pid :: int
  cl_owner_starttime :: string
  cl_released_at :: "rat option"
  cl_batch :: obj

record governor =
  gv_claims :: "(string \<times> claim_receipt) list"
  gv_leases :: "(string \<times> lease) list"
  gv_reservations :: "(string \<times> reservation) list"
  gv_starts :: "rat list"

datatype state_file = No_state | Unreadable_state | Stored int governor

definition CLASS_LIMITS :: "(string \<times> nat) list" where
  "CLASS_LIMITS = [(''dispatch'', 5), (''distill'', 1), (''title'', 4), (''loop'', 2)]"

definition START_WINDOW_SECONDS :: rat where "START_WINDOW_SECONDS = 600"
definition CLAIM_RECEIPT_SECONDS :: rat where "CLAIM_RECEIPT_SECONDS = START_WINDOW_SECONDS"

definition empty_governor :: governor where
  "empty_governor = \<lparr>gv_claims = [], gv_leases = [], gv_reservations = [], gv_starts = []\<rparr>"

record gov_env =
  ge_os0 :: os                 \<comment> \<open>before the lock\<close>
  ge_os :: os                  \<comment> \<open>under the lock\<close>
  ge_now :: rat
  ge_kill :: bool              \<comment> \<open>\<open>AGENT_MODEL_WORKERS_DISABLED\<close> or \<open>KILL_SWITCH\<close>\<close>
  ge_tokens :: "string list"
  ge_total :: int
  ge_budget :: int

section \<open>Process evidence\<close>

definition process_starttime :: "os \<Rightarrow> int \<Rightarrow> string option" where
  "process_starttime os pid =
    (let (visibility, starttime, state) = proc_observation os pid in
     if visibility \<noteq> ''present'' \<or> state = ''Z'' then None else Some starttime)"

primrec member_scan :: "os \<Rightarrow> int \<Rightarrow> string list \<Rightarrow> (int \<times> string) list \<Rightarrow> string \<Rightarrow> (int \<times> string) list \<times> string" where
  "member_scan os pgid [] members incomplete = (members, incomplete)"
| "member_scan os pgid (name # names) members incomplete =
    (if \<not> isdigit name then member_scan os pgid names members incomplete
     else case os_stat os name of
       NotFound \<Rightarrow> member_scan os pgid names members incomplete
     | Permission \<Rightarrow> member_scan os pgid names members (''procfs-member:'' @ name @ '':'' @ os_error EACCES)
     | OSErr e \<Rightarrow> if e = ENOENT \<or> e = ESRCH then member_scan os pgid names members incomplete
                 else member_scan os pgid names members (''procfs-member:'' @ name @ '':'' @ os_error e)
     | ReadOk raw \<Rightarrow>
        (let tail = stat_tail raw; malformed = ''procfs-member:'' @ name @ '':malformed'' in
         if length tail \<le> 2 then member_scan os pgid names members malformed
         else case py_int (tail ! 2) of
           None \<Rightarrow> member_scan os pgid names members malformed
         | Some g \<Rightarrow> if g \<noteq> pgid then member_scan os pgid names members incomplete
                    else member_scan os pgid names (members @ [(digits_val name, tail ! 0)]) incomplete))"

record member_observation =
  mo_state :: string
  mo_members :: "(int \<times> string) list"
  mo_reason :: string

definition member_observation_of :: "os \<Rightarrow> int \<Rightarrow> member_observation" where
  "member_observation_of os pgid =
    (if pgid \<le> 0 then \<lparr>mo_state = ''unverifiable'', mo_members = [], mo_reason = ''invalid-pgid''\<rparr>
     else case os_entries os of
       ReadOk names \<Rightarrow>
         (let (members, incomplete) = member_scan os pgid names [] []; ordered = sort_key fst members in
          if list_ex (\<lambda>(p, st). st \<noteq> ''Z'') ordered
          then \<lparr>mo_state = ''populated'', mo_members = ordered, mo_reason = incomplete\<rparr>
          else if incomplete \<noteq> [] then \<lparr>mo_state = ''unverifiable'', mo_members = ordered, mo_reason = incomplete\<rparr>
          else \<lparr>mo_state = ''empty'', mo_members = ordered, mo_reason = []\<rparr>)
     | _ \<Rightarrow> \<lparr>mo_state = ''unverifiable'', mo_members = [], mo_reason = ''procfs-enumeration''\<rparr>)"

definition lease_is_active :: "os \<Rightarrow> lease \<Rightarrow> bool" where
  "lease_is_active os l =
    (let (visibility, actual_start, state) = proc_observation os (ls_pid l) in
     if visibility = ''present'' \<and> state \<noteq> ''Z'' \<and> actual_start = ls_starttime l then True
     else if visibility = ''inaccessible'' then True
     else if ls_pgid l \<noteq> ls_pid l \<or> \<not> ls_group_owned l then False
     else mo_state (member_observation_of os (ls_pgid l)) \<noteq> ''empty'')"

definition owner_identity_is_active :: "os \<Rightarrow> int \<Rightarrow> string \<Rightarrow> bool" where
  "owner_identity_is_active os pid expected_start =
    (let (visibility, actual_start, state) = proc_observation os pid in
     visibility = ''inaccessible'' \<or>
     (visibility = ''present'' \<and> state \<noteq> ''Z'' \<and> actual_start = expected_start))"

definition owned_group :: "os \<Rightarrow> int \<Rightarrow> bool" where
  "owned_group os pid = (case os_getpgid os pid of ReadOk g \<Rightarrow> g = pid | _ \<Rightarrow> False)"

section \<open>Loading, pruning, writing\<close>

definition load_state :: "state_file \<Rightarrow> string + governor" where
  "load_state f = (case f of
       No_state \<Rightarrow> Inr empty_governor
     | Unreadable_state \<Rightarrow> Inl ''invalid governor state''
     | Stored version g \<Rightarrow> if version < 1 \<or> version > 2
         then Inl (''unsupported governor state schema: '' @ int_str version) else Inr g)"

definition receipt_time :: "claim_receipt \<Rightarrow> rat" where
  \<comment> \<open>\<open>claim.get("released_at") or claim.get("claimed_at")\<close>\<close>
  "receipt_time c = (case cl_released_at c of Some t \<Rightarrow> if t = 0 then cl_claimed_at c else t | None \<Rightarrow> cl_claimed_at c)"

definition prune :: "gov_env \<Rightarrow> governor \<Rightarrow> governor" where
  "prune ge g =
    (let leases = filter (\<lambda>(t, l). lease_is_active (ge_os ge) l) (gv_leases g) in
     \<lparr>gv_claims = filter (\<lambda>(t, c). t \<in> fst ` set leases \<or>
        (owner_identity_is_active (ge_os ge) (cl_owner_pid c) (cl_owner_starttime c) \<and>
         ge_now ge - receipt_time c < CLAIM_RECEIPT_SECONDS)) (gv_claims g),
      gv_leases = leases,
      gv_reservations = filter (\<lambda>(t, r). owner_identity_is_active (ge_os ge) (rv_owner_pid r) (rv_owner_starttime r)) (gv_reservations g),
      gv_starts = filter (\<lambda>stamp. ge_now ge - stamp < START_WINDOW_SECONDS) (gv_starts g)\<rparr>)"

definition state_change ::
  "gov_env \<Rightarrow> (governor \<Rightarrow> string + 'a \<times> governor) \<Rightarrow> state_file \<Rightarrow> (string + 'a) \<times> state_file" where
  "state_change ge operation f = (case load_state f of
       Inl err \<Rightarrow> (Inl err, f)
     | Inr g \<Rightarrow> (case operation (prune ge g) of
         Inl err \<Rightarrow> (Inl err, f)
       | Inr (a, g') \<Rightarrow> (Inr a, Stored 2 g')))"

section \<open>Admission\<close>

definition occupied_classes :: "governor \<Rightarrow> string list" where
  "occupied_classes g = map (\<lambda>(t, l). ls_class l) (gv_leases g) @ map (\<lambda>(t, r). rv_class r) (gv_reservations g)"

definition assert_available :: "gov_env \<Rightarrow> governor \<Rightarrow> string \<Rightarrow> int \<Rightarrow> string + unit" where
  "assert_available ge g worker_class requested =
    (case map_of CLASS_LIMITS worker_class of
       None \<Rightarrow> Inl ''unknown worker class''
     | Some limit \<Rightarrow>
        if requested < 1 then Inl ''reservation count must be a positive integer''
        else if ge_kill ge then Inl ''model-worker kill switch active''
        else if int (length (occupied_classes g)) + requested > ge_total ge then Inl ''global model-worker cap reached''
        else if int (length (filter (\<lambda>c. c = worker_class) (occupied_classes g))) + requested > int limit
        then Inl (worker_class @ '' class cap reached'')
        else if int (length (gv_starts g)) + int (length (gv_reservations g)) + requested > ge_budget ge
        then Inl ''rolling model-worker start budget reached''
        else Inr ())"

definition limits :: "gov_env \<Rightarrow> string + unit" where
  "limits ge = (if ge_total ge < 1 \<or> ge_budget ge < 1 then Inl ''model-worker limits must be positive'' else Inr ())"

definition token_in_use :: "governor \<Rightarrow> string \<Rightarrow> bool" where
  "token_in_use g token \<longleftrightarrow> token \<in> fst ` set (gv_claims g) \<or> token \<in> fst ` set (gv_leases g) \<or>
     token \<in> fst ` set (gv_reservations g)"

definition new_token :: "governor \<Rightarrow> string list \<Rightarrow> (string \<times> string list) option" where
  \<comment> \<open>the first fresh draw and the draws left; \<open>None\<close> while the loop still draws\<close>
  "new_token g tokens = (case dropWhile (token_in_use g) tokens of [] \<Rightarrow> None | t # ts \<Rightarrow> Some (t, ts))"

definition check_admission :: "gov_env \<Rightarrow> string \<Rightarrow> state_file \<Rightarrow> (string + unit) \<times> state_file" where
  "check_admission ge worker_class f =
    (case limits ge of Inl err \<Rightarrow> (Inl err, f)
     | Inr _ \<Rightarrow> state_change ge (\<lambda>g. bindr (assert_available ge g worker_class 1) (\<lambda>_. Inr ((), g))) f)"

definition new_lease :: "gov_env \<Rightarrow> string \<Rightarrow> int \<Rightarrow> string \<Rightarrow> rat option \<Rightarrow> lease" where
  "new_lease ge worker_class pid starttime reserved =
    \<lparr>ls_class = worker_class, ls_pid = pid, ls_starttime = starttime, ls_acquired_at = ge_now ge,
     ls_reserved_at = reserved, ls_group_owned = owned_group (ge_os ge) pid,
     ls_pgid = (if owned_group (ge_os ge) pid then pid else -1)\<rparr>"

definition add_lease :: "string \<Rightarrow> lease \<Rightarrow> rat \<Rightarrow> governor \<Rightarrow> governor" where
  "add_lease t l now g = g\<lparr>gv_leases := gv_leases g @ [(t, l)], gv_starts := gv_starts g @ [now]\<rparr>"

definition add_reservation :: "string \<Rightarrow> reservation \<Rightarrow> governor \<Rightarrow> governor" where
  "add_reservation t r g = g\<lparr>gv_reservations := gv_reservations g @ [(t, r)]\<rparr>"

definition acquire :: "gov_env \<Rightarrow> string \<Rightarrow> int \<Rightarrow> state_file \<Rightarrow> (string + string) \<times> state_file" where
  "acquire ge worker_class pid f =
    (case limits ge of Inl err \<Rightarrow> (Inl err, f)
     | Inr _ \<Rightarrow> (case process_starttime (ge_os0 ge) pid of
         None \<Rightarrow> (Inl ''requesting process identity unavailable'', f)
       | Some starttime \<Rightarrow> state_change ge (\<lambda>g.
           if process_starttime (ge_os ge) pid \<noteq> Some starttime then Inl ''requesting process identity changed''
           else bindr (assert_available ge g worker_class 1) (\<lambda>_.
             case new_token g (ge_tokens ge) of
               None \<Rightarrow> Inl ''no fresh token''
             | Some (token, rest) \<Rightarrow> Inr (token,
                 add_lease token (new_lease ge worker_class pid starttime None) (ge_now ge) g))) f))"

text \<open>\<open>extras\<close> holds, per token, the batch keys of its member (all empty without a batch).\<close>

fun mint :: "gov_env \<Rightarrow> string \<Rightarrow> int \<Rightarrow> string \<Rightarrow> obj list \<Rightarrow> string list \<Rightarrow> governor \<Rightarrow> (string list \<times> governor) option" where
  "mint ge worker_class pid starttime [] tokens g = Some ([], g)"
| "mint ge worker_class pid starttime (extra # extras) tokens g =
    (case new_token g tokens of
       None \<Rightarrow> None
     | Some (token, rest) \<Rightarrow>
        (let r = \<lparr>rv_class = worker_class, rv_owner_pid = pid, rv_owner_starttime = starttime,
                  rv_reserved_at = ge_now ge, rv_batch = extra\<rparr> in
         case mint ge worker_class pid starttime extras rest (add_reservation token r g) of
           None \<Rightarrow> None
         | Some (ts, g') \<Rightarrow> Some (token # ts, g')))"

definition reserve :: "gov_env \<Rightarrow> string \<Rightarrow> int \<Rightarrow> obj list \<Rightarrow> state_file \<Rightarrow> (string + string list) \<times> state_file" where
  \<comment> \<open>\<open>count = length extras\<close>\<close>
  "reserve ge worker_class pid extras f =
    (case limits ge of Inl err \<Rightarrow> (Inl err, f)
     | Inr _ \<Rightarrow> (case process_starttime (ge_os0 ge) pid of
         None \<Rightarrow> (Inl ''reservation owner identity unavailable'', f)
       | Some starttime \<Rightarrow> state_change ge (\<lambda>g.
           if process_starttime (ge_os ge) pid \<noteq> Some starttime then Inl ''reservation owner identity changed''
           else bindr (assert_available ge g worker_class (int (length extras))) (\<lambda>_.
             case mint ge worker_class pid starttime extras (ge_tokens ge) g of
               None \<Rightarrow> Inl ''no fresh token''
             | Some (ts, g') \<Rightarrow> Inr (ts, g'))) f))"

definition valid_reservation_token :: "string \<Rightarrow> bool" where
  "valid_reservation_token token \<longleftrightarrow> length token = 32 \<and> list_all is_lower_hex token"

datatype reservation_state =
    Absent
  | Unclaimed string int string obj                      \<comment> \<open>class, owner pid, owner start, batch\<close>
  | Claimed_by int string string bool int string obj     \<comment> \<open>claimant, its start, class, lease active, owner\<close>

definition record_mismatch :: "string option \<Rightarrow> int option \<Rightarrow> string \<Rightarrow> int \<Rightarrow> string option" where
  "record_mismatch worker_class owner_pid cls owner =
    (if worker_class \<noteq> None \<and> worker_class \<noteq> Some cls then Some ''reservation class mismatch''
     else if owner_pid \<noteq> None \<and> owner_pid \<noteq> Some owner then Some ''reservation owner mismatch'' else None)"

definition inspect_state :: "string \<Rightarrow> string option \<Rightarrow> int option \<Rightarrow> governor \<Rightarrow> string + reservation_state" where
  "inspect_state token worker_class owner_pid g = (case map_of (gv_reservations g) token of
       Some r \<Rightarrow> (case record_mismatch worker_class owner_pid (rv_class r) (rv_owner_pid r) of
           Some err \<Rightarrow> Inl err
         | None \<Rightarrow> Inr (Unclaimed (rv_class r) (rv_owner_pid r) (rv_owner_starttime r) (rv_batch r)))
     | None \<Rightarrow> (case map_of (gv_claims g) token of
         None \<Rightarrow> Inr Absent
       | Some c \<Rightarrow> (case record_mismatch worker_class owner_pid (cl_class c) (cl_owner_pid c) of
           Some err \<Rightarrow> Inl err
         | None \<Rightarrow> Inr (Claimed_by (cl_claimant_pid c) (cl_claimant_starttime c) (cl_class c)
             (token \<in> fst ` set (gv_leases g)) (cl_owner_pid c) (cl_owner_starttime c) (cl_batch c)))))"

definition reservation_check ::
  "gov_env \<Rightarrow> string \<Rightarrow> string option \<Rightarrow> int option \<Rightarrow> state_file \<Rightarrow> (string + reservation_state) \<times> state_file" where
  "reservation_check ge token worker_class owner_pid f =
    (if \<not> valid_reservation_token token then (Inl ''invalid reservation token'', f)
     else state_change ge (\<lambda>g. bindr (inspect_state token worker_class owner_pid g) (\<lambda>st. Inr (st, g))) f)"

definition claim_operation :: "gov_env \<Rightarrow> string \<Rightarrow> string \<Rightarrow> int \<Rightarrow> string \<Rightarrow> governor \<Rightarrow> string + string \<times> governor" where
  "claim_operation ge token worker_class pid starttime g =
    (case map_of (gv_reservations g) token of
       None \<Rightarrow> if token \<in> fst ` set (gv_leases g) then Inl ''reservation already claimed'' else Inl ''reservation unavailable''
     | Some r \<Rightarrow>
        if rv_class r \<noteq> worker_class then Inl ''reservation class mismatch''
        else if process_starttime (ge_os ge) pid \<noteq> Some starttime then Inl ''requesting process identity changed''
        else Inr (token, g\<lparr>
          gv_reservations := AList.delete token (gv_reservations g),
          gv_claims := AList.update token \<lparr>cl_claimant_pid = pid, cl_claimant_starttime = starttime,
             cl_claimed_at = ge_now ge, cl_class = worker_class, cl_owner_pid = rv_owner_pid r,
             cl_owner_starttime = rv_owner_starttime r, cl_released_at = None, cl_batch = rv_batch r\<rparr> (gv_claims g),
          gv_leases := AList.update token (new_lease ge worker_class pid starttime (Some (rv_reserved_at r))) (gv_leases g),
          gv_starts := gv_starts g @ [ge_now ge]\<rparr>))"

definition claim_reservation :: "gov_env \<Rightarrow> string \<Rightarrow> string \<Rightarrow> int \<Rightarrow> state_file \<Rightarrow> (string + string) \<times> state_file" where
  "claim_reservation ge token worker_class pid f =
    (if \<not> valid_reservation_token token then (Inl ''invalid reservation token'', f)
     else case process_starttime (ge_os0 ge) pid of
       None \<Rightarrow> (Inl ''requesting process identity unavailable'', f)
     | Some starttime \<Rightarrow> state_change ge (claim_operation ge token worker_class pid starttime) f)"

definition cancel_reservation :: "gov_env \<Rightarrow> string \<Rightarrow> state_file \<Rightarrow> (string + bool) \<times> state_file" where
  "cancel_reservation ge token f =
    (if \<not> valid_reservation_token token then (Inl ''invalid reservation token'', f)
     else state_change ge (\<lambda>g.
       if token \<in> fst ` set (gv_claims g) \<or> token \<in> fst ` set (gv_leases g) then Inl ''reservation already claimed''
       else Inr (map_of (gv_reservations g) token \<noteq> None,
                 g\<lparr>gv_reservations := AList.delete token (gv_reservations g)\<rparr>)) f)"

definition release_safe :: "os \<Rightarrow> lease \<Rightarrow> bool" where
  "release_safe os l =
    (if \<not> ls_group_owned l then True
     else let grp = member_observation_of os (ls_pgid l);
          live_descendants = list_ex (\<lambda>(p, st). p \<noteq> ls_pid l \<and> st \<noteq> ''Z'') (mo_members grp) in
       mo_state grp \<noteq> ''unverifiable'' \<and>
       (mo_state grp = ''empty'' \<or> (mo_state grp = ''populated'' \<and> \<not> live_descendants \<and> mo_reason grp = [])))"

definition release_operation :: "gov_env \<Rightarrow> string \<Rightarrow> governor \<Rightarrow> governor" where
  "release_operation ge token g =
    g\<lparr>gv_leases := (if (case map_of (gv_leases g) token of None \<Rightarrow> True | Some l \<Rightarrow> release_safe (ge_os ge) l)
         then AList.delete token (gv_leases g) else gv_leases g),
      gv_claims := (case map_of (gv_claims g) token of
         Some c \<Rightarrow> if cl_released_at c = None then AList.update token (c\<lparr>cl_released_at := Some (ge_now ge)\<rparr>) (gv_claims g)
                  else gv_claims g
       | None \<Rightarrow> gv_claims g)\<rparr>"

definition release :: "gov_env \<Rightarrow> string \<Rightarrow> state_file \<Rightarrow> (string + unit) \<times> state_file" where
  "release ge token f = state_change ge (\<lambda>g. Inr ((), release_operation ge token g)) f"

text \<open>\<open>run\<close>: the worker waits until its own group is quiet before the lease is released.\<close>

definition run_group_quiet :: "os \<Rightarrow> int \<Rightarrow> bool" where
  "run_group_quiet os pid =
    (let grp = member_observation_of os pid in
     mo_state grp = ''empty'' \<or> (mo_state grp = ''populated'' \<and> mo_reason grp = [] \<and>
       \<not> list_ex (\<lambda>(p, st). p \<noteq> pid \<and> st \<noteq> ''Z'') (mo_members grp)))"


section \<open>The invariant of the stored state\<close>

definition tokens_ok :: "governor \<Rightarrow> bool" where
  "tokens_ok g \<longleftrightarrow> distinct (map fst (gv_leases g)) \<and> distinct (map fst (gv_reservations g)) \<and> distinct (map fst (gv_claims g)) \<and>
     fst ` set (gv_leases g) \<inter> fst ` set (gv_reservations g) = {} \<and> fst ` set (gv_claims g) \<inter> fst ` set (gv_reservations g) = {}"

definition class_count :: "governor \<Rightarrow> string \<Rightarrow> nat" where
  "class_count g c = count (mset (occupied_classes g)) c"

definition caps_ok :: "int \<Rightarrow> governor \<Rightarrow> bool" where
  "caps_ok T g \<longleftrightarrow> int (length (gv_leases g)) + int (length (gv_reservations g)) \<le> T \<and>
     (\<forall>c. class_count g c \<le> (case map_of CLASS_LIMITS c of Some n \<Rightarrow> n | None \<Rightarrow> 0))"

definition budget_ok :: "int \<Rightarrow> governor \<Rightarrow> bool" where
  "budget_ok B g \<longleftrightarrow> int (length (gv_starts g)) + int (length (gv_reservations g)) \<le> B"

definition governed :: "int \<Rightarrow> int \<Rightarrow> governor \<Rightarrow> bool" where
  "governed T B g \<longleftrightarrow> tokens_ok g \<and> caps_ok T g \<and> budget_ok B g"

definition file_governed :: "int \<Rightarrow> int \<Rightarrow> state_file \<Rightarrow> bool" where
  "file_governed T B f \<longleftrightarrow> (case f of Stored n g \<Rightarrow> governed T B g | _ \<Rightarrow> True)"

lemma class_count_parts:
  "class_count g c = count (image_mset (\<lambda>(t, l). ls_class l) (mset (gv_leases g))) c
     + count (image_mset (\<lambda>(t, r). rv_class r) (mset (gv_reservations g))) c"
  by (simp add: class_count_def occupied_classes_def)

lemma length_occupied: "length (occupied_classes g) = length (gv_leases g) + length (gv_reservations g)"
  by (simp add: occupied_classes_def)

lemma class_filter: "length (filter (\<lambda>x. x = c) (occupied_classes g)) = class_count g c"
  unfolding class_count_def count_mset count_list_eq_length_filter
  by (rule arg_cong [of _ _ length]) (rule filter_cong, auto)

subsection \<open>Pruning only removes\<close>

lemma prune_parts:
  "\<exists>P. gv_leases (prune ge g) = filter P (gv_leases g)" "\<exists>P. gv_reservations (prune ge g) = filter P (gv_reservations g)"
  "\<exists>P. gv_claims (prune ge g) = filter P (gv_claims g)" "\<exists>P. gv_starts (prune ge g) = filter P (gv_starts g)"
  by (auto simp: prune_def Let_def)

lemma count_filter_le: "count (image_mset h (mset (filter P xs))) c \<le> count (image_mset h (mset xs)) c"
  by (simp add: image_mset_subseteq_mono mset_subset_eq_count multiset_filter_subset)

lemma count_filter_mset_le [simp]: "count (image_mset h (filter_mset P M)) c \<le> count (image_mset h M) c"
  by (simp add: image_mset_subseteq_mono mset_subset_eq_count multiset_filter_subset)

lemma tokens_filter: "tokens_ok g \<Longrightarrow> tokens_ok (g\<lparr>gv_leases := filter P (gv_leases g), gv_reservations := filter Q (gv_reservations g),
     gv_claims := filter R (gv_claims g), gv_starts := st\<rparr>)"
  by (auto simp: tokens_ok_def distinct_map_filter)

lemma prune_tokens: "tokens_ok g \<Longrightarrow> tokens_ok (prune ge g)"
  unfolding tokens_ok_def prune_def Let_def
  by (auto simp: distinct_map_filter)

lemma prune_caps: assumes "caps_ok T g" shows "caps_ok T (prune ge g)"
proof -
  obtain P Q where f: "gv_leases (prune ge g) = filter P (gv_leases g)" "gv_reservations (prune ge g) = filter Q (gv_reservations g)"
    using prune_parts by meson
  have "class_count (prune ge g) c \<le> class_count g c" for c
    unfolding class_count_parts f by (intro add_mono count_filter_le)
  then have "class_count (prune ge g) c \<le> (case map_of CLASS_LIMITS c of Some n \<Rightarrow> n | None \<Rightarrow> 0)" for c
    using assms unfolding caps_ok_def by (meson order_trans)
  moreover have "length (filter P (gv_leases g)) + length (filter Q (gv_reservations g)) \<le> length (gv_leases g) + length (gv_reservations g)"
    by (intro add_mono length_filter_le)
  ultimately show ?thesis
    using assms unfolding caps_ok_def f by auto
qed

lemma prune_budget: assumes "budget_ok B g" shows "budget_ok B (prune ge g)"
proof -
  obtain P Q where f: "gv_starts (prune ge g) = filter P (gv_starts g)" "gv_reservations (prune ge g) = filter Q (gv_reservations g)"
    using prune_parts by meson
  have "length (filter P (gv_starts g)) + length (filter Q (gv_reservations g)) \<le> length (gv_starts g) + length (gv_reservations g)"
    by (intro add_mono length_filter_le)
  with assms show ?thesis unfolding budget_ok_def f by linarith
qed

lemma prune_governed: "governed T B g \<Longrightarrow> governed T B (prune ge g)"
  by (simp add: governed_def prune_tokens prune_caps prune_budget)

lemma empty_governed: "0 \<le> T \<Longrightarrow> 0 \<le> B \<Longrightarrow> governed T B empty_governor"
  by (simp add: governed_def tokens_ok_def caps_ok_def budget_ok_def empty_governor_def class_count_parts)

lemma state_change_governed:
  assumes "file_governed T B f" "0 \<le> T" "0 \<le> B"
    and "\<And>g a g'. governed T B g \<Longrightarrow> operation g = Inr (a, g') \<Longrightarrow> governed T B g'"
  shows "file_governed T B (snd (state_change ge operation f))"
proof (cases "load_state f")
  case (Inr g)
  then have "governed T B g"
    using assms(1-3) by (auto simp: load_state_def file_governed_def empty_governed split: state_file.splits if_splits)
  then have "governed T B (prune ge g)" by (rule prune_governed)
  with Inr assms(1,4) show ?thesis
    by (auto simp: state_change_def file_governed_def split: sum.splits prod.splits)
qed (simp add: state_change_def assms(1))


subsection \<open>Each operation keeps it\<close>

lemma available_caps:
  assumes "assert_available ge g c n = Inr u"
  shows "1 \<le> n" "int (length (gv_leases g)) + int (length (gv_reservations g)) + n \<le> ge_total ge"
    "\<exists>limit. map_of CLASS_LIMITS c = Some limit \<and> int (class_count g c) + n \<le> int limit"
    "int (length (gv_starts g)) + int (length (gv_reservations g)) + n \<le> ge_budget ge"
  using assms by (auto simp: assert_available_def length_occupied class_filter split: option.splits if_splits)

lemma new_token_fresh: "new_token g tokens = Some (t, ts) \<Longrightarrow> \<not> token_in_use g t"
  unfolding new_token_def by (metis (no_types, lifting) hd_dropWhile list.case_eq_if list.sel(1) option.discI option.sel prod.inject)

lemma add_lease_governed:
  assumes g: "governed T B g" and a: "assert_available ge g (ls_class l) 1 = Inr u" and t: "\<not> token_in_use g t"
    and "ge_total ge \<le> T" "ge_budget ge \<le> B"
  shows "governed T B (add_lease t l now g)"
proof -
  obtain limit where lim: "map_of CLASS_LIMITS (ls_class l) = Some limit" "int (class_count g (ls_class l)) + 1 \<le> int limit"
    using available_caps(3) [OF a] by blast
  have "class_count (add_lease t l now g) c = class_count g c + (if c = ls_class l then 1 else 0)" for c
    by (simp add: class_count_parts add_lease_def)
  then have "caps_ok T (add_lease t l now g)"
    using g lim available_caps(2) [OF a] assms(4) by (auto simp: governed_def caps_ok_def add_lease_def)
  moreover have "tokens_ok (add_lease t l now g)"
    using g t by (auto simp: governed_def tokens_ok_def token_in_use_def add_lease_def)
  moreover have "budget_ok B (add_lease t l now g)"
    using available_caps(4) [OF a] assms(5) by (simp add: budget_ok_def add_lease_def)
  ultimately show ?thesis by (simp add: governed_def)
qed

text \<open>Minting several reservations: room for all of them is room for each.\<close>

definition room :: "int \<Rightarrow> int \<Rightarrow> string \<Rightarrow> nat \<Rightarrow> governor \<Rightarrow> bool" where
  "room T B c n g \<longleftrightarrow> int (length (gv_leases g)) + int (length (gv_reservations g)) + int n \<le> T \<and>
     (\<exists>limit. map_of CLASS_LIMITS c = Some limit \<and> class_count g c + n \<le> limit) \<and>
     int (length (gv_starts g)) + int (length (gv_reservations g)) + int n \<le> B"

lemma add_reservation_count: "class_count (add_reservation t r g) c = class_count g c + (if c = rv_class r then 1 else 0)"
  by (simp add: class_count_parts add_reservation_def)

lemma add_reservation_room: "room T B (rv_class r) (Suc n) g \<Longrightarrow> room T B (rv_class r) n (add_reservation t r g)"
  by (auto simp: room_def add_reservation_count) (simp_all add: add_reservation_def)

lemma add_reservation_governed:
  assumes "governed T B g" "room T B (rv_class r) (Suc n) g" "\<not> token_in_use g t"
  shows "governed T B (add_reservation t r g)"
proof -
  have "caps_ok T (add_reservation t r g)"
    using assms(1,2) by (auto simp: governed_def caps_ok_def room_def add_reservation_count) (simp add: add_reservation_def)
  moreover have "tokens_ok (add_reservation t r g)"
    using assms(1,3) by (auto simp: governed_def tokens_ok_def token_in_use_def add_reservation_def)
  moreover have "budget_ok B (add_reservation t r g)"
    using assms(2) by (simp add: room_def budget_ok_def add_reservation_def)
  ultimately show ?thesis by (simp add: governed_def)
qed

lemma mint_governed:
  "mint ge c pid start extras tokens g = Some (ts, g') \<Longrightarrow> governed T B g \<Longrightarrow> room T B c (length extras) g \<Longrightarrow>
   governed T B g' \<and> gv_starts g' = gv_starts g \<and> gv_leases g' = gv_leases g \<and> length ts = length extras"
proof (induction extras arbitrary: tokens g ts)
  case (Cons extra extras)
  obtain t rest where t: "new_token g tokens = Some (t, rest)"
    using Cons.prems(1) by (auto split: option.splits)
  define r where "r = \<lparr>rv_class = c, rv_owner_pid = pid, rv_owner_starttime = start, rv_reserved_at = ge_now ge, rv_batch = extra\<rparr>"
  have c: "rv_class r = c" by (simp add: r_def)
  obtain ts' where m: "mint ge c pid start extras rest (add_reservation t r g) = Some (ts', g')" and ts: "ts = t # ts'"
    using Cons.prems(1) t by (auto simp: r_def Let_def split: option.splits)
  have room: "room T B (rv_class r) (Suc (length extras)) g" using Cons.prems(3) c by simp
  have "governed T B (add_reservation t r g)"
    using add_reservation_governed [OF Cons.prems(2) room new_token_fresh [OF t]] .
  moreover have "room T B c (length extras) (add_reservation t r g)"
    using add_reservation_room [OF room] c by simp
  ultimately show ?case
    using Cons.IH [OF m] ts by (simp add: add_reservation_def)
qed simp

lemma delete_filter: "AList.delete t xs = filter (\<lambda>p. fst p \<noteq> t) xs"
  by (auto simp: AList.delete_eq intro!: filter_cong)

lemma filter_reservations_governed:
  assumes "governed T B g"
  shows "governed T B (g\<lparr>gv_reservations := filter P (gv_reservations g)\<rparr>)" (is "governed T B ?g")
proof -
  have t: "int (length (gv_leases g)) + int (length (gv_reservations g)) \<le> T"
    and b: "int (length (gv_starts g)) + int (length (gv_reservations g)) \<le> B"
    and c: "class_count g c \<le> (case map_of CLASS_LIMITS c of Some n \<Rightarrow> n | None \<Rightarrow> 0)" for c
    using assms by (simp_all add: governed_def caps_ok_def budget_ok_def)
  have "class_count ?g c \<le> class_count g c" for c
    by (simp add: class_count_parts)
  then have "caps_ok T ?g"
    unfolding caps_ok_def by (intro conjI allI order_trans [OF _ t] order_trans [OF _ c]) simp_all
  moreover have "budget_ok B ?g"
    unfolding budget_ok_def by (rule order_trans [OF _ b]) simp
  moreover have "tokens_ok ?g"
    using assms by (auto simp: governed_def tokens_ok_def distinct_map_filter)
  ultimately show ?thesis by (simp add: governed_def)
qed

lemma filter_leases_governed:
  assumes "governed T B g"
  shows "governed T B (g\<lparr>gv_leases := filter P (gv_leases g)\<rparr>)" (is "governed T B ?g")
proof -
  have t: "int (length (gv_leases g)) + int (length (gv_reservations g)) \<le> T"
    and b: "int (length (gv_starts g)) + int (length (gv_reservations g)) \<le> B"
    and c: "class_count g c \<le> (case map_of CLASS_LIMITS c of Some n \<Rightarrow> n | None \<Rightarrow> 0)" for c
    using assms by (simp_all add: governed_def caps_ok_def budget_ok_def)
  have "class_count ?g c \<le> class_count g c" for c
    by (simp add: class_count_parts)
  then have "caps_ok T ?g"
    unfolding caps_ok_def by (intro conjI allI order_trans [OF _ t] order_trans [OF _ c]) simp_all
  moreover have "budget_ok B ?g"
    unfolding budget_ok_def by (rule order_trans [OF _ b]) simp
  moreover have "tokens_ok ?g"
    using assms by (auto simp: governed_def tokens_ok_def distinct_map_filter)
  ultimately show ?thesis by (simp add: governed_def)
qed

lemma delete_mset:
  "map_of xs k = Some x \<Longrightarrow> distinct (map fst xs) \<Longrightarrow> mset xs = add_mset (k, x) (mset (AList.delete k xs))"
proof (induction xs)
  case (Cons p xs)
  obtain k' x' where p: "p = (k', x')" by (cases p)
  show ?case
  proof (cases "k' = k")
    case True
    then have "AList.delete k xs = xs"
      using Cons.prems(2) p by (simp add: delete_idem)
    with True Cons.prems p show ?thesis by simp
  next
    case False
    with Cons p show ?thesis by (simp add: add_mset_commute)
  qed
qed simp

lemma update_fresh: "k \<notin> fst ` set xs \<Longrightarrow> AList.update k x xs = xs @ [(k, x)]"
  by (induction xs) auto

text \<open>Claiming moves one unit of capacity: nothing is gained, nothing is lost.\<close>

lemma claim_operation_conserves:
  assumes "claim_operation ge token c pid start g = Inr (t, g')" "tokens_ok g"
  shows "class_count g' k = class_count g k"
    "length (gv_leases g') + length (gv_reservations g') = length (gv_leases g) + length (gv_reservations g)"
    "length (gv_starts g') + length (gv_reservations g') = length (gv_starts g) + length (gv_reservations g)"
    "tokens_ok g'"
proof -
  obtain r where r: "map_of (gv_reservations g) token = Some r" and c: "rv_class r = c"
    using assms(1) by (auto simp: claim_operation_def split: option.splits if_splits)
  have dist: "distinct (map fst (gv_reservations g))" using assms(2) by (simp add: tokens_ok_def)
  have mem: "token \<in> fst ` set (gv_reservations g)"
    using r by (metis map_of_eq_None_iff option.distinct(1))
  then have fresh: "token \<notin> fst ` set (gv_leases g)" "token \<notin> fst ` set (gv_claims g)"
    using assms(2) by (auto simp: tokens_ok_def)
  obtain l cl where g': "g' = g\<lparr>gv_reservations := AList.delete token (gv_reservations g),
      gv_claims := gv_claims g @ [(token, cl)], gv_leases := gv_leases g @ [(token, l)],
      gv_starts := gv_starts g @ [ge_now ge]\<rparr>" and l: "ls_class l = c"
    using assms(1) r by (auto simp: claim_operation_def update_fresh fresh new_lease_def split: if_splits)
  note split = delete_mset [OF r dist]
  show "class_count g' k = class_count g k"
    unfolding class_count_parts g' using l c by (simp add: split)
  have len: "length (gv_reservations g) = Suc (length (AList.delete token (gv_reservations g)))"
    using arg_cong [OF split, of size] by simp
  show "length (gv_leases g') + length (gv_reservations g') = length (gv_leases g) + length (gv_reservations g)"
    "length (gv_starts g') + length (gv_reservations g') = length (gv_starts g) + length (gv_reservations g)"
    by (simp_all add: g' len)
  show "tokens_ok g'"
    using assms(2) fresh by (auto simp: g' tokens_ok_def AList.delete_eq distinct_map_filter)
qed

lemma claim_operation_governed:
  "claim_operation ge token c pid start g = Inr (t, g') \<Longrightarrow> governed T B g \<Longrightarrow> governed T B g'"
  using claim_operation_conserves [of ge token c pid start g t g']
  by (auto simp: governed_def caps_ok_def budget_ok_def)

lemma claims_update_keys:
  assumes "map_of cs token = Some c"
  shows "map fst (AList.update token x cs) = map fst cs"
proof -
  have "token \<in> set (map fst cs)" using assms by (force dest: map_of_SomeD)
  then show ?thesis by (simp add: update_keys)
qed

lemma same_keys_governed:
  assumes "governed T B g" "map fst cs = map fst (gv_claims g)"
  shows "governed T B (g\<lparr>gv_claims := cs\<rparr>)"
proof -
  have "fst ` set cs = fst ` set (gv_claims g)" by (metis assms(2) list.set_map)
  with assms show ?thesis
    by (simp add: governed_def tokens_ok_def caps_ok_def budget_ok_def class_count_parts)
qed

lemma release_operation_governed:
  assumes g: "governed T B g"
  shows "governed T B (release_operation ge token g)"
proof -
  let ?safe = "case map_of (gv_leases g) token of None \<Rightarrow> True | Some l \<Rightarrow> release_safe (ge_os ge) l"
  define g1 where "g1 = g\<lparr>gv_leases := (if ?safe then AList.delete token (gv_leases g) else gv_leases g)\<rparr>"
  have g1: "governed T B g1"
    using g filter_leases_governed [OF g] by (cases ?safe) (simp_all add: g1_def delete_filter)
  define cs where "cs = (case map_of (gv_claims g) token of
         Some c \<Rightarrow> if cl_released_at c = None then AList.update token (c\<lparr>cl_released_at := Some (ge_now ge)\<rparr>) (gv_claims g)
                  else gv_claims g
       | None \<Rightarrow> gv_claims g)"
  have "map fst cs = map fst (gv_claims g1)"
    by (simp add: cs_def g1_def claims_update_keys split: option.split)
  from same_keys_governed [OF g1 this] show ?thesis
    by (simp add: release_operation_def g1_def cs_def)
qed

section \<open>The governor as a machine\<close>

datatype gov_op =
    Check gov_env string
  | Acquire gov_env string int
  | Reserve gov_env string int "obj list"
  | Inspect gov_env string "string option" "int option"
  | Claim_token gov_env string string int
  | Cancel gov_env string
  | Release gov_env string

datatype gov_reply = Admitted | Token string | Tokens "string list" | State_of reservation_state | Cancelled bool | Released

fun gov_exec :: "gov_op \<Rightarrow> state_file \<Rightarrow> (string + gov_reply) \<times> state_file" where
  "gov_exec (Check ge c) f = apfst (map_sum id (\<lambda>_. Admitted)) (check_admission ge c f)"
| "gov_exec (Acquire ge c pid) f = apfst (map_sum id Token) (acquire ge c pid f)"
| "gov_exec (Reserve ge c pid extras) f = apfst (map_sum id Tokens) (reserve ge c pid extras f)"
| "gov_exec (Inspect ge t c p) f = apfst (map_sum id State_of) (reservation_check ge t c p f)"
| "gov_exec (Claim_token ge t c pid) f = apfst (map_sum id Token) (claim_reservation ge t c pid f)"
| "gov_exec (Cancel ge t) f = apfst (map_sum id Cancelled) (cancel_reservation ge t f)"
| "gov_exec (Release ge t) f = apfst (map_sum id (\<lambda>_. Released)) (release ge t f)"

fun op_env :: "gov_op \<Rightarrow> gov_env" where
  "op_env (Check ge c) = ge"
| "op_env (Acquire ge c pid) = ge"
| "op_env (Reserve ge c pid extras) = ge"
| "op_env (Inspect ge t c p) = ge"
| "op_env (Claim_token ge t c pid) = ge"
| "op_env (Cancel ge t) = ge"
| "op_env (Release ge t) = ge"

definition within_limits :: "int \<Rightarrow> int \<Rightarrow> gov_op \<Rightarrow> bool" where
  "within_limits T B op \<longleftrightarrow> 0 \<le> T \<and> 0 \<le> B \<and> ge_total (op_env op) \<le> T \<and> ge_budget (op_env op) \<le> B"

lemma acquire_cases:
  obtains (refused) e where "acquire ge c pid f = (Inl e, f)"
  | (granted) start where "acquire ge c pid f = state_change ge (\<lambda>g.
           if process_starttime (ge_os ge) pid \<noteq> Some start then Inl ''requesting process identity changed''
           else bindr (assert_available ge g c 1) (\<lambda>_.
             case new_token g (ge_tokens ge) of
               None \<Rightarrow> Inl ''no fresh token''
             | Some (token, rest) \<Rightarrow> Inr (token, add_lease token (new_lease ge c pid start None) (ge_now ge) g))) f"
  by (cases "limits ge"; cases "process_starttime (ge_os0 ge) pid") (auto simp: acquire_def intro: refused granted)

lemma gov_exec_governed:
  assumes "within_limits T B op" "file_governed T B f"
  shows "file_governed T B (snd (gov_exec op f))"
proof -
  have pos: "0 \<le> T" "0 \<le> B" and lim: "ge_total (op_env op) \<le> T" "ge_budget (op_env op) \<le> B"
    using assms(1) by (auto simp: within_limits_def)
  note change = state_change_governed [OF assms(2) pos]
  show ?thesis
  proof (cases op)
    case (Check ge c)
    then show ?thesis
      using assms(2) by (auto simp: check_admission_def bindr_Inr_iff intro!: change split: sum.splits)
  next
    case (Acquire ge c pid)
    show ?thesis
    proof (cases rule: acquire_cases [of ge c pid f])
      case (granted start)
      have "file_governed T B (snd (acquire ge c pid f))"
        unfolding granted
        using lim Acquire
        by (intro change) (auto simp: bindr_Inr_iff new_lease_def intro!: add_lease_governed dest: new_token_fresh
            split: if_splits option.splits)
      with Acquire show ?thesis by simp
    qed (use Acquire assms(2) in simp)
  next
    case (Reserve ge c pid extras)
    have "governed T B g'" if "governed T B g" "assert_available ge g c (int (length extras)) = Inr u"
      "mint ge c pid start extras (ge_tokens ge) g = Some (ts, g')" for g u start ts g'
    proof -
      have "room T B c (length extras) g"
        using available_caps [OF that(2)] lim Reserve by (auto simp: room_def)
      from mint_governed [OF that(3,1) this] show ?thesis by simp
    qed
    then show ?thesis
      using Reserve assms(2)
      by (auto simp: reserve_def bindr_Inr_iff intro!: change split: sum.splits option.splits if_splits)
  next
    case (Inspect ge t c p)
    have "file_governed T B (snd (state_change ge (\<lambda>g. bindr (inspect_state t c p g) (\<lambda>st. Inr (st, g))) f))"
      by (rule change) (simp add: bindr_Inr_iff)
    then show ?thesis
      using assms(2) by (simp add: Inspect reservation_check_def)
  next
    case (Claim_token ge t c pid)
    have "file_governed T B (snd (state_change ge (claim_operation ge t c pid start) f))" for start
      by (rule change) (rule claim_operation_governed)
    then show ?thesis
      using assms(2) by (simp add: Claim_token claim_reservation_def split: option.split)
  next
    case (Cancel ge t)
    have "file_governed T B (snd (cancel_reservation ge t f))"
      unfolding cancel_reservation_def delete_filter
      using assms(2) by (auto intro!: change filter_reservations_governed split: if_splits)
    then show ?thesis by (simp add: Cancel)
  next
    case (Release ge t)
    then show ?thesis by (auto simp: release_def intro!: change release_operation_governed)
  qed
qed

interpretation governance: machine gov_exec "within_limits T B" "file_governed T B" for T B
  by unfold_locales (rule gov_exec_governed)


section \<open>The rolling start budget\<close>

fun start_granted :: "gov_op \<Rightarrow> string + gov_reply \<Rightarrow> rat list" where
  \<comment> \<open>the start times an operation adds\<close>
  "start_granted (Acquire ge c pid) (Inr r) = [ge_now ge]"
| "start_granted (Claim_token ge t c pid) (Inr r) = [ge_now ge]"
| "start_granted _ _ = []"

definition file_starts :: "state_file \<Rightarrow> rat list" where
  "file_starts f = (case f of Stored n g \<Rightarrow> gv_starts g | _ \<Rightarrow> [])"

definition recent :: "rat \<Rightarrow> rat \<Rightarrow> bool" where
  "recent now stamp \<longleftrightarrow> now - stamp < START_WINDOW_SECONDS"

lemma recent_mono: "recent t s \<Longrightarrow> now \<le> t \<Longrightarrow> recent now s"
  by (simp add: recent_def)

lemma prune_starts: "gv_starts (prune ge g) = filter (recent (ge_now ge)) (gv_starts g)"
  unfolding recent_def [abs_def] by (simp add: prune_def Let_def)

lemma state_change_starts:
  assumes "state_change ge operation f = (r, f')"
    and "\<And>g a g'. operation g = Inr (a, g') \<Longrightarrow> gv_starts g' = gv_starts g @ d"
  shows "(f' = f \<and> (\<exists>e. r = Inl e)) \<or> ((\<exists>a. r = Inr a) \<and> file_starts f' = filter (recent (ge_now ge)) (file_starts f) @ d)"
proof (cases "load_state f")
  case (Inr g)
  then have "gv_starts g = file_starts f"
    by (auto simp: load_state_def file_starts_def empty_governor_def split: state_file.splits if_splits)
  then have pruned: "gv_starts (prune ge g) = filter (recent (ge_now ge)) (file_starts f)"
    by (simp add: prune_starts)
  show ?thesis
  proof (cases "operation (prune ge g)")
    case (Inr p)
    obtain a g' where p: "p = (a, g')" by (cases p)
    have "gv_starts g' = gv_starts (prune ge g) @ d"
      using assms(2) [of "prune ge g" a g'] Inr p by simp
    with pruned have starts: "file_starts (Stored 2 g') = filter (recent (ge_now ge)) (file_starts f) @ d"
      by (simp add: file_starts_def)
    have "r = Inr a" "f' = Stored 2 g'"
      using assms(1) Inr \<open>load_state f = Inr g\<close> p by (auto simp: state_change_def)
    with starts show ?thesis by simp
  qed (use assms(1) Inr in \<open>auto simp: state_change_def\<close>)
qed (use assms(1) in \<open>auto simp: state_change_def\<close>)

lemma mint_starts: "mint ge c pid start extras tokens g = Some (ts, g') \<Longrightarrow> gv_starts g' = gv_starts g"
  by (induction extras arbitrary: tokens g ts) (fastforce simp: add_reservation_def Let_def split: option.splits)+

definition starts_step :: "gov_op \<Rightarrow> state_file \<Rightarrow> bool" where
  "starts_step op f \<longleftrightarrow> (case gov_exec op f of (r, f') \<Rightarrow>
     (f' = f \<and> start_granted op r = []) \<or>
     file_starts f' = filter (recent (ge_now (op_env op))) (file_starts f) @ start_granted op r)"

lemma via_change:
  assumes "gov_exec op f = apfst (map_sum id h) (state_change ge operation f)" "op_env op = ge"
    and "\<And>a. start_granted op (Inr a) = d"
    and "\<And>g a g'. operation g = Inr (a, g') \<Longrightarrow> gv_starts g' = gv_starts g @ d"
  shows "starts_step op f"
proof -
  obtain r f' where s: "state_change ge operation f = (r, f')" by fastforce
  have none: "start_granted op (Inl e) = []" for e by (cases op) simp_all
  have "(f' = f \<and> (\<exists>e. r = Inl e)) \<or> ((\<exists>a. r = Inr a) \<and> file_starts f' = filter (recent (ge_now ge)) (file_starts f) @ d)"
    by (rule state_change_starts [OF s]) (rule assms(4))
  then show ?thesis
    using assms(1-3) none by (auto simp: starts_step_def s)
qed

lemma refused_starts: "gov_exec op f = (Inl e, f) \<Longrightarrow> starts_step op f"
  by (cases op) (simp_all add: starts_step_def)

lemma gov_exec_starts: "starts_step op f"
proof (cases op)
  case (Check ge c)
  show ?thesis
  proof (cases "limits ge")
    case (Inr u)
    show ?thesis
      by (rule via_change [where h = "\<lambda>_. Admitted" and d = "[]"])
        (auto simp: Check Inr check_admission_def bindr_Inr_iff)
  qed (use Check in \<open>auto simp: check_admission_def intro: refused_starts\<close>)
next
  case (Acquire ge c pid)
  show ?thesis
  proof (cases rule: acquire_cases [of ge c pid f])
    case (granted start)
    show ?thesis
      by (rule via_change [where h = Token and d = "[ge_now ge]"], simp only: Acquire gov_exec.simps granted)
        (auto simp: Acquire bindr_Inr_iff add_lease_def split: if_splits option.splits)
  qed (use Acquire in \<open>auto intro: refused_starts\<close>)
next
  case (Reserve ge c pid extras)
  show ?thesis
  proof (cases "limits ge")
    case (Inr u)
    show ?thesis
    proof (cases "process_starttime (ge_os0 ge) pid")
      case (Some start)
      show ?thesis
        by (rule via_change [where h = Tokens and d = "[]"], simp only: Reserve gov_exec.simps reserve_def Inr sum.case Some option.case)
          (auto simp: Reserve bindr_Inr_iff mint_starts split: if_splits option.splits)
    qed (use Reserve Inr in \<open>auto simp: reserve_def intro: refused_starts\<close>)
  qed (use Reserve in \<open>auto simp: reserve_def intro: refused_starts\<close>)
next
  case (Inspect ge t c p)
  show ?thesis
  proof (cases "valid_reservation_token t")
    case True
    show ?thesis
      by (rule via_change [where h = State_of and d = "[]"], simp only: Inspect gov_exec.simps reservation_check_def True not_True_eq_False if_False)
        (simp_all add: Inspect bindr_Inr_iff)
  qed (use Inspect in \<open>auto simp: reservation_check_def intro: refused_starts\<close>)
next
  case (Claim_token ge t c pid)
  show ?thesis
  proof (cases "valid_reservation_token t \<and> process_starttime (ge_os0 ge) pid \<noteq> None")
    case True
    then obtain start where st: "process_starttime (ge_os0 ge) pid = Some start" and v: "valid_reservation_token t" by blast
    show ?thesis
      by (rule via_change [where h = Token and d = "[ge_now ge]"],
          simp only: Claim_token gov_exec.simps claim_reservation_def v st option.case not_True_eq_False if_False)
        (auto simp: Claim_token claim_operation_def split: if_splits option.splits)
  qed (use Claim_token in \<open>cases "valid_reservation_token t"; auto simp: claim_reservation_def intro: refused_starts\<close>)
next
  case (Cancel ge t)
  show ?thesis
  proof (cases "valid_reservation_token t")
    case True
    show ?thesis
      by (rule via_change [where h = Cancelled and d = "[]"],
          simp only: Cancel gov_exec.simps cancel_reservation_def True not_True_eq_False if_False)
        (auto simp: Cancel split: if_splits)
  qed (use Cancel in \<open>auto simp: cancel_reservation_def intro: refused_starts\<close>)
next
  case (Release ge t)
  show ?thesis
    by (rule via_change [where h = "\<lambda>_. Released" and d = "[]"], simp only: Release gov_exec.simps release_def)
      (auto simp: Release release_operation_def)
qed


lemma recent_both: "now \<le> t \<Longrightarrow> filter (\<lambda>x. recent now x \<and> recent t x) xs = filter (recent t) xs"
  by (rule filter_cong) (auto dest: recent_mono)

lemma starts_after:
  assumes "ge_now (op_env op) \<le> t"
  shows "filter (recent t) (file_starts (snd (gov_exec op f)))
    = filter (recent t) (file_starts f @ start_granted op (fst (gov_exec op f)))"
  using gov_exec_starts [of op f] assms
  by (cases "gov_exec op f") (auto simp: starts_step_def recent_both)

text \<open>All starts granted in a run, in order, and those still inside the window at a later time.\<close>

definition granted_starts :: "(gov_op \<times> (string + gov_reply)) list \<Rightarrow> rat list" where
  "granted_starts replies = concat (map (\<lambda>(op, r). start_granted op r) replies)"

lemma run_starts:
  "\<forall>op \<in> set ops. ge_now (op_env op) \<le> t \<Longrightarrow>
   filter (recent t) (file_starts (run_ops gov_exec ops f))
     = filter (recent t) (file_starts f @ granted_starts (run_replies gov_exec ops f))"
proof (induction ops arbitrary: f)
  case (Cons op ops)
  then have "filter (recent t) (file_starts (run_ops gov_exec (op # ops) f))
     = filter (recent t) (file_starts (snd (gov_exec op f))) @ filter (recent t) (granted_starts (run_replies gov_exec ops (snd (gov_exec op f))))"
    by simp
  also have "filter (recent t) (file_starts (snd (gov_exec op f))) = filter (recent t) (file_starts f @ start_granted op (fst (gov_exec op f)))"
    using Cons.prems by (intro starts_after) simp
  finally show ?case by (simp add: granted_starts_def)
qed (simp add: granted_starts_def)

section \<open>Liveness evidence\<close>

lemma prune_keeps_active:
  "(t, l) \<in> set (gv_leases g) \<Longrightarrow> lease_is_active (ge_os ge) l \<Longrightarrow> (t, l) \<in> set (gv_leases (prune ge g))"
  by (simp add: prune_def Let_def)

lemma member_scan_mono:
  "member_scan os pgid names ms r = (ms', r') \<Longrightarrow> (\<exists>xs. ms' = ms @ xs) \<and> (r \<noteq> [] \<longrightarrow> r' \<noteq> [])"
proof (induction names arbitrary: ms r)
  case (Cons name names)
  show ?case
    using Cons.prems by (auto simp: Let_def split: if_splits os_read.splits option.splits dest!: Cons.IH)
qed simp

definition group_process :: "os \<Rightarrow> int \<Rightarrow> string \<Rightarrow> string \<Rightarrow> bool" where
  \<comment> \<open>a readable \<open>/proc/<name>/stat\<close> that shows an unreaped member of the group\<close>
  "group_process os pgid name state \<longleftrightarrow> isdigit name \<and> (\<exists>raw. os_stat os name = ReadOk raw \<and> 2 < length (stat_tail raw) \<and>
     py_int (stat_tail raw ! 2) = Some pgid \<and> stat_tail raw ! 0 = state \<and> state \<noteq> ''Z'')"

lemma member_scan_finds:
  "name \<in> set names \<Longrightarrow> group_process os pgid name state \<Longrightarrow> member_scan os pgid names ms r = (ms', r') \<Longrightarrow>
   (digits_val name, state) \<in> set ms'"
proof (induction names arbitrary: ms r)
  case (Cons n names)
  show ?case
  proof (cases "n = name")
    case True
    then have "\<exists>ms1 r1. member_scan os pgid names (ms1 @ [(digits_val name, state)]) r1 = (ms', r')"
      using Cons.prems(2,3) by (auto simp: group_process_def Let_def split: if_splits os_read.splits)
    then show ?thesis using member_scan_mono by fastforce
  next
    case False
    then have "name \<in> set names" using Cons.prems(1) by simp
    moreover have "\<exists>ms1 r1. member_scan os pgid names ms1 r1 = (ms', r')"
      using Cons.prems(3) by (auto simp: Let_def split: if_splits os_read.splits option.splits)
    ultimately show ?thesis using Cons.IH Cons.prems(2) by blast
  qed
qed simp


lemma observed_member:
  assumes "os_entries os = ReadOk names" "name \<in> set names" "group_process os pgid name st"
  shows "(digits_val name, st) \<in> set (mo_members (member_observation_of os pgid)) \<or> mo_state (member_observation_of os pgid) = ''unverifiable''"
    "mo_state (member_observation_of os pgid) \<noteq> ''empty''"
proof -
  obtain ms r where scan: "member_scan os pgid names [] [] = (ms, r)" by fastforce
  have mem: "(digits_val name, st) \<in> set (sort_key fst ms)"
    using member_scan_finds [OF assms(2,3) scan] by simp
  have unreaped: "st \<noteq> ''Z''" using assms(3) by (auto simp: group_process_def)
  then have ex: "list_ex (\<lambda>(p, st). st \<noteq> ''Z'') (sort_key fst ms)"
    using mem by (auto simp: list_ex_iff)
  show "(digits_val name, st) \<in> set (mo_members (member_observation_of os pgid)) \<or> mo_state (member_observation_of os pgid) = ''unverifiable''"
    "mo_state (member_observation_of os pgid) \<noteq> ''empty''"
    using mem ex by (simp_all add: member_observation_of_def assms(1) scan)
qed

section \<open>Properties\<close>

definition demo_gov_env :: "rat \<Rightarrow> string list \<Rightarrow> gov_env" where
  "demo_gov_env now tokens = \<lparr>ge_os0 = demo_os, ge_os = demo_os, ge_now = now, ge_kill = False, ge_tokens = tokens,
     ge_total = 5, ge_budget = 20\<rparr>"

definition demo_token :: string where "demo_token = replicate 32 (CHR ''a'')"

definition demo_gov_ops :: "gov_op list" where
  "demo_gov_ops = [Reserve (demo_gov_env 0 [demo_token]) ''dispatch'' 7 [[]],
     Claim_token (demo_gov_env 1 []) demo_token ''dispatch'' 7, Acquire (demo_gov_env 2 [''b'']) ''loop'' 7]"

lemma demo_gov_within: "list_all (within_limits 5 20) demo_gov_ops"
  by (simp add: demo_gov_ops_def within_limits_def demo_gov_env_def)

text \<open>C6: whatever operations are run from an empty state under limits of at most \<open>T\<close> workers, the
  stored state never holds more than \<open>T\<close> leases and reservations together, never more of a worker
  class than its class limit, and no token twice or in two roles.\<close>

theorem capacity_never_exceeded:
  assumes "list_all (within_limits T B) ops" and "run_ops gov_exec ops No_state = Stored n g"
  shows "int (length (gv_leases g)) + int (length (gv_reservations g)) \<le> T \<and>
    class_count g c \<le> (case map_of CLASS_LIMITS c of Some limit \<Rightarrow> limit | None \<Rightarrow> 0) \<and> tokens_ok g"
  using governance.run_inv [OF assms(1), of No_state] assms(2)
  by (simp add: file_governed_def governed_def caps_ok_def)

theorem capacity_never_exceeded_witness:
  "\<exists>n g. run_ops gov_exec demo_gov_ops No_state = Stored n g \<and> length (gv_leases g) = 2 \<and> class_count g ''loop'' \<le> 2"
proof -
  have "(case run_ops gov_exec demo_gov_ops No_state of Stored n g \<Rightarrow> length (gv_leases g) = 2 | _ \<Rightarrow> False)"
    by code_simp
  then obtain n g where r: "run_ops gov_exec demo_gov_ops No_state = Stored n g" and l: "length (gv_leases g) = 2"
    by (auto split: state_file.splits)
  from capacity_never_exceeded [OF demo_gov_within r, of "''loop''"] r l show ?thesis
    by (auto simp: CLASS_LIMITS_def)
qed

text \<open>C10: the rolling budget holds over time: of all the starts granted in any run of operations with
  budgets of at most \<open>B\<close>, no more than \<open>B\<close> lie within the ten minutes before any moment \<open>t\<close> that no
  operation is later than.\<close>

theorem rolling_budget_holds:
  assumes "list_all (within_limits T B) ops" and "\<forall>op \<in> set ops. ge_now (op_env op) \<le> t" and "0 \<le> B"
  shows "int (length (filter (recent t) (granted_starts (run_replies gov_exec ops No_state)))) \<le> B"
proof -
  let ?f = "run_ops gov_exec ops No_state"
  have "filter (recent t) (granted_starts (run_replies gov_exec ops No_state)) = filter (recent t) (file_starts ?f)"
    using run_starts [OF assms(2), of No_state] by (simp add: file_starts_def)
  then have "length (filter (recent t) (granted_starts (run_replies gov_exec ops No_state))) \<le> length (file_starts ?f)"
    by simp
  moreover have "int (length (file_starts ?f)) \<le> B"
    using governance.run_inv [OF assms(1), of No_state] assms(3)
    by (auto simp: file_governed_def governed_def budget_ok_def file_starts_def split: state_file.splits)
  ultimately show ?thesis by linarith
qed

theorem rolling_budget_holds_witness:
  "int (length (filter (recent 2) (granted_starts (run_replies gov_exec demo_gov_ops No_state)))) \<le> 20"
  by (rule rolling_budget_holds [OF demo_gov_within]) (simp_all add: demo_gov_ops_def demo_gov_env_def)

text \<open>Claiming a reservation moves its capacity and nothing else: occupancy, every class count, and
  starts plus reservations are what they were after pruning, the token has become a lease, and it
  cannot be claimed again.\<close>

theorem claim_moves_capacity:
  assumes "claim_reservation ge token c pid (Stored n g) = (Inr t, Stored m g')" and "tokens_ok g"
  shows "t = token \<and> class_count g' k = class_count (prune ge g) k \<and>
    length (gv_leases g') + length (gv_reservations g') = length (gv_leases (prune ge g)) + length (gv_reservations (prune ge g)) \<and>
    length (gv_starts g') + length (gv_reservations g') = length (gv_starts (prune ge g)) + length (gv_reservations (prune ge g)) \<and>
    token \<in> fst ` set (gv_leases g') \<and> (\<exists>e. fst (claim_reservation ge' token c' pid' (Stored m g')) = Inl e)"
proof -
  obtain start where op: "claim_operation ge token c pid start (prune ge g) = Inr (t, g')"
    using assms(1) by (auto simp: claim_reservation_def state_change_def load_state_def split: if_splits option.splits sum.splits)
  note law = claim_operation_conserves [OF op prune_tokens [OF assms(2)]]
  have t: "t = token" and gone: "map_of (gv_reservations g') token = None" and lease: "token \<in> fst ` set (gv_leases g')"
    using op by (auto simp: claim_operation_def delete_conv' dom_update split: option.splits if_splits)
  have "map_of (gv_reservations (prune ge' g')) token = None"
    using gone by (auto simp: prune_def Let_def map_of_eq_None_iff)
  then have "\<exists>e. fst (claim_reservation ge' token c' pid' (Stored m g')) = Inl e"
    by (auto simp: claim_reservation_def state_change_def load_state_def claim_operation_def
        split: option.splits if_splits sum.splits)
  with law t lease show ?thesis by blast
qed


theorem claim_moves_capacity_witness:
  "\<exists>g'. claim_reservation (demo_gov_env 1 []) demo_token ''dispatch'' 7 (snd (gov_exec (hd demo_gov_ops) No_state)) = (Inr demo_token, Stored 2 g') \<and>
     length (gv_leases g') + length (gv_reservations g') = 1"
proof -
  have f: "snd (gov_exec (hd demo_gov_ops) No_state) = Stored 2 (case snd (gov_exec (hd demo_gov_ops) No_state) of Stored n g \<Rightarrow> g | _ \<Rightarrow> empty_governor)"
    (is "_ = Stored 2 ?g") by code_simp
  have "(case claim_reservation (demo_gov_env 1 []) demo_token ''dispatch'' 7 (Stored 2 ?g) of (Inr t, Stored m g') \<Rightarrow> t = demo_token \<and> m = 2 | _ \<Rightarrow> False)"
    by code_simp
  then obtain g' where c: "claim_reservation (demo_gov_env 1 []) demo_token ''dispatch'' 7 (Stored 2 ?g) = (Inr demo_token, Stored 2 g')"
    by (auto split: prod.splits sum.splits state_file.splits)
  have ok: "tokens_ok ?g" "length (gv_leases (prune (demo_gov_env 1 []) ?g)) + length (gv_reservations (prune (demo_gov_env 1 []) ?g)) = 1"
    by code_simp+
  have "length (gv_leases g') + length (gv_reservations g')
      = length (gv_leases (prune (demo_gov_env 1 []) ?g)) + length (gv_reservations (prune (demo_gov_env 1 []) ?g))"
    using claim_moves_capacity [OF c ok(1), of "[]"] by blast
  with c f ok(2) show ?thesis by metis
qed

text \<open>A lease outlives its leader as long as a readable, unreaped process of the owned group does:
  neither the pruning at the start of an operation nor a release of the token removes it.\<close>

theorem live_group_keeps_its_lease:
  assumes "map_of (gv_leases g) token = Some l" and "ls_group_owned l" and "ls_pgid l = ls_pid l" and "0 < ls_pid l"
    and "os_entries (ge_os ge) = ReadOk names" and "name \<in> set names"
    and "group_process (ge_os ge) (ls_pgid l) name st" and "digits_val name \<noteq> ls_pid l"
  shows "lease_is_active (ge_os ge) l \<and> (token, l) \<in> set (gv_leases (prune ge g)) \<and>
    map_of (gv_leases (release_operation ge token g)) token = Some l"
proof -
  note seen = observed_member [OF assms(5,6,7)]
  have unreaped: "st \<noteq> ''Z''" using assms(7) by (auto simp: group_process_def)
  have active: "lease_is_active (ge_os ge) l"
    using seen(2) assms(2,3) by (simp add: lease_is_active_def Let_def split: prod.split)
  moreover have "(token, l) \<in> set (gv_leases g)"
    using assms(1) by (rule map_of_SomeD)
  moreover have "\<not> release_safe (ge_os ge) l"
    using seen assms(2,8) unreaped by (auto simp: release_safe_def Let_def list_ex_iff)
  ultimately show ?thesis
    using assms(1) by (simp add: prune_keeps_active release_operation_def)
qed

definition demo_group_os :: os where
  "demo_group_os = demo_os\<lparr>os_entries := ReadOk [''8''],
     os_stat := (\<lambda>n. if n = ''8'' then ReadOk ''8 (x) S 1 9 9 0 0 0 0 0 0 0 0 0 0 0 0 0 0 0 98 0'' else NotFound)\<rparr>"

theorem live_group_keeps_its_lease_witness:
  "let ge = (demo_gov_env 1 [])\<lparr>ge_os := demo_group_os\<rparr>; l = new_lease ge ''loop'' 9 ''97'' None\<lparr>ls_group_owned := True, ls_pgid := 9\<rparr> in
   map_of (gv_leases (release_operation ge ''b'' (empty_governor\<lparr>gv_leases := [(''b'', l)]\<rparr>))) ''b'' = Some l"
proof -
  define ge where "ge = (demo_gov_env 1 [])\<lparr>ge_os := demo_group_os\<rparr>"
  define l where "l = new_lease ge ''loop'' 9 ''97'' None\<lparr>ls_group_owned := True, ls_pgid := 9\<rparr>"
  have tail: "stat_tail ''8 (x) S 1 9 9 0 0 0 0 0 0 0 0 0 0 0 0 0 0 0 98 0'' ! 2 = ''9''"
    "stat_tail ''8 (x) S 1 9 9 0 0 0 0 0 0 0 0 0 0 0 0 0 0 0 98 0'' ! 0 = ''S''"
    "2 < length (stat_tail ''8 (x) S 1 9 9 0 0 0 0 0 0 0 0 0 0 0 0 0 0 0 98 0'')" "py_int ''9'' = Some 9"
    "isdigit ''8''" "digits_val ''8'' = 8"
    by code_simp+
  have "group_process (ge_os ge) (ls_pgid l) ''8'' ''S''"
    by (simp add: group_process_def ge_def l_def demo_group_os_def tail)
  moreover have "ls_group_owned l" "ls_pgid l = ls_pid l" "0 < ls_pid l" "digits_val ''8'' \<noteq> ls_pid l"
    "os_entries (ge_os ge) = ReadOk [''8'']"
    by (simp_all add: l_def ge_def new_lease_def demo_group_os_def tail)
  ultimately have "map_of (gv_leases (release_operation ge ''b'' (empty_governor\<lparr>gv_leases := [(''b'', l)]\<rparr>))) ''b'' = Some l"
    using live_group_keeps_its_lease [of "empty_governor\<lparr>gv_leases := [(''b'', l)]\<rparr>" "''b''" l ge "[''8'']" "''8''" "''S''"] by simp
  then show ?thesis by (simp only: Let_def ge_def [symmetric] l_def [symmetric])
qed

end
