(* ===== verification/Batch_Contract.thy ===== *)
theory Batch_Contract
  imports Governor
begin

text \<open>
  The sealed identity of a bounded parallel dispatch batch: the manifest of 2..4 legs
  (\<open>utilities/replica_batch_contract.py\<close>), the reservation the governor mints for its legs
  (\<open>reserve\<close> in \<open>utilities/model-worker-governor.py\<close>), and the binding a launch demands of that
  reservation (\<open>replica_batch_expectation\<close> and \<open>_validate_replica_reservation\<close> in
  \<open>utilities/dispatch_contract.py\<close>). SHA-256 is a parameter, applied to the canonical JSON text.
\<close>

section \<open>Building a manifest\<close>

definition digest_form :: "string \<Rightarrow> bool" where
  \<comment> \<open>\<open>DIGEST.fullmatch\<close>\<close>
  "digest_form s = prefixed_class ''sha256:'' is_lower_hex 64 64 s"

definition SUPPORTED_HARNESSES :: "string list" where "SUPPORTED_HARNESSES = [''codex'', ''claude'']"
definition SUPPORTED_INDEPENDENCE :: "string list" where "SUPPORTED_INDEPENDENCE = [''cross-harness'', ''degraded-same-harness'']"
definition SUPPORTED_AXES :: "string list" where "SUPPORTED_AXES = [''cross-harness'', ''model-profile'', ''perspective'']"
definition SUPPORTED_PROFILES :: "string list" where "SUPPORTED_PROFILES = [''deep'', ''balanced-deep'', ''light'']"
definition MIN_WIDTH :: nat where "MIN_WIDTH = 2"
definition MAX_WIDTH :: nat where "MAX_WIDTH = 4"

definition json_digest :: "(string \<Rightarrow> string) \<Rightarrow> json \<Rightarrow> string" where
  "json_digest sha256 v = ''sha256:'' @ sha256 (dumps v)"

definition member_keys :: "string list" where
  \<comment> \<open>\<open>sorted(required_member)\<close>\<close>
  "member_keys = [''assignment_sha256'', ''attempt_id'', ''fallback_hop'', ''fallback_ordinal'', ''harness'',
     ''model_profile'', ''parallel_leg_index'', ''perspective'', ''route_node'']"

definition str_in :: "json \<Rightarrow> string list \<Rightarrow> bool" where
  "str_in v ss = (case v of JStr s \<Rightarrow> s \<in> set ss | _ \<Rightarrow> False)"

definition int_at_least :: "int \<Rightarrow> json \<Rightarrow> bool" where
  \<comment> \<open>a plain \<open>int\<close>, not a \<open>bool\<close>, not below the bound\<close>
  "int_at_least lo v = (case v of JInt i \<Rightarrow> lo \<le> i | _ \<Rightarrow> False)"

definition check_member :: "json \<Rightarrow> string + obj" where
  "check_member raw = (case raw of
      JObj d \<Rightarrow>
        if set (map fst d) \<noteq> set member_keys then Inl ''invalid parallel batch member shape''
        else if \<not> list_all (\<lambda>k. nonempty_str (oget d k))
            [''assignment_sha256'', ''attempt_id'', ''route_node'', ''harness'', ''fallback_hop'', ''model_profile'', ''perspective'']
        then Inl ''invalid parallel batch member identity''
        else if \<not> digest_form (the_str (oget d ''assignment_sha256'')) then Inl ''invalid parallel assignment digest''
        else if \<not> int_at_least 1 (oget d ''fallback_ordinal'') then Inl ''invalid parallel fallback ordinal''
        else if \<not> int_at_least 0 (oget d ''parallel_leg_index'') then Inl ''invalid parallel leg index''
        else if \<not> str_in (oget d ''harness'') SUPPORTED_HARNESSES then Inl ''unsupported parallel batch harness''
        else if \<not> str_in (oget d ''model_profile'') SUPPORTED_PROFILES then Inl ''unsupported substantive model profile''
        else Inr (map (\<lambda>k. (k, oget d k)) member_keys)
    | _ \<Rightarrow> Inl ''invalid parallel batch member shape'')"

primrec check_members :: "json list \<Rightarrow> string + obj list" where
  "check_members [] = Inr []"
| "check_members (r # rs) = bindr (check_member r) (\<lambda>m. bindr (check_members rs) (\<lambda>ms. Inr (m # ms)))"

definition mstr :: "obj \<Rightarrow> string \<Rightarrow> string" where
  \<comment> \<open>\<open>str(member[key])\<close>\<close>
  "mstr m k = py_str (oget m k)"

definition leg_index :: "obj \<Rightarrow> int" where
  "leg_index m = (case oget m ''parallel_leg_index'' of JInt i \<Rightarrow> i | _ \<Rightarrow> 0)"

definition axes_ok :: "json \<Rightarrow> bool" where
  "axes_ok v = (case v of JList xs \<Rightarrow> list_all (\<lambda>x. str_in x SUPPORTED_AXES) xs \<and> distinct xs | _ \<Rightarrow> False)"

definition distinct_count :: "string \<Rightarrow> obj list \<Rightarrow> nat" where
  "distinct_count k ms = length (remdups (map (\<lambda>m. mstr m k) ms))"

definition derived_axes :: "obj list \<Rightarrow> json list" where
  "derived_axes ms =
     (if 2 \<le> distinct_count ''harness'' ms then [JStr ''cross-harness''] else []) @
     (if 2 \<le> distinct_count ''model_profile'' ms then [JStr ''model-profile''] else []) @
     (if distinct_count ''perspective'' ms = length ms then [JStr ''perspective''] else [])"

definition manifest_common :: "nat \<Rightarrow> json \<Rightarrow> json \<Rightarrow> json \<Rightarrow> json \<Rightarrow> json \<Rightarrow> json \<Rightarrow> json \<Rightarrow> obj" where
  "manifest_common width grp route_id parent independence required realized reason =
    [(''schema_version'', JInt 2), (''kind'', JStr ''parallel-batch''), (''declared_size'', JInt (int width)),
     (''parallel_group'', grp), (''replica_group'', grp), (''route_id'', route_id), (''parent_attempt_id'', parent),
     (''independence'', independence), (''required_independence_axes'', required),
     (''realized_independence_axes'', realized), (''degradation_reason'', reason)]"

type_synonym sealed = "obj \<times> string \<times> (string \<times> string) list"

definition seal :: "(string \<Rightarrow> string) \<Rightarrow> obj \<Rightarrow> obj list \<Rightarrow> sealed" where
  "seal sha256 common ms =
    (let manifest = common @ [(''members'', JList (map JObj ms))] in
     (manifest, json_digest sha256 (JObj manifest),
      dict_update [] (map (\<lambda>m. (mstr m ''attempt_id'', json_digest sha256 (JObj (common @ [(''member'', JObj m)])))) ms)))"

definition members_consistent :: "obj list \<Rightarrow> string \<Rightarrow> json \<Rightarrow> json \<Rightarrow> string + unit" where
  "members_consistent ms independence realized reason =
    (if \<not> distinct (map (\<lambda>m. mstr m ''attempt_id'') ms) then Inl ''parallel batch attempts must be distinct''
     else if \<not> distinct (map (\<lambda>m. mstr m ''route_node'') ms) then Inl ''parallel batch nodes must be distinct''
     else if sort (map leg_index ms) \<noteq> map int [0 ..< length ms] then Inl ''parallel batch leg indexes must be exact 0..N-1''
     else if set (the_list realized) \<noteq> set (derived_axes ms)
     then Inl ''realized independence axes differ from member evidence''
     else if independence = ''cross-harness'' then
       (if distinct_count ''harness'' ms < 2 \<or> truthy reason
        then Inl ''cross-harness batch requires 2+ harnesses and no degradation'' else Inr ())
     else if distinct_count ''harness'' ms \<noteq> 1 \<or> \<not> truthy reason
     then Inl ''degraded batch requires one harness and a reason'' else Inr ())"

definition build_manifest ::
  "(string \<Rightarrow> string) \<Rightarrow> json \<Rightarrow> json \<Rightarrow> json \<Rightarrow> json \<Rightarrow> json \<Rightarrow> json \<Rightarrow> json \<Rightarrow> json \<Rightarrow> json \<Rightarrow> string + sealed" where
  "build_manifest sha256 parallel_group replica_group route_id parent independence members required realized reason =
    (let grp = py_or parallel_group replica_group;
         required_axes = py_or required (JList [JStr ''cross-harness'']);
         realized_axes = py_or realized (JList (if independence = JStr ''cross-harness'' then [JStr ''cross-harness''] else [])) in
     if truthy parallel_group \<and> truthy replica_group \<and> \<not> py_eq parallel_group replica_group
     then Inl ''parallel/replica group aliases differ''
     else if \<not> list_all nonempty_str [grp, route_id, parent, independence]
     then Inl ''parallel batch identity must be nonempty''
     else if \<not> str_in independence SUPPORTED_INDEPENDENCE then Inl ''unsupported parallel batch independence''
     else if \<not> (is_list members \<and> MIN_WIDTH \<le> length (the_list members) \<and> length (the_list members) \<le> MAX_WIDTH)
     then Inl ''parallel batch must declare 2..4 members''
     else if \<not> axes_ok required_axes then Inl ''invalid required independence axes''
     else if \<not> axes_ok realized_axes then Inl ''invalid realized independence axes''
     else if JStr ''cross-harness'' \<notin> set (the_list required_axes) then Inl ''parallel batch requires cross-harness intent''
     else bindr (check_members (the_list members)) (\<lambda>ms.
          bindr (members_consistent ms (the_str independence) realized_axes reason) (\<lambda>_.
          Inr (seal sha256
            (manifest_common (length ms) grp route_id parent independence required_axes realized_axes reason)
            (sort_key leg_index ms)))))"

section \<open>Verifying one\<close>

definition v1_member_keys :: "string list" where
  "v1_member_keys = [''assignment_sha256'', ''attempt_id'', ''route_node'', ''harness'', ''fallback_hop'', ''fallback_ordinal'']"

definition verify_v1 :: "(string \<Rightarrow> string) \<Rightarrow> obj \<Rightarrow> string + sealed" where
  "verify_v1 sha256 d =
    (if set (map fst d) \<noteq> {''schema_version'', ''kind'', ''declared_size'', ''replica_group'', ''route_id'',
          ''parent_attempt_id'', ''independence'', ''members''} \<or> oget d ''kind'' \<noteq> JStr ''replica-batch'' \<or>
        \<not> py_eq (oget d ''declared_size'') (JInt 2)
     then Inl ''unsupported legacy replica batch manifest''
     else let members = oget d ''members'' in
       if \<not> is_list members \<or> length (the_list members) \<noteq> 2 then Inl ''legacy replica batch must have two members''
       else if \<not> list_all (\<lambda>m. is_obj m \<and> set (map fst (the_obj m)) = set v1_member_keys) (the_list members)
       then Inl ''invalid legacy replica member''
       else let ms = map the_obj (the_list members) in
         if \<not> list_all (\<lambda>m. is_str (oget m ''route_node'') \<and> is_str (oget m ''attempt_id'')) ms then Inl ''TypeError''
         else if sort_key (\<lambda>m. (the_str (oget m ''route_node''), the_str (oget m ''attempt_id''))) ms \<noteq> ms
         then Inl ''legacy replica batch manifest is not canonical''
         else let common = filter (\<lambda>p. fst p \<noteq> ''members'') d in
           Inr (d, json_digest sha256 (JObj d),
             dict_update [] (map (\<lambda>m. (mstr m ''attempt_id'', json_digest sha256 (JObj (common @ [(''member'', JObj m)])))) ms)))"

definition v2_keys :: "string list" where
  "v2_keys = [''schema_version'', ''kind'', ''declared_size'', ''parallel_group'', ''replica_group'', ''route_id'',
     ''parent_attempt_id'', ''independence'', ''required_independence_axes'', ''realized_independence_axes'',
     ''degradation_reason'', ''members'']"

definition verify_manifest :: "(string \<Rightarrow> string) \<Rightarrow> json \<Rightarrow> string + sealed" where
  "verify_manifest sha256 manifest = (case manifest of
      JObj d \<Rightarrow>
        if py_eq (oget d ''schema_version'') (JInt 1) then verify_v1 sha256 d
        else if set (map fst d) \<noteq> set v2_keys \<or> \<not> py_eq (oget d ''schema_version'') (JInt 2) \<or> oget d ''kind'' \<noteq> JStr ''parallel-batch''
        then Inl ''invalid parallel batch manifest shape''
        else bindr (build_manifest sha256 (oget d ''parallel_group'') (oget d ''replica_group'') (oget d ''route_id'')
            (oget d ''parent_attempt_id'') (oget d ''independence'') (oget d ''members'')
            (oget d ''required_independence_axes'') (oget d ''realized_independence_axes'') (oget d ''degradation_reason''))
          (\<lambda>sealed. if py_eq (JObj (fst sealed)) manifest then Inr sealed else Inl ''parallel batch manifest is not canonical'')
    | _ \<Rightarrow> Inl ''parallel batch manifest must be an object'')"

section \<open>The reservation of the legs\<close>

definition manifest_members :: "obj \<Rightarrow> obj list" where
  "manifest_members m = map the_obj (the_list (oget m ''members''))"

definition manifest_group :: "obj \<Rightarrow> json" where
  "manifest_group m = py_or (oget m ''parallel_group'') (oget m ''replica_group'')"

definition schema_two :: "obj \<Rightarrow> bool" where
  \<comment> \<open>\<open>int(manifest.get("schema_version", 1)) == 2\<close>\<close>
  "schema_two m = (py_int_of (oget_or m ''schema_version'' (JInt 1)) = Some 2)"

definition batch_common :: "obj \<Rightarrow> string \<Rightarrow> nat \<Rightarrow> obj \<Rightarrow> obj" where
  "batch_common m digest n peer_proof =
    dict_update
    [(''reservation_kind'', JStr (if schema_two m then ''parallel-batch'' else ''replica-batch'')),
     (''batch_declared_size'', oget m ''declared_size''), (''batch_admission_count'', JInt (int n)),
     (''batch_group'', manifest_group m), (''batch_route_id'', oget m ''route_id''),
     (''batch_parent_attempt_id'', oget m ''parent_attempt_id''), (''batch_independence'', oget m ''independence''),
     (''batch_manifest'', JObj m), (''batch_manifest_sha256'', JStr digest)] peer_proof"

definition batch_leg :: "obj \<Rightarrow> (string \<times> string) list \<Rightarrow> obj \<Rightarrow> obj" where
  "batch_leg m legs member =
    [(''batch_attempt_id'', oget member ''attempt_id''), (''batch_route_node'', oget member ''route_node''),
     (''batch_harness'', oget member ''harness''), (''batch_fallback_hop'', oget member ''fallback_hop''),
     (''batch_fallback_ordinal'', oget member ''fallback_ordinal''),
     (''batch_assignment_sha256'', oget member ''assignment_sha256''),
     (''batch_leg_sha256'', JStr (mget legs (mstr member ''attempt_id'') []))] @
    (if schema_two m then
       [(''batch_model_profile'', oget member ''model_profile''), (''batch_perspective'', oget member ''perspective''),
        (''batch_parallel_leg_index'', oget member ''parallel_leg_index'')] else [])"

text \<open>The peers of a one-leg recovery: exactly the other members, each with its own proof.\<close>

definition batch_peers :: "(string \<Rightarrow> string) \<Rightarrow> (json \<Rightarrow> string + obj) \<Rightarrow> json \<Rightarrow> obj \<Rightarrow> string list \<Rightarrow> string + obj" where
  \<comment> \<open>\<open>prove\<close> yields the canonical proof of one peer\<close>
  "batch_peers sha256 prove peers m selected =
    (let others = filter (\<lambda>a. a \<notin> set selected) (remdups (map (\<lambda>x. mstr x ''attempt_id'') (manifest_members m)));
         supplied = map (\<lambda>p. case p of JObj d \<Rightarrow> oget d ''attempt_id'' | _ \<Rightarrow> JNull) (the_list peers) in
     if \<not> is_list peers \<or> length (the_list peers) \<noteq> length others
     then Inl ''parallel batch recovery requires the exact N-1 peer set''
     else if \<not> distinct supplied \<or> set supplied \<noteq> set (map JStr others)
     then Inl ''parallel batch recovery peer membership mismatch''
     else let proofs = map prove (the_list peers) in
       case find (\<lambda>r. case r of Inl _ \<Rightarrow> True | Inr _ \<Rightarrow> False) proofs of
         Some (Inl err) \<Rightarrow> Inl err
       | _ \<Rightarrow> (let ordered = sort_key (\<lambda>p. mstr p ''attempt_id'') (map (\<lambda>r. case r of Inr p \<Rightarrow> p | Inl _ \<Rightarrow> []) proofs);
                 set_json = JList (map JObj ordered)
             in Inr ([(''batch_peer_count'', JInt (int (length ordered))), (''batch_peer_set'', set_json),
                  (''batch_peer_set_sha256'', JStr (json_digest sha256 set_json))] @
                 (if \<not> schema_two m \<and> length ordered = 1 then
                    [(''batch_peer_attempt_id'', oget (hd ordered) ''attempt_id''), (''batch_peer_state'', oget (hd ordered) ''state''),
                     (''batch_peer_proof'', JObj (hd ordered)), (''batch_peer_proof_sha256'', JStr (json_digest sha256 (JObj (hd ordered))))]
                  else []))))"

definition batch_extras ::
  "(string \<Rightarrow> string) \<Rightarrow> (json \<Rightarrow> string + obj) \<Rightarrow> json \<Rightarrow> string list \<Rightarrow> json \<Rightarrow> string + obj list" where
  \<comment> \<open>the batch part of \<open>reserve\<close>: one extra per selected attempt\<close>
  "batch_extras sha256 prove manifest selected peers =
    bindr (verify_manifest sha256 manifest) (\<lambda>(m, digest, legs).
      let n = length selected in
      if [] \<in> set selected \<or> \<not> distinct selected then Inl ''parallel batch selected member count mismatch''
      else if \<not> list_all (\<lambda>a. list_ex (\<lambda>x. mstr x ''attempt_id'' = a) (manifest_members m)) selected
      then Inl ''parallel batch selected member is not declared''
      else bindr
        (if py_int_of (oget m ''declared_size'') = Some (int n) then
           (if peers \<noteq> JNull then Inl ''full parallel batch reservation cannot include peer proof'' else Inr [])
         else if n = 1 then batch_peers sha256 prove peers m selected
         else Inl ''parallel batch reservation count must be one or declared size'')
        (\<lambda>peer_proof. Inr (map (\<lambda>a. batch_common m digest n peer_proof @
            batch_leg m legs (the (find (\<lambda>x. mstr x ''attempt_id'' = a) (rev (manifest_members m))))) selected)))"

definition reserve_batch ::
  "(string \<Rightarrow> string) \<Rightarrow> (json \<Rightarrow> string + obj) \<Rightarrow> gov_env \<Rightarrow> string \<Rightarrow> nat \<Rightarrow> int \<Rightarrow> json \<Rightarrow> string list \<Rightarrow> json
    \<Rightarrow> state_file \<Rightarrow> (string + string list) \<times> state_file" where
  \<comment> \<open>\<open>reserve\<close> with a batch; the issuer capability has been consumed\<close>
  "reserve_batch sha256 prove ge worker_class requested pid manifest selected peers f =
    (case limits ge of Inl err \<Rightarrow> (Inl err, f)
     | Inr _ \<Rightarrow> if process_starttime (ge_os0 ge) pid = None then (Inl ''reservation owner identity unavailable'', f)
       else case verify_manifest sha256 manifest of
         Inl err \<Rightarrow> (Inl err, f)
       | Inr _ \<Rightarrow> if length selected \<noteq> requested then (Inl ''parallel batch selected member count mismatch'', f)
         else case batch_extras sha256 prove manifest selected peers of
           Inl err \<Rightarrow> (Inl err, f)
         | Inr extras \<Rightarrow> reserve ge worker_class pid extras f)"

section \<open>What a launch demands\<close>

record expectation =
  ex_public :: obj
  ex_route_nodes :: "string list"
  ex_allowed :: "(string \<times> (string \<times> string \<times> int) list) list"

definition node_group :: "obj \<Rightarrow> json" where
  "node_group n = py_or (oget n ''parallel_group'') (oget n ''replica_group'')"

definition obj_nodes :: "obj \<Rightarrow> obj list" where
  "obj_nodes rt = map the_obj (filter is_obj (the_list (oget rt ''nodes'')))"

definition allowed_candidates :: "obj \<Rightarrow> (string \<times> string \<times> int) list" where
  "allowed_candidates member =
    concat (map (\<lambda>entry. case entry of
        JObj e \<Rightarrow> (case (oget e ''fallback_hop'', oget e ''ordinal'') of
           (JStr hop, JInt ordinal) \<Rightarrow>
             concat (map (\<lambda>c. case c of
                 JObj d \<Rightarrow> if oget d ''status'' = JStr ''supported'' \<and> str_in (oget d ''child_harness'') SUPPORTED_HARNESSES
                   then [(the_str (oget d ''child_harness''), hop, ordinal)] else []
               | _ \<Rightarrow> []) (the_list (oget e ''candidates'')))
         | _ \<Rightarrow> [])
      | _ \<Rightarrow> []) (the_list (oget member ''fallback_hops'')))"

definition replica_batch_expectation ::
  "json \<Rightarrow> string \<Rightarrow> string \<Rightarrow> string \<Rightarrow> string \<Rightarrow> string \<Rightarrow> string \<Rightarrow> json \<Rightarrow> string \<Rightarrow> string + expectation option" where
  \<comment> \<open>the route record is read already; \<open>route_node\<close> is nonempty\<close>
  "replica_batch_expectation route route_node action attempt_id parent_attempt_id harness hop ordinal assignment =
    (if \<not> is_obj route \<or> \<not> is_list (oget (the_obj route) ''nodes'') then Inl ''route-record-invalid''
     else let rt = the_obj route; matches = filter (\<lambda>n. oget n ''id'' = JStr route_node) (obj_nodes rt) in
     if length matches \<noteq> 1 then Inl ''route-node-not-unique''
     else let node = hd matches; grp = node_group node in
     if \<not> truthy grp then Inr None
     else let members = filter (\<lambda>n. py_eq (node_group n) grp) (obj_nodes rt) in
     if \<not> (2 \<le> length members \<and> length members \<le> 4) \<or> list_ex (\<lambda>m. \<not> py_eq (oget m ''dispatch_depth'') (JInt 2)) members
     then Inl ''parallel-group-contract-invalid''
     else if action \<noteq> ''start'' then Inl ''parallel-group-batch-required''
     else if [] \<in> set [attempt_id, parent_attempt_id, harness, hop] \<or> \<not> truthy ordinal
     then Inl ''parallel-group-batch-binding-missing''
     else case py_int (py_str ordinal) of
       None \<Rightarrow> Inl ''parallel-group-batch-binding-invalid''
     | Some ord \<Rightarrow>
       if ord < 1 then Inl ''parallel-group-batch-binding-invalid''
       else if list_ex (\<lambda>m. allowed_candidates m = []) members then Inl ''parallel-group-route-binding-invalid''
       else if assignment \<noteq> [] \<and> \<not> digest_form assignment then Inl ''parallel-group-assignment-invalid''
       else Inr (Some \<lparr>
         ex_public = [(''reservation_kind'', JStr (if truthy (oget node ''parallel_group'') then ''parallel-batch'' else ''replica-batch'')),
            (''batch_declared_size'', JInt (int (length members))), (''batch_group'', JStr (py_str grp)),
            (''batch_route_id'', JStr (py_str (oget_or rt ''route_id'' (JStr [])))),
            (''batch_parent_attempt_id'', JStr parent_attempt_id), (''batch_attempt_id'', JStr attempt_id),
            (''batch_route_node'', JStr route_node), (''batch_harness'', JStr harness),
            (''batch_fallback_hop'', JStr hop), (''batch_fallback_ordinal'', JInt ord),
            (''batch_model_profile'', oget node ''model_profile''), (''batch_perspective'', oget node ''perspective''),
            (''batch_parallel_leg_index'', oget node ''parallel_leg_index'')] @
            (if assignment \<noteq> [] then [(''batch_assignment_sha256'', JStr assignment)] else []),
         ex_route_nodes = sort (map (\<lambda>m. py_str (oget_or m ''id'' (JStr []))) members),
         ex_allowed = dict_update [] (map (\<lambda>m. (py_str (oget_or m ''id'' (JStr [])), allowed_candidates m)) members)\<rparr>))"

text \<open>The mismatches a reservation has, by name; the launch is refused when there is one.\<close>

definition digest_mismatches :: "obj \<Rightarrow> string list" where
  "digest_mismatches payload =
     filter (\<lambda>k. \<not> (case oget payload k of JStr s \<Rightarrow> digest_form s | _ \<Rightarrow> False)) [''batch_manifest_sha256'', ''batch_leg_sha256'']"

definition member_allowed :: "expectation \<Rightarrow> obj \<Rightarrow> bool" where
  "member_allowed ex member =
    (case (oget member ''harness'', oget member ''fallback_hop'', oget member ''fallback_ordinal'') of
       (JStr h, JStr hop, JInt i) \<Rightarrow>
         (case map_of (ex_allowed ex) (py_str (oget_or member ''route_node'' (JStr []))) of
            None \<Rightarrow> False | Some allowed \<Rightarrow> (h, hop, i) \<in> set allowed)
     | _ \<Rightarrow> False)"

definition selected_member_mismatches :: "expectation \<Rightarrow> obj \<Rightarrow> obj \<Rightarrow> (string \<times> string) list \<Rightarrow> obj \<Rightarrow> string list" where
  "selected_member_mismatches ex payload m legs member =
    (let public = ex_public ex;
         pairs = [(''route_node'', ''batch_route_node''), (''harness'', ''batch_harness''),
            (''fallback_hop'', ''batch_fallback_hop''), (''fallback_ordinal'', ''batch_fallback_ordinal'')] @
           (if schema_two m then [(''model_profile'', ''batch_model_profile''), (''perspective'', ''batch_perspective''),
              (''parallel_leg_index'', ''batch_parallel_leg_index'')] else []);
         wanted = oget public ''batch_assignment_sha256'' in
     map fst (filter (\<lambda>(k, e). \<not> py_eq (oget member k) (oget public e)) pairs) @
     (if truthy wanted \<and> oget member ''assignment_sha256'' \<noteq> wanted then [''assignment_sha256''] else []) @
     (case map_of legs (mstr member ''attempt_id'') of
        Some leg \<Rightarrow> if oget payload ''batch_leg_sha256'' \<noteq> JStr leg then [''batch_leg_sha256''] else []
      | None \<Rightarrow> if oget payload ''batch_leg_sha256'' \<noteq> JNull then [''batch_leg_sha256''] else []))"

definition manifest_mismatches :: "expectation \<Rightarrow> obj \<Rightarrow> obj \<Rightarrow> (string \<times> string) list \<Rightarrow> string list" where
  "manifest_mismatches ex payload m legs =
    (let public = ex_public ex; members = manifest_members m;
         selected = filter (\<lambda>x. py_eq (oget x ''attempt_id'') (oget public ''batch_attempt_id'')) members in
     (if \<not> py_eq (manifest_group m) (oget public ''batch_group'') then [''manifest.parallel_group''] else []) @
     (if \<not> py_eq (oget m ''route_id'') (oget public ''batch_route_id'') then [''manifest.route_id''] else []) @
     (if \<not> py_eq (oget m ''parent_attempt_id'') (oget public ''batch_parent_attempt_id'') then [''manifest.parent_attempt_id''] else []) @
     (if sort (map (\<lambda>x. py_str (oget_or x ''route_node'' (JStr []))) members) \<noteq> ex_route_nodes ex then [''manifest.route_nodes''] else []) @
     map (\<lambda>x. ''manifest.member.'' @ mstr x ''route_node'') (filter (\<lambda>x. \<not> member_allowed ex x) members) @
     (case selected of [member] \<Rightarrow> selected_member_mismatches ex payload m legs member | _ \<Rightarrow> [''manifest.selected_member'']) @
     (if \<not> py_eq (oget payload ''batch_independence'') (oget m ''independence'') then [''batch_independence''] else []))"

definition peer_keys :: "string list" where
  "peer_keys = [''agent_home'', ''attempt_id'', ''jobs'', ''manifest_sha256'', ''reason'', ''route'', ''state'']"

definition canonical_peer :: "json \<Rightarrow> bool" where
  "canonical_peer proof = (case proof of JObj d \<Rightarrow> set (map fst d) = set peer_keys | _ \<Rightarrow> False)"

definition peer_mismatches :: "string \<Rightarrow> json \<Rightarrow> string list" where
  "peer_mismatches digest proof =
    (if \<not> canonical_peer proof then [''batch_peer_set'']
     else let d = the_obj proof in
       (if \<not> py_eq (oget d ''manifest_sha256'') (JStr digest) then [''manifest_sha256''] else []) @
       (if \<not> str_in (oget d ''state'') [''active'', ''completed''] then [''state''] else []) @
       filter (\<lambda>k. \<not> (case oget d k of JStr s \<Rightarrow> is_absolute s | _ \<Rightarrow> False)) [''agent_home'', ''jobs'', ''route''] @
       (if \<not> nonempty_str (oget d ''reason'') then [''reason''] else []))"

definition admission_mismatches :: "(string \<Rightarrow> string) \<Rightarrow> expectation \<Rightarrow> obj \<Rightarrow> obj list \<Rightarrow> string \<Rightarrow> string list" where
  "admission_mismatches sha256 ex payload members digest =
    (let public = ex_public ex;
         declared = (case oget public ''batch_declared_size'' of JInt i \<Rightarrow> if 2 \<le> i \<and> i \<le> 4 then Some i else None | _ \<Rightarrow> None);
         admission = oget payload ''batch_admission_count'';
         width = (case declared of Some i \<Rightarrow> i | None \<Rightarrow> 0) in
     (if declared = None then [''batch_declared_size''] else []) @
     (case admission of
        JInt a \<Rightarrow>
          if a \<noteq> 1 \<and> a \<noteq> width then [''batch_admission_count'']
          else if a = 1 then
            (let selected = mstr public ''batch_attempt_id'';
                 peers = sort (map (\<lambda>x. mstr x ''attempt_id'') (filter (\<lambda>x. mstr x ''attempt_id'' \<noteq> selected) members));
                 proofs = oget payload ''batch_peer_set'' in
             (if \<not> py_eq (oget payload ''batch_peer_count'') (JInt (int (length peers))) then [''batch_peer_count''] else []) @
             (if \<not> is_list proofs \<or> length (the_list proofs) \<noteq> length peers then [''batch_peer_set'']
              else concat (map (peer_mismatches digest) (the_list proofs)) @
                (if map (\<lambda>p. mstr (the_obj p) ''attempt_id'') (filter canonical_peer (the_list proofs)) \<noteq> peers
                 then [''batch_peer_set.attempts''] else []) @
                (if oget payload ''batch_peer_set_sha256'' \<noteq> JStr (json_digest sha256 proofs)
                 then [''batch_peer_set_sha256''] else [])))
          else filter (\<lambda>k. map_of payload k \<noteq> None)
            [''batch_peer_count'', ''batch_peer_set'', ''batch_peer_set_sha256'', ''batch_peer_attempt_id'',
             ''batch_peer_state'', ''batch_peer_proof'', ''batch_peer_proof_sha256'']
      | _ \<Rightarrow> [''batch_admission_count'']))"

definition reservation_mismatches :: "(string \<Rightarrow> string) \<Rightarrow> obj \<Rightarrow> expectation option \<Rightarrow> string list" where
  "reservation_mismatches sha256 payload expected = (case expected of
      None \<Rightarrow> if str_in (oget payload ''reservation_kind'') [''replica-batch'', ''parallel-batch''] then [''reservation_kind''] else []
    | Some ex \<Rightarrow>
        map fst (filter (\<lambda>(k, value). \<not> py_eq (oget payload k) value) (ex_public ex)) @
        digest_mismatches payload @
        (case verify_manifest sha256 (oget payload ''batch_manifest'') of
           Inl err \<Rightarrow> ''batch_manifest'' # admission_mismatches sha256 ex payload [] []
         | Inr (m, digest, legs) \<Rightarrow>
             (if oget payload ''batch_manifest_sha256'' \<noteq> JStr digest then [''batch_manifest_sha256''] else []) @
             manifest_mismatches ex payload m legs @ admission_mismatches sha256 ex payload (manifest_members m) digest))"

definition validate_replica_reservation :: "(string \<Rightarrow> string) \<Rightarrow> obj \<Rightarrow> expectation option \<Rightarrow> string + unit" where
  "validate_replica_reservation sha256 payload expected =
    (if reservation_mismatches sha256 payload expected = [] then Inr () else Inl ''parallel-group-reservation-mismatch'')"


section \<open>Equality of Python values\<close>

lemma py_eq_str: "py_eq (JStr s) v \<longleftrightarrow> v = JStr s"
  by simp

section \<open>Members\<close>

lemma oget_map_keys: "oget (map (\<lambda>k. (k, f k)) ks) k = (if k \<in> set ks then f k else JNull)"
  by (induction ks) auto

lemma check_member_cases:
  assumes "check_member raw = Inr m"
  obtains d where "raw = JObj d" "m = map (\<lambda>k. (k, oget d k)) member_keys" "check_member (JObj m) = Inr m"
proof -
  obtain d where d: "raw = JObj d" using assms by (cases raw) (auto simp: check_member_def)
  then have m: "m = map (\<lambda>k. (k, oget d k)) member_keys"
    using assms by (auto simp: check_member_def split: if_splits)
  have keys: "map fst m = member_keys" by (simp add: m comp_def)
  have get: "oget m k = oget d k" if "k \<in> set member_keys" for k
    using that by (simp add: m oget_map_keys)
  have same: "map (\<lambda>k. (k, oget m k)) member_keys = m"
    using get m by (simp cong: map_cong)
  have "check_member (JObj m) = Inr m"
    using assms unfolding d check_member_def
    by (simp only: json.case keys same) (simp add: get member_keys_def same [unfolded member_keys_def] split: if_splits)
  with d m that show thesis by blast
qed

definition member_ok :: "obj \<Rightarrow> bool" where
  "member_ok m \<longleftrightarrow> check_member (JObj m) = Inr m"

lemma check_members_ok:
  "check_members rs = Inr ms \<Longrightarrow> length ms = length rs \<and> (\<forall>m \<in> set ms. member_ok m)"
  by (induction rs arbitrary: ms) (auto simp: bindr_Inr_iff member_ok_def elim: check_member_cases)

lemma members_recheck: "\<forall>m \<in> set ms. member_ok m \<Longrightarrow> check_members (map JObj ms) = Inr ms"
  by (induction ms) (auto simp: member_ok_def)

lemma member_ok_facts:
  assumes "member_ok m"
  shows "map fst m = member_keys" "nonempty_str (oget m ''attempt_id'')" "nonempty_str (oget m ''route_node'')"
    "nonempty_str (oget m ''harness'')" "nonempty_str (oget m ''fallback_hop'')" "nonempty_str (oget m ''model_profile'')"
    "nonempty_str (oget m ''perspective'')" "nonempty_str (oget m ''assignment_sha256'')"
    "int_at_least 1 (oget m ''fallback_ordinal'')" "int_at_least 0 (oget m ''parallel_leg_index'')"
    "str_in (oget m ''harness'') SUPPORTED_HARNESSES" "str_in (oget m ''model_profile'') SUPPORTED_PROFILES"
proof -
  have c: "check_member (JObj m) = Inr m" using assms by (simp add: member_ok_def)
  then have "m = map (\<lambda>k. (k, oget m k)) member_keys"
    by (auto simp: check_member_def split: if_splits)
  from arg_cong [OF this, of "map fst"] show "map fst m = member_keys" by (simp add: comp_def)
  show "nonempty_str (oget m ''attempt_id'')" "nonempty_str (oget m ''route_node'')"
    "nonempty_str (oget m ''harness'')" "nonempty_str (oget m ''fallback_hop'')" "nonempty_str (oget m ''model_profile'')"
    "nonempty_str (oget m ''perspective'')" "nonempty_str (oget m ''assignment_sha256'')"
    "int_at_least 1 (oget m ''fallback_ordinal'')" "int_at_least 0 (oget m ''parallel_leg_index'')"
    "str_in (oget m ''harness'') SUPPORTED_HARNESSES" "str_in (oget m ''model_profile'') SUPPORTED_PROFILES"
    using c by (auto simp: check_member_def split: if_splits)
qed

text \<open>Every key of a checked member is a string or an integer.\<close>

lemma member_ok_wf: assumes "member_ok m" shows "wf_json (JObj m)"
proof -
  have scalar: "wf_json (oget m k)" if "k \<in> set member_keys" for k
    using member_ok_facts [OF assms] that
    by (auto simp: member_keys_def nonempty_str_def int_at_least_def split: json.splits)
  have dist: "distinct (map fst m)" using member_ok_facts(1) [OF assms] by (simp add: member_keys_def)
  have "wf_json v" if "(k, v) \<in> set m" for k v
  proof -
    have "k \<in> set (map fst m)" using that by force
    moreover have "oget m k = v" using that dist by (simp add: oget_def)
    ultimately show ?thesis using scalar [of k] member_ok_facts(1) [OF assms] by simp
  qed
  with dist show ?thesis by (auto simp: list_all_iff)
qed

section \<open>Sorting by leg index\<close>

lemma sort_key_sorted: "sort_key f (sort_key f xs) = sort_key f xs"
  by (simp add: sort_key_id_if_sorted)

lemma distinct_count_perm: "mset xs = mset ys \<Longrightarrow> distinct_count k xs = distinct_count k ys"
proof -
  assume "mset xs = mset ys"
  then have "set xs = set ys" by (rule mset_eq_setD)
  then show ?thesis by (simp add: distinct_count_def length_remdups_card_conv)
qed

lemma members_consistent_perm:
  assumes "mset xs = mset ys"
  shows "members_consistent xs = members_consistent ys"
proof -
  have d: "distinct (map f xs) = distinct (map f ys)" for f :: "obj \<Rightarrow> string"
    by (metis assms mset_eq_imp_distinct_iff mset_map)
  have s: "sort (map leg_index xs) = sort (map leg_index ys)"
    by (metis assms mset_map sorted_list_of_multiset_mset)
  have l: "length xs = length ys" by (metis assms mset_eq_length)
  have a: "derived_axes xs = derived_axes ys"
    by (simp add: derived_axes_def distinct_count_perm [OF assms] l)
  show ?thesis
    by (intro ext) (simp add: members_consistent_def d s l a distinct_count_perm [OF assms])
qed


section \<open>Sealing is canonical\<close>

lemma build_manifest_cases:
  assumes "build_manifest sha256 pg rg route_id parent independence members required realized reason = Inr sealed"
  obtains grp ms required_axes realized_axes where
    "grp = py_or pg rg" "required_axes = py_or required (JList [JStr ''cross-harness''])"
    "realized_axes = py_or realized (JList (if independence = JStr ''cross-harness'' then [JStr ''cross-harness''] else []))"
    "list_all nonempty_str [grp, route_id, parent, independence]" "str_in independence SUPPORTED_INDEPENDENCE"
    "MIN_WIDTH \<le> length ms" "length ms \<le> MAX_WIDTH" "axes_ok required_axes" "axes_ok realized_axes"
    "JStr ''cross-harness'' \<in> set (the_list required_axes)" "\<forall>m \<in> set ms. member_ok m"
    "members_consistent ms (the_str independence) realized_axes reason = Inr ()"
    "sealed = seal sha256 (manifest_common (length ms) grp route_id parent independence required_axes realized_axes reason)
       (sort_key leg_index ms)"
proof -
  obtain ms where ms: "check_members (the_list members) = Inr ms"
    using assms by (auto simp: build_manifest_def Let_def bindr_Inr_iff split: if_splits)
  note ok = check_members_ok [OF ms]
  show thesis
    by (rule that [of "py_or pg rg" "py_or required (JList [JStr ''cross-harness''])"
          "py_or realized (JList (if independence = JStr ''cross-harness'' then [JStr ''cross-harness''] else []))" ms])
      (use assms ok ms in \<open>auto simp: build_manifest_def Let_def bindr_Inr_iff split: if_splits\<close>)
qed

lemma oget_seal:
  "oget (fst (seal sha256 (manifest_common n grp rt par ind req rea why) ms)) k =
    (if k = ''schema_version'' then JInt 2 else if k = ''kind'' then JStr ''parallel-batch''
     else if k = ''declared_size'' then JInt (int n) else if k = ''parallel_group'' \<or> k = ''replica_group'' then grp
     else if k = ''route_id'' then rt else if k = ''parent_attempt_id'' then par else if k = ''independence'' then ind
     else if k = ''required_independence_axes'' then req else if k = ''realized_independence_axes'' then rea
     else if k = ''degradation_reason'' then why else if k = ''members'' then JList (map JObj ms) else JNull)"
  by (simp add: seal_def manifest_common_def Let_def)

lemma seal_keys: "map fst (fst (seal sha256 (manifest_common n grp rt par ind req rea why) ms)) = v2_keys"
  by (simp add: seal_def manifest_common_def v2_keys_def Let_def)

lemma str_in_wf: "str_in v xs \<Longrightarrow> wf_json v"
  by (cases v) (simp_all add: str_in_def)

lemma axes_wf: "axes_ok v \<Longrightarrow> wf_json v"
  by (cases v) (auto simp: axes_ok_def list_all_iff intro: str_in_wf)

lemma str_wf: "nonempty_str v \<Longrightarrow> wf_json v"
  by (cases v) (auto simp: nonempty_str_def)

lemma realized_stable:
  assumes "members_consistent ms (the_str ind) (py_or rea d) why = Inr ()"
    and "d = JList (if ind = JStr ''cross-harness'' then [JStr ''cross-harness''] else [])" "axes_ok (py_or rea d)" "is_str ind"
  shows "py_or (py_or rea d) d = py_or rea d"
proof (cases "truthy (py_or rea d)")
  case False
  then have empty: "py_or rea d = JList []"
    using assms(3) by (auto simp: axes_ok_def split: json.splits)
  have "ind \<noteq> JStr ''cross-harness''"
  proof
    assume "ind = JStr ''cross-harness''"
    then show False using empty assms(2) by (auto simp: py_or_def split: if_splits)
  qed
  then show ?thesis using empty assms(2) by (simp add: py_or_def)
qed (simp add: py_or_def)

lemma seal_rebuilds:
  assumes "build_manifest sha256 pg rg route_id parent independence members required realized reason = Inr sealed"
  shows "build_manifest sha256 (oget (fst sealed) ''parallel_group'') (oget (fst sealed) ''replica_group'') (oget (fst sealed) ''route_id'')
     (oget (fst sealed) ''parent_attempt_id'') (oget (fst sealed) ''independence'') (oget (fst sealed) ''members'')
     (oget (fst sealed) ''required_independence_axes'') (oget (fst sealed) ''realized_independence_axes'')
     (oget (fst sealed) ''degradation_reason'') = Inr sealed"
proof -
  obtain grp ms req rea where facts:
    "grp = py_or pg rg" "req = py_or required (JList [JStr ''cross-harness''])"
    "rea = py_or realized (JList (if independence = JStr ''cross-harness'' then [JStr ''cross-harness''] else []))"
    "list_all nonempty_str [grp, route_id, parent, independence]" "str_in independence SUPPORTED_INDEPENDENCE"
    "MIN_WIDTH \<le> length ms" "length ms \<le> MAX_WIDTH" "axes_ok req" "axes_ok rea"
    "JStr ''cross-harness'' \<in> set (the_list req)" "\<forall>m \<in> set ms. member_ok m"
    "members_consistent ms (the_str independence) rea reason = Inr ()"
    and sealed: "sealed = seal sha256 (manifest_common (length ms) grp route_id parent independence req rea reason) (sort_key leg_index ms)"
    by (rule build_manifest_cases [OF assms])
  have grp: "py_or grp grp = grp" by (simp add: py_or_def)
  have greq: "py_eq grp grp" using facts(4) by (auto intro: py_eq_refl str_wf)
  have req: "py_or req (JList [JStr ''cross-harness'']) = req" using facts(2) by (auto simp: py_or_def)
  have ind: "is_str independence" using facts(5) by (auto simp: str_in_def is_str_def split: json.splits)
  have rea: "py_or rea (JList (if independence = JStr ''cross-harness'' then [JStr ''cross-harness''] else [])) = rea"
    using realized_stable [OF facts(12) [unfolded facts(3)] refl] facts(3,9) ind by simp
  have members: "check_members (map JObj (sort_key leg_index ms)) = Inr (sort_key leg_index ms)"
    by (rule members_recheck) (simp add: facts(11))
  have cons: "members_consistent (sort_key leg_index ms) (the_str independence) rea reason = Inr ()"
    using facts(12) members_consistent_perm [of "sort_key leg_index ms" ms] by simp
  show ?thesis
    using facts(4-10)
    by (simp add: sealed oget_seal build_manifest_def grp greq req rea members cons is_list_def sort_key_sorted map_sort_key)
qed

lemma sealed_wf:
  assumes "build_manifest sha256 pg rg route_id parent independence members required realized reason = Inr sealed" "wf_json reason"
  shows "wf_json (JObj (fst sealed))"
proof -
  obtain grp ms req rea where facts: "list_all nonempty_str [grp, route_id, parent, independence]" "axes_ok req" "axes_ok rea"
    "\<forall>m \<in> set ms. member_ok m"
    and sealed: "sealed = seal sha256 (manifest_common (length ms) grp route_id parent independence req rea reason) (sort_key leg_index ms)"
    by (rule build_manifest_cases [OF assms(1)])
  have "wf_json v" if "v \<in> {grp, route_id, parent, independence}" for v
    using facts(1) that str_wf by auto
  moreover have "list_all wf_json (map JObj (sort_key leg_index ms))"
    using facts(4) member_ok_wf by (fastforce simp: list_all_iff)
  moreover have "distinct (map fst (fst sealed))"
    by (simp add: sealed seal_keys v2_keys_def)
  ultimately show ?thesis
    using axes_wf facts(2,3) assms(2) by (simp add: sealed seal_def manifest_common_def Let_def)
qed

lemma verify_built:
  assumes "build_manifest sha256 pg rg route_id parent independence members required realized reason = Inr sealed" "wf_json reason"
  shows "verify_manifest sha256 (JObj (fst sealed)) = Inr sealed"
proof -
  obtain grp ms req rea where sealed:
    "sealed = seal sha256 (manifest_common (length ms) grp route_id parent independence req rea reason) (sort_key leg_index ms)"
    by (rule build_manifest_cases [OF assms(1)])
  have heads: "set (map fst (fst sealed)) = set v2_keys" "oget (fst sealed) ''schema_version'' = JInt 2"
    "oget (fst sealed) ''kind'' = JStr ''parallel-batch''"
    by (simp_all add: sealed seal_keys oget_seal)
  show ?thesis
    unfolding verify_manifest_def json.case
    using heads seal_rebuilds [OF assms(1)] py_eq_refl [OF sealed_wf [OF assms]] by simp
qed

section \<open>Properties\<close>

definition demo_sha :: "string \<Rightarrow> string" where
  "demo_sha s = replicate 64 (CHR ''a'')"

definition demo_member :: "string \<Rightarrow> string \<Rightarrow> string \<Rightarrow> int \<Rightarrow> json" where
  "demo_member attempt node harness i = JObj
     [(''assignment_sha256'', JStr (''sha256:'' @ replicate 64 (CHR ''a''))), (''attempt_id'', JStr attempt),
      (''fallback_hop'', JStr ''primary''), (''fallback_ordinal'', JInt 1), (''harness'', JStr harness),
      (''model_profile'', JStr ''deep''), (''parallel_leg_index'', JInt i), (''perspective'', JStr ''security''),
      (''route_node'', JStr node)]"

definition demo_batch :: "string + sealed" where
  "demo_batch = build_manifest demo_sha (JStr ''g'') JNull (JStr ''r'') (JStr ''p'') (JStr ''cross-harness'')
     (JList [demo_member ''at2'' ''n2'' ''claude'' 1, demo_member ''at1'' ''n1'' ''codex'' 0]) JNull JNull JNull"

lemma demo_batch_built: "\<exists>sealed. demo_batch = Inr sealed"
proof -
  have "\<not> isl demo_batch" by code_simp
  then have "demo_batch = Inr (projr demo_batch)" by (rule sum.collapse(2) [symmetric])
  then show ?thesis by (rule exI)
qed

text \<open>C11: what \<open>build_manifest\<close> seals, \<open>verify_manifest\<close> accepts with the same canonical manifest, the
  same digest and the same leg digests: the producer and every later reader agree on the identity of
  a batch.\<close>

theorem sealed_manifest_verifies:
  assumes "build_manifest sha256 pg rg route_id parent independence members required realized reason = Inr sealed"
    and "wf_json reason"
  shows "verify_manifest sha256 (JObj (fst sealed)) = Inr sealed"
  by (rule verify_built [OF assms])

theorem sealed_manifest_verifies_witness:
  "\<exists>sealed. demo_batch = Inr sealed \<and> verify_manifest demo_sha (JObj (fst sealed)) = Inr sealed"
proof -
  obtain sealed where s: "demo_batch = Inr sealed" using demo_batch_built by blast
  have "verify_manifest demo_sha (JObj (fst sealed)) = Inr sealed"
    by (rule sealed_manifest_verifies [OF s [unfolded demo_batch_def]]) simp
  with s show ?thesis by (intro exI conjI)
qed

lemma sealed_members:
  "manifest_members (fst (seal sha256 (manifest_common n grp rt par ind req rea why) ms)) = ms"
  by (simp add: manifest_members_def oget_seal comp_def)

lemma leg_order: "sort (map leg_index ms) = map int [0 ..< n] \<Longrightarrow> map leg_index (sort_key leg_index ms) = map int [0 ..< n]"
  by (simp add: map_sort_key)

text \<open>A sealed batch has two to four legs, with distinct attempts and distinct route nodes, and its
  members stand in the order of their leg indexes, which are exactly 0..N-1.\<close>

theorem sealed_batch_is_bounded:
  assumes "build_manifest sha256 pg rg route_id parent independence members required realized reason = Inr sealed"
  shows "let ms = manifest_members (fst sealed) in
    2 \<le> length ms \<and> length ms \<le> 4 \<and> distinct (map (\<lambda>m. mstr m ''attempt_id'') ms) \<and>
    distinct (map (\<lambda>m. mstr m ''route_node'') ms) \<and> map leg_index ms = map int [0 ..< length ms]"
proof -
  obtain grp ms req rea where width: "MIN_WIDTH \<le> length ms" "length ms \<le> MAX_WIDTH"
    and cons: "members_consistent ms (the_str independence) rea reason = Inr ()"
    and sealed: "sealed = seal sha256 (manifest_common (length ms) grp route_id parent independence req rea reason) (sort_key leg_index ms)"
    by (rule build_manifest_cases [OF assms])
  have "distinct (map f (sort_key leg_index ms)) = distinct (map f ms)" for f :: "obj \<Rightarrow> string"
    by (rule mset_eq_imp_distinct_iff) simp
  then show ?thesis
    using width cons leg_order [of ms "length ms"]
    by (simp add: sealed sealed_members MIN_WIDTH_def MAX_WIDTH_def members_consistent_def Let_def split: if_splits)
qed

theorem sealed_batch_is_bounded_witness:
  "\<exists>sealed. demo_batch = Inr sealed \<and> 2 \<le> length (manifest_members (fst sealed))"
proof -
  obtain sealed where s: "demo_batch = Inr sealed" using demo_batch_built by blast
  have "2 \<le> length (manifest_members (fst sealed))"
    using sealed_batch_is_bounded [OF s [unfolded demo_batch_def]] by (simp add: Let_def)
  with s show ?thesis by (intro exI conjI)
qed

lemma mismatch_member:
  "manifest_mismatches ex payload m legs = [] \<Longrightarrow>
    (\<exists>member. filter (\<lambda>x. py_eq (oget x ''attempt_id'') (oget (ex_public ex) ''batch_attempt_id'')) (manifest_members m) = [member] \<and>
       selected_member_mismatches ex payload m legs member = []) \<and>
    list_all (member_allowed ex) (manifest_members m)"
  by (auto simp: manifest_mismatches_def Let_def list_all_iff filter_empty_conv split: list.splits if_splits)

text \<open>C12: a launch whose batch reservation is accepted has exactly the binding the route demands: every
  public field agrees, the manifest verifies to the digest the reservation names, exactly one of its
  members is this attempt, and every member is a candidate its route node allows.\<close>

theorem accepted_reservation_is_bound:
  assumes "validate_replica_reservation sha256 payload (Some ex) = Inr ()"
  shows "list_all (\<lambda>(k, value). py_eq (oget payload k) value) (ex_public ex) \<and>
    (\<exists>m digest legs. verify_manifest sha256 (oget payload ''batch_manifest'') = Inr (m, digest, legs) \<and>
       oget payload ''batch_manifest_sha256'' = JStr digest \<and>
       list_all (member_allowed ex) (manifest_members m) \<and>
       length (filter (\<lambda>x. py_eq (oget x ''attempt_id'') (oget (ex_public ex) ''batch_attempt_id'')) (manifest_members m)) = 1)"
proof -
  have none: "reservation_mismatches sha256 payload (Some ex) = []"
    using assms by (simp add: validate_replica_reservation_def split: if_splits)
  then have public: "list_all (\<lambda>(k, value). py_eq (oget payload k) value) (ex_public ex)"
    by (simp add: reservation_mismatches_def filter_empty_conv list_all_iff case_prod_unfold)
  from none obtain m digest legs where v: "verify_manifest sha256 (oget payload ''batch_manifest'') = Inr (m, digest, legs)"
    by (auto simp: reservation_mismatches_def split: sum.splits)
  with none have "oget payload ''batch_manifest_sha256'' = JStr digest" "manifest_mismatches ex payload m legs = []"
    by (auto simp: reservation_mismatches_def split: if_splits)
  with public v mismatch_member show ?thesis by fastforce
qed

definition demo_route_node :: "string \<Rightarrow> string \<Rightarrow> int \<Rightarrow> json" where
  "demo_route_node node harness i = JObj
     [(''id'', JStr node), (''parallel_group'', JStr ''g''), (''dispatch_depth'', JInt 2), (''model_profile'', JStr ''deep''),
      (''perspective'', JStr ''security''), (''parallel_leg_index'', JInt i),
      (''fallback_hops'', JList [JObj [(''fallback_hop'', JStr ''primary''), (''ordinal'', JInt 1),
         (''candidates'', JList [JObj [(''status'', JStr ''supported''), (''child_harness'', JStr harness)]])]])]"

definition demo_batch_route :: json where
  "demo_batch_route = JObj [(''route_id'', JStr ''r''),
     (''nodes'', JList [demo_route_node ''n1'' ''codex'' 0, demo_route_node ''n2'' ''claude'' 1])]"

definition demo_expectation :: expectation where
  "demo_expectation =
    (case replica_batch_expectation demo_batch_route ''n1'' ''start'' ''at1'' ''p'' ''codex'' ''primary'' (JStr ''1'') [] of
       Inr (Some ex) \<Rightarrow> ex | _ \<Rightarrow> \<lparr>ex_public = [], ex_route_nodes = [], ex_allowed = []\<rparr>)"

definition demo_reservation :: obj where
  \<comment> \<open>what the governor mints for the first leg of the demo batch\<close>
  "demo_reservation = (case demo_batch of Inl err \<Rightarrow> [] | Inr sealed \<Rightarrow>
     (case batch_extras demo_sha (\<lambda>_. Inl []) (JObj (fst sealed)) [''at1'', ''at2''] JNull of
        Inr (extra # _) \<Rightarrow> extra | _ \<Rightarrow> []))"

lemma demo_reservation_accepted:
  "validate_replica_reservation demo_sha demo_reservation (Some demo_expectation) = Inr ()"
  by code_simp

theorem accepted_reservation_is_bound_witness:
  "list_all (\<lambda>(k, value). py_eq (oget demo_reservation k) value) (ex_public demo_expectation) \<and> ex_public demo_expectation \<noteq> []"
proof -
  have "ex_public demo_expectation \<noteq> []" by code_simp
  with accepted_reservation_is_bound [OF demo_reservation_accepted] show ?thesis by blast
qed

end
