(* ===== verification/Workflow_Board.thy ===== *)
theory Workflow_Board
  imports Workflow_State
begin

text \<open>
  What the workflow ledger promises, without its journal: a board with one workflow state and one
  state per node, moved by the declared transitions. The ledger of \<open>Workflow_State\<close> implements it.
\<close>

section \<open>The board\<close>

record board =
  b_state :: string
  b_nodes :: "string \<Rightarrow> string option"

definition node_allowed :: "vocab \<Rightarrow> board \<Rightarrow> string \<Rightarrow> string \<Rightarrow> bool" where
  "node_allowed v b node target \<longleftrightarrow> target \<in> set NODE_STATES \<and>
     (case b_nodes b node of None \<Rightarrow> True | Some current \<Rightarrow> current = target \<or> can_transition v current target)"

definition state_allowed :: "vocab \<Rightarrow> board \<Rightarrow> string option \<Rightarrow> bool" where
  "state_allowed v b target =
     (case target of None \<Rightarrow> True | Some t \<Rightarrow> t = b_state b \<or> can_transition v (b_state b) t)"

definition move_node :: "string \<Rightarrow> string \<Rightarrow> board \<Rightarrow> board" where
  "move_node node target b = (if node = [] then b else b\<lparr>b_nodes := (b_nodes b)(node \<mapsto> target)\<rparr>)"

definition move_state :: "string option \<Rightarrow> board \<Rightarrow> board" where
  "move_state target b = (case target of None \<Rightarrow> b | Some t \<Rightarrow> b\<lparr>b_state := t\<rparr>)"

definition board_record :: "vocab \<Rightarrow> string \<Rightarrow> string \<Rightarrow> string option \<Rightarrow> board \<Rightarrow> board" where
  "board_record v node target wfs b =
    (if node_allowed v b node target \<and> state_allowed v b wfs then move_state wfs (move_node node target b) else b)"

definition board_set :: "vocab \<Rightarrow> string \<Rightarrow> board \<Rightarrow> board" where
  "board_set v target b = (if state_allowed v b (Some target) then move_state (Some target) b else b)"

fun board_step :: "vocab \<Rightarrow> ledger_op \<Rightarrow> board \<Rightarrow> board" where
  "board_step v (Record c n s ev w a) b = board_record v n s w b"
| "board_step v (SetState c w ev a) b = board_set v w b"
| "board_step v (CrashRecord p c n s ev w a) b = (if p = After_line then board_record v n s w b else b)"
| "board_step v (CrashSet p c w ev a) b = (if p = After_line then board_set v w b else b)"
| "board_step v _ b = b"

definition board_of :: "vocab \<Rightarrow> ledger \<Rightarrow> board" where
  "board_of v l = \<lparr>b_state = snd (rebuild_from v (journal l)),
     b_nodes = (\<lambda>n. map_option n_state (map_of (fst (rebuild_from v (journal l))) n))\<rparr>"

section \<open>The ledger implements the board\<close>

definition text_clean :: "context_info \<Rightarrow> string option \<Rightarrow> string option \<Rightarrow> string option \<Rightarrow> json \<Rightarrow> string \<Rightarrow> bool" where
  "text_clean c n s w ev a \<longleftrightarrow> line_sep \<notin> set (c_now c) \<and> line_sep \<notin> ostr_set n \<and> line_sep \<notin> ostr_set s \<and>
     line_sep \<notin> ostr_set w \<and> \<not> breaks_line ev \<and> line_sep \<notin> set a"

text \<open>No text carries a line separator, and no crash leaves a torn line.\<close>

fun op_clean :: "ledger_op \<Rightarrow> bool" where
  "op_clean (Record c n s ev w a) = text_clean c (Some n) (Some s) w ev a"
| "op_clean (SetState c w ev a) = text_clean c None None (Some w) ev a"
| "op_clean (CrashRecord p c n s ev w a) = (p \<in> {Before, After_line} \<and> text_clean c (Some n) (Some s) w ev a)"
| "op_clean (CrashSet p c w ev a) = (p \<in> {Before, After_line} \<and> text_clean c None None (Some w) ev a)"
| "op_clean _ = True"

definition ledger_clean :: "ledger \<Rightarrow> bool" where
  "ledger_clean l \<longleftrightarrow> clean_tail l \<and> line_sep \<notin> set (l_route_id l) \<and> line_sep \<notin> set (l_route_hash l)"

lemma entry_clean: "ledger_clean l \<Longrightarrow> text_clean c n s w ev a \<Longrightarrow> \<not> entry_breaks (new_entry c l n s w ev a)"
  by (simp add: ledger_clean_def text_clean_def entry_breaks_def new_entry_def)

lemma board_of_cong: "journal l' = journal l \<Longrightarrow> board_of v l' = board_of v l"
  by (simp add: board_of_def)

lemma ledger_clean_read [simp]: "ledger_clean (snd (read_state v l)) = ledger_clean l"
  by (simp add: ledger_clean_def clean_tail_def ledger_reads)

lemma record_checks_board:
  "s \<in> set NODE_STATES \<Longrightarrow> (record_checks v (rebuild v l (journal l)) n s w = Inr ()) =
     (node_allowed v (board_of v l) n s \<and> state_allowed v (board_of v l) w)"
  by (auto simp: record_checks_def node_state_def rebuild_def node_allowed_def state_allowed_def board_of_def
      bindr_def assert_transition_def split: option.splits)

lemma set_checks_board:
  "(\<exists>t. assert_transition v (w_state (rebuild v l (journal l))) w = Inr t) = state_allowed v (board_of v l) (Some w)"
  by (auto simp: rebuild_def state_allowed_def board_of_def assert_transition_def)

lemma can_transition_known: "can_transition v a b \<Longrightarrow> b \<in> set (known_states v)"
  by (auto simp: can_transition_def split: option.splits)

lemma board_append_record:
  assumes "ledger_clean l" "text_clean c (Some n) (Some s) w ev a"
    and "node_allowed v (board_of v l) n s" "state_allowed v (board_of v l) w"
  shows "board_of v (append_entry (new_entry c l (Some n) (Some s) w ev a) l) = board_record v n s w (board_of v l)"
proof -
  let ?e = "new_entry c l (Some n) (Some s) w ev a"
  have "journal (append_entry ?e l) = journal l @ [?e]"
    using assms(1) entry_clean [OF assms(1,2)] by (simp add: journal_append ledger_clean_def)
  then show ?thesis
    using assms(3,4)
    by (auto simp: board_of_def rebuild_from_snoc rebuild_step_def new_entry_def board_record_def move_state_def
        move_node_def node_allowed_def state_allowed_def update_conv' fun_eq_iff split: prod.splits option.splits
        dest: can_transition_known)
qed

lemma board_append_set:
  assumes "ledger_clean l" "text_clean c None None (Some w) ev a" and "state_allowed v (board_of v l) (Some w)"
  shows "board_of v (append_entry (new_entry c l None None (Some w) ev a) l) = board_set v w (board_of v l)"
proof -
  let ?e = "new_entry c l None None (Some w) ev a"
  have "journal (append_entry ?e l) = journal l @ [?e]"
    using assms(1) entry_clean [OF assms(1,2)] by (simp add: journal_append ledger_clean_def)
  then show ?thesis
    using assms(3)
    by (auto simp: board_of_def rebuild_from_snoc rebuild_step_def new_entry_def board_set_def move_state_def
        state_allowed_def split: prod.splits option.splits dest: can_transition_known)
qed

lemma board_read [simp]: "board_of v (snd (read_state v l)) = board_of v l"
  by (rule board_of_cong) (simp add: ledger_reads)

lemma board_append_read:
  "board_of v (snd (append_and_read v c n s w ev a (snd (read_state v l)))) =
   board_of v (append_entry (new_entry c l n s w ev a) l)"
  by (rule board_of_cong) (simp add: append_and_read_journal journal_append_read new_entry_read)

lemma board_crash_read:
  "p \<in> {Before, After_line} \<Longrightarrow> board_of v (crash_append p e (snd (read_state v l))) =
     (if p = After_line then board_of v (append_entry e l) else board_of v l)"
  by (auto simp: crash_append_def board_of_def ledger_reads journal_append_read)

lemma record_refines:
  assumes "ledger_clean l" "text_clean c (Some n) (Some s) w ev a"
  shows "board_of v (snd (record_node v c n s ev w a l)) = board_record v n s w (board_of v l)"
proof (cases "node_allowed v (board_of v l) n s \<and> state_allowed v (board_of v l) w")
  case True
  then have st: "s \<in> set NODE_STATES" by (simp add: node_allowed_def)
  with True have "record_checks v (rebuild v l (journal l)) n s w = Inr ()"
    by (simp add: record_checks_board)
  with True st show ?thesis
    using board_append_record [OF assms] by (simp add: record_node_cases board_append_read Let_def)
next
  case False
  then have "s \<in> set NODE_STATES \<Longrightarrow> record_checks v (rebuild v l (journal l)) n s w \<noteq> Inr ()"
    by (simp add: record_checks_board)
  with False show ?thesis
    by (auto simp: record_node_cases board_record_def Let_def split: sum.splits)
qed

lemma set_refines:
  assumes "ledger_clean l" "text_clean c None None (Some w) ev a"
  shows "board_of v (snd (set_workflow_state v c w ev a l)) = board_set v w (board_of v l)"
proof (cases "state_allowed v (board_of v l) (Some w)")
  case True
  then obtain t where "assert_transition v (w_state (rebuild v l (journal l))) w = Inr t"
    using set_checks_board by blast
  with True show ?thesis
    using board_append_set [OF assms] by (simp add: set_workflow_state_cases board_append_read Let_def)
next
  case False
  then obtain err where "assert_transition v (w_state (rebuild v l (journal l))) w = Inl err"
    using set_checks_board [of v l w] by (cases "assert_transition v (w_state (rebuild v l (journal l))) w") auto
  with False show ?thesis
    by (simp add: set_workflow_state_cases board_set_def Let_def)
qed

lemma crash_record_refines:
  assumes "ledger_clean l" "text_clean c (Some n) (Some s) w ev a" "p \<in> {Before, After_line}"
  shows "board_of v (crash_record v p c n s ev w a l) = (if p = After_line then board_record v n s w (board_of v l) else board_of v l)"
proof (cases "node_allowed v (board_of v l) n s \<and> state_allowed v (board_of v l) w")
  case True
  then have "s \<in> set NODE_STATES" by (simp add: node_allowed_def)
  with True have "s \<in> set NODE_STATES \<and> record_checks v (rebuild v l (journal l)) n s w = Inr ()"
    by (simp add: record_checks_board)
  with True show ?thesis
    using board_append_record [OF assms(1,2)] board_crash_read [OF assms(3)]
    by (simp add: crash_record_def Let_def new_entry_read)
next
  case False
  then have "\<not> (s \<in> set NODE_STATES \<and> record_checks v (rebuild v l (journal l)) n s w = Inr ())"
    using record_checks_board by (auto simp: node_allowed_def)
  with False show ?thesis by (auto simp: crash_record_def board_record_def Let_def)
qed

lemma crash_set_refines:
  assumes "ledger_clean l" "text_clean c None None (Some w) ev a" "p \<in> {Before, After_line}"
  shows "board_of v (crash_set v p c w ev a l) = (if p = After_line then board_set v w (board_of v l) else board_of v l)"
proof (cases "state_allowed v (board_of v l) (Some w)")
  case True
  then obtain t where "assert_transition v (w_state (rebuild v l (journal l))) w = Inr t"
    using set_checks_board by blast
  with True show ?thesis
    using board_append_set [OF assms(1,2)] board_crash_read [OF assms(3)]
    by (simp add: crash_set_def Let_def new_entry_read)
next
  case False
  then obtain err where "assert_transition v (w_state (rebuild v l (journal l))) w = Inl err"
    using set_checks_board [of v l w] by (cases "assert_transition v (w_state (rebuild v l (journal l))) w") auto
  with False show ?thesis by (simp add: crash_set_def board_set_def Let_def)
qed

section \<open>Runs\<close>

lemma claim_keeps_journal: "journal (snd (claim c k p l)) = journal l"
  by (simp add: claim_def Let_def journal_def all_lines_def split: option.split)

lemma crash_claim_keeps_journal: "journal (crash_claim k l) = journal l"
  by (simp add: crash_claim_def journal_def all_lines_def)

lemma exec_refines:
  assumes "op_clean op" "ledger_clean l"
  shows "board_of v (snd (ledger_exec v op l)) = board_step v op (board_of v l)"
  using assms
  by (cases op) (auto simp: record_refines set_refines crash_record_refines crash_set_refines
      intro!: board_of_cong claim_keeps_journal crash_claim_keeps_journal)

lemma append_clean: "ledger_clean l \<Longrightarrow> ledger_clean (append_entry e l)"
  by (simp add: ledger_clean_def clean_tail_def)

lemma crash_append_clean: "p \<in> {Before, After_line} \<Longrightarrow> ledger_clean l \<Longrightarrow> ledger_clean (crash_append p e l)"
  by (auto simp: crash_append_def append_clean)

lemma append_and_read_clean: "ledger_clean l \<Longrightarrow> ledger_clean (snd (append_and_read v c n s w ev a l))"
  by (simp add: append_and_read_def append_clean)

lemma ledger_clean_claims: "ledger_clean (l\<lparr>l_dir := d, l_claims := cs\<rparr>) = ledger_clean l"
  by (simp add: ledger_clean_def clean_tail_def)

lemma exec_clean: "op_clean op \<Longrightarrow> ledger_clean l \<Longrightarrow> ledger_clean (snd (ledger_exec v op l))"
  by (cases op) (auto simp: record_node_cases set_workflow_state_cases crash_record_def crash_set_def Let_def
      crash_claim_def claim_def append_and_read_clean crash_append_clean ledger_clean_claims split: sum.splits option.splits)

interpretation ledger_board: refining_machine "ledger_exec v" op_clean ledger_clean "board_of v" "board_step v" for v
  by unfold_locales (auto intro: exec_clean exec_refines)

text \<open>C16: the ledger implements the board: after any sequence of operations without line separators in
  their texts, and with crashes only before or after a whole line, the state a reader derives is the
  one the board reaches by the declared transitions alone; journal, cache and claims never show.\<close>

theorem ledger_implements_board:
  assumes "ledger_clean l" and "list_all op_clean ops"
  shows "board_of v (run_ops (ledger_exec v) ops l) = fold (board_step v) ops (board_of v l)"
  by (rule ledger_board.run_step [OF assms(2,1)])

definition demo_steps :: "ledger_op list" where
  "demo_steps = [SetState demo_context ''READY'' JNull ''arm'', Record demo_context ''n1'' ''RUNNING'' JNull None ''arm'',
     CrashSet Before demo_context ''RUNNING'' JNull ''arm'', SetState demo_context ''COMPLETE'' JNull ''arm'',
     Claim demo_context ''ab'' [], CrashRecord After_line demo_context ''n1'' ''STAGE_SUCCEEDED'' JNull None ''poll'']"

theorem ledger_implements_board_witness:
  "b_state (board_of topology_vocab (run_ops (ledger_exec topology_vocab) demo_steps (fresh_ledger ''r1'' ''h''))) = ''READY'' \<and>
   b_nodes (board_of topology_vocab (run_ops (ledger_exec topology_vocab) demo_steps (fresh_ledger ''r1'' ''h''))) ''n1''
     = Some ''STAGE_SUCCEEDED''"
proof -
  have clean: "ledger_clean (fresh_ledger ''r1'' ''h'')" "list_all op_clean demo_steps"
    by code_simp+
  have "b_state (fold (board_step topology_vocab) demo_steps (board_of topology_vocab (fresh_ledger ''r1'' ''h''))) = ''READY''"
    "b_nodes (fold (board_step topology_vocab) demo_steps (board_of topology_vocab (fresh_ledger ''r1'' ''h''))) ''n1''
       = Some ''STAGE_SUCCEEDED''"
    by code_simp+
  then show ?thesis unfolding ledger_implements_board [OF clean] by blast
qed

end
