(* ===== verification/Supervisor_Progress.thy ===== *)
theory Supervisor_Progress
  imports Workflow_Supervisor
begin

text \<open>
  What the supervisor gets done: a watch always returns, and a poll that sees the whole proof
  advances every successor.
\<close>

section \<open>The clock of a watch\<close>

definition MAX_WATCH_SECONDS :: nat where "MAX_WATCH_SECONDS = 86400"

definition watch_deadline :: "rat \<Rightarrow> rat \<Rightarrow> rat" where
  \<comment> \<open>\<open>time.monotonic() + min(max(1.0, float(args.max)), MAX_WATCH_SECONDS)\<close>\<close>
  "watch_deadline start requested = start + min (max 1 requested) (of_nat MAX_WATCH_SECONDS)"

definition watch_ticks :: "rat \<Rightarrow> (surroundings \<times> rat) list \<Rightarrow> (surroundings \<times> bool) list" where
  \<comment> \<open>each poll with the reading of the clock after it\<close>
  "watch_ticks deadline polls = map (\<lambda>(su, t). (su, deadline \<le> t)) polls"

primrec paced :: "rat \<Rightarrow> rat \<Rightarrow> rat list \<Rightarrow> bool" where
  \<comment> \<open>readings of a monotonic clock with a sleep of at least \<open>gap\<close> in between\<close>
  "paced earliest gap [] = True"
| "paced earliest gap (t # ts) = (earliest \<le> t \<and> paced (t + gap) gap ts)"

lemma paced_nth: "paced earliest gap ts \<Longrightarrow> 0 \<le> gap \<Longrightarrow> i < length ts \<Longrightarrow> earliest + of_nat i * gap \<le> ts ! i"
proof (induction ts arbitrary: earliest i)
  case (Cons t ts)
  show ?case
  proof (cases i)
    case (Suc j)
    with Cons.IH [of "t + gap" j] Cons.prems have "t + gap + of_nat j * gap \<le> ts ! j" by simp
    with Cons.prems Suc show ?thesis by (simp add: algebra_simps)
  qed (use Cons.prems in simp)
qed simp

lemma watch_deadline_ends: "list_ex snd ticks \<Longrightarrow> fst (cmd_watch v rt ticks w) \<noteq> Inr None"
proof (induction ticks arbitrary: w)
  case (Cons tick ticks)
  then show ?case
    by (auto simp: bindc_def split: prod.splits sum.splits)
qed simp

text \<open>C17: a watch returns: whatever its polls see, after at most 86401 polls with its pauses of at least
  one second it has answered or raised, because the deadline is never more than a day away.\<close>

theorem watch_returns:
  assumes "paced start (max 1 interval) (map snd polls)" and "MAX_WATCH_SECONDS < length polls"
  shows "fst (cmd_watch v rt (watch_ticks (watch_deadline start requested) polls) w) \<noteq> Inr None"
proof (rule watch_deadline_ends)
  let ?p = "polls ! MAX_WATCH_SECONDS"
  have "start + of_nat MAX_WATCH_SECONDS * max 1 interval \<le> snd ?p"
    using paced_nth [OF assms(1), of MAX_WATCH_SECONDS] assms(2) by (simp add: max_def)
  moreover have "(of_nat MAX_WATCH_SECONDS :: rat) \<le> of_nat MAX_WATCH_SECONDS * max 1 interval"
    using mult_left_mono [of 1 "max 1 interval" "of_nat MAX_WATCH_SECONDS"] by simp
  ultimately have "watch_deadline start requested \<le> snd ?p"
    by (simp add: watch_deadline_def)
  moreover have "?p \<in> set polls"
    using assms(2) by simp
  ultimately show "list_ex snd (watch_ticks (watch_deadline start requested) polls)"
    by (auto simp: list_ex_iff watch_ticks_def case_prod_unfold intro!: bexI [of _ ?p])
qed

definition demo_polls :: "(surroundings \<times> rat) list" where
  "demo_polls = map (\<lambda>i. (demo_su, of_nat i)) [0 ..< Suc MAX_WATCH_SECONDS]"

lemma demo_paced: "e \<le> of_nat n \<Longrightarrow> paced e 1 (map of_nat [n ..< n + k])"
proof (induction k arbitrary: e n)
  case (Suc k)
  have "[n ..< n + Suc k] = n # [Suc n ..< Suc n + k]" by (simp add: upt_conv_Cons)
  with Suc.IH [of "of_nat n + 1" "Suc n"] Suc.prems show ?case by (simp add: add.commute)
qed simp

theorem watch_returns_witness:
  "fst (cmd_watch topology_vocab demo_route (watch_ticks (watch_deadline 0 60) demo_polls) (demo_world [])) \<noteq> Inr None"
proof (rule watch_returns)
  show "paced 0 (max 1 1) (map snd demo_polls)"
    using demo_paced [of 0 0 "Suc MAX_WATCH_SECONDS"] by (simp add: demo_polls_def comp_def)
qed (simp add: demo_polls_def)

section \<open>A proved predecessor is advanced\<close>

definition successor_claim :: "surroundings \<Rightarrow> route \<Rightarrow> armed \<Rightarrow> json \<Rightarrow> string \<Rightarrow> string" where
  "successor_claim su rt a identity successor =
     successor_key (su_sha256 su) (rt_hash rt) (a_node a) (py_str identity) successor"

definition hex_digest :: "(string \<Rightarrow> string) \<Rightarrow> bool" where
  \<comment> \<open>\<open>sha256(...).hexdigest()\<close>: 64 lower-case hexadecimal digits\<close>
  "hex_digest h \<longleftrightarrow> (\<forall>s. length (h s) = 64 \<and> list_all is_lower_hex (h s))"

lemma hex_key_safe: "hex_digest (su_sha256 su) \<Longrightarrow> safe_claim_key (successor_claim su rt a identity s)"
  by (auto simp: hex_digest_def safe_claim_key_def successor_claim_def successor_key_def list_all_iff dest: in_set_takeD)
    (metis length_0_conv zero_neq_numeral)

lemma start_successor_done:
  assumes "a_successor_command a = [] \<or> su_popen su (a_successor_command a) \<noteq> None"
  shows "\<exists>w'. start_successor su a s key w = (Inr (a_successor_command a \<noteq> []), w') \<and> wd_ledger w' = wd_ledger w"
  using assms by (auto simp: start_successor_def)

lemma claim_done:
  assumes "safe_claim_key key"
  shows "\<exists>created body l'. claim c key p l = (Inr (created, body), l') \<and> claim_taken l' key \<and>
    (\<exists>new. l_claims l' = l_claims l @ new)"
  using assms by (cases "map_of (l_claims l) key") (auto simp: claim_def claim_taken_def Let_def map_add_def)

lemma claim_and_start_done:
  assumes "safe_claim_key (successor_claim su rt a identity s)"
    and "a_successor_command a = [] \<or> su_popen su (a_successor_command a) \<noteq> None"
  obtains ad w' where "claim_and_start su rt a identity s w = (Inr ad, w')" "ad_successor ad = s"
    "claim_taken (wd_ledger w') (successor_claim su rt a identity s)"
    "\<exists>new. l_claims (wd_ledger w') = l_claims (wd_ledger w) @ new"
    "ad_created ad \<longrightarrow> ad_started ad = (a_successor_command a \<noteq> [])"
proof -
  let ?key = "successor_claim su rt a identity s"
  obtain created body l' where c: "claim (su_context su) ?key (claim_payload rt (a_node a) s identity) (wd_ledger w) = (Inr (created, body), l')"
    and l': "claim_taken l' ?key" "\<exists>new. l_claims l' = l_claims (wd_ledger w) @ new"
    using claim_done [OF assms(1)] by blast
  obtain w1 where w1: "start_successor su a s ?key (w\<lparr>wd_ledger := l'\<rparr>) = (Inr (a_successor_command a \<noteq> []), w1)" "wd_ledger w1 = l'"
    using start_successor_done [OF assms(2)] by fastforce
  show thesis
  proof (cases created)
    case True
    show thesis
      by (rule that [of "\<lparr>ad_successor = s, ad_key = ?key, ad_created = True, ad_started = (a_successor_command a \<noteq> [])\<rparr>" w1])
        (use True c l' w1 in \<open>simp_all add: claim_and_start_def successor_claim_def [symmetric] bindc_apply on_ledger_def Let_def\<close>)
  next
    case False
    show thesis
      by (rule that [of "\<lparr>ad_successor = s, ad_key = ?key, ad_created = False, ad_started = False\<rparr>" "w\<lparr>wd_ledger := l'\<rparr>"])
        (use False c l' in \<open>simp_all add: claim_and_start_def successor_claim_def [symmetric] bindc_apply on_ledger_def Let_def\<close>)
  qed
qed

lemma claim_taken_append: "l_claims l' = l_claims l @ new \<Longrightarrow> claim_taken l k \<Longrightarrow> claim_taken l' k"
  by (auto simp: claim_taken_def map_add_def split: option.splits)

lemma advance_all_done:
  assumes "hex_digest (su_sha256 su)" "a_successor_command a = [] \<or> su_popen su (a_successor_command a) \<noteq> None"
  shows "\<exists>ads w'. advance_all su rt a identity ss w = (Inr ads, w') \<and> map ad_successor ads = ss \<and>
    (\<exists>new. l_claims (wd_ledger w') = l_claims (wd_ledger w) @ new) \<and>
    (\<forall>s \<in> set ss. claim_taken (wd_ledger w') (successor_claim su rt a identity s)) \<and>
    (\<forall>ad \<in> set ads. ad_created ad \<longrightarrow> ad_started ad = (a_successor_command a \<noteq> []))"
proof (induction ss arbitrary: w)
  case (Cons s ss)
  obtain ad w1 where 1: "claim_and_start su rt a identity s w = (Inr ad, w1)" "ad_successor ad = s"
    "claim_taken (wd_ledger w1) (successor_claim su rt a identity s)"
    and new1: "\<exists>new. l_claims (wd_ledger w1) = l_claims (wd_ledger w) @ new"
    and start1: "ad_created ad \<longrightarrow> ad_started ad = (a_successor_command a \<noteq> [])"
    by (rule claim_and_start_done [OF hex_key_safe [OF assms(1)] assms(2)])
  obtain ads w2 where 2: "advance_all su rt a identity ss w1 = (Inr ads, w2)" "map ad_successor ads = ss"
    "\<forall>s \<in> set ss. claim_taken (wd_ledger w2) (successor_claim su rt a identity s)"
    and new2: "\<exists>new. l_claims (wd_ledger w2) = l_claims (wd_ledger w1) @ new"
    and start2: "\<forall>ad \<in> set ads. ad_created ad \<longrightarrow> ad_started ad = (a_successor_command a \<noteq> [])"
    using Cons.IH [of w1] by blast
  have "claim_taken (wd_ledger w2) (successor_claim su rt a identity s)"
    using new2 1(3) claim_taken_append by blast
  moreover have "\<exists>new. l_claims (wd_ledger w2) = l_claims (wd_ledger w) @ new"
    using new1 new2 by auto
  moreover have "advance_all su rt a identity (s # ss) w = (Inr (ad # ads), w2)"
    using 1(1) 2(1) by (simp add: bindc_def)
  ultimately show ?case using 1(2) 2(2,3) start1 start2 by auto
qed simp

lemma get_state_done:
  "get_state v w = (Inr (rebuild v (wd_ledger w) (journal (wd_ledger w))), w\<lparr>wd_ledger := snd (read_state v (wd_ledger w))\<rparr>)"
  by (simp add: get_state_def on_ledger_def case_prod_unfold ledger_reads)

lemma set_state_goes:
  assumes "can_transition v (w_state (rebuild v (wd_ledger w) (journal (wd_ledger w)))) target"
  obtains w' where "set_state v su target ev actor w = (Inr (), w')" "l_claims (wd_ledger w') = l_claims (wd_ledger w)"
proof -
  let ?l1 = "snd (read_state v (wd_ledger w))"
  let ?r = "append_and_read v (su_context su) None None (Some target) ev actor ?l1"
  have "assert_transition v (w_state (rebuild v (wd_ledger w) (journal (wd_ledger w)))) target = Inr target"
    using assms by (simp add: assert_transition_def)
  then have "set_workflow_state v (su_context su) target ev actor (wd_ledger w) = ?r"
    by (simp add: set_workflow_state_cases Let_def)
  moreover obtain st where "fst ?r = Inr st" by (simp add: append_and_read_def ledger_reads)
  ultimately have "set_state v su target ev actor w = (Inr (), w\<lparr>wd_ledger := snd ?r\<rparr>)"
    by (simp add: set_state_def bindc_def on_ledger_def case_prod_unfold)
  moreover have "l_claims (snd ?r) = l_claims (wd_ledger w)"
    by (simp add: append_and_read_journal ledger_reads)
  ultimately show thesis using that by simp
qed

lemma set_node_goes:
  assumes "target \<in> set NODE_STATES" "node_state (rebuild v (wd_ledger w) (journal (wd_ledger w))) node = Some current"
    and "can_transition v current target"
  obtains w' where "set_node v su node target ev actor w = (Inr (), w')" "l_claims (wd_ledger w') = l_claims (wd_ledger w)"
proof -
  let ?l1 = "snd (read_state v (wd_ledger w))"
  let ?r = "append_and_read v (su_context su) (Some node) (Some target) None ev actor ?l1"
  have "record_checks v (rebuild v (wd_ledger w) (journal (wd_ledger w))) node target None = Inr ()"
    using assms(2,3) by (simp add: record_checks_def assert_transition_def)
  then have "record_node v (su_context su) node target ev None actor (wd_ledger w) = ?r"
    using assms(1) by (simp add: record_node_cases Let_def)
  moreover obtain st where "fst ?r = Inr st" by (simp add: append_and_read_def ledger_reads)
  ultimately have "set_node v su node target ev actor w = (Inr (), w\<lparr>wd_ledger := snd ?r\<rparr>)"
    by (simp add: set_node_def bindc_def on_ledger_def case_prod_unfold)
  moreover have "l_claims (snd ?r) = l_claims (wd_ledger w)"
    by (simp add: append_and_read_journal ledger_reads)
  ultimately show thesis using that by simp
qed

text \<open>Moving on where the table allows it always succeeds.\<close>

lemma guarded_set_state:
  "\<exists>w'. bindc (get_state v) (\<lambda>st. when_c (can_transition v (w_state st) target) (set_state v su target ev actor)) w = (Inr (), w') \<and>
     l_claims (wd_ledger w') = l_claims (wd_ledger w)"
proof -
  let ?w1 = "w\<lparr>wd_ledger := snd (read_state v (wd_ledger w))\<rparr>"
  let ?st = "rebuild v (wd_ledger w) (journal (wd_ledger w))"
  have same: "rebuild v (wd_ledger ?w1) (journal (wd_ledger ?w1)) = ?st"
    by (simp add: ledger_reads rebuild_def)
  show ?thesis
  proof (cases "can_transition v (w_state ?st) target")
    case True
    then have "can_transition v (w_state (rebuild v (wd_ledger ?w1) (journal (wd_ledger ?w1)))) target"
      by (simp only: same)
    then obtain w' where "set_state v su target ev actor ?w1 = (Inr (), w')" "l_claims (wd_ledger w') = l_claims (wd_ledger ?w1)"
      by (rule set_state_goes)
    with True show ?thesis by (simp add: bindc_def get_state_done when_c_def ledger_reads)
  qed (simp add: bindc_def get_state_done when_c_def ledger_reads)
qed

lemma bindc_assoc: "bindc m (\<lambda>a. bindc (f a) g) = bindc (bindc m f) g"
  by (rule ext) (simp add: bindc_apply split: prod.split sum.split)

lemma bindc_first: "m s = (Inr a, t) \<Longrightarrow> bindc m f s = f a t"
  by (simp add: bindc_apply)

lemma when_c_simps: "when_c True m = m" "when_c False m = ret ()"
  by (simp_all add: when_c_def)

lemma advance_state_done:
  "\<exists>w'. advance_state v su a ads w = (Inr (), w') \<and> l_claims (wd_ledger w') = l_claims (wd_ledger w)"
proof (cases "list_ex ad_created ads")
  case True
  let ?move = "\<lambda>target ev. bindc (get_state v) (\<lambda>st. when_c (can_transition v (w_state st) target) (set_state v su target ev ''poll''))"
  let ?ev = "JObj [(''node'', JStr (a_node a)), (''successors'', JList (map JStr (a_successors a)))]"
  let ?tail = "when_c (list_ex ad_started ads) (?move ''NEXT_RUNNING'' (JObj [(''node'', JStr (a_node a))]))"
  have split: "advance_state v su a ads = bindc (?move ''NEXT_REGISTERED'' ?ev) (\<lambda>_. ?tail)"
    using True by (simp add: advance_state_def when_c_simps bindc_assoc)
  obtain w1 where 1: "?move ''NEXT_REGISTERED'' ?ev w = (Inr (), w1)" "l_claims (wd_ledger w1) = l_claims (wd_ledger w)"
    using guarded_set_state by blast
  obtain w2 where 2: "?move ''NEXT_RUNNING'' (JObj [(''node'', JStr (a_node a))]) w1 = (Inr (), w2)"
    "l_claims (wd_ledger w2) = l_claims (wd_ledger w1)"
    using guarded_set_state by blast
  have "advance_state v su a ads w = ?tail w1"
    unfolding split by (rule bindc_first [where m = "?move ''NEXT_REGISTERED'' ?ev"]) (rule 1(1))
  moreover have "?tail w1 = (if list_ex ad_started ads then (Inr (), w2) else (Inr (), w1))"
    by (cases "list_ex ad_started ads") (simp_all only: when_c_simps 2(1) if_True if_False cmd_simps)
  ultimately show ?thesis using 1(2) 2(2) by auto
qed (simp add: advance_state_def when_c_simps)

text \<open>Nothing holds the advance back: the artifacts are there and a monitored condition matched.\<close>

definition unhindered :: "surroundings \<Rightarrow> armed \<Rightarrow> bool" where
  "unhindered su a \<longleftrightarrow> \<not> (ar_checked (artifact_evidence su a) \<and> ar_missing (artifact_evidence su a) \<noteq> []) \<and>
     (a_continuation_kind a = ''monitor'' \<longrightarrow> monitor_matched su a)"

definition proves_success :: "obj \<Rightarrow> bool" where
  "proves_success ev \<longleftrightarrow> truthy (oget ev ''terminal'') \<and> oget ev ''quiescent'' \<noteq> JBool False \<and> truthy (oget ev ''succeeded'')"

lemma evaluate_with_done:
  assumes "proves_success ev" "unhindered su a"
    and "node_state (rebuild v (wd_ledger w) (journal (wd_ledger w))) (a_node a) = Some current"
    and "can_transition v current ''STAGE_SUCCEEDED''"
    and "hex_digest (su_sha256 su)" "a_successor_command a = [] \<or> su_popen su (a_successor_command a) \<noteq> None"
  shows "\<exists>ads w'. evaluate_with v su rt a ev w = (Inr \<lparr>po_node = a_node a, po_action = ''advanced'', po_successors = ads\<rparr>, w') \<and>
    map ad_successor ads = a_successors a \<and>
    (\<forall>s \<in> set (a_successors a). claim_taken (wd_ledger w') (successor_claim su rt a (oget ev ''identity'') s)) \<and>
    (\<forall>ad \<in> set ads. ad_created ad \<longrightarrow> ad_started ad = (a_successor_command a \<noteq> []))"
proof -
  let ?ev0 = "AList.update ''artifacts'' (artifacts_json (artifact_evidence su a)) ev"
  let ?ev1 = "if a_continuation_kind a = ''monitor'' then AList.update ''monitor'' (JStr ''matched'') ?ev0 else ?ev0"
  have same: "oget ?ev1 ''identity'' = oget ev ''identity''" by simp
  have member: "''STAGE_SUCCEEDED'' \<in> set NODE_STATES" by (simp add: NODE_STATES_def)
  obtain w1 where 1: "set_node v su (a_node a) ''STAGE_SUCCEEDED'' (JObj ?ev1) ''poll'' w = (Inr (), w1)"
    by (rule set_node_goes [OF member assms(3,4)])
  obtain ads w2 where 2: "advance_all su rt a (oget ev ''identity'') (a_successors a) w1 = (Inr ads, w2)"
    "map ad_successor ads = a_successors a"
    "\<forall>s \<in> set (a_successors a). claim_taken (wd_ledger w2) (successor_claim su rt a (oget ev ''identity'') s)"
    "\<forall>ad \<in> set ads. ad_created ad \<longrightarrow> ad_started ad = (a_successor_command a \<noteq> [])"
    using advance_all_done [OF assms(5,6)] by blast
  obtain w3 where 3: "advance_state v su a ads w2 = (Inr (), w3)" "l_claims (wd_ledger w3) = l_claims (wd_ledger w2)"
    using advance_state_done by blast
  have "evaluate_with v su rt a ev w =
     bindc (set_node v su (a_node a) ''STAGE_SUCCEEDED'' (JObj ?ev1) ''poll'') (\<lambda>_.
     bindc (advance_all su rt a (oget ?ev1 ''identity'') (a_successors a)) (\<lambda>ads.
     bindc (advance_state v su a ads) (\<lambda>_.
     ret \<lparr>po_node = a_node a, po_action = ''advanced'', po_successors = ads\<rparr>))) w"
    using assms(1,2) by (auto simp: evaluate_with_def Let_def proves_success_def unhindered_def)
  also have "\<dots> = (Inr \<lparr>po_node = a_node a, po_action = ''advanced'', po_successors = ads\<rparr>, w3)"
    unfolding same by (simp add: bindc_apply 1 2(1) 3(1))
  finally show ?thesis
    using 2(2-4) 3(2) by (auto simp: claim_taken_def)
qed

lemma evidence_frame: "predecessor_evidence su a w = (Inr ev, w1) \<Longrightarrow> wd_ledger w1 = wd_ledger w"
  by (auto simp: predecessor_evidence_def resource_evidence_def Let_def split: if_splits option.splits prod.splits sum.splits)

text \<open>C18: a proved predecessor is advanced: when the evidence is terminal, quiescent and successful,
  nothing is missing, the node is where it may succeed, and the successor command can be started,
  the evaluation does not fail; it answers for every declared successor in order, leaves each one
  claimed, and every claim it created itself it also started.\<close>

theorem proved_predecessor_is_advanced:
  assumes "predecessor_evidence su a w = (Inr ev, w1)" and "proves_success ev" and "unhindered su a"
    and "node_state (rebuild v (wd_ledger w) (journal (wd_ledger w))) (a_node a) = Some current"
    and "can_transition v current ''STAGE_SUCCEEDED''"
    and "hex_digest (su_sha256 su)" and "su_popen su (a_successor_command a) \<noteq> None"
  shows "\<exists>ads w'. evaluate v su rt a w = (Inr \<lparr>po_node = a_node a, po_action = ''advanced'', po_successors = ads\<rparr>, w') \<and>
    map ad_successor ads = a_successors a \<and>
    (\<forall>s \<in> set (a_successors a). claim_taken (wd_ledger w') (successor_claim su rt a (oget ev ''identity'') s)) \<and>
    (\<forall>ad \<in> set ads. ad_created ad \<longrightarrow> ad_started ad = (a_successor_command a \<noteq> []))"
proof -
  have "node_state (rebuild v (wd_ledger w1) (journal (wd_ledger w1))) (a_node a) = Some current"
    using assms(4) evidence_frame [OF assms(1)] by simp
  from evaluate_with_done [OF assms(2,3) this assms(5,6)] assms(1,7) show ?thesis
    by (simp add: evaluate_def bindc_apply)
qed

theorem proved_predecessor_is_advanced_witness:
  "\<exists>row w'. evaluate topology_vocab demo_su demo_route demo_armed (demo_world []) = (Inr row, w') \<and> po_action row = ''advanced'' \<and>
     map ad_successor (po_successors row) = [''n2'']"
proof -
  let ?r = "predecessor_evidence demo_su demo_armed (demo_world [])"
  have ok: "\<not> isl (fst ?r)" and success: "proves_success (projr (fst ?r))" by code_simp+
  have ev: "?r = (Inr (projr (fst ?r)), snd ?r)"
    using sum.collapse(2) [OF ok] by (simp add: prod_eq_iff)
  have hex: "hex_digest (su_sha256 demo_su)"
    by (simp add: hex_digest_def demo_su_def list_all_iff less_eq_char_def)
  have free: "unhindered demo_su demo_armed" by code_simp
  have node: "node_state (rebuild topology_vocab (wd_ledger (demo_world [])) (journal (wd_ledger (demo_world [])))) (a_node demo_armed)
      = Some ''RUNNING''" by code_simp
  have can: "can_transition topology_vocab ''RUNNING'' ''STAGE_SUCCEEDED''"
    by (simp add: can_transition_def topology_targets known_states_def topology_vocab_def)
  have start: "su_popen demo_su (a_successor_command demo_armed) \<noteq> None" by (simp add: demo_su_def)
  have succs: "a_successors demo_armed = [''n2'']" by (simp add: demo_armed_def)
  from proved_predecessor_is_advanced [OF ev success free node can hex start] show ?thesis
    unfolding succs by fastforce
qed

end
