(* ===== verification/Supervisor_Lease.thy ===== *)
theory Supervisor_Lease
  imports Attempt_Registry Processes
begin

text \<open>
  The liveness lease of a supervised owner (\<open>utilities/dispatch_contract.py\<close>, \<open>supervisor_lease_path\<close>
  to \<open>remove_supervisor_lease\<close>): a file beside the registry that the supervisor keeps locked with
  \<open>flock\<close> while it works and removes when it ends, and that others probe. A path names an inode, a
  lock belongs to an inode, and a process may hold an inode that no path names any more; so the
  operations are modelled one system call at a time, and any number of processes interleave.
\<close>

section \<open>The declaration of a lease\<close>

definition SUPERVISOR_LEASE_KIND :: string where
  "SUPERVISOR_LEASE_KIND = ''flock-v1''"

definition SUPERVISOR_LEASE_NONCE_RE :: "string \<Rightarrow> bool" where
  "SUPERVISOR_LEASE_NONCE_RE s = hex64 s"

text \<open>What a path names, and the part of the world the lease uses. \<open>lw_registry_dir\<close> is the parent of
  the resolved registry, \<open>lw_expand\<close> is \<open>str(Path(raw).expanduser())\<close>, \<open>lw_broken\<close> are the inodes whose
  reads, writes and locks raise \<open>OSError\<close>; a lock names the process that has it.\<close>

datatype lease_entry = Absent | Symlink | Irregular | Unopenable | Regular nat

record lease_hold =
  lh_attempt :: string
  lh_inode :: nat
  lh_path :: string
  lh_meta :: meta

datatype lease_pc =
    Idle
  | Opened lease_hold            \<comment> \<open>after \<open>os.open\<close>\<close>
  | Locked lease_hold            \<comment> \<open>after \<open>flock\<close>\<close>
  | Holding lease_hold           \<comment> \<open>at the \<open>yield\<close>\<close>
  | Closing lease_hold           \<comment> \<open>in the \<open>finally\<close> block\<close>
  | Same_file lease_hold         \<comment> \<open>\<open>lstat\<close> found the own inode\<close>
  | Unlinked lease_hold          \<comment> \<open>before the unlock\<close>
  | Removing lease_hold          \<comment> \<open>\<open>remove_supervisor_lease\<close> after \<open>os.open\<close>\<close>

record lease_world =
  lw_registry_dir :: string
  lw_expand :: "string \<Rightarrow> string"
  lw_dir_symlink :: bool
  lw_broken :: "nat \<Rightarrow> bool"
  lw_entry :: "string \<Rightarrow> lease_entry"
  lw_content :: "nat \<Rightarrow> string"
  lw_lock :: "nat \<Rightarrow> nat option"
  lw_pc :: "nat \<Rightarrow> lease_pc"
  lw_next :: nat

definition supervisor_lease_path :: "lease_world \<Rightarrow> string \<Rightarrow> string + string" where
  "supervisor_lease_path w attempt_id =
    (if \<not> prefixed_class ''att-'' ident_char 1 240 attempt_id then Inl ''supervisor-lease-attempt-invalid''
     else Inr ((if lw_registry_dir w = ''/'' then [] else lw_registry_dir w) @ ''/supervisor-state/''
                @ attempt_id @ ''.lease''))"

definition validated_supervisor_lease_path :: "lease_world \<Rightarrow> string \<Rightarrow> string \<Rightarrow> string + string" where
  "validated_supervisor_lease_path w attempt_id raw_path =
    bindr (supervisor_lease_path w attempt_id) (\<lambda>expected.
      let candidate = lw_expand w raw_path in
      if \<not> is_absolute candidate \<or> candidate \<noteq> expected then Inl ''supervisor-lease-path-noncanonical''
      else if lw_dir_symlink w \<or> lw_entry w candidate = Symlink then Inl ''supervisor-lease-path-symlink''
      else Inr candidate)"

definition supervisor_lease_metadata_valid :: "lease_world \<Rightarrow> meta \<Rightarrow> bool" where
  "supervisor_lease_metadata_valid w md =
    (if map_of md ''attempt_schema_version'' \<noteq> Some ''2'' \<or> map_of md ''dispatch_depth'' \<noteq> Some ''1''
        \<or> map_of md ''worker_type'' \<noteq> Some ''owner'' \<or> map_of md ''harness'' \<noteq> Some ''codex''
        \<or> map_of md ''transport'' \<noteq> Some ''headless''
        \<or> map_of md ''execution_surface'' \<noteq> Some ''registered-headless''
        \<or> map_of md ''registered_worker'' \<noteq> Some ''1''
        \<or> map_of md ''completion_delivery'' \<noteq> Some ''app-server-supervised''
        \<or> map_of md ''supervisor_lease'' \<noteq> Some SUPERVISOR_LEASE_KIND
        \<or> \<not> SUPERVISOR_LEASE_NONCE_RE (mget md ''supervisor_lease_nonce'' [])
        \<or> mget md ''attempt_id'' [] = []
     then False
     else \<not> isl (validated_supervisor_lease_path w (mget md ''attempt_id'' []) (mget md ''supervisor_lease_file'' [])))"

definition supervisor_lease_payload :: "meta \<Rightarrow> string" where
  "supervisor_lease_payload md =
    ''kind='' @ SUPERVISOR_LEASE_KIND @ [newline] @ ''attempt_id='' @ mget md ''attempt_id'' [] @ [newline]
      @ ''nonce='' @ mget md ''supervisor_lease_nonce'' [] @ [newline]"

definition declared_supervisor_lease_metadata ::
  "lease_world \<Rightarrow> string list option \<Rightarrow> string \<Rightarrow> string + meta" where
  \<comment> \<open>\<open>None\<close>: the registry could not be read\<close>
  "declared_supervisor_lease_metadata w registry attempt_id = (case registry of
       None \<Rightarrow> Inl ''supervisor-lease-registry-unreadable''
     | Some lines \<Rightarrow> (case all_rows (attempt_row attempt_id) 0 lines of
         [(i, fs)] \<Rightarrow>
           if \<not> open_status (fs ! 1) then Inl ''supervisor-lease-attempt-not-open''
           else if \<not> supervisor_lease_metadata_valid w (row_meta fs) then Inl ''supervisor-lease-declaration-invalid''
           else Inr (row_meta fs)
       | _ \<Rightarrow> Inl ''supervisor-lease-attempt-not-open''))"

section \<open>The probe\<close>

definition supervisor_lease_is_held :: "lease_world \<Rightarrow> meta \<Rightarrow> bool" where
  "supervisor_lease_is_held w md =
    (if \<not> supervisor_lease_metadata_valid w md then False
     else case validated_supervisor_lease_path w (mget md ''attempt_id'' []) (mget md ''supervisor_lease_file'' []) of
       Inl _ \<Rightarrow> False
     | Inr path \<Rightarrow> (case lw_entry w path of
         Regular i \<Rightarrow> \<not> lw_broken w i \<and> lw_content w i = supervisor_lease_payload md \<and> lw_lock w i \<noteq> None
       | _ \<Rightarrow> False))"

section \<open>Holding and removing, one system call at a time\<close>

definition set_pc :: "nat \<Rightarrow> lease_pc \<Rightarrow> lease_world \<Rightarrow> lease_world" where
  "set_pc p pc w = w\<lparr>lw_pc := (lw_pc w)(p := pc)\<rparr>"

definition open_lease_entry :: "string \<Rightarrow> bool \<Rightarrow> lease_world \<Rightarrow> string + (nat \<times> lease_world)" where
  \<comment> \<open>\<open>_open_supervisor_lease\<close>; an \<open>OSError\<close> is \<open>''OSError''\<close> or, when no file is there, \<open>''FileNotFoundError''\<close>\<close>
  "open_lease_entry path create w = (case lw_entry w path of
       Regular i \<Rightarrow> Inr (i, w)
     | Absent \<Rightarrow>
         if create
         then Inr (lw_next w, w\<lparr>lw_entry := (lw_entry w)(path := Regular (lw_next w)),
                                 lw_content := (lw_content w)(lw_next w := []), lw_next := Suc (lw_next w)\<rparr>)
         else Inl ''FileNotFoundError''
     | Irregular \<Rightarrow> Inl ''supervisor-lease-not-regular''
     | Symlink \<Rightarrow> Inl ''OSError''
     | Unopenable \<Rightarrow> Inl ''OSError'')"

definition hold_open :: "nat \<Rightarrow> string list option \<Rightarrow> string \<Rightarrow> string \<Rightarrow> (lease_world, string, string) cmd" where
  \<comment> \<open>\<open>hold_supervisor_lease\<close> from its start to \<open>os.open\<close>\<close>
  "hold_open p registry attempt_id raw_path w =
    (case validated_supervisor_lease_path w attempt_id raw_path of
       Inl e \<Rightarrow> (Inl e, w)
     | Inr path \<Rightarrow> (case declared_supervisor_lease_metadata w registry attempt_id of
         Inl e \<Rightarrow> (Inl e, w)
       | Inr md \<Rightarrow>
           if map_of md ''supervisor_lease_file'' \<noteq> Some path then (Inl ''supervisor-lease-declaration-changed'', w)
           else case open_lease_entry path True w of
             Inl e \<Rightarrow> (Inl (if e = ''OSError'' then ''supervisor-lease-open-failed'' else e), w)
           | Inr (i, w') \<Rightarrow> (Inr ''opened'', set_pc p (Opened \<lparr>lh_attempt = attempt_id, lh_inode = i, lh_path = path, lh_meta = md\<rparr>) w')))"

definition take_lock :: "nat \<Rightarrow> nat \<Rightarrow> lease_world \<Rightarrow> string + lease_world" where
  \<comment> \<open>\<open>flock(fd, LOCK_EX | LOCK_NB)\<close>\<close>
  "take_lock p i w =
    (if lw_broken w i then Inl ''OSError''
     else if lw_lock w i \<noteq> None then Inl ''BlockingIOError''
     else Inr (w\<lparr>lw_lock := (lw_lock w)(i \<mapsto> p)\<rparr>))"

definition hold_lock :: "nat \<Rightarrow> lease_hold \<Rightarrow> (lease_world, string, string) cmd" where
  "hold_lock p h w = (case take_lock p (lh_inode h) w of
       Inl e \<Rightarrow> (Inl (if e = ''BlockingIOError'' then ''supervisor-lease-already-held'' else e), set_pc p Idle w)
     | Inr w' \<Rightarrow> (Inr ''locked'', set_pc p (Locked h) w'))"

definition lease_keys :: "string list" where
  "lease_keys = [''supervisor_lease'', ''supervisor_lease_file'', ''supervisor_lease_nonce'']"

definition hold_confirm :: "nat \<Rightarrow> string list option \<Rightarrow> lease_hold \<Rightarrow> (lease_world, string, string) cmd" where
  "hold_confirm p registry h w = (case declared_supervisor_lease_metadata w registry (lh_attempt h) of
       Inl e \<Rightarrow> (Inl e, set_pc p (Closing h) w)
     | Inr confirmed \<Rightarrow>
         if list_ex (\<lambda>k. map_of confirmed k \<noteq> map_of (lh_meta h) k) lease_keys
         then (Inl ''supervisor-lease-declaration-changed'', set_pc p (Closing h) w)
         else if lw_broken w (lh_inode h)
         then (Inl ''supervisor-lease-initialize-failed'', set_pc p (Closing h) w)
         else (Inr ''holding'', set_pc p (Holding h)
            (w\<lparr>lw_content := (lw_content w)(lh_inode h := supervisor_lease_payload (lh_meta h))\<rparr>)))"

definition close_lstat :: "nat \<Rightarrow> lease_hold \<Rightarrow> (lease_world, string, string) cmd" where
  "close_lstat p h w = (Inr ''lstat'',
     set_pc p (if lw_entry w (lh_path h) = Regular (lh_inode h) then Same_file h else Unlinked h) w)"

definition close_unlink :: "nat \<Rightarrow> lease_hold \<Rightarrow> (lease_world, string, string) cmd" where
  \<comment> \<open>\<open>unlink\<close> removes whatever the path names now\<close>
  "close_unlink p h w = (Inr ''unlink'',
     set_pc p (Unlinked h) (w\<lparr>lw_entry := (lw_entry w)(lh_path h := Absent)\<rparr>))"

definition drop_lock :: "nat \<Rightarrow> lease_hold \<Rightarrow> lease_world \<Rightarrow> lease_world" where
  "drop_lock p h w = set_pc p Idle (w\<lparr>lw_lock := (lw_lock w)(lh_inode h := None)\<rparr>)"

definition remove_open :: "nat \<Rightarrow> string \<Rightarrow> (lease_world, string, string) cmd" where
  "remove_open p path w =
    (if lw_dir_symlink w \<or> lw_entry w path = Symlink then (Inr ''False'', w)
     else case open_lease_entry path False w of
       Inl e \<Rightarrow> (Inr (if e = ''FileNotFoundError'' then ''True'' else ''False''), w)
     | Inr (i, _) \<Rightarrow> (Inr ''opened'', set_pc p (Removing \<lparr>lh_attempt = [], lh_inode = i, lh_path = path, lh_meta = []\<rparr>) w))"

definition remove_lock :: "nat \<Rightarrow> lease_hold \<Rightarrow> (lease_world, string, string) cmd" where
  "remove_lock p h w = (case take_lock p (lh_inode h) w of
       Inl _ \<Rightarrow> (Inr ''False'', set_pc p Idle w)
     | Inr w' \<Rightarrow> (Inr ''locked'', set_pc p (Closing h) w'))"

text \<open>A system call of one process, or its death: the kernel drops its locks and leaves the file.\<close>

datatype lease_call =
    Hold_open nat "string list option" string string
  | Remove_open nat string
  | Step nat "string list option"
  | End_hold nat
  | Die nat

definition held_inode :: "lease_pc \<Rightarrow> nat option" where
  "held_inode pc = (case pc of
       Locked h \<Rightarrow> Some (lh_inode h) | Holding h \<Rightarrow> Some (lh_inode h) | Closing h \<Rightarrow> Some (lh_inode h)
     | Same_file h \<Rightarrow> Some (lh_inode h) | Unlinked h \<Rightarrow> Some (lh_inode h)
     | Idle \<Rightarrow> None | Opened h \<Rightarrow> None | Removing h \<Rightarrow> None)"

definition step_process :: "nat \<Rightarrow> string list option \<Rightarrow> (lease_world, string, string) cmd" where
  "step_process p registry w = (case lw_pc w p of
       Idle \<Rightarrow> (Inr ''idle'', w)
     | Opened h \<Rightarrow> hold_lock p h w
     | Locked h \<Rightarrow> hold_confirm p registry h w
     | Holding h \<Rightarrow> (Inr ''holding'', w)
     | Closing h \<Rightarrow> close_lstat p h w
     | Same_file h \<Rightarrow> close_unlink p h w
     | Unlinked h \<Rightarrow> (Inr ''unlocked'', drop_lock p h w)
     | Removing h \<Rightarrow> remove_lock p h w)"

fun lease_exec :: "lease_call \<Rightarrow> (lease_world, string, string) cmd" where
  "lease_exec (Hold_open p registry attempt_id raw_path) w =
     (if lw_pc w p = Idle then hold_open p registry attempt_id raw_path w else (Inr ''busy'', w))"
| "lease_exec (Remove_open p path) w = (if lw_pc w p = Idle then remove_open p path w else (Inr ''busy'', w))"
| "lease_exec (Step p registry) w = step_process p registry w"
| "lease_exec (End_hold p) w =
     (case lw_pc w p of Holding h \<Rightarrow> (Inr ''ending'', set_pc p (Closing h) w) | _ \<Rightarrow> (Inr ''idle'', w))"
| "lease_exec (Die p) w = (Inr ''dead'', set_pc p Idle (case held_inode (lw_pc w p) of
       None \<Rightarrow> w | Some i \<Rightarrow> w\<lparr>lw_lock := (lw_lock w)(i := None)\<rparr>))"


section \<open>The invariant\<close>

definition pc_hold :: "lease_pc \<Rightarrow> lease_hold option" where
  "pc_hold pc = (case pc of
       Idle \<Rightarrow> None | Opened h \<Rightarrow> Some h | Locked h \<Rightarrow> Some h | Holding h \<Rightarrow> Some h | Closing h \<Rightarrow> Some h
     | Same_file h \<Rightarrow> Some h | Unlinked h \<Rightarrow> Some h | Removing h \<Rightarrow> Some h)"

definition declared_pc :: "lease_pc \<Rightarrow> lease_hold option" where
  "declared_pc pc = (case pc of
       Idle \<Rightarrow> None | Opened h \<Rightarrow> Some h | Locked h \<Rightarrow> Some h | Holding h \<Rightarrow> Some h | Closing h \<Rightarrow> None
     | Same_file h \<Rightarrow> None | Unlinked h \<Rightarrow> None | Removing h \<Rightarrow> None)"

text \<open>The declaration a supervisor read is valid, and names the path it opened.\<close>

definition declared_hold :: "lease_world \<Rightarrow> lease_hold \<Rightarrow> bool" where
  "declared_hold w h \<longleftrightarrow> supervisor_lease_metadata_valid w (lh_meta h) \<and>
     validated_supervisor_lease_path w (mget (lh_meta h) ''attempt_id'' []) (mget (lh_meta h) ''supervisor_lease_file'' [])
       = Inr (lh_path h)"

definition locks_match :: "lease_world \<Rightarrow> bool" where
  "locks_match w \<longleftrightarrow> (\<forall>p i. held_inode (lw_pc w p) = Some i \<longleftrightarrow> lw_lock w i = Some p)"

definition inodes_known :: "lease_world \<Rightarrow> bool" where
  "inodes_known w \<longleftrightarrow> (\<forall>path i. lw_entry w path = Regular i \<longrightarrow> i < lw_next w) \<and>
     (\<forall>p h. pc_hold (lw_pc w p) = Some h \<longrightarrow> lh_inode h < lw_next w)"

definition holders_wrote :: "lease_world \<Rightarrow> bool" where
  "holders_wrote w \<longleftrightarrow> (\<forall>p h. lw_pc w p = Holding h \<longrightarrow>
     lw_content w (lh_inode h) = supervisor_lease_payload (lh_meta h))"

definition holders_declared :: "lease_world \<Rightarrow> bool" where
  "holders_declared w \<longleftrightarrow>
     (\<forall>p h. declared_pc (lw_pc w p) = Some h \<longrightarrow> declared_hold w h)"

definition lease_inv :: "lease_world \<Rightarrow> bool" where
  "lease_inv w \<longleftrightarrow> locks_match w \<and> inodes_known w \<and> holders_wrote w \<and> holders_declared w"

text \<open>Nothing here makes a path a symbolic link, so a declaration stays valid.\<close>

definition same_paths :: "lease_world \<Rightarrow> lease_world \<Rightarrow> bool" where
  "same_paths w w' \<longleftrightarrow> lw_registry_dir w' = lw_registry_dir w \<and> lw_expand w' = lw_expand w \<and>
     lw_dir_symlink w' = lw_dir_symlink w \<and> (\<forall>path. lw_entry w' path = Symlink \<longrightarrow> lw_entry w path = Symlink)"

lemma validated_path_same:
  assumes "same_paths w w'" "validated_supervisor_lease_path w a r = Inr path"
  shows "validated_supervisor_lease_path w' a r = Inr path"
proof -
  have "supervisor_lease_path w' a = supervisor_lease_path w a"
    using assms(1) by (simp add: same_paths_def supervisor_lease_path_def cong: if_cong)
  with assms show ?thesis
    by (auto simp: same_paths_def validated_supervisor_lease_path_def Let_def bindr_Inr_iff split: if_splits)
qed

lemma declared_hold_same:
  assumes "same_paths w w'" "declared_hold w h"
  shows "declared_hold w' h"
proof -
  have old: "validated_supervisor_lease_path w (mget (lh_meta h) ''attempt_id'' [])
      (mget (lh_meta h) ''supervisor_lease_file'' []) = Inr (lh_path h)"
    using assms(2) by (simp add: declared_hold_def)
  then have "validated_supervisor_lease_path w' (mget (lh_meta h) ''attempt_id'' [])
      (mget (lh_meta h) ''supervisor_lease_file'' []) = Inr (lh_path h)"
    by (rule validated_path_same [OF assms(1)])
  with old assms(2) show ?thesis
    by (simp add: declared_hold_def supervisor_lease_metadata_valid_def split: if_splits)
qed

lemma set_pc_simps [simp]:
  "lw_pc (set_pc p pc w) = (lw_pc w)(p := pc)" "lw_lock (set_pc p pc w) = lw_lock w"
  "lw_entry (set_pc p pc w) = lw_entry w" "lw_content (set_pc p pc w) = lw_content w"
  "lw_next (set_pc p pc w) = lw_next w" "lw_registry_dir (set_pc p pc w) = lw_registry_dir w"
  "lw_expand (set_pc p pc w) = lw_expand w" "lw_dir_symlink (set_pc p pc w) = lw_dir_symlink w"
  "lw_broken (set_pc p pc w) = lw_broken w"
  by (simp_all add: set_pc_def)

lemma held_inode_simps [simp]:
  "held_inode Idle = None" "held_inode (Opened h) = None" "held_inode (Removing h) = None"
  "held_inode (Locked h) = Some (lh_inode h)" "held_inode (Holding h) = Some (lh_inode h)"
  "held_inode (Closing h) = Some (lh_inode h)" "held_inode (Same_file h) = Some (lh_inode h)"
  "held_inode (Unlinked h) = Some (lh_inode h)"
  by (simp_all add: held_inode_def)

lemma pc_hold_simps [simp]:
  "pc_hold Idle = None" "pc_hold (Opened h) = Some h" "pc_hold (Removing h) = Some h"
  "pc_hold (Locked h) = Some h" "pc_hold (Holding h) = Some h" "pc_hold (Closing h) = Some h"
  "pc_hold (Same_file h) = Some h" "pc_hold (Unlinked h) = Some h"
  by (simp_all add: pc_hold_def)

lemma declared_pc_simps [simp]:
  "declared_pc Idle = None" "declared_pc (Opened h) = Some h" "declared_pc (Removing h) = None"
  "declared_pc (Locked h) = Some h" "declared_pc (Holding h) = Some h" "declared_pc (Closing h) = None"
  "declared_pc (Same_file h) = None" "declared_pc (Unlinked h) = None"
  by (simp_all add: declared_pc_def)

lemma same_paths_set_pc [simp]: "same_paths w (set_pc p pc w') \<longleftrightarrow> same_paths w w'"
  by (simp add: same_paths_def)

lemma inv_known: "lease_inv w \<Longrightarrow> pc_hold (lw_pc w p) = Some h \<Longrightarrow> lh_inode h < lw_next w"
  by (simp add: lease_inv_def inodes_known_def)

lemma same_paths_refl [simp]: "same_paths w w"
  by (simp add: same_paths_def)

lemma inv_declared: "lease_inv w \<Longrightarrow> declared_pc (lw_pc w p) = Some h \<Longrightarrow> declared_hold w h"
  by (auto simp: lease_inv_def holders_declared_def)

text \<open>A process moves on without a system call that changes a lock, a name or a file.\<close>

lemma inv_move:
  assumes "lease_inv w" and "held_inode pc = held_inode (lw_pc w p)"
    and "\<And>h. pc_hold pc = Some h \<Longrightarrow> lh_inode h < lw_next w"
    and "\<And>h. pc = Holding h \<Longrightarrow> lw_content w (lh_inode h) = supervisor_lease_payload (lh_meta h)"
    and "\<And>h. declared_pc pc = Some h \<Longrightarrow> declared_hold w h"
  shows "lease_inv (set_pc p pc w)"
proof -
  have "locks_match (set_pc p pc w)" "inodes_known (set_pc p pc w)" "holders_wrote (set_pc p pc w)"
    using assms by (auto simp: lease_inv_def locks_match_def inodes_known_def holders_wrote_def)
  moreover have "holders_declared (set_pc p pc w)"
    unfolding holders_declared_def
  proof (intro allI impI)
    fix q h assume "declared_pc (lw_pc (set_pc p pc w) q) = Some h"
    then have "declared_hold w h"
      using assms(1,5) by (cases "q = p") (simp_all add: lease_inv_def holders_declared_def)
    then show "declared_hold (set_pc p pc w) h" by (rule declared_hold_same [rotated]) simp
  qed
  ultimately show ?thesis by (simp add: lease_inv_def)
qed


text \<open>The system calls: taking and dropping a lock, creating, writing and removing a file.\<close>

lemma inv_lock:
  assumes "lease_inv w" "take_lock p (lh_inode h) w = Inr w'" "lw_pc w p \<in> {Opened h, Removing h}"
  shows "lease_inv (set_pc p (Locked h) w') \<or> lw_pc w p = Removing h"
    and "lease_inv (set_pc p (Closing h) w')"
proof -
  have w': "w' = w\<lparr>lw_lock := (lw_lock w)(lh_inode h \<mapsto> p)\<rparr>" and free: "lw_lock w (lh_inode h) = None"
    using assms(2) by (auto simp: take_lock_def split: if_splits)
  have none: "held_inode (lw_pc w p) = None" and own: "pc_hold (lw_pc w p) = Some h" using assms(3) by auto
  have locks: "locks_match (set_pc p pc w')" if "held_inode pc = Some (lh_inode h)" for pc
    using assms(1) none free that unfolding lease_inv_def locks_match_def w' by (auto simp: fun_upd_def; metis option.distinct(1))
  have rest: "inodes_known (set_pc p pc w')" "holders_wrote (set_pc p pc w')"
    if "pc_hold pc = Some h" "\<And>k. pc \<noteq> Holding k" for pc
    using assms(1) own that unfolding lease_inv_def inodes_known_def holders_wrote_def w' by (auto split: if_splits)
  have same: "same_paths w (set_pc p pc w')" for pc by (simp add: w' same_paths_def)
  have decl: "holders_declared (set_pc p pc w')" if "\<And>k. declared_pc pc = Some k \<Longrightarrow> declared_hold w k" for pc
    unfolding holders_declared_def
  proof (intro allI impI)
    fix q k assume "declared_pc (lw_pc (set_pc p pc w') q) = Some k"
    then have "declared_hold w k"
      using assms(1) that [of k] by (cases "q = p") (simp_all add: lease_inv_def holders_declared_def w')
    with same show "declared_hold (set_pc p pc w') k" by (rule declared_hold_same)
  qed
  show "lease_inv (set_pc p (Closing h) w')"
    using locks [of "Closing h"] rest [of "Closing h"] decl [of "Closing h"] by (simp add: lease_inv_def)
  show "lease_inv (set_pc p (Locked h) w') \<or> lw_pc w p = Removing h"
  proof (cases "lw_pc w p = Removing h")
    case False
    with assms(3) have "declared_pc (lw_pc w p) = Some h" by auto
    with assms(1) have "declared_hold w h" by (rule inv_declared)
    then show ?thesis
      using locks [of "Locked h"] rest [of "Locked h"] decl [of "Locked h"] by (simp add: lease_inv_def)
  qed simp
qed

lemma inv_drop:
  assumes "lease_inv w" "held_inode (lw_pc w p) = Some i"
  shows "lease_inv (set_pc p Idle (w\<lparr>lw_lock := (lw_lock w)(i := None)\<rparr>))" (is "lease_inv ?w'")
proof -
  have "locks_match ?w'"
    unfolding locks_match_def
  proof (intro allI)
    fix q j
    have "held_inode (lw_pc w q) = Some j \<longleftrightarrow> lw_lock w j = Some q" "lw_lock w i = Some p"
      using assms by (auto simp: lease_inv_def locks_match_def)
    then show "held_inode (lw_pc ?w' q) = Some j \<longleftrightarrow> lw_lock ?w' j = Some q" using assms(2) by auto
  qed
  moreover have "inodes_known ?w'" "holders_wrote ?w'"
    using assms(1) by (auto simp: lease_inv_def inodes_known_def holders_wrote_def)
  moreover have "holders_declared ?w'"
    unfolding holders_declared_def
  proof (intro allI impI)
    fix q h assume "declared_pc (lw_pc ?w' q) = Some h"
    then have "declared_hold w h"
      using assms(1) by (cases "q = p") (simp_all add: lease_inv_def holders_declared_def)
    then show "declared_hold ?w' h" by (rule declared_hold_same [rotated]) (simp add: same_paths_def)
  qed
  ultimately show ?thesis by (simp add: lease_inv_def)
qed

lemma inv_unlink:
  assumes "lease_inv w"
  shows "lease_inv (w\<lparr>lw_entry := (lw_entry w)(path := Absent)\<rparr>)" (is "lease_inv ?w'")
proof -
  have "same_paths w ?w'" by (simp add: same_paths_def)
  then have "declared_hold w h \<Longrightarrow> declared_hold ?w' h" for h by (rule declared_hold_same)
  with assms show ?thesis
    by (auto simp: lease_inv_def locks_match_def inodes_known_def holders_wrote_def holders_declared_def)
qed

lemma inv_create:
  assumes "lease_inv w" "lw_entry w path = Absent"
  shows "lease_inv (w\<lparr>lw_entry := (lw_entry w)(path := Regular (lw_next w)),
    lw_content := (lw_content w)(lw_next w := []), lw_next := Suc (lw_next w)\<rparr>)" (is "lease_inv ?w'")
proof -
  have "same_paths w ?w'" using assms(2) by (simp add: same_paths_def)
  then have decl: "declared_hold w h \<Longrightarrow> declared_hold ?w' h" for h by (rule declared_hold_same)
  have less: "pc_hold (lw_pc w p) = Some h \<Longrightarrow> lh_inode h < lw_next w" for p h
    using assms(1) by (simp add: lease_inv_def inodes_known_def)
  have "holders_wrote ?w'"
    unfolding holders_wrote_def
  proof (intro allI impI)
    fix p h assume "lw_pc ?w' p = Holding h"
    with assms(1) less [of p h] show "lw_content ?w' (lh_inode h) = supervisor_lease_payload (lh_meta h)"
      by (auto simp: lease_inv_def holders_wrote_def)
  qed
  moreover have "inodes_known ?w'"
    using assms(1) less by (auto simp: lease_inv_def inodes_known_def less_Suc_eq)
  ultimately show ?thesis
    using assms(1) decl by (auto simp: lease_inv_def locks_match_def holders_declared_def)
qed

lemma inv_write:
  assumes "lease_inv w" "lw_pc w p = Locked h"
  shows "lease_inv (set_pc p (Holding h)
    (w\<lparr>lw_content := (lw_content w)(lh_inode h := supervisor_lease_payload (lh_meta h))\<rparr>))" (is "lease_inv (set_pc p _ ?w')")
proof (rule inv_move)
  have "lw_content ?w' (lh_inode k) = supervisor_lease_payload (lh_meta k)" if "lw_pc w q = Holding k" for q k
  proof -
    have "lw_lock w (lh_inode k) = Some q" "lw_lock w (lh_inode h) = Some p"
      using assms that held_inode_simps(4,5) unfolding lease_inv_def locks_match_def by metis+
    then have "lh_inode k \<noteq> lh_inode h" using assms(2) that by auto
    then show ?thesis using assms(1) that by (simp add: lease_inv_def holders_wrote_def)
  qed
  moreover have "same_paths w ?w'" by (simp add: same_paths_def)
  then have "declared_hold w k \<Longrightarrow> declared_hold ?w' k" for k by (rule declared_hold_same)
  ultimately show "lease_inv ?w'"
    using assms(1) by (auto simp: lease_inv_def locks_match_def inodes_known_def holders_wrote_def holders_declared_def)
  then show "declared_hold ?w' k" if "declared_pc (Holding h) = Some k" for k
    by (rule inv_declared [of _ p]) (use that assms(2) in simp)
qed (use assms inv_known [OF assms(1), of p] in auto)


text \<open>Every call keeps the invariant.\<close>

lemma declared_row:
  assumes "declared_supervisor_lease_metadata w registry a = Inr md"
  shows "supervisor_lease_metadata_valid w md \<and> map_of md ''attempt_id'' = Some a"
proof -
  from assms obtain lines i fs where rows: "all_rows (attempt_row a) 0 lines = [(i, fs)]"
    and "supervisor_lease_metadata_valid w (row_meta fs)" "md = row_meta fs"
    by (auto simp: declared_supervisor_lease_metadata_def split: option.splits list.splits prod.splits if_splits)
  moreover have "attempt_row a fs" by (rule all_rows_row(1) [of i _ _ lines]) (simp add: rows)
  ultimately show ?thesis by (simp add: attempt_row_def row_has_attempt_def row_meta_def)
qed

lemma declared_names_path:
  assumes "validated_supervisor_lease_path w a raw = Inr path" "declared_supervisor_lease_metadata w registry a = Inr md"
    and "map_of md ''supervisor_lease_file'' = Some path"
  shows "validated_supervisor_lease_path w (mget md ''attempt_id'' []) (mget md ''supervisor_lease_file'' []) = Inr path"
proof -
  have md: "map_of md ''attempt_id'' = Some a" "supervisor_lease_metadata_valid w md"
    using declared_row [OF assms(2)] by auto
  then have "\<not> isl (validated_supervisor_lease_path w a path)"
    using assms(3) by (simp add: supervisor_lease_metadata_valid_def mget_def split: if_splits)
  then have "validated_supervisor_lease_path w a path = Inr path"
    using assms(1) by (auto simp: validated_supervisor_lease_path_def Let_def bindr_Inr_iff split: if_splits sum.splits)
  with md assms(3) show ?thesis by (simp add: mget_def)
qed

lemma open_known: "lease_inv w \<Longrightarrow> open_lease_entry path create w = Inr (i, w') \<Longrightarrow> i < lw_next w'"
  by (auto simp: open_lease_entry_def lease_inv_def inodes_known_def split: lease_entry.splits if_splits)

lemma hold_open_inv:
  assumes "lease_inv w" "lw_pc w p = Idle"
  shows "lease_inv (snd (hold_open p registry a raw w))"
proof (cases "\<exists>m. fst (hold_open p registry a raw w) = Inr m")
  case False
  then have "snd (hold_open p registry a raw w) = w"
    by (auto simp: hold_open_def split: sum.splits if_splits)
  with assms(1) show ?thesis by simp
next
  case True
  then obtain path md i w' where path: "validated_supervisor_lease_path w a raw = Inr path"
    and md: "declared_supervisor_lease_metadata w registry a = Inr md"
    and named: "map_of md ''supervisor_lease_file'' = Some path"
    and opened: "open_lease_entry path True w = Inr (i, w')"
    and res: "snd (hold_open p registry a raw w) = set_pc p (Opened \<lparr>lh_attempt = a, lh_inode = i, lh_path = path, lh_meta = md\<rparr>) w'"
    by (auto simp: hold_open_def split: sum.splits if_splits)
  have inv: "lease_inv w'" and known: "i < lw_next w'" and same: "same_paths w w'" and pc: "lw_pc w' = lw_pc w"
    using opened assms(1) inv_create [OF assms(1), of path] open_known [OF assms(1) opened]
    by (auto simp: open_lease_entry_def same_paths_def split: lease_entry.splits if_splits)
  have "supervisor_lease_metadata_valid w md" using declared_row [OF md] by simp
  with declared_names_path [OF path md named]
  have "declared_hold w \<lparr>lh_attempt = a, lh_inode = i, lh_path = path, lh_meta = md\<rparr>"
    by (simp add: declared_hold_def)
  with same have "declared_hold w' \<lparr>lh_attempt = a, lh_inode = i, lh_path = path, lh_meta = md\<rparr>"
    by (rule declared_hold_same)
  then show ?thesis
    unfolding res by (intro inv_move [OF inv]) (use assms(2) pc known in auto)
qed

lemma remove_open_inv:
  assumes "lease_inv w" "lw_pc w p = Idle"
  shows "lease_inv (snd (remove_open p path w))"
proof -
  have "lease_inv (set_pc p (Removing \<lparr>lh_attempt = [], lh_inode = i, lh_path = path, lh_meta = []\<rparr>) w)"
    if "lw_entry w path = Regular i" for i
  proof (rule inv_move [OF assms(1)])
    have "i < lw_next w" using assms(1) that by (auto simp: lease_inv_def inodes_known_def)
    then show "lh_inode h < lw_next w"
      if "pc_hold (Removing \<lparr>lh_attempt = [], lh_inode = i, lh_path = path, lh_meta = []\<rparr>) = Some h" for h
      using that by auto
  qed (use assms(2) in auto)
  with assms(1) show ?thesis
    by (auto simp: remove_open_def open_lease_entry_def split: lease_entry.splits)
qed

lemma step_process_inv:
  assumes "lease_inv w"
  shows "lease_inv (snd (step_process p registry w))"
proof (cases "lw_pc w p")
  case (Opened h)
  have "lease_inv (set_pc p Idle w)" by (rule inv_move [OF assms]) (simp_all add: Opened)
  moreover have "lease_inv (set_pc p (Locked h) w')" if "take_lock p (lh_inode h) w = Inr w'" for w'
    using inv_lock(1) [OF assms that] Opened by simp
  ultimately show ?thesis by (auto simp: step_process_def Opened hold_lock_def split: sum.splits)
next
  case (Removing h)
  have "lease_inv (set_pc p Idle w)" by (rule inv_move [OF assms]) (simp_all add: Removing)
  moreover have "lease_inv (set_pc p (Closing h) w')" if "take_lock p (lh_inode h) w = Inr w'" for w'
    using inv_lock(2) [OF assms that] Removing by simp
  ultimately show ?thesis by (auto simp: step_process_def Removing remove_lock_def split: sum.splits)
next
  case (Locked h)
  have "lease_inv (set_pc p (Closing h) w)"
    by (rule inv_move [OF assms]) (use inv_known [OF assms, of p] in \<open>auto simp: Locked\<close>)
  with inv_write [OF assms Locked] show ?thesis
    by (auto simp: step_process_def Locked hold_confirm_def split: sum.splits)
next
  case (Closing h)
  have "lease_inv (set_pc p (Same_file h) w)" "lease_inv (set_pc p (Unlinked h) w)"
    by (rule inv_move [OF assms], use inv_known [OF assms, of p] in \<open>auto simp: Closing\<close>)+
  then show ?thesis by (simp add: step_process_def Closing close_lstat_def)
next
  case (Same_file h)
  have "lease_inv (set_pc p (Unlinked h) (w\<lparr>lw_entry := (lw_entry w)(lh_path h := Absent)\<rparr>))"
    by (rule inv_move [OF inv_unlink [OF assms]]) (use inv_known [OF assms, of p] in \<open>auto simp: Same_file\<close>)
  then show ?thesis by (simp add: step_process_def Same_file close_unlink_def)
next
  case (Unlinked h)
  then show ?thesis using inv_drop [OF assms, of p "lh_inode h"] by (simp add: step_process_def drop_lock_def)
qed (use assms in \<open>simp_all add: step_process_def\<close>)


lemma lease_exec_inv: "lease_inv w \<Longrightarrow> lease_inv (snd (lease_exec c w))"
proof (induction c w rule: lease_exec.induct)
  case (4 p w)
  show ?case
  proof (cases "\<exists>h. lw_pc w p = Holding h")
    case True
    then obtain h where h: "lw_pc w p = Holding h" ..
    have "lease_inv (set_pc p (Closing h) w)"
      by (rule inv_move [OF 4]) (use inv_known [OF 4, of p] in \<open>auto simp: h\<close>)
    with h show ?thesis by simp
  qed (use 4 in \<open>auto split: lease_pc.splits\<close>)
next
  case (5 p w)
  show ?case
  proof (cases "held_inode (lw_pc w p)")
    case None
    have "lease_inv (set_pc p Idle w)" by (rule inv_move [OF 5]) (simp_all add: None)
    with None show ?thesis by simp
  qed (use inv_drop [OF 5, of p] in simp)
qed (simp_all add: hold_open_inv remove_open_inv step_process_inv)

interpretation lease: machine lease_exec "\<lambda>_. True" lease_inv
  by unfold_locales (rule lease_exec_inv)


section \<open>What the probe says\<close>

text \<open>Where a run starts: nobody runs, nothing is locked, and the numbers of new files are fresh.\<close>

definition lease_rest :: "lease_world \<Rightarrow> bool" where
  "lease_rest w \<longleftrightarrow> lw_pc w = (\<lambda>_. Idle) \<and> lw_lock w = (\<lambda>_. None) \<and>
     (\<forall>path i. lw_entry w path = Regular i \<longrightarrow> i < lw_next w)"

lemma lease_rest_inv: "lease_rest w \<Longrightarrow> lease_inv w"
  by (simp add: lease_rest_def lease_inv_def locks_match_def inodes_known_def holders_wrote_def holders_declared_def)

definition works_on :: "lease_world \<Rightarrow> nat \<Rightarrow> nat \<Rightarrow> bool" where
  \<comment> \<open>the process is between its \<open>flock\<close> of that file and its unlock\<close>
  "works_on w p i \<longleftrightarrow> held_inode (lw_pc w p) = Some i"


section \<open>The lease is not exclusive\<close>

text \<open>Process 1 holds the lease; 2 opens the file; 1 ends, unlinking and unlocking it; 2 locks what it
  opened; 3 finds no file, creates one and locks that.\<close>

definition lease_race :: "string list option \<Rightarrow> string \<Rightarrow> string \<Rightarrow> lease_call list" where
  "lease_race reg a raw =
     [Hold_open 1 reg a raw, Step 1 reg, Step 1 reg,
      Hold_open 2 reg a raw,
      End_hold 1, Step 1 reg, Step 1 reg, Step 1 reg,
      Step 2 reg, Step 2 reg,
      Hold_open 3 reg a raw, Step 3 reg, Step 3 reg]"

definition holds_lease :: "lease_world \<Rightarrow> nat \<Rightarrow> string \<Rightarrow> bool" where
  "holds_lease w p path = (case lw_pc w p of Holding h \<Rightarrow> lh_path h = path | _ \<Rightarrow> False)"

lemma metadata_valid_same:
  assumes "same_paths w w'" "supervisor_lease_metadata_valid w md"
  shows "supervisor_lease_metadata_valid w' md"
proof -
  from assms(2) obtain path where path: "validated_supervisor_lease_path w (mget md ''attempt_id'' [])
      (mget md ''supervisor_lease_file'' []) = Inr path"
    by (auto simp: supervisor_lease_metadata_valid_def isl_def split: if_splits sum.splits) (metis sum.exhaust)
  then have "validated_supervisor_lease_path w' (mget md ''attempt_id'' [])
      (mget md ''supervisor_lease_file'' []) = Inr path"
    by (rule validated_path_same [OF assms(1)])
  with path assms(2) show ?thesis by (simp add: supervisor_lease_metadata_valid_def split: if_splits)
qed

lemma declared_same:
  "declared_supervisor_lease_metadata w registry a = Inr md \<Longrightarrow> same_paths w w' \<Longrightarrow>
   declared_supervisor_lease_metadata w' registry a = Inr md"
  by (auto simp: declared_supervisor_lease_metadata_def metadata_valid_same
      split: option.splits list.splits prod.splits if_splits)

text \<open>The lease does not exclude a second supervisor. Whenever an open attempt declares a lease whose
  file is not there, three supervisors can interleave so that two of them hold the lease at once,
  because \<open>flock\<close> is granted on a file that no path names any more; and when the later one ends,
  the probe denies the earlier one, which still holds its lease.\<close>

theorem lease_is_not_exclusive:
  assumes "lease_rest w" and "\<not> lw_broken w (lw_next w)" "\<not> lw_broken w (Suc (lw_next w))"
    and "validated_supervisor_lease_path w a raw = Inr path" and "lw_entry w path = Absent"
    and "declared_supervisor_lease_metadata w reg a = Inr md" and "map_of md ''supervisor_lease_file'' = Some path"
  shows "holds_lease (run_ops lease_exec (lease_race reg a raw) w) 2 path \<and>
    holds_lease (run_ops lease_exec (lease_race reg a raw) w) 3 path \<and>
    (let w' = run_ops lease_exec (lease_race reg a raw @ [End_hold 3, Step 3 reg, Step 3 reg, Step 3 reg]) w
     in holds_lease w' 2 path \<and> \<not> supervisor_lease_is_held w' md)"
proof -
  have path: "validated_supervisor_lease_path w' a raw = Inr path" if "same_paths w w'" for w'
    using that assms(4) by (rule validated_path_same)
  have decl: "declared_supervisor_lease_metadata w' reg a = Inr md" if "same_paths w w'" for w'
    using assms(6) that by (rule declared_same)
  have rest: "lw_pc w = (\<lambda>_. Idle)" "lw_lock w = (\<lambda>_. None)" using assms(1) by (auto simp: lease_rest_def)
  note step = step_process_def hold_open_def path decl assms(7) open_lease_entry_def hold_lock_def take_lock_def
    hold_confirm_def lease_keys_def close_lstat_def close_unlink_def drop_lock_def set_pc_def same_paths_def
  have named: "validated_supervisor_lease_path w' (mget md ''attempt_id'' []) (mget md ''supervisor_lease_file'' []) = Inr path"
    if "same_paths w w'" for w'
    using that declared_names_path [OF assms(4,6,7)] by (rule validated_path_same)
  show ?thesis
    using assms(2,3,5)
    by (simp add: lease_race_def step rest holds_lease_def supervisor_lease_is_held_def named Let_def)
qed


section \<open>Witnesses\<close>

definition demo_nonce :: string where
  "demo_nonce = replicate 64 (CHR ''a'')"

definition demo_lease_file :: string where
  "demo_lease_file = ''/r/supervisor-state/att-a.lease''"

definition demo_owner_row :: string where
  "demo_owner_row = join [tab] [''t'', ''open'', ''/repo'', ''/w'', ''slug'', join '','' [
     ''attempt_id=att-a'', ''attempt_schema_version=2'', ''dispatch_depth=1'', ''worker_type=owner'', ''harness=codex'',
     ''transport=headless'', ''execution_surface=registered-headless'', ''registered_worker=1'',
     ''completion_delivery=app-server-supervised'', ''supervisor_lease=flock-v1'',
     kv_part ''supervisor_lease_file'' demo_lease_file, kv_part ''supervisor_lease_nonce'' demo_nonce]]"

definition demo_meta :: meta where
  "demo_meta = row_meta (row_fields demo_owner_row)"

definition demo_lease_world :: lease_world where
  "demo_lease_world = \<lparr>lw_registry_dir = ''/r'', lw_expand = (\<lambda>raw. raw), lw_dir_symlink = False, lw_broken = (\<lambda>_. False),
     lw_entry = (\<lambda>_. Absent), lw_content = (\<lambda>_. []), lw_lock = (\<lambda>_. None), lw_pc = (\<lambda>_. Idle), lw_next = 0\<rparr>"

lemma demo_world_simps [simp]:
  "lw_entry demo_lease_world = (\<lambda>_. Absent)" "lw_broken demo_lease_world = (\<lambda>_. False)" "lease_rest demo_lease_world"
  by (simp_all add: demo_lease_world_def lease_rest_def)

lemma demo_path: "validated_supervisor_lease_path demo_lease_world ''att-a'' demo_lease_file = Inr demo_lease_file"
  by code_simp

lemma demo_declared:
  "declared_supervisor_lease_metadata demo_lease_world (Some [demo_owner_row]) ''att-a'' = Inr demo_meta"
  by code_simp

lemma demo_named: "map_of demo_meta ''supervisor_lease_file'' = Some demo_lease_file"
  by code_simp

theorem lease_is_not_exclusive_witness:
  "holds_lease (run_ops lease_exec (lease_race (Some [demo_owner_row]) ''att-a'' demo_lease_file) demo_lease_world)
     2 demo_lease_file"
  by (rule lease_is_not_exclusive [OF _ _ _ demo_path _ demo_declared demo_named, THEN conjunct1]) simp_all

definition demo_holder :: lease_hold where
  "demo_holder = \<lparr>lh_attempt = ''att-a'', lh_inode = 0, lh_path = demo_lease_file, lh_meta = demo_meta\<rparr>"

lemma demo_holding:
  "let w = run_ops lease_exec (take 3 (lease_race (Some [demo_owner_row]) ''att-a'' demo_lease_file)) demo_lease_world
   in lw_pc w 1 = Holding demo_holder \<and> lw_entry w demo_lease_file = Regular 0 \<and> \<not> lw_broken w 0"
proof -
  have decl: "declared_supervisor_lease_metadata w' (Some [demo_owner_row]) ''att-a'' = Inr demo_meta"
    if "same_paths demo_lease_world w'" for w'
    using demo_declared that by (rule declared_same)
  have zero: "lw_next demo_lease_world = 0" "lw_pc demo_lease_world = (\<lambda>_. Idle)" "lw_lock demo_lease_world = (\<lambda>_. None)"
    by (simp_all add: demo_lease_world_def)
  show ?thesis
    by (simp add: lease_race_def step_process_def hold_open_def demo_path decl demo_named open_lease_entry_def
        hold_lock_def take_lock_def hold_confirm_def lease_keys_def set_pc_def same_paths_def Let_def demo_holder_def zero)
qed


end
