(* ===== verification/Launch.thy ===== *)
theory Launch
  imports Supervisor_Lease
begin

text \<open>
  Launching a claimed attempt (\<open>utilities/dispatch_contract.py\<close>): the parent binding of a nested
  attempt and its liveness evidence, the fenced launch \<open>spawn_claimed_attempt\<close>, the fence's own
  attestation \<open>mark_attempt_launch_started\<close> and the recovery \<open>recover_unstarted_attempt\<close>. The child
  waits at a pipe until the launcher writes one byte; the registry is replaced before that. What the
  kernel, the lease file and the callbacks answer at each moment of a launch is a parameter;
  \<open>canonical_repository_identity\<close>, which asks git, is the parameter \<open>repo\<close>.
\<close>

section \<open>Parent bindings\<close>

definition PARENT_LIVENESS_METADATA_KEYS :: "string list" where
  "PARENT_LIVENESS_METADATA_KEYS =
    [''attempt_id'', ''attempt_schema_version'', ''dispatch_depth'', ''worker_type'', ''harness'', ''transport'',
     ''execution_surface'', ''registered_worker'', ''runtime_sandbox'', ''pid'', ''pid_start'', ''pid_scope'',
     ''pid_host'', ''pid_host_start'', ''pid_host_ns'', ''pid_host_proof'', ''pid_ns'', ''pid_observer_ns'',
     ''pgid'', ''pgid_host'', ''completion_delivery'', ''supervisor_lease'', ''supervisor_lease_file'',
     ''supervisor_lease_nonce'']"

record parent_binding =
  pb_attempt_id :: string
  pb_pid :: int
  pb_pid_start :: string
  pb_pid_scope :: string
  pb_pid_host :: "int option"
  pb_pid_host_start :: string
  pb_observed_pid :: "int option"
  pb_observed_pid_start :: string
  pb_liveness_source :: string
  pb_harness :: string
  pb_transport :: string
  pb_runtime_sandbox :: string
  pb_repository_identity :: string
  pb_worktree :: string
  pb_slug :: string
  pb_fingerprint :: "(string \<times> string) list"

text \<open>What can be observed at one moment.\<close>

record moment =
  mo_os :: os
  mo_lease :: lease_world

definition parent_liveness_evidence :: "moment \<Rightarrow> meta \<Rightarrow> bool \<times> string \<times> process_identity option" where
  "parent_liveness_evidence now md =
    (let process = attempt_process_quiescence (mo_os now) md in
     if q_state process = ''live'' \<and> q_identity process \<noteq> None then (True, ''process'', q_identity process)
     else if q_state process = ''unverifiable'' \<and> q_reason process = ''process-namespace-unverifiable''
          \<and> supervisor_lease_is_held (mo_lease now) md
     then (True, ''supervisor-lease'', None)
     else (False, q_reason process, None))"

definition liveness_fingerprint :: "meta \<Rightarrow> (string \<times> string) list" where
  "liveness_fingerprint md = map (\<lambda>k. (k, mget md k [])) PARENT_LIVENESS_METADATA_KEYS"

definition parent_metadata_matches_binding :: "meta \<Rightarrow> parent_binding \<Rightarrow> bool" where
  "parent_metadata_matches_binding md b \<longleftrightarrow> liveness_fingerprint md = pb_fingerprint b"

definition parent_binding_is_live_from_metadata :: "moment \<Rightarrow> meta \<Rightarrow> parent_binding \<Rightarrow> bool" where
  "parent_binding_is_live_from_metadata now md b =
    (if \<not> parent_metadata_matches_binding md b then False
     else case pb_observed_pid b of
       Some pid \<Rightarrow> if pb_observed_pid_start b \<noteq> []
         then process_identity_is_live (mo_os now) pid (pb_observed_pid_start b)
         else fst (parent_liveness_evidence now md)
     | None \<Rightarrow> fst (parent_liveness_evidence now md))"

definition parent_attempt_binding_is_live ::
  "(string \<Rightarrow> string) \<Rightarrow> moment \<Rightarrow> string list option \<Rightarrow> parent_binding \<Rightarrow> bool" where
  \<comment> \<open>\<open>None\<close>: the registry or its lock raised \<open>OSError\<close>\<close>
  "parent_attempt_binding_is_live repo now registry b = (case registry of
       None \<Rightarrow> False
     | Some lines \<Rightarrow> (case all_rows (open_attempt_row (pb_attempt_id b)) 0 lines of
         [(i, fs)] \<Rightarrow>
           if \<not> valid_row_metadata (row_meta fs) then False
           else if fs ! 4 \<noteq> pb_slug b \<or> fs ! 3 \<noteq> pb_worktree b \<or> repo (fs ! 2) \<noteq> pb_repository_identity b
           then False
           else parent_binding_is_live_from_metadata now (row_meta fs) b
       | _ \<Rightarrow> False))"

record parent_query =
  pq_slug :: string
  pq_repo :: string
  pq_worktree :: string
  pq_attempt_id :: "string option"
  pq_harness :: "string option"
  pq_transport :: "string option"
  pq_sandbox :: "string option"

definition expected_runtime_ok :: "parent_query \<Rightarrow> meta \<Rightarrow> bool" where
  "expected_runtime_ok q md = list_all (\<lambda>(key, value). value = None \<or> map_of md key = value)
     [(''harness'', pq_harness q), (''transport'', pq_transport q), (''runtime_sandbox'', pq_sandbox q)]"

definition wanted_attempt :: "parent_query \<Rightarrow> string" where
  \<comment> \<open>\<open>expected_attempt_id or ""\<close>\<close>
  "wanted_attempt q = (case pq_attempt_id q of None \<Rightarrow> [] | Some a \<Rightarrow> a)"

definition parent_candidate :: "(string \<Rightarrow> string) \<Rightarrow> parent_query \<Rightarrow> string list \<Rightarrow> bool" where
  "parent_candidate repo q fs =
    (length fs = 6 \<and> open_status (fs ! 1) \<and>
     repo (fs ! 2) = repo (pq_repo q) \<and> fs ! 3 = pq_worktree q \<and> fs ! 4 = pq_slug q \<and>
     valid_row_metadata (row_meta fs) \<and>
     map_of (row_meta fs) ''dispatch_depth'' = Some ''1'' \<and> map_of (row_meta fs) ''worker_type'' = Some ''owner'' \<and>
     (wanted_attempt q = [] \<or> map_of (row_meta fs) ''attempt_id'' = Some (wanted_attempt q)) \<and>
     expected_runtime_ok q (row_meta fs))"

definition sealed_binding ::
  "(string \<Rightarrow> string) \<Rightarrow> parent_query \<Rightarrow> string list \<Rightarrow> string \<Rightarrow> process_identity option \<Rightarrow> parent_binding" where
  "sealed_binding repo q fs source observed =
    (let md = row_meta fs; raw_host = mget md ''pid_host'' []; host_start = mget md ''pid_host_start'' [] in
     \<lparr>pb_attempt_id = mget md ''attempt_id'' [], pb_pid = digits_val (mget md ''pid'' []),
      pb_pid_start = mget md ''pid_start'' [], pb_pid_scope = mget md ''pid_scope'' ''host-visible'',
      pb_pid_host = (if isdigit raw_host then Some (digits_val raw_host) else None),
      pb_pid_host_start = (if host_start \<noteq> [] then host_start else mget md ''pid_start'' []),
      pb_observed_pid = map_option i_pid observed,
      pb_observed_pid_start = (case observed of None \<Rightarrow> [] | Some i \<Rightarrow> i_start i),
      pb_liveness_source = source, pb_harness = mget md ''harness'' [], pb_transport = mget md ''transport'' [],
      pb_runtime_sandbox = mget md ''runtime_sandbox'' [], pb_repository_identity = repo (pq_repo q),
      pb_worktree = fs ! 3, pb_slug = fs ! 4, pb_fingerprint = liveness_fingerprint md\<rparr>)"

definition resolve_live_parent_attempt ::
  "(string \<Rightarrow> string) \<Rightarrow> moment \<Rightarrow> parent_query \<Rightarrow> string list \<Rightarrow> string + parent_binding" where
  "resolve_live_parent_attempt repo now q lines =
    (if pq_slug q = [] then Inl ''parent-slug-required''
     else case all_rows (parent_candidate repo q) 0 lines of
       [] \<Rightarrow> Inl (if wanted_attempt q \<noteq> [] then ''parent-attempt-not-found'' else ''live-parent-not-found'')
     | [(i, fs)] \<Rightarrow>
         (let md = row_meta fs in
          if mget md ''attempt_id'' [] = [] \<or> \<not> isdigit (mget md ''pid'' []) \<or> mget md ''pid_start'' [] = []
          then Inl ''parent-process-identity-missing''
          else let (live, source, observed) = parent_liveness_evidence now md in
            if \<not> live then Inl ''parent-attempt-not-live''
            else Inr (sealed_binding repo q fs source observed))
     | _ \<Rightarrow> Inl ''parent-attempt-ambiguous'')"

section \<open>The fenced launch\<close>

definition PROCESS_IDENTITY_METADATA_KEYS :: "string list" where
  "PROCESS_IDENTITY_METADATA_KEYS =
    [''pid'', ''pid_start'', ''pid_host'', ''pid_host_start'', ''pid_host_ns'', ''pid_ns'', ''pid_observer_ns'',
     ''pid_host_proof'', ''pgid'', ''pgid_host'']"

text \<open>What an abort sees: whether the child ends by itself once the pipe is closed, the two readings
  around the group signal and its result, whether it is reaped at last, and the group then.\<close>

record abort_env =
  ae_exits :: bool
  ae_check :: os
  ae_recheck :: os
  ae_kill :: "unit os_read"
  ae_reaped :: bool
  ae_end :: os

record abort_result =
  ab_group_killed :: bool
  ab_killed :: bool
  ab_verified :: bool

definition abort_fenced_launch :: "abort_env \<Rightarrow> int \<Rightarrow> string \<Rightarrow> abort_result" where
  "abort_fenced_launch env pid expected_start =
    (let (status, sent) =
       (if ae_exits env then (''exited'', False)
        else if expected_start \<noteq> []
        then signal_exact_process_group (ae_check env) (ae_recheck env) (ae_kill env) pid expected_start
        else (''identity-unverifiable'', False))
     in \<lparr>ab_group_killed = sent, ab_killed = (\<not> ae_exits env \<and> status \<noteq> ''signalled''),
         ab_verified = (ae_reaped env \<and> g_state (process_group_observation (ae_end env) pid) = ''empty'')\<rparr>)"

text \<open>A registry replacement may fail before the rename, or after it while the directory is synced.\<close>

datatype replace_outcome = Replaced | Not_replaced | Replaced_unsynced

record launch_env =
  le_before :: moment
  le_spawn :: "string + int"
  le_spawned :: os
  le_checked :: os
  le_pre_release :: "(meta \<Rightarrow> string + meta) option"
  le_replace :: replace_outcome
  le_after :: moment
  le_write :: bool
  le_abort :: abort_env

datatype fence = No_child | Aborted abort_result | Released

definition spawn_target :: "string \<Rightarrow> string list \<Rightarrow> string + (nat \<times> string list)" where
  "spawn_target attempt_id lines =
    (if attempt_id = [] then Inl ''attempt-id-required''
     else case all_rows (attempt_row attempt_id) 0 lines of
       [(i, fs)] \<Rightarrow> bindr (validate_attempt_metadata False (jmeta (row_meta fs))) (\<lambda>_.
         if \<not> open_status (fs ! 1) then Inl ''attempt-not-open''
         else if map_of (row_meta fs) ''launch_claimed'' = Some ''1'' then Inl ''attempt-launch-already-claimed''
         else if map_of (row_meta fs) ''launch_claimed'' \<noteq> Some ''0'' then Inl ''attempt-launch-claim-invalid''
         else Inr (i, fs))
     | _ \<Rightarrow> Inl ''attempt-row-not-unique'')"

definition same_parent_identity ::
  "(string \<Rightarrow> string) \<Rightarrow> string list \<Rightarrow> string list \<Rightarrow> parent_binding \<Rightarrow> bool" where
  "same_parent_identity repo pf cf b =
    (map_of (row_meta pf) ''dispatch_depth'' = Some ''1'' \<and> map_of (row_meta pf) ''worker_type'' = Some ''owner'' \<and>
     repo (pf ! 2) = pb_repository_identity b \<and> repo (cf ! 2) = pb_repository_identity b \<and>
     pf ! 3 = cf ! 3 \<and> Some (pf ! 4) = map_of (row_meta cf) ''parent'' \<and>
     map_of (row_meta cf) ''parent_attempt_id'' = Some (pb_attempt_id b) \<and>
     pf ! 3 = pb_worktree b \<and> pf ! 4 = pb_slug b \<and> parent_metadata_matches_binding (row_meta pf) b)"

definition bound_parent ::
  "(string \<Rightarrow> string) \<Rightarrow> moment \<Rightarrow> string list \<Rightarrow> string list \<Rightarrow> parent_binding \<Rightarrow> string + meta" where
  "bound_parent repo now lines cf b = (case all_rows (open_attempt_row (pb_attempt_id b)) 0 lines of
       [(i, pf)] \<Rightarrow>
         if \<not> valid_row_metadata (row_meta pf) then Inl ''parent-attempt-not-live''
         else if \<not> same_parent_identity repo pf cf b then Inl ''parent-attempt-identity-changed''
         else if \<not> parent_binding_is_live_from_metadata now (row_meta pf) b then Inl ''parent-attempt-not-live''
         else Inr (row_meta pf)
     | _ \<Rightarrow> Inl ''parent-attempt-not-live'')"

definition pre_release_metadata :: "launch_env \<Rightarrow> meta \<Rightarrow> string + meta" where
  "pre_release_metadata env identity = (case le_pre_release env of
       None \<Rightarrow> Inr []
     | Some callback \<Rightarrow> bindr (callback identity) (\<lambda>observer. Inr (drop_empty observer)))"

definition launch_record :: "launch_env \<Rightarrow> meta \<Rightarrow> int \<Rightarrow> meta" where
  \<comment> \<open>\<open>identity.update(provided_metadata); identity.update(observer_metadata)\<close>\<close>
  "launch_record env launch_metadata pid =
    (let identity = process_launch_identity (le_spawned env) pid in
     dict_update (dict_update identity (drop_empty launch_metadata))
       (case pre_release_metadata env identity of Inl _ \<Rightarrow> [] | Inr observer \<Rightarrow> observer))"

definition published_row :: "meta \<Rightarrow> string list \<Rightarrow> string list" where
  "published_row identity fs =
    fs[5 := join '','' (filter (\<lambda>p. part_key p \<notin> insert ''launch_claimed'' (fst ` set identity)) (pipe_parts (fs ! 5))
         @ map (\<lambda>(k, v). kv_part k v) (sort identity) @ [kv_part ''launch_claimed'' ''1''])]"

definition fenced_launch ::
  "launch_env \<Rightarrow> meta \<Rightarrow> (parent_binding \<times> meta) option \<Rightarrow> nat \<Rightarrow> string list \<Rightarrow> int \<Rightarrow> string list
   \<Rightarrow> (string + int \<times> meta) \<times> string list \<times> fence" where
  "fenced_launch env launch_metadata parent i fs pid lines =
    (let identity = process_launch_identity (le_spawned env) pid;
         abort = abort_fenced_launch (le_abort env) pid (mget identity ''pid_start'' []);
         failed = (\<lambda>reason written.
           (Inl (if ab_verified abort then reason else ''attempt-launch-cleanup-unverified''), written, Aborted abort))
     in if list_ex (\<lambda>k. k \<in> fst ` set (drop_empty launch_metadata)) PROCESS_IDENTITY_METADATA_KEYS
     then failed ''attempt-launch-identity-metadata-conflict'' lines
     else if \<not> launch_identity_complete (le_checked env) pid identity
     then failed ''attempt-launch-identity-incomplete'' lines
     else case pre_release_metadata env identity of
       Inl _ \<Rightarrow> failed ''attempt-pre-release-callback-failed'' lines
     | Inr observer \<Rightarrow>
       if list_ex (\<lambda>k. k \<in> fst ` set observer) (''launch_claimed'' # PROCESS_IDENTITY_METADATA_KEYS)
       then failed ''attempt-pre-release-metadata-conflict'' lines
       else let identity' = launch_record env launch_metadata pid;
                written = store_row lines i (published_row identity' fs) in
         case le_replace env of
           Not_replaced \<Rightarrow> failed ''attempt-launch-identity-record-failed'' lines
         | Replaced_unsynced \<Rightarrow> failed ''attempt-launch-identity-record-failed'' written
         | Replaced \<Rightarrow>
             if (case parent of None \<Rightarrow> False
                 | Some (b, md) \<Rightarrow> \<not> parent_binding_is_live_from_metadata (le_after env) md b)
             then failed ''parent-attempt-not-live-after-spawn'' written
             else if \<not> le_write env then failed ''attempt-launch-fence-release-failed'' written
             else (Inr (pid, identity'), written, Released))"

definition spawn_claimed_attempt ::
  "(string \<Rightarrow> string) \<Rightarrow> launch_env \<Rightarrow> (string list \<Rightarrow> string + unit) \<Rightarrow> parent_binding option \<Rightarrow> meta \<Rightarrow> string
   \<Rightarrow> string list \<Rightarrow> (string + int \<times> meta) \<times> string list \<times> fence" where
  "spawn_claimed_attempt repo env preclaim binding launch_metadata attempt_id lines =
    (case spawn_target attempt_id lines of
       Inl e \<Rightarrow> (Inl e, lines, No_child)
     | Inr (i, fs) \<Rightarrow>
       (case (case binding of None \<Rightarrow> Inr None
              | Some b \<Rightarrow> bindr (bound_parent repo (le_before env) lines fs b) (\<lambda>md. Inr (Some (b, md)))) of
          Inl e \<Rightarrow> (Inl e, lines, No_child)
        | Inr parent \<Rightarrow>
          (case preclaim lines of
             Inl e \<Rightarrow> (Inl e, lines, No_child)
           | Inr _ \<Rightarrow>
             (case le_spawn env of
                Inl e \<Rightarrow> (Inl e, lines, No_child)
              | Inr pid \<Rightarrow> fenced_launch env launch_metadata parent i fs pid lines))))"

section \<open>Attestation and recovery\<close>

definition mark_attempt_launch_started :: "os \<Rightarrow> string \<Rightarrow> int \<Rightarrow> string list \<Rightarrow> string + string list" where
  "mark_attempt_launch_started os attempt_id pid lines = (case all_rows (attempt_row attempt_id) 0 lines of
       [(i, fs)] \<Rightarrow>
         bindr (validate_attempt_metadata False (jmeta (row_meta fs))) (\<lambda>_.
         let md = row_meta fs; expected_start = mget md ''pid_start'' [] in
         if \<not> open_status (fs ! 1) \<or> map_of md ''launch_claimed'' \<noteq> Some ''1''
            \<or> map_of md ''launch_fence'' \<noteq> Some ''registry-v1''
            \<or> map_of md ''pid'' \<noteq> Some (int_str pid) \<or> map_of md ''pgid'' \<noteq> Some (int_str pid)
            \<or> expected_start = [] \<or> \<not> process_identity_is_live os pid expected_start
            \<or> exact_process_group_signal_authority os pid expected_start \<noteq> ''authoritative''
         then Inl ''attempt-launch-fence-identity-mismatch''
         else bindr (updated_attempt_metadata False (fs ! 5) [(''launch_started'', ''1'')]) (\<lambda>pipe.
           Inr (store_row lines i (fs[5 := pipe]))))
     | _ \<Rightarrow> Inl ''attempt-row-not-unique'')"

definition recovery_removes :: "string list" where
  "recovery_removes = PROCESS_IDENTITY_METADATA_KEYS @ [''launch_claimed'', ''launch_lifecycle'', ''launch_started'']"

definition recovered_row :: "string list \<Rightarrow> string list" where
  "recovered_row fs = fs[5 := join '',''
     (filter (\<lambda>p. part_key p \<notin> set recovery_removes) (pipe_parts (fs ! 5)) @ [kv_part ''launch_claimed'' ''0''])]"

definition unstarted_fence :: "string list \<Rightarrow> bool" where
  "unstarted_fence fs = (let md = row_meta fs in
     fs ! 1 = ''open'' \<and> map_of md ''launch_claimed'' = Some ''1'' \<and> map_of md ''launch_fence'' = Some ''registry-v1''
     \<and> map_of md ''launch_started'' \<noteq> Some ''1'' \<and> mget md ''launch_outcome'' [] = [])"

definition recover_unstarted_attempt :: "os \<Rightarrow> string \<Rightarrow> string list \<Rightarrow> bool \<times> string list" where
  "recover_unstarted_attempt os attempt_id lines = (case all_rows (attempt_row attempt_id) 0 lines of
       [(i, fs)] \<Rightarrow>
         if \<not> valid_row_metadata (row_meta fs) then (False, lines)
         else if \<not> unstarted_fence fs then (False, lines)
         else if q_state (attempt_process_quiescence os (row_meta fs)) \<noteq> ''quiescent'' then (False, lines)
         else (True, store_row lines i (recovered_row fs))
     | _ \<Rightarrow> (False, lines))"

section \<open>The fence process\<close>

text \<open>\<open>utilities/launch-fence.py\<close>: the child waits for the byte, and attests before it executes the
  payload. What it sees: whether its parent is still the launcher, before and after; what the pipe
  gives (\<open>None\<close>: \<open>read\<close> raised); whether the parent-death signals can be set.\<close>

record fence_env =
  fe_parent_before :: bool
  fe_read :: "string option"
  fe_parent_after :: bool
  fe_prctl :: bool
  fe_os :: os

datatype post_release_signal = Signal_none | Signal_term | Signal_kill

datatype fence_end = Exec "string list" | Exit int

definition strip_dashes :: "string list \<Rightarrow> string list" where
  "strip_dashes command = (if take 1 command = [''--''] then drop 1 command else command)"

definition launch_fence ::
  "fence_env \<Rightarrow> post_release_signal \<Rightarrow> (string \<times> int) option \<Rightarrow> string list \<Rightarrow> string list
   \<Rightarrow> fence_end \<times> string list" where
  \<comment> \<open>the attempt and own pid are given when the registry is; every exception exits with 70\<close>
  "launch_fence env sig attempt command lines =
    (if strip_dashes command = [] then (Exit 70, lines)
     else if \<not> fe_prctl env then (Exit 70, lines)
     else if \<not> fe_parent_before env then (Exit 70, lines)
     else if fe_read env \<noteq> Some ''1'' then (Exit 70, lines)
     else if sig \<noteq> Signal_none \<and> \<not> fe_parent_after env then (Exit 70, lines)
     else case attempt of
       None \<Rightarrow> (Exec (strip_dashes command), lines)
     | Some (attempt_id, pid) \<Rightarrow> (case mark_attempt_launch_started (fe_os env) attempt_id pid lines of
         Inl _ \<Rightarrow> (Exit 70, lines)
       | Inr lines' \<Rightarrow> (Exec (strip_dashes command), lines')))"

section \<open>Rewriting one row\<close>

lemma all_rows_store:
  assumes "gs \<noteq> []" "tab_free gs" "j < length lines" "P gs \<longleftrightarrow> P (row_fields (lines ! j))"
  shows "all_rows P 0 (store_row lines j gs) = map (\<lambda>(i, fs). (i, if i = j then gs else fs)) (all_rows P 0 lines)"
proof -
  have "P (row_fields (store_row lines j gs ! i)) \<longleftrightarrow> P (row_fields (lines ! i))" for i
    using assms(4) by (simp add: row_fields_store [OF assms(1-3)])
  then show ?thesis
    by (simp add: all_rows_eq) (simp add: row_fields_store [OF assms(1-3)])
qed

lemma all_rows_append:
  "all_rows P i (lines @ [line]) = all_rows P i lines @ (if P (row_fields line) then [(i + length lines, row_fields line)] else [])"
  by (induction lines arbitrary: i) auto

definition clean_meta :: "meta \<Rightarrow> bool" where
  "clean_meta md \<longleftrightarrow> (\<forall>(k, v) \<in> set md. CHR ''='' \<notin> set k \<and> CHR '','' \<notin> set k \<and> tab \<notin> set k \<and>
     CHR '','' \<notin> set v \<and> tab \<notin> set v)"

text \<open>A pipe from which keys were taken and to which pairs were added.\<close>

lemma rewritten_pipe_lookup:
  assumes "clean_meta xs"
  shows "map_of (parse_registry_metadata
      (join '','' (filter (\<lambda>p. part_key p \<notin> K) (pipe_parts pipe) @ map (\<lambda>(k, v). kv_part k v) xs))) k
    = (case map_of (rev xs) k of Some v \<Rightarrow> Some v | None \<Rightarrow> if k \<in> K then None else map_of (parse_registry_metadata pipe) k)"
proof -
  let ?keep = "filter (\<lambda>p. part_key p \<notin> K) (pipe_parts pipe)"
  have kv: "map part_kv (filter has_eq (map (\<lambda>(k, v). kv_part k v) xs)) = xs"
    using assms by (induction xs) (auto simp: clean_meta_def)
  have "\<forall>p \<in> set (?keep @ map (\<lambda>(k, v). kv_part k v) xs). CHR '','' \<notin> set p"
    using assms by (auto simp: clean_meta_def kv_part_def dest: pipe_parts_no_comma)
  then have "map_of (parse_registry_metadata (join '','' (?keep @ map (\<lambda>(k, v). kv_part k v) xs))) k
    = (map_of (rev (map part_kv (filter has_eq ?keep))) ++ map_of (rev xs)) k"
    by (subst parse_join) (simp_all add: kv)
  moreover have "map_of (rev (map part_kv (filter has_eq ?keep))) k
    = (if k \<in> K then None else map_of (parse_registry_metadata pipe) k)"
  proof (cases "k \<in> K")
    case True
    then have "k \<notin> fst ` set (rev (map part_kv (filter has_eq ?keep)))" by auto
    with True show ?thesis by (simp only: map_of_eq_None_iff [symmetric] if_True)
  next
    case False
    have "filter has_eq ?keep = filter (\<lambda>p. part_key p \<notin> K) (filter has_eq (pipe_parts pipe))"
      by (simp add: conj_commute)
    then show ?thesis
      using False map_of_rev_filter [of "filter has_eq (pipe_parts pipe)" part_kv k "\<lambda>p. part_key p \<notin> K"]
      by (simp only: map_of_parse part_kv_fst if_False) blast
  qed
  ultimately show ?thesis by (simp only: map_add_def)
qed


lemma clean_meta_append [simp]: "clean_meta (xs @ ys) \<longleftrightarrow> clean_meta xs \<and> clean_meta ys"
  by (auto simp: clean_meta_def)

lemma clean_meta_sort [simp]: "clean_meta (sort xs) \<longleftrightarrow> clean_meta xs"
  by (simp add: clean_meta_def)

lemma rewritten_pipe_tab_free:
  assumes "clean_meta xs" "tab \<notin> set pipe"
  shows "tab \<notin> set (join '','' (filter (\<lambda>p. part_key p \<notin> K) (pipe_parts pipe) @ map (\<lambda>(k, v). kv_part k v) xs))"
proof (rule join_char_free)
  show "\<forall>p \<in> set (filter (\<lambda>p. part_key p \<notin> K) (pipe_parts pipe) @ map (\<lambda>(k, v). kv_part k v) xs). tab \<notin> set p"
    using assms set_pipe_parts by (fastforce simp: clean_meta_def kv_part_def)
qed simp

lemma map_of_sort: "distinct (map fst (md :: meta)) \<Longrightarrow> map_of (rev (sort md)) = map_of md"
proof -
  assume md: "distinct (map fst md)"
  have "mset (map fst (sort md)) = mset (map fst md)" by simp
  then have "distinct (map fst (sort md))" using md by (metis mset_eq_imp_distinct_iff)
  with md show ?thesis by (intro map_of_eqI) (auto simp: map_of_eq_Some_iff rev_map [symmetric])
qed

lemma published_row_meta:
  assumes "clean_meta identity" "distinct (map fst identity)" "length fs = 6"
  shows "map_of (row_meta (published_row identity fs)) k =
    (if k = ''launch_claimed'' then Some ''1''
     else case map_of identity k of Some v \<Rightarrow> Some v | None \<Rightarrow> map_of (row_meta fs) k)"
proof -
  have xs: "clean_meta (sort identity @ [(''launch_claimed'', ''1'')])" using assms(1) by (simp add: clean_meta_def)
  have "k \<in> fst ` set identity \<longleftrightarrow> map_of identity k \<noteq> None" by (simp add: map_of_eq_None_iff)
  then show ?thesis
    using rewritten_pipe_lookup [OF xs, of "insert ''launch_claimed'' (fst ` set identity)" "fs ! 5" k] assms(3)
      map_of_sort [OF assms(2)]
    by (auto simp: row_meta_def published_row_def split: option.splits)
qed

lemma published_row_shape:
  assumes "clean_meta identity" "length fs = 6" "tab_free fs"
  shows "length (published_row identity fs) = 6" "tab_free (published_row identity fs)"
    "n \<noteq> 5 \<Longrightarrow> published_row identity fs ! n = fs ! n"
proof -
  have "clean_meta (sort identity @ [(''launch_claimed'', ''1'')])" using assms(1) by (simp add: clean_meta_def)
  moreover have "tab \<notin> set (fs ! 5)" using assms(2,3) by (simp add: tab_free_def)
  ultimately have "tab \<notin> set (join '','' (filter (\<lambda>p. part_key p \<notin> insert ''launch_claimed'' (fst ` set identity)) (pipe_parts (fs ! 5))
     @ map (\<lambda>(k, v). kv_part k v) (sort identity @ [(''launch_claimed'', ''1'')])))"
    by (rule rewritten_pipe_tab_free)
  then show "tab_free (published_row identity fs)"
    using tab_free_update [OF assms(3)] by (simp add: published_row_def)
qed (simp_all add: published_row_def assms(2))

lemma recovered_row_meta:
  assumes "length fs = 6"
  shows "map_of (row_meta (recovered_row fs)) k =
    (if k = ''launch_claimed'' then Some ''0'' else if k \<in> set recovery_removes then None else map_of (row_meta fs) k)"
  using rewritten_pipe_lookup [of "[(''launch_claimed'', ''0'')]" "set recovery_removes" "fs ! 5" k] assms
  by (simp add: row_meta_def recovered_row_def clean_meta_def)

lemma recovered_row_shape:
  assumes "length fs = 6" "tab_free fs"
  shows "length (recovered_row fs) = 6" "tab_free (recovered_row fs)" "n \<noteq> 5 \<Longrightarrow> recovered_row fs ! n = fs ! n"
proof -
  have "tab \<notin> set (fs ! 5)" using assms by (simp add: tab_free_def)
  then have "tab \<notin> set (join '','' (filter (\<lambda>p. part_key p \<notin> set recovery_removes) (pipe_parts (fs ! 5))
     @ map (\<lambda>(k, v). kv_part k v) [(''launch_claimed'', ''0'')]))"
    by (intro rewritten_pipe_tab_free) (simp_all add: clean_meta_def)
  then show "tab_free (recovered_row fs)"
    using tab_free_update [OF assms(2)] by (simp add: recovered_row_def)
qed (simp_all add: recovered_row_def assms(1))

section \<open>The cases of a launch\<close>

lemma distinct_identity_shape:
  "distinct (map fst (([(''pid'', p)] @ (if a then [(''pid_observer_ns'', n1)] else [])
     @ (if b then [(''pid_ns'', n2)] else []) @ (if c then [(''pid_start'', st)] else [])
     @ (if d then [(''pid_host'', h)] @ (if c then [(''pid_host_start'', st)] else [])
         @ [(''pid_host_ns'', n3), (''pid_host_proof'', pr)] else []))
     @ (if e then [(''pgid'', g)] @ (if f then [(''pgid_host'', gh)] else []) else [])))"
  by (cases a; cases b; cases c; cases d; cases e; cases f; simp)

lemma distinct_launch_identity: "distinct (map fst (process_launch_identity os pid))"
proof (cases "os_getpgid os pid")
  case (ReadOk g)
  show ?thesis
    unfolding process_launch_identity_def Let_def ReadOk os_read.case
    using distinct_identity_shape [where e = True, unfolded if_True] by (simp only: append_assoc)
next
  case NotFound
  show ?thesis
    unfolding process_launch_identity_def Let_def NotFound os_read.case
    by (rule distinct_identity_shape [where e = False, unfolded if_False append_Nil2])
next
  case Permission
  show ?thesis
    unfolding process_launch_identity_def Let_def Permission os_read.case
    by (rule distinct_identity_shape [where e = False, unfolded if_False append_Nil2])
next
  case (OSErr e)
  show ?thesis
    unfolding process_launch_identity_def Let_def OSErr os_read.case
    by (rule distinct_identity_shape [where e = False, unfolded if_False append_Nil2])
qed

lemma distinct_launch_record: "distinct (map fst (launch_record env lm pid))"
  by (simp add: launch_record_def distinct_dict_update distinct_launch_identity Let_def)

definition parent_confirmed ::
  "(string \<Rightarrow> string) \<Rightarrow> launch_env \<Rightarrow> string list \<Rightarrow> string list \<Rightarrow> parent_binding option \<Rightarrow> bool" where
  \<comment> \<open>the parent was bound and live before the spawn, and is live after it\<close>
  "parent_confirmed repo env lines fs binding = (case binding of
       None \<Rightarrow> True
     | Some b \<Rightarrow> (case bound_parent repo (le_before env) lines fs b of
         Inl _ \<Rightarrow> False
       | Inr md \<Rightarrow> parent_binding_is_live_from_metadata (le_after env) md b))"

definition no_conflict :: "launch_env \<Rightarrow> meta \<Rightarrow> int \<Rightarrow> bool" where
  "no_conflict env lm pid \<longleftrightarrow> (\<forall>k \<in> set PROCESS_IDENTITY_METADATA_KEYS.
     map_of (launch_record env lm pid) k = map_of (process_launch_identity (le_spawned env) pid) k)"

lemma no_conflictI:
  assumes "\<not> list_ex (\<lambda>k. k \<in> fst ` set (drop_empty lm)) PROCESS_IDENTITY_METADATA_KEYS"
    and "pre_release_metadata env (process_launch_identity (le_spawned env) pid) = Inr observer"
    and "\<not> list_ex (\<lambda>k. k \<in> fst ` set observer) (''launch_claimed'' # PROCESS_IDENTITY_METADATA_KEYS)"
  shows "no_conflict env lm pid"
  unfolding no_conflict_def
proof
  fix k assume k: "k \<in> set PROCESS_IDENTITY_METADATA_KEYS"
  then have "map_of (rev (drop_empty lm)) k = None" "map_of (rev observer) k = None"
    using assms(1,3) by (auto simp: list_ex_iff map_of_eq_None_iff)
  then show "map_of (launch_record env lm pid) k = map_of (process_launch_identity (le_spawned env) pid) k"
    by (simp add: launch_record_def assms(2) map_of_dict_update map_add_def)
qed

lemma fenced_launch_cases:
  assumes "fenced_launch env lm parent i fs pid lines = (r, lines', f)"
  shows "(f = Released \<and> r = Inr (pid, launch_record env lm pid) \<and>
      lines' = store_row lines i (published_row (launch_record env lm pid) fs) \<and> no_conflict env lm pid \<and>
      launch_identity_complete (le_checked env) pid (process_launch_identity (le_spawned env) pid) \<and>
      (\<forall>b md. parent = Some (b, md) \<longrightarrow> parent_binding_is_live_from_metadata (le_after env) md b)) \<or>
    (isl r \<and> f \<noteq> Released \<and> f \<noteq> No_child \<and>
      (lines' = lines \<or> lines' = store_row lines i (published_row (launch_record env lm pid) fs)))"
  using assms no_conflictI [of lm env pid]
  by (auto simp: fenced_launch_def Let_def split: if_splits sum.splits replace_outcome.splits option.splits prod.splits)


lemma spawn_target_row:
  "spawn_target a lines = Inr (i, fs) \<Longrightarrow>
   all_rows (attempt_row a) 0 lines = [(i, fs)] \<and> open_status (fs ! 1) \<and> \<not> claimed_row fs"
  by (auto simp: spawn_target_def claimed_row_def bindr_Inr_iff split: if_splits list.splits prod.splits)

lemma single_row:
  assumes "all_rows P 0 lines = [(i, fs)]"
  shows "i < length lines" "fs = row_fields (lines ! i)" "P fs" "tab_free fs"
  using all_rows_mem [of i fs P 0 lines] assms by auto

definition published_over :: "string \<Rightarrow> launch_env \<Rightarrow> meta \<Rightarrow> string list \<Rightarrow> string list \<Rightarrow> bool" where
  \<comment> \<open>the attempt's unclaimed row was replaced by the row that carries the identity of the child\<close>
  "published_over a env lm lines lines' \<longleftrightarrow> (\<exists>pid i fs. le_spawn env = Inr pid \<and>
     all_rows (attempt_row a) 0 lines = [(i, fs)] \<and> open_status (fs ! 1) \<and> \<not> claimed_row fs \<and>
     lines' = store_row lines i (published_row (launch_record env lm pid) fs))"

lemma spawn_cases:
  assumes "spawn_claimed_attempt repo env preclaim binding lm a lines = (r, lines', f)"
  shows "(f = Released \<and> published_over a env lm lines lines' \<and>
      (\<exists>pid i fs. le_spawn env = Inr pid \<and> r = Inr (pid, launch_record env lm pid) \<and> no_conflict env lm pid \<and>
        spawn_target a lines = Inr (i, fs) \<and>
        lines' = store_row lines i (published_row (launch_record env lm pid) fs) \<and>
        launch_identity_complete (le_checked env) pid (process_launch_identity (le_spawned env) pid) \<and>
        parent_confirmed repo env lines fs binding)) \<or>
    (isl r \<and> f \<noteq> Released \<and> (lines' = lines \<or> f \<noteq> No_child \<and> published_over a env lm lines lines'))"
proof (cases "\<exists>i fs parent pid. spawn_target a lines = Inr (i, fs) \<and>
    (case binding of None \<Rightarrow> Inr None
     | Some b \<Rightarrow> bindr (bound_parent repo (le_before env) lines fs b) (\<lambda>md. Inr (Some (b, md)))) = Inr parent \<and>
    le_spawn env = Inr pid \<and> fenced_launch env lm parent i fs pid lines = (r, lines', f)")
  case True
  then obtain i fs parent pid where target: "spawn_target a lines = Inr (i, fs)"
    and parent: "(case binding of None \<Rightarrow> Inr None
      | Some b \<Rightarrow> bindr (bound_parent repo (le_before env) lines fs b) (\<lambda>md. Inr (Some (b, md)))) = Inr parent"
    and pid: "le_spawn env = Inr pid" and launch: "fenced_launch env lm parent i fs pid lines = (r, lines', f)" by blast
  note row = spawn_target_row [OF target]
  have over: "published_over a env lm lines (store_row lines i (published_row (launch_record env lm pid) fs))"
    unfolding published_over_def using row pid by blast
  have confirmed: "parent_confirmed repo env lines fs binding"
    if "\<forall>b md. parent = Some (b, md) \<longrightarrow> parent_binding_is_live_from_metadata (le_after env) md b"
    using that parent by (cases binding) (auto simp: parent_confirmed_def bindr_Inr_iff)
  show ?thesis using fenced_launch_cases [OF launch] over confirmed target pid by blast
next
  case False
  then have "isl r \<and> f = No_child \<and> lines' = lines"
    using assms unfolding spawn_claimed_attempt_def
    by (auto simp: bindr_Inl_iff split: sum.splits option.splits prod.splits)
  then show ?thesis by simp
qed

lemma published_over_row:
  assumes "published_over a env lm lines lines'" and "\<And>pid. le_spawn env = Inr pid \<Longrightarrow> clean_meta (launch_record env lm pid)"
  obtains pid i fs where "le_spawn env = Inr pid" "all_rows (attempt_row a) 0 lines = [(i, fs)]" "open_status (fs ! 1)"
    "\<not> claimed_row fs" "lines' = store_row lines i (published_row (launch_record env lm pid) fs)"
    "row_fields (lines' ! i) = published_row (launch_record env lm pid) fs"
    "claimed_row (published_row (launch_record env lm pid) fs)"
proof -
  from assms(1) obtain pid i fs where pid: "le_spawn env = Inr pid" and row: "all_rows (attempt_row a) 0 lines = [(i, fs)]"
    and rest: "open_status (fs ! 1)" "\<not> claimed_row fs" "lines' = store_row lines i (published_row (launch_record env lm pid) fs)"
    unfolding published_over_def by blast
  have len: "length fs = 6" using single_row(3) [OF row] by (rule attempt_row_length)
  note shape = published_row_shape [OF assms(2) [OF pid] len single_row(4) [OF row]]
  have "published_row (launch_record env lm pid) fs \<noteq> []" using shape(1) by auto
  then have "row_fields (lines' ! i) = published_row (launch_record env lm pid) fs"
    using row_fields_store [OF _ shape(2) single_row(1) [OF row], of i] rest(3) by simp
  moreover have "claimed_row (published_row (launch_record env lm pid) fs)"
    unfolding claimed_row_def by (simp add: published_row_meta [OF assms(2) [OF pid] distinct_launch_record len])
  ultimately show thesis using that pid row rest by blast
qed

text \<open>The child's fence is opened only over a published identity. A launch that returns has opened
  the fence, and one that raises has not; when it is opened the attempt had one open, unclaimed row,
  which now is claimed and carries the complete kernel identity of the child, every metadata key
  outside the launch record is untouched, no other row changed, and the bound parent was live before
  the spawn and after the publication. A launch that fails has published nothing or the same claimed row.\<close>

theorem fence_opens_after_publication:
  assumes "spawn_claimed_attempt repo env preclaim binding lm a lines = (r, lines', f)"
    and "\<And>pid. le_spawn env = Inr pid \<Longrightarrow> clean_meta (launch_record env lm pid)"
  shows "(f = Released \<longleftrightarrow> \<not> isl r) \<and> (f \<noteq> Released \<longrightarrow> lines' = lines \<or> published_over a env lm lines lines') \<and>
    (f = Released \<longrightarrow> (\<exists>pid i fs gs. le_spawn env = Inr pid \<and> r = Inr (pid, launch_record env lm pid) \<and>
      all_rows (attempt_row a) 0 lines = [(i, fs)] \<and> open_status (fs ! 1) \<and> \<not> claimed_row fs \<and>
      lines' = store_row lines i gs \<and> row_fields (lines' ! i) = gs \<and> claimed_row gs \<and>
      (\<forall>k v. k \<in> set PROCESS_IDENTITY_METADATA_KEYS \<and> map_of (process_launch_identity (le_spawned env) pid) k = Some v
        \<longrightarrow> map_of (row_meta gs) k = Some v) \<and>
      (\<forall>k. k \<noteq> ''launch_claimed'' \<and> map_of (launch_record env lm pid) k = None \<longrightarrow> map_of (row_meta gs) k = map_of (row_meta fs) k) \<and>
      launch_identity_complete (le_checked env) pid (process_launch_identity (le_spawned env) pid) \<and>
      parent_confirmed repo env lines fs binding))"
    (is "_ \<and> _ \<and> (_ \<longrightarrow> (\<exists>pid i fs gs. ?opened pid i fs gs))")
proof (intro conjI impI)
  note cases = spawn_cases [OF assms(1)]
  show "f = Released \<longleftrightarrow> \<not> isl r" using cases by auto
  show "f \<noteq> Released \<Longrightarrow> lines' = lines \<or> published_over a env lm lines lines'" using cases by auto
  assume "f = Released"
  with cases obtain pid i fs where pid: "le_spawn env = Inr pid" and r: "r = Inr (pid, launch_record env lm pid)"
    and plain: "no_conflict env lm pid" and target: "spawn_target a lines = Inr (i, fs)"
    and stored: "lines' = store_row lines i (published_row (launch_record env lm pid) fs)"
    and proofs: "launch_identity_complete (le_checked env) pid (process_launch_identity (le_spawned env) pid)"
      "parent_confirmed repo env lines fs binding" by auto
  let ?gs = "published_row (launch_record env lm pid) fs"
  note row = spawn_target_row [OF target]
  have over: "published_over a env lm lines lines'" unfolding published_over_def using row pid stored by blast
  have at: "row_fields (lines' ! i) = ?gs" "claimed_row ?gs"
    using published_over_row [OF over assms(2)] row pid by auto
  have len: "length fs = 6" using row single_row(3) by (blast intro: attempt_row_length)
  note meta = published_row_meta [OF assms(2) [OF pid] distinct_launch_record len]
  have ident: "\<forall>k v. k \<in> set PROCESS_IDENTITY_METADATA_KEYS \<and>
      map_of (process_launch_identity (le_spawned env) pid) k = Some v \<longrightarrow> map_of (row_meta ?gs) k = Some v"
  proof (intro allI impI)
    fix k v assume k: "k \<in> set PROCESS_IDENTITY_METADATA_KEYS \<and> map_of (process_launch_identity (le_spawned env) pid) k = Some v"
    then have "map_of (launch_record env lm pid) k = Some v" using plain by (simp add: no_conflict_def)
    moreover have "k \<noteq> ''launch_claimed''" using k by (auto simp: PROCESS_IDENTITY_METADATA_KEYS_def)
    ultimately show "map_of (row_meta ?gs) k = Some v" using meta [of k] by simp
  qed
  have frame: "\<forall>k. k \<noteq> ''launch_claimed'' \<and> map_of (launch_record env lm pid) k = None \<longrightarrow>
      map_of (row_meta ?gs) k = map_of (row_meta fs) k"
    by (simp add: meta)
  have "?opened pid i fs ?gs"
    by (intro conjI pid r row [THEN conjunct1] row [THEN conjunct2, THEN conjunct1] row [THEN conjunct2, THEN conjunct2]
        stored at ident frame proofs)
  then show "\<exists>pid i fs gs. ?opened pid i fs gs" by (intro exI)
qed

text \<open>What a start and a recovery do to a row.\<close>

lemma mark_cases:
  assumes "mark_attempt_launch_started os a pid lines = Inr lines'"
  obtains i fs pipe where "all_rows (attempt_row a) 0 lines = [(i, fs)]" "claimed_row fs"
    "map_of (row_meta fs) ''pid'' = Some (int_str pid)"
    "updated_attempt_metadata False (fs ! 5) [(''launch_started'', ''1'')] = Inr pipe"
    "lines' = store_row lines i (fs[5 := pipe])" "open_status (fs ! 1)"
  using assms that unfolding mark_attempt_launch_started_def
  by (auto simp: bindr_Inr_iff Let_def claimed_row_def split: list.splits prod.splits if_splits)

lemma recover_cases:
  assumes "recover_unstarted_attempt os a lines = (done', lines')"
  shows "(\<not> done' \<and> lines' = lines) \<or> (\<exists>i fs. done' \<and> all_rows (attempt_row a) 0 lines = [(i, fs)] \<and>
    unstarted_fence fs \<and> q_state (attempt_process_quiescence os (row_meta fs)) = ''quiescent'' \<and>
    lines' = store_row lines i (recovered_row fs))"
  using assms unfolding recover_unstarted_attempt_def
  by (auto split: list.splits prod.splits if_splits)

lemma attempt_not_removed [simp]: "''attempt_id'' \<notin> set recovery_removes"
  by (simp add: recovery_removes_def PROCESS_IDENTITY_METADATA_KEYS_def)

lemma recovered_rows:
  assumes "all_rows (attempt_row a) 0 lines = [(i, fs)]"
  shows "all_rows (attempt_row b) 0 (store_row lines i (recovered_row fs)) =
    map (\<lambda>(j, gs). (j, if j = i then recovered_row fs else gs)) (all_rows (attempt_row b) 0 lines)"
proof (rule all_rows_store)
  have fs: "length fs = 6" "tab_free fs" "fs = row_fields (lines ! i)"
    using single_row [OF assms] attempt_row_length by auto
  note shape = recovered_row_shape [OF fs(1,2)]
  show "recovered_row fs \<noteq> []" using shape(1) by auto
  show "tab_free (recovered_row fs)" by (rule shape(2))
  show "attempt_row b (recovered_row fs) \<longleftrightarrow> attempt_row b (row_fields (lines ! i))"
    using recovered_row_meta [OF fs(1), of "''attempt_id''"] shape(1) fs(1)
    by (simp add: attempt_row_def row_has_attempt_def row_meta_def flip: fs(3))
qed (rule single_row(1) [OF assms])

text \<open>A recovered launch cannot start any more. A recovery resets the row of an attempt only when it
  was open, claimed behind a registry fence, not attested and without outcome, and its processes are
  proved to be gone; the reset row is unclaimed and without process identity, keeps everything else, and no
  process whatever can then attest a start of that attempt.\<close>

theorem recovery_revokes_the_launch:
  assumes "recover_unstarted_attempt os a lines = (True, lines')"
  shows "(\<exists>i fs. all_rows (attempt_row a) 0 lines = [(i, fs)] \<and> unstarted_fence fs \<and>
      q_state (attempt_process_quiescence os (row_meta fs)) = ''quiescent'' \<and>
      all_rows (attempt_row a) 0 lines' = [(i, recovered_row fs)] \<and>
      map_of (row_meta (recovered_row fs)) ''launch_claimed'' = Some ''0'' \<and>
      (\<forall>k. k \<in> set PROCESS_IDENTITY_METADATA_KEYS \<longrightarrow> map_of (row_meta (recovered_row fs)) k = None) \<and>
      (\<forall>k. k \<notin> set recovery_removes \<longrightarrow> map_of (row_meta (recovered_row fs)) k = map_of (row_meta fs) k)) \<and>
    (\<forall>os' pid. isl (mark_attempt_launch_started os' a pid lines'))"
    (is "(\<exists>i fs. ?reset i fs) \<and> ?revoked")
proof
  from recover_cases [OF assms] obtain i fs where row: "all_rows (attempt_row a) 0 lines = [(i, fs)]"
    and fence: "unstarted_fence fs" "q_state (attempt_process_quiescence os (row_meta fs)) = ''quiescent''"
    and stored: "lines' = store_row lines i (recovered_row fs)" by auto
  have len: "length fs = 6" using single_row(3) [OF row] by (rule attempt_row_length)
  note meta = recovered_row_meta [OF len]
  have after: "all_rows (attempt_row a) 0 lines' = [(i, recovered_row fs)]"
    by (simp add: stored recovered_rows [OF row] row)
  have "map_of (row_meta (recovered_row fs)) k = None" if "k \<in> set PROCESS_IDENTITY_METADATA_KEYS" for k
    using that by (auto simp: meta recovery_removes_def PROCESS_IDENTITY_METADATA_KEYS_def)
  moreover have "map_of (row_meta (recovered_row fs)) k = map_of (row_meta fs) k" if "k \<notin> set recovery_removes" for k
    using that by (auto simp: meta recovery_removes_def)
  ultimately have "?reset i fs" using row fence after by (simp add: meta)
  then show "\<exists>i fs. ?reset i fs" by blast
  show ?revoked
  proof (intro allI, rule ccontr)
    fix os' pid assume "\<not> isl (mark_attempt_launch_started os' a pid lines')"
    then obtain lines'' where "mark_attempt_launch_started os' a pid lines' = Inr lines''"
      by (metis sum.collapse(2))
    then show False
      by (rule mark_cases) (use after meta in \<open>auto simp: claimed_row_def\<close>)
  qed
qed


section \<open>One process per attempt\<close>

text \<open>A row whose start was attested, and the process it was attested for.\<close>

definition started :: "string \<Rightarrow> string list \<Rightarrow> bool" where
  "started p fs \<longleftrightarrow> claimed_row fs \<and> map_of (row_meta fs) ''launch_started'' = Some ''1'' \<and>
     map_of (row_meta fs) ''pid'' = Some p"

definition started_by :: "string list \<Rightarrow> string \<Rightarrow> string \<Rightarrow> bool" where
  "started_by lines a p \<longleftrightarrow> (\<exists>i fs. all_rows (attempt_row a) 0 lines = [(i, fs)] \<and> started p fs)"

lemma started_by_store:
  assumes "started_by lines a p" "gs \<noteq> []" "tab_free gs" "j < length lines"
    and "\<And>b. attempt_row b gs \<longleftrightarrow> attempt_row b (row_fields (lines ! j))"
    and "attempt_row a (row_fields (lines ! j)) \<Longrightarrow> started p (row_fields (lines ! j)) \<Longrightarrow> started p gs"
  shows "started_by (store_row lines j gs) a p"
proof -
  from assms(1) obtain i fs where row: "all_rows (attempt_row a) 0 lines = [(i, fs)]" and "started p fs"
    by (auto simp: started_by_def)
  moreover have "all_rows (attempt_row a) 0 (store_row lines j gs) = [(i, if i = j then gs else fs)]"
    using all_rows_store [OF assms(2,3,4), of "attempt_row a"] assms(5) row by simp
  ultimately show ?thesis using single_row(2,3) [OF row] assms(6) by (auto simp: started_by_def)
qed

lemma row_rewrite_started_by:
  assumes "started_by lines a p" "j < length lines" "row_rewrite (row_fields (lines ! j)) gs"
    and "started p (row_fields (lines ! j)) \<Longrightarrow> started p gs"
  shows "started_by (store_row lines j gs) a p"
  by (rule started_by_store [OF assms(1) _ _ assms(2)])
     (use assms(3,4) row_rewrite_attempt [OF assms(3)] in \<open>auto simp: row_rewrite_def\<close>)

lemma started_by_append:
  assumes "started_by lines a p" "find_row (attempt_row b) 0 lines = None" "attempt_row b gs" "tab_free gs"
  shows "started_by (lines @ [join [tab] gs]) a p"
proof -
  from assms(1) obtain i fs where row: "all_rows (attempt_row a) 0 lines = [(i, fs)]" and st: "started p fs"
    by (auto simp: started_by_def)
  have gs: "gs \<noteq> []" using assms(3) by (auto simp: attempt_row_def)
  have "\<not> attempt_row a gs"
    using attempt_row_unique [OF assms(3)] assms(2) single_row(1,2,3) [OF row] by (auto simp: find_row_None)
  then have "all_rows (attempt_row a) 0 (lines @ [join [tab] gs]) = [(i, fs)]"
    by (simp add: all_rows_append row row_fields_join [OF gs assms(4)])
  with st show ?thesis by (auto simp: started_by_def)
qed

text \<open>Metadata that says nothing about a launch.\<close>

definition launch_silent :: "meta \<Rightarrow> bool" where
  "launch_silent vals \<longleftrightarrow> plain_values vals \<and> ''pid'' \<notin> fst ` set vals \<and> ''launch_started'' \<notin> fst ` set vals"

lemma started_rewrite:
  assumes "updated_attempt_metadata terminal (fs ! 5) vals = Inr pipe" "launch_silent vals" "length fs = 6" "started p fs"
  shows "started p (fs[5 := pipe])" "started p (fs[1 := st, 5 := pipe])"
proof -
  have "''launch_claimed'' \<notin> fst ` set vals" using assms(2) by (auto simp: launch_silent_def plain_values_def)
  then have "map_of (parse_registry_metadata pipe) k = map_of (row_meta fs) k"
    if "k \<in> {''pid'', ''launch_started'', ''launch_claimed''}" for k
    using that updated_attempt_metadata_frame [OF assms(1), of k] assms(2) by (auto simp: launch_silent_def row_meta_def)
  then show "started p (fs[5 := pipe])" "started p (fs[1 := st, 5 := pipe])"
    using assms(3,4) by (simp_all add: started_def claimed_row_def row_meta_def)
qed

lemma dict_update_keys: "fst ` set (dict_update d e) = fst ` set d \<union> fst ` set e"
proof (induction e arbitrary: d)
  case (Cons x e)
  then show ?case by (cases x) (simp add: keys_update)
qed simp

lemma launch_silent_close:
  assumes "tab \<notin> set nt" "launch_silent ev"
  shows "launch_silent (dict_update [(''note'', nt)] (drop_empty ev))"
proof -
  have "fst ` set (drop_empty ev) \<subseteq> fst ` set ev" by (auto simp: drop_empty_def)
  with assms show ?thesis by (auto simp: launch_silent_def dict_update_keys)
qed

subsection \<open>The operations around a launch\<close>

datatype launch_op =
    Spawn "string \<Rightarrow> string" launch_env "string list \<Rightarrow> string + unit" "parent_binding option" meta string
  | Fence fence_env post_release_signal string int "string list"
  | Recover os string
  | Claim_row "string list \<Rightarrow> string + unit" claim_policy string string bool
  | Close_row string string meta
  | Annotate_row string meta

fun launch_exec :: "launch_op \<Rightarrow> string list \<Rightarrow> (string + bool) \<times> string list" where
  \<comment> \<open>the reply is whether a payload was executed\<close>
  "launch_exec (Spawn repo env preclaim binding lm a) lines =
     (let (r, lines', f) = spawn_claimed_attempt repo env preclaim binding lm a lines
      in (case r of Inl e \<Rightarrow> Inl e | Inr _ \<Rightarrow> Inr False, lines'))"
| "launch_exec (Fence env sig a pid command) lines =
     (let (result, lines') = launch_fence env sig (Some (a, pid)) command lines
      in (Inr (case result of Exec _ \<Rightarrow> True | Exit _ \<Rightarrow> False), lines'))"
| "launch_exec (Recover os a) lines = (let (recovered, lines') = recover_unstarted_attempt os a lines in (Inr False, lines'))"
| "launch_exec (Claim_row preclaim policy a row launch) lines =
     commit (bindr (claim_attempt_row preclaim policy a row launch lines) (\<lambda>(_, lines'). Inr (False, lines'))) lines"
| "launch_exec (Close_row a nt ev) lines =
     commit (bindr (close_attempt_row a nt ev lines) (\<lambda>(_, lines'). Inr (False, lines'))) lines"
| "launch_exec (Annotate_row a vals) lines =
     commit (bindr (annotate_attempt_row a vals lines) (\<lambda>(_, lines'). Inr (False, lines'))) lines"

fun launch_op_ok :: "launch_op \<Rightarrow> bool" where
  "launch_op_ok (Spawn repo env preclaim binding lm a) =
     (case le_spawn env of Inl _ \<Rightarrow> True
      | Inr pid \<Rightarrow> clean_meta (launch_record env lm pid) \<and> map_of (launch_record env lm pid) ''attempt_id'' = None)"
| "launch_op_ok (Fence env sig a pid command) = (0 < pid)"
| "launch_op_ok (Recover os a) = True"
| "launch_op_ok (Claim_row preclaim policy a row launch) = True"
| "launch_op_ok (Close_row a nt ev) = (tab \<notin> set nt \<and> launch_silent ev)"
| "launch_op_ok (Annotate_row a vals) = launch_silent vals"

lemma claim_effect:
  assumes "claim_attempt_row preclaim policy a row launch lines = Inr (r, lines')"
  shows "lines' = lines \<or>
    (\<exists>gs. find_row (attempt_row a) 0 lines = None \<and> attempt_row a gs \<and> tab_free gs \<and> lines' = lines @ [join [tab] gs]) \<or>
    (\<exists>i gs. i < length lines \<and> \<not> claimed_row (row_fields (lines ! i)) \<and> row_rewrite (row_fields (lines ! i)) gs \<and>
       lines' = store_row lines i gs)"
proof -
  let ?rf = "row_fields (rstrip_newline row)"
  from assms have len: "length ?rf = 6" and id: "map_of (row_meta ?rf) ''attempt_id'' = Some a"
    and res: "(case find_row (attempt_row a) 0 lines of
         Some (index, fs) \<Rightarrow> claim_existing_row preclaim launch ?rf lines index fs
       | None \<Rightarrow> claim_new_row preclaim policy launch ?rf lines) = Inr (r, lines')"
    by (auto simp: claim_attempt_row_def Let_def bindr_Inr_iff split: if_splits)
  show ?thesis
  proof (cases "find_row (attempt_row a) 0 lines")
    case None
    define v where "v = (if launch then ''1'' else ''0'')"
    define gs where "gs = ?rf[5 := (?rf ! 5) @ '','' @ kv_part ''launch_claimed'' v]"
    have v: "CHR '','' \<notin> set v" "tab \<notin> set v" by (simp_all add: v_def)
    from find_row_row [OF claim_append(2) [OF len id row_fields_tab_free None v refl]]
    have "attempt_row a gs" "tab_free gs" by (simp_all only: gs_def)
    moreover have "lines' = lines \<or> lines' = lines @ [join [tab] gs]"
      using None res claim_new_row_result [of preclaim policy launch ?rf lines r lines'] by (simp only: option.case v_def gs_def) blast
    ultimately show ?thesis using None by blast
  next
    case (Some q)
    obtain i fs where q: "q = (i, fs)" by (cases q)
    note row = find_row_row [OF Some [unfolded q]]
    from res Some q have "claim_existing_row preclaim launch ?rf lines i fs = Inr (r, lines')" by simp
    from claim_existing_row_result [OF this attempt_row_length [OF row(3)] row(4)] row(1,2) show ?thesis by blast
  qed
qed

lemma published_started:
  assumes "started_by lines a p" "published_over b env lm lines lines'"
    and "\<And>pid. le_spawn env = Inr pid \<Longrightarrow> clean_meta (launch_record env lm pid) \<and> map_of (launch_record env lm pid) ''attempt_id'' = None"
  shows "started_by lines' a p"
proof -
  obtain pid i fs where pid: "le_spawn env = Inr pid" and row: "all_rows (attempt_row b) 0 lines = [(i, fs)]"
    and unclaimed: "\<not> claimed_row fs" and stored: "lines' = store_row lines i (published_row (launch_record env lm pid) fs)"
    using published_over_row [OF assms(2)] assms(3) by blast
  have len: "length fs = 6" using single_row(3) [OF row] by (rule attempt_row_length)
  have rec: "clean_meta (launch_record env lm pid)" "map_of (launch_record env lm pid) ''attempt_id'' = None"
    using assms(3) [OF pid] by simp_all
  note shape = published_row_shape [OF rec(1) len single_row(4) [OF row]]
  have "map_of (row_meta (published_row (launch_record env lm pid) fs)) ''attempt_id'' = map_of (row_meta fs) ''attempt_id''"
    by (simp add: published_row_meta [OF rec(1) distinct_launch_record len] rec(2))
  then have "attempt_row c (published_row (launch_record env lm pid) fs) \<longleftrightarrow> attempt_row c (row_fields (lines ! i))" for c
    using shape(1) len by (simp add: attempt_row_def row_has_attempt_def row_meta_def flip: single_row(2) [OF row])
  then show ?thesis
    unfolding stored using assms(1) shape(1,2) single_row(1,2) [OF row] unclaimed
    by (intro started_by_store) (auto simp: started_def)
qed

lemma mark_started:
  assumes "mark_attempt_launch_started os b pid lines = Inr lines'"
  shows "started_by lines a p \<Longrightarrow> started_by lines' a p" and "started_by lines' b (int_str pid)"
    and "started_by lines b p \<Longrightarrow> p = int_str pid"
proof -
  from assms obtain i fs pipe where row: "all_rows (attempt_row b) 0 lines = [(i, fs)]" and claimed: "claimed_row fs"
    and pid: "map_of (row_meta fs) ''pid'' = Some (int_str pid)"
    and upd: "updated_attempt_metadata False (fs ! 5) [(''launch_started'', ''1'')] = Inr pipe"
    and stored: "lines' = store_row lines i (fs[5 := pipe])" by (rule mark_cases)
  have fs: "length fs = 6" "tab_free fs" "fs = row_fields (lines ! i)" "i < length lines"
    using single_row [OF row] attempt_row_length by auto
  have rw: "row_rewrite fs (fs[5 := pipe])" by (rule rewrite_row(1) [OF fs(1,2) upd]) simp
  have keep: "map_of (parse_registry_metadata pipe) k = map_of (row_meta fs) k" if "k \<noteq> ''launch_started''" for k
    using updated_attempt_metadata_frame [OF upd, of k] that by (simp add: row_meta_def)
  have set: "map_of (parse_registry_metadata pipe) ''launch_started'' = Some ''1''"
    using updated_attempt_metadata_stores [OF upd, of "''launch_started''" "''1''"]
    by (simp add: ATTEMPT_MUTABLE_METADATA_def semicolons_def)
  have new: "started q (fs[5 := pipe]) \<longleftrightarrow> q = int_str pid" for q
    using fs(1) keep set claimed pid by (auto simp: started_def claimed_row_def row_meta_def)
  show "started_by lines a p \<Longrightarrow> started_by lines' a p"
    unfolding stored by (rule row_rewrite_started_by) (use fs rw new pid in \<open>auto simp: started_def\<close>)
  have gs: "fs[5 := pipe] \<noteq> []" "tab_free (fs[5 := pipe])" using rw by (auto simp: row_rewrite_def)
  have "all_rows (attempt_row b) 0 lines' = [(i, fs[5 := pipe])]"
    unfolding stored using all_rows_store [OF gs fs(4), of "attempt_row b"] row_rewrite_attempt [OF rw] row fs(3) by simp
  then show "started_by lines' b (int_str pid)" using new by (auto simp: started_by_def)
  show "started_by lines b p \<Longrightarrow> p = int_str pid" using row pid by (auto simp: started_by_def started_def)
qed


lemma launch_exec_started:
  assumes "launch_op_ok op" "started_by lines a p"
  shows "started_by (snd (launch_exec op lines)) a p"
proof (cases op)
  case (Spawn repo env preclaim binding lm b)
  obtain r lines' f where res: "spawn_claimed_attempt repo env preclaim binding lm b lines = (r, lines', f)"
    by (metis prod_cases3)
  have "lines' = lines \<or> published_over b env lm lines lines'" using spawn_cases [OF res] by blast
  moreover have "published_over b env lm lines lines' \<Longrightarrow> started_by lines' a p"
    by (rule published_started [OF assms(2)]) (use assms(1) Spawn in \<open>auto split: sum.splits\<close>)
  ultimately show ?thesis using assms(2) Spawn res by auto
next
  case (Fence env sig b pid command)
  then show ?thesis
    using assms(2) mark_started(1) [of "fe_os env" b pid lines _ a p]
    by (auto simp: launch_fence_def split: sum.splits)
next
  case (Recover os b)
  obtain ok lines' where res: "recover_unstarted_attempt os b lines = (ok, lines')" by (cases "recover_unstarted_attempt os b lines")
  have "started_by lines' a p"
    using recover_cases [OF res]
  proof (elim disjE conjE exE)
    fix i fs
    assume row: "all_rows (attempt_row b) 0 lines = [(i, fs)]" and fence: "unstarted_fence fs"
      and stored: "lines' = store_row lines i (recovered_row fs)"
    have fs: "length fs = 6" "tab_free fs" "i < length lines" "fs = row_fields (lines ! i)"
      using single_row [OF row] attempt_row_length by auto
    note shape = recovered_row_shape [OF fs(1,2)]
    have "attempt_row c (recovered_row fs) \<longleftrightarrow> attempt_row c (row_fields (lines ! i))" for c
      using recovered_row_meta [OF fs(1), of "''attempt_id''"] shape(1) fs(1)
      by (simp add: attempt_row_def row_has_attempt_def row_meta_def flip: fs(4))
    then show ?thesis
      unfolding stored using assms(2) shape(1,2) fs fence
      by (intro started_by_store) (auto simp: started_def unstarted_fence_def Let_def)
  qed (use assms(2) in simp)
  with Recover res show ?thesis by simp
next
  case (Claim_row preclaim policy b row launch)
  show ?thesis
  proof (cases "claim_attempt_row preclaim policy b row launch lines")
    case (Inr q)
    obtain r lines' where q: "q = (r, lines')" by (cases q)
    have "started_by lines' a p"
      using claim_effect [OF Inr [unfolded q]]
    proof (elim disjE conjE exE)
      fix i gs
      assume "i < length lines" "\<not> claimed_row (row_fields (lines ! i))" "row_rewrite (row_fields (lines ! i)) gs"
        "lines' = store_row lines i gs"
      then show ?thesis using row_rewrite_started_by [OF assms(2), of i gs] by (auto simp: started_def)
    qed (use assms(2) started_by_append in auto)
    with Claim_row Inr q show ?thesis by (simp add: commit_def)
  qed (use Claim_row assms(2) in \<open>simp add: commit_def\<close>)
next
  case (Close_row b nt ev)
  have "started_by lines' a p" if res: "close_attempt_row b nt ev lines = Inr (r, lines')" for r lines'
  proof (cases "lines' = lines")
    case False
    with res obtain i fs pipe where row: "find_row (open_attempt_row b) 0 lines = Some (i, fs)"
      and upd: "updated_attempt_metadata True (fs ! 5) (dict_update [(''note'', nt)] (drop_empty ev)) = Inr pipe"
      and stored: "lines' = store_row lines i (fs[1 := ''done'', 5 := pipe])"
      by (auto simp: close_attempt_row_def bindr_Inr_iff split: if_splits option.splits sum.splits)
    have silent: "launch_silent (dict_update [(''note'', nt)] (drop_empty ev))"
      by (rule launch_silent_close) (use assms(1) Close_row in auto)
    note r = find_row_row [OF row]
    have "row_rewrite fs (fs[1 := ''done'', 5 := pipe])"
      using rewrite_row(2) [OF open_attempt_rowD(1) [OF r(3)] r(4) upd] silent open_attempt_rowD(2) [OF r(3)]
      by (simp add: launch_silent_def)
    then show ?thesis
      unfolding stored using started_rewrite(2) [OF upd silent open_attempt_rowD(1) [OF r(3)], of p "''done''"] r(1,2)
      by (intro row_rewrite_started_by [OF assms(2)]) auto
  qed (use assms(2) in simp)
  with Close_row assms(2) show ?thesis
    by (cases "close_attempt_row b nt ev lines") (auto simp: commit_def)
next
  case (Annotate_row b vals)
  have "started_by lines' a p" if res: "annotate_attempt_row b vals lines = Inr (r, lines')" for r lines'
  proof (cases "lines' = lines")
    case False
    with res obtain i fs pipe where row: "find_row (attempt_row b) 0 lines = Some (i, fs)"
      and upd: "updated_attempt_metadata False (fs ! 5) vals = Inr pipe" and stored: "lines' = store_row lines i (fs[5 := pipe])"
      by (auto simp: annotate_attempt_row_def bindr_Inr_iff split: option.splits)
    have silent: "launch_silent vals" using assms(1) Annotate_row by simp
    note r = find_row_row [OF row]
    have "row_rewrite fs (fs[5 := pipe])"
      using rewrite_row(1) [OF attempt_row_length [OF r(3)] r(4) upd] silent by (simp add: launch_silent_def)
    then show ?thesis
      unfolding stored using started_rewrite(1) [OF upd silent attempt_row_length [OF r(3)], of p] r(1,2)
      by (intro row_rewrite_started_by [OF assms(2)]) auto
  qed (use assms(2) in simp)
  with Annotate_row assms(2) show ?thesis
    by (cases "annotate_attempt_row b vals lines") (auto simp: commit_def)
qed

text \<open>Which payload an answer speaks of.\<close>

definition ran_payload :: "launch_op \<Rightarrow> string + bool \<Rightarrow> string \<Rightarrow> int \<Rightarrow> bool" where
  "ran_payload op r a pid \<longleftrightarrow> r = Inr True \<and> 0 < pid \<and> (\<exists>env sig command. op = Fence env sig a pid command)"

lemma ran_payload_mark:
  assumes "ran_payload op (fst (launch_exec op lines)) a pid"
  shows "\<exists>os. mark_attempt_launch_started os a pid lines = Inr (snd (launch_exec op lines))"
  using assms by (auto simp: ran_payload_def launch_fence_def split: sum.splits if_splits prod.splits fence_end.splits)

lemma int_str_inject: "0 < i \<Longrightarrow> 0 < j \<Longrightarrow> int_str i = int_str j \<Longrightarrow> i = j"
  by (metis digits_val_int_str less_le)

interpretation launching: agreeing_machine launch_exec launch_op_ok "\<lambda>_. True"
  "\<lambda>lines a pid. 0 < pid \<and> started_by lines a (int_str pid)" ran_payload
proof unfold_locales
  fix op :: launch_op and lines a and pid q :: int
  assume ok: "launch_op_ok op"
  show "0 < pid \<and> started_by lines a (int_str pid) \<Longrightarrow> 0 < pid \<and> started_by (snd (launch_exec op lines)) a (int_str pid)"
    using launch_exec_started [OF ok] by blast
  assume ran: "ran_payload op (fst (launch_exec op lines)) a pid"
  obtain os where mark: "mark_attempt_launch_started os a pid lines = Inr (snd (launch_exec op lines))"
    using ran_payload_mark [OF ran] by blast
  show "0 < pid \<and> started_by (snd (launch_exec op lines)) a (int_str pid)"
    using ran mark_started(2) [OF mark] by (simp add: ran_payload_def)
  show "0 < q \<and> started_by lines a (int_str q) \<Longrightarrow> pid = q"
    using ran mark_started(3) [OF mark] int_str_inject by (auto simp: ran_payload_def)
qed (auto simp: ran_payload_def)



section \<open>Witnesses\<close>

definition demo_axes :: "string list" where
  "demo_axes = [''attempt_id=att-a'', ''attempt_schema_version=2'', ''dispatch_depth=1'', ''transport=headless'',
     ''execution_surface=registered-headless'', ''registered_worker=1'', ''fallback_hop=same-harness-headless'',
     ''launch_fence=registry-v1'']"

definition demo_launch_row :: "string list \<Rightarrow> string" where
  "demo_launch_row extra = join [tab] [''t'', ''open'', ''/repo'', ''/w'', ''slug'', join '','' (demo_axes @ extra)]"

definition demo_abort :: abort_env where
  "demo_abort = \<lparr>ae_exits = True, ae_check = demo_os, ae_recheck = demo_os, ae_kill = ReadOk (), ae_reaped = True, ae_end = demo_os\<rparr>"

definition demo_launch :: launch_env where
  "demo_launch = \<lparr>le_before = \<lparr>mo_os = demo_os, mo_lease = demo_lease_world\<rparr>, le_spawn = Inr 7, le_spawned = demo_os,
     le_checked = demo_os, le_pre_release = None, le_replace = Replaced,
     le_after = \<lparr>mo_os = demo_os, mo_lease = demo_lease_world\<rparr>, le_write = True, le_abort = demo_abort\<rparr>"

lemma demo_target: "\<not> isl (spawn_target ''att-a'' [demo_launch_row [''launch_claimed=0'']])"
  by code_simp

lemma demo_complete: "launch_identity_complete demo_os 7 (process_launch_identity demo_os 7)"
  by code_simp

lemma demo_clean: "clean_meta (launch_record demo_launch [] 7)"
  by code_simp

lemma demo_spawn:
  "snd (snd (spawn_claimed_attempt (\<lambda>p. p) demo_launch (\<lambda>_. Inr ()) None [] ''att-a'' [demo_launch_row [''launch_claimed=0'']])) = Released"
proof -
  obtain i fs where "spawn_target ''att-a'' [demo_launch_row [''launch_claimed=0'']] = Inr (i, fs)"
    using demo_target by (metis old.prod.exhaust sum.collapse(2))
  then show ?thesis
    using demo_complete
    by (simp add: spawn_claimed_attempt_def fenced_launch_def demo_launch_def pre_release_metadata_def drop_empty_def Let_def
        PROCESS_IDENTITY_METADATA_KEYS_def)
qed

theorem fence_opens_after_publication_witness:
  "\<not> isl (fst (spawn_claimed_attempt (\<lambda>p. p) demo_launch (\<lambda>_. Inr ()) None [] ''att-a'' [demo_launch_row [''launch_claimed=0'']]))"
proof -
  obtain r lines' f where res: "spawn_claimed_attempt (\<lambda>p. p) demo_launch (\<lambda>_. Inr ()) None [] ''att-a''
      [demo_launch_row [''launch_claimed=0'']] = (r, lines', f)" by (metis prod_cases3)
  have "f = Released \<longleftrightarrow> \<not> isl r"
    by (rule fence_opens_after_publication [OF res, THEN conjunct1])
      (use demo_clean in \<open>simp add: demo_launch_def\<close>)
  then show ?thesis using demo_spawn res by simp
qed

definition demo_stale_row :: string where
  "demo_stale_row = demo_launch_row [''launch_claimed=1'', ''pid=9'', ''pid_start=50'', ''pgid=9'', ''pid_observer_ns=pid:[1]'',
     ''pid_ns=pid:[1]'']"

lemma demo_recovers: "fst (recover_unstarted_attempt demo_os ''att-a'' [demo_stale_row])"
  by code_simp

theorem recovery_revokes_the_launch_witness:
  "isl (mark_attempt_launch_started demo_os ''att-a'' 9 (snd (recover_unstarted_attempt demo_os ''att-a'' [demo_stale_row])))"
proof -
  have "recover_unstarted_attempt demo_os ''att-a'' [demo_stale_row]
      = (True, snd (recover_unstarted_attempt demo_os ''att-a'' [demo_stale_row]))"
    using demo_recovers by (metis prod.collapse)
  from recovery_revokes_the_launch [OF this] show ?thesis by blast
qed

definition demo_fence_env :: fence_env where
  "demo_fence_env = \<lparr>fe_parent_before = True, fe_read = Some ''1'', fe_parent_after = True, fe_prctl = True, fe_os = demo_os\<rparr>"

definition demo_runs :: "(launch_op \<times> (string + bool)) list" where
  "demo_runs = run_replies launch_exec
     (replicate 2 (Fence demo_fence_env Signal_none ''att-a'' 7 [''payload'']))
     [demo_launch_row [''launch_claimed=1'', ''pid=7'', ''pid_start=99'', ''pgid=7'']]"

lemma demo_runs_replies: "map snd demo_runs = [Inr True, Inr True]"
  by code_simp


end
