(* ===== verification/Stage_Session.thy ===== *)
theory Stage_Session
  imports Registry_Rows
begin

text \<open>
  Splitting one route stage into worker sessions: the manifest of a chain
  (\<open>utilities/stage_session_contract.py\<close>), the declaration of one session by its launcher
  (\<open>utilities/stage_session_runtime.py\<close>) and the serial supervisor of a chain
  (\<open>utilities/stage-session-chain.py\<close>). Files, path resolution and SHA-256 are parameters; a
  \<open>StageSessionError\<close> is its text up to the first colon.
\<close>

section \<open>Paths and files\<close>

record stage_files =
  sf_resolve :: "string \<Rightarrow> string"              \<comment> \<open>\<open>str(Path(p).resolve(strict=False))\<close>\<close>
  sf_json :: "string \<Rightarrow> json option"            \<comment> \<open>parsed text; \<open>None\<close>: unreadable or not JSON\<close>
  sf_bytes :: "string \<Rightarrow> string option"         \<comment> \<open>bytes of a regular file; \<open>None\<close>: not a file\<close>
  sf_sha256 :: "string \<Rightarrow> string"               \<comment> \<open>hex digest of bytes\<close>

definition slash :: char where "slash = CHR ''/''"

definition path_join :: "string \<Rightarrow> string \<Rightarrow> string" where
  \<comment> \<open>\<open>base / path\<close>\<close>
  "path_join base p = (if is_absolute p then p else if base = ''/'' then ''/'' @ p else base @ ''/'' @ p)"

definition path_parent :: "string \<Rightarrow> string" where
  "path_parent p = (let up = rev (drop 1 (dropWhile (\<lambda>c. c \<noteq> slash) (rev p))) in if up = [] then ''/'' else up)"

definition inside :: "string \<Rightarrow> string \<Rightarrow> bool" where
  \<comment> \<open>\<open>path.relative_to(root)\<close> does not raise, on resolved paths\<close>
  "inside root p \<longleftrightarrow> p = root \<or> root = ''/'' \<or> startswith (root @ ''/'') p"

definition absolute_path :: "stage_files \<Rightarrow> json \<Rightarrow> string \<Rightarrow> string \<Rightarrow> string + string" where
  "absolute_path fw value base field =
    (if \<not> nonempty_str value then Inl (field @ ''-missing'')
     else Inr (sf_resolve fw (path_join base (the_str value))))"

primrec collect_fixed :: "stage_files \<Rightarrow> string \<Rightarrow> json list \<Rightarrow> string list \<Rightarrow> string + string list" where
  "collect_fixed fw worktree [] result = Inr result"
| "collect_fixed fw worktree (raw # rest) result =
    bindr (absolute_path fw raw worktree ''fixed-file'') (\<lambda>path.
      if \<not> inside worktree path then Inl ''fixed-file-outside-worktree''
      else if list_ex (\<lambda>c. c \<in> set ''*?[]'') (the_str raw) then Inl ''fixed-file-must-be-exact''
      else collect_fixed fw worktree rest (if path \<in> set result then result else result @ [path]))"

definition fixed_files :: "stage_files \<Rightarrow> json \<Rightarrow> string \<Rightarrow> string + string list" where
  "fixed_files fw vals worktree =
    (if \<not> is_list vals \<or> the_list vals = [] then Inl ''fixed-files-missing''
     else bindr (collect_fixed fw worktree (the_list vals) []) (\<lambda>result. Inr (sort result)))"

section \<open>The manifest of a chain\<close>

definition SCHEMA_VERSION :: int where "SCHEMA_VERSION = 1"
definition MODES :: "string list" where "MODES = [''serial'', ''parallel'']"
definition ADAPTERS :: "string list" where "ADAPTERS = [''claude'', ''codex'', ''opencode'']"

definition attempt_form :: "string \<Rightarrow> bool" where
  "attempt_form s = prefixed_class ''att-'' ident_char 8 240 s"

definition member_of :: "json \<Rightarrow> string list \<Rightarrow> string + bool" where
  \<comment> \<open>\<open>v in {...}\<close> of strings; a list or an object is unhashable\<close>
  "member_of v xs = (case v of JStr s \<Rightarrow> Inr (s \<in> set xs) | JList _ \<Rightarrow> Inl ''TypeError'' | JObj _ \<Rightarrow> Inl ''TypeError''
     | _ \<Rightarrow> Inr False)"

record chain_session =
  cs_raw :: obj
  cs_index :: nat
  cs_count :: nat
  cs_id :: string
  cs_attempt :: string
  cs_adapter :: string
  cs_slug :: string
  cs_phase_brief :: string
  cs_fixed_files :: "string list"
  cs_narrow_verify :: string
  cs_rounds :: int

definition session_of ::
  "stage_files \<Rightarrow> string \<Rightarrow> string \<Rightarrow> nat \<Rightarrow> nat \<Rightarrow> string list \<Rightarrow> string list \<Rightarrow> json \<Rightarrow> string + chain_session" where
  "session_of fw base worktree total_count offset seen_ids seen_attempts item =
    (if \<not> is_obj item then Inl ''session-invalid''
     else let d = the_obj item; sid = oget d ''subsession_id''; att = oget d ''attempt_id''; slug = oget d ''slug'';
              verify = oget d ''narrow_verify'' in
     if \<not> (is_str sid \<and> SUBSESSION_ID_RE (the_str sid)) then Inl ''subsession-id-invalid''
     else if the_str sid \<in> set seen_ids then Inl ''subsession-id-duplicate''
     else if \<not> (is_str att \<and> attempt_form (the_str att)) then Inl ''attempt-id-invalid''
     else if the_str att \<in> set seen_attempts then Inl ''attempt-id-duplicate''
     else bindr (member_of (oget d ''adapter'') ADAPTERS) (\<lambda>known_adapter.
     if \<not> known_adapter then Inl ''adapter-invalid''
     else if \<not> (is_str slug \<and> prefixed_class [] ident_char 1 120 (the_str slug)) then Inl ''slug-invalid''
     else bindr (absolute_path fw (oget d ''phase_brief'') base ''phase-brief'') (\<lambda>brief.
     if sf_bytes fw brief = None then Inl ''phase-brief-missing''
     else if \<not> is_str verify \<or> strip (the_str verify) = [] \<or> newline \<in> set (the_str verify) then Inl ''narrow-verify-invalid''
     else case plain_int (oget d ''expected_round_trips'') of
       None \<Rightarrow> Inl ''expected-round-trips-invalid''
     | Some rounds \<Rightarrow>
         if \<not> (1 \<le> rounds \<and> rounds \<le> 20) then Inl ''expected-round-trips-invalid''
         else bindr (fixed_files fw (oget d ''fixed_files'') worktree) (\<lambda>fixed.
           Inr \<lparr>cs_raw = d, cs_index = offset, cs_count = total_count, cs_id = the_str sid, cs_attempt = the_str att,
             cs_adapter = the_str (oget d ''adapter''), cs_slug = the_str slug, cs_phase_brief = brief,
             cs_fixed_files = fixed, cs_narrow_verify = strip (the_str verify), cs_rounds = rounds\<rparr>))))"

primrec normalize_sessions ::
  "stage_files \<Rightarrow> string \<Rightarrow> string \<Rightarrow> nat \<Rightarrow> json list \<Rightarrow> chain_session list \<Rightarrow> string + chain_session list" where
  \<comment> \<open>\<open>acc\<close> holds the sessions already normalized, which give the seen ids and the offset\<close>
  "normalize_sessions fw base worktree total_count [] acc = Inr acc"
| "normalize_sessions fw base worktree total_count (item # rest) acc =
    bindr (session_of fw base worktree total_count (Suc (length acc)) (map cs_id acc) (map cs_attempt acc) item) (\<lambda>s.
      normalize_sessions fw base worktree total_count rest (acc @ [s]))"

primrec claim_files :: "string \<Rightarrow> (string \<times> string) list \<Rightarrow> string list \<Rightarrow> string + (string \<times> string) list" where
  \<comment> \<open>\<open>owners.setdefault(file, subsession_id)\<close>\<close>
  "claim_files sid owners [] = Inr owners"
| "claim_files sid owners (file # rest) = (case map_of owners file of
       None \<Rightarrow> claim_files sid (owners @ [(file, sid)]) rest
     | Some prior \<Rightarrow> if prior \<noteq> sid then Inl ''parallel-fixed-file-overlap'' else claim_files sid owners rest)"

primrec claim_all_files :: "(string \<times> string) list \<Rightarrow> chain_session list \<Rightarrow> string + unit" where
  "claim_all_files owners [] = Inr ()"
| "claim_all_files owners (s # rest) =
    bindr (claim_files (cs_id s) owners (cs_fixed_files s)) (\<lambda>owners'. claim_all_files owners' rest)"

record chain_manifest =
  cm_raw :: obj
  cm_path :: string
  cm_sha256 :: string
  cm_mode :: string
  cm_worktree :: string
  cm_route_file :: string
  cm_sessions :: "chain_session list"

definition route_matches :: "stage_files \<Rightarrow> obj \<Rightarrow> obj \<Rightarrow> string \<Rightarrow> string + unit" where
  "route_matches fw raw route route_file =
    (if list_ex (\<lambda>k. \<not> py_eq (oget raw k) (oget route k)) [''route_id'', ''route_hash''] then Inl ''manifest-route-identity-mismatch''
     else if truthy (oget route ''_route_file'') \<and> route_file \<noteq> sf_resolve fw (py_str (oget route ''_route_file''))
     then Inl ''manifest-route-file-mismatch''
     else Inr ())"

definition node_matches :: "obj \<Rightarrow> obj \<Rightarrow> string + unit" where
  "node_matches raw node =
    (if \<not> py_eq (oget raw ''route_node'') (oget node ''id'') then Inl ''manifest-route-node-mismatch''
     else if \<not> py_eq (oget raw ''completion_gate'') (oget node ''completion_gate'') then Inl ''manifest-completion-gate-mismatch''
     else Inr ())"

definition load_manifest :: "stage_files \<Rightarrow> string \<Rightarrow> obj option \<Rightarrow> obj option \<Rightarrow> string + chain_manifest" where
  "load_manifest fw path route node =
    (let manifest_path = sf_resolve fw path; base = path_parent manifest_path in
     case sf_json fw manifest_path of
       None \<Rightarrow> Inl ''manifest-unreadable''
     | Some value \<Rightarrow>
       let raw = the_obj value; chain_id = oget raw ''chain_id''; sessions = oget raw ''sessions'' in
       if \<not> is_obj value \<or> \<not> py_eq (oget raw ''schema_version'') (JInt SCHEMA_VERSION) then Inl ''manifest-schema-invalid''
       else if \<not> py_eq (oget raw ''kind'') (JStr ''stage-session-chain'') then Inl ''manifest-kind-invalid''
       else if \<not> (is_str chain_id \<and> SESSION_CHAIN_ID_RE (the_str chain_id)) then Inl ''chain-id-invalid''
       else bindr (member_of (oget raw ''mode'') MODES) (\<lambda>known_mode.
       if \<not> known_mode then Inl ''session-mode-invalid''
       else bindr (absolute_path fw (oget raw ''worktree'') base ''worktree'') (\<lambda>worktree.
       bindr (absolute_path fw (oget raw ''route_file'') base ''route-file'') (\<lambda>route_file.
       bindr (case route of None \<Rightarrow> Inr () | Some r \<Rightarrow> route_matches fw raw r route_file) (\<lambda>_.
       bindr (case node of None \<Rightarrow> Inr () | Some n \<Rightarrow> node_matches raw n) (\<lambda>_.
       if \<not> is_list sessions \<or> \<not> (1 \<le> length (the_list sessions) \<and> length (the_list sessions) \<le> 16)
       then Inl ''session-count-invalid''
       else bindr (normalize_sessions fw base worktree (length (the_list sessions)) (the_list sessions) []) (\<lambda>normalized.
       bindr (if the_str (oget raw ''mode'') = ''parallel'' then claim_all_files [] normalized else Inr ()) (\<lambda>_.
       case sf_bytes fw manifest_path of
         None \<Rightarrow> Inl ''OSError''
       | Some bytes \<Rightarrow> Inr \<lparr>cm_raw = raw, cm_path = manifest_path, cm_sha256 = sf_sha256 fw bytes,
           cm_mode = the_str (oget raw ''mode''), cm_worktree = worktree, cm_route_file = route_file,
           cm_sessions = normalized\<rparr>))))))))"


section \<open>Declaring one session\<close>

record session_args =
  sa_id :: "string option"
  sa_index :: "int option"
  sa_count :: "int option"
  sa_mode :: "string option"
  sa_purpose :: string
  sa_chain_id :: "string option"
  sa_phase_brief :: "string option"
  sa_stage_authority :: int
  sa_fixed_file :: "string list"
  sa_narrow_verify :: "string option"
  sa_rounds :: "int option"
  sa_state_dir :: "string option"
  sa_route_id :: string
  sa_route_node :: string
  sa_attempt_id :: string
  sa_dispatch_depth :: int
  sa_execution_surface :: string
  sa_registered_worker :: json
  sa_fallback_hop :: string
  sa_worktree :: string
  sa_batch_expectation :: json

record session_binding =
  sb_attempt_id :: string
  sb_fixed_file :: "string list"
  sb_phase_brief :: string
  sb_state_ledger :: string
  sb_fixed_files_sha256 :: string
  sb_narrow_verify_sha256 :: string
  sb_phase_brief_sha256 :: string

definition given :: "string option \<Rightarrow> bool" where
  \<comment> \<open>truthiness of an optional text\<close>
  "given v \<longleftrightarrow> v \<noteq> None \<and> v \<noteq> Some []"

definition sha_files :: "stage_files \<Rightarrow> string list \<Rightarrow> string" where
  "sha_files fw vals = sf_sha256 fw (join [CHR 0x00] (sort vals))"

primrec bound_files :: "stage_files \<Rightarrow> string \<Rightarrow> string list \<Rightarrow> string + string list" where
  "bound_files fw worktree [] = Inr []"
| "bound_files fw worktree (raw # rest) =
    (let path = sf_resolve fw (path_join worktree raw) in
     if \<not> inside worktree path then Inl ''subsession-fixed-file-outside-worktree''
     else if list_ex (\<lambda>c. c \<in> set ''*?[]'') raw then Inl ''subsession-fixed-file-not-exact''
     else bindr (bound_files fw worktree rest) (\<lambda>paths. Inr (path # paths)))"

definition declared_axes :: "session_args \<Rightarrow> bool list" where
  "declared_axes a = [sa_id a \<noteq> None, sa_index a \<noteq> None, sa_count a \<noteq> None, sa_mode a \<noteq> None, sa_chain_id a \<noteq> None,
     sa_phase_brief a \<noteq> None, sa_narrow_verify a \<noteq> None, sa_rounds a \<noteq> None]"

definition attempt_axes :: "session_args \<Rightarrow> session_binding \<Rightarrow> obj" where
  "attempt_axes a b =
    [(''attempt_schema_version'', JInt 2), (''dispatch_depth'', JInt (sa_dispatch_depth a)),
     (''transport'', JStr ''headless''), (''execution_surface'', JStr (sa_execution_surface a)),
     (''registered_worker'', sa_registered_worker a), (''fallback_hop'', JStr (sa_fallback_hop a)),
     (''route_id'', JStr (sa_route_id a)), (''route_node'', JStr (sa_route_node a)),
     (''subsession_id'', JStr (the (sa_id a))), (''stage_authority'', JInt (sa_stage_authority a)),
     (''session_chain_id'', JStr (the (sa_chain_id a))), (''subsession_index'', JInt (the (sa_index a))),
     (''subsession_count'', JInt (the (sa_count a))), (''subsession_mode'', JStr (the (sa_mode a))),
     (''subsession_purpose'', JStr (sa_purpose a)), (''phase_brief'', JStr (sb_phase_brief b)),
     (''state_ledger'', JStr (sb_state_ledger b)), (''fixed_files_sha256'', JStr (sb_fixed_files_sha256 b)),
     (''narrow_verify_sha256'', JStr (sb_narrow_verify_sha256 b)), (''expected_round_trips'', JInt (the (sa_rounds a)))]
    @ (if sa_mode a = Some ''parallel''
       then [(''parallel_group'', py_or (sa_batch_expectation a) (JStr ''pending-batch''))] else [])"

definition no_binding :: "session_args \<Rightarrow> session_binding" where
  "no_binding a = \<lparr>sb_attempt_id = sa_attempt_id a, sb_fixed_file = sa_fixed_file a, sb_phase_brief = [], sb_state_ledger = [],
     sb_fixed_files_sha256 = [], sb_narrow_verify_sha256 = [], sb_phase_brief_sha256 = []\<rparr>"

definition bind_session :: "stage_files \<Rightarrow> bool \<Rightarrow> session_args \<Rightarrow> string \<Rightarrow> string \<Rightarrow> string + session_binding" where
  \<comment> \<open>\<open>bind\<close>; \<open>ledger_ok\<close>: the ledger's \<open>init\<close> command exits with 0\<close>
  "bind_session fw ledger_ok a artifact_root action =
    (if list_ex id (declared_axes a) \<and> \<not> list_all id (declared_axes a) then Inl ''subsession-arguments-incomplete''
     else if \<not> given (sa_id a) then
       (if sa_stage_authority a \<noteq> 1 then Inl ''stage-authority-zero-without-subsession'' else Inr (no_binding a))
     else if sa_stage_authority a \<noteq> 0 then Inl ''subsession-stage-authority-forbidden''
     else if sa_dispatch_depth a \<noteq> 2 \<or> sa_route_id a = [] \<or> sa_route_node a = [] then Inl ''subsession-route-binding-invalid''
     else if sa_attempt_id a = [] \<and> action \<noteq> ''dry-run'' then Inl ''subsession-attempt-id-missing''
     else let attempt = (if sa_attempt_id a = [] then ''att-dry-run-stage-session'' else sa_attempt_id a);
              worktree = sf_resolve fw (sa_worktree a) in
     bindr (bound_files fw worktree (sa_fixed_file a)) (\<lambda>paths.
       let fixed = sort (remdups paths) in
       if fixed = [] then Inl ''subsession-fixed-files-missing''
       else let brief = sf_resolve fw (the (sa_phase_brief a)) in
       case sf_bytes fw brief of
         None \<Rightarrow> Inl ''subsession-phase-brief-missing''
       | Some brief_bytes \<Rightarrow>
         let root = sf_resolve fw artifact_root;
             state_dir = (if given (sa_state_dir a) then sf_resolve fw (the (sa_state_dir a))
               else path_join root (''plans/stage-sessions/'' @ sa_route_id a @ ''/_internal/state'')) in
         if \<not> inside root state_dir then Inl ''subsession-state-dir-outside-artifact-root''
         else let b = \<lparr>sb_attempt_id = attempt, sb_fixed_file = fixed, sb_phase_brief = brief,
                sb_state_ledger = path_join state_dir (attempt @ ''.md''), sb_fixed_files_sha256 = sha_files fw fixed,
                sb_narrow_verify_sha256 = sf_sha256 fw (the (sa_narrow_verify a)),
                sb_phase_brief_sha256 = sf_sha256 fw brief_bytes\<rparr> in
           bindr (validate_attempt_metadata False (attempt_axes a b)) (\<lambda>_.
             if action \<in> {''register'', ''start''} \<and> \<not> ledger_ok then Inl ''subsession-ledger-init-failed''
             else Inr b)))"

definition session_metadata :: "session_args \<Rightarrow> session_binding \<Rightarrow> string" where
  "session_metadata a b =
    (if \<not> given (sa_id a) then []
     else concat (map (\<lambda>(k, v). '','' @ kv_part k v)
       [(''subsession_id'', the (sa_id a)), (''stage_authority'', ''0''), (''session_chain_id'', the (sa_chain_id a)),
        (''subsession_index'', int_str (the (sa_index a))), (''subsession_count'', int_str (the (sa_count a))),
        (''subsession_mode'', the (sa_mode a)), (''subsession_purpose'', sa_purpose a),
        (''phase_brief'', sb_phase_brief b), (''phase_brief_sha256'', sb_phase_brief_sha256 b),
        (''state_ledger'', sb_state_ledger b), (''fixed_files_sha256'', sb_fixed_files_sha256 b),
        (''narrow_verify_sha256'', sb_narrow_verify_sha256 b), (''expected_round_trips'', int_str (the (sa_rounds a)))]))"

definition session_environment :: "session_args \<Rightarrow> session_binding \<Rightarrow> meta" where
  "session_environment a b =
    (if \<not> given (sa_id a) then [(''AGENT_DISPATCH_STAGE_AUTHORITY'', ''1'')]
     else [(''AGENT_DISPATCH_SUBSESSION_ID'', the (sa_id a)), (''AGENT_DISPATCH_SESSION_CHAIN_ID'', the (sa_chain_id a)),
       (''AGENT_DISPATCH_SUBSESSION_MODE'', the (sa_mode a)), (''AGENT_DISPATCH_SUBSESSION_PURPOSE'', sa_purpose a),
       (''AGENT_DISPATCH_STAGE_AUTHORITY'', ''0''), (''AGENT_WORKER_STATE_LEDGER'', sb_state_ledger b),
       (''AGENT_WORKER_PHASE_BRIEF'', sb_phase_brief b), (''AGENT_WORKER_FIXED_FILES_SHA256'', sb_fixed_files_sha256 b),
       (''AGENT_WORKER_NARROW_VERIFY'', the (sa_narrow_verify a))])"

section \<open>Supervising a serial chain\<close>

definition node_for :: "obj \<Rightarrow> string \<Rightarrow> string + obj" where
  "node_for route node_id =
    (case filter (\<lambda>n. py_eq (oget (the_obj n) ''id'') (JStr node_id)) (the_list (oget_or route ''nodes'' (JList []))) of
       [n] \<Rightarrow> Inr (the_obj n)
     | _ \<Rightarrow> Inl ''route-node-not-unique'')"

definition dispatch_command :: "string \<Rightarrow> chain_manifest \<Rightarrow> chain_session \<Rightarrow> string \<Rightarrow> string \<Rightarrow> string list" where
  \<comment> \<open>after the interpreter and the script\<close>
  "dispatch_command route_node m s action parent =
    [''--route'', cm_route_file m, ''--node'', route_node, ''--adapter'', cs_adapter s, ''--action'', action,
     ''--slug'', cs_slug s, ''--parent'', parent, ''--prompt-text'',
     ''Execute sub-session '' @ cs_id s @ '' from phase brief '' @ cs_phase_brief s @ ''. Run only: '' @ cs_narrow_verify s,
     ''--subsession-id'', cs_id s, ''--subsession-index'', int_str (int (cs_index s)),
     ''--subsession-count'', int_str (int (cs_count s)), ''--subsession-mode'', cm_mode m,
     ''--session-chain-id'', the_str (oget (cm_raw m) ''chain_id''), ''--phase-brief'', cs_phase_brief s,
     ''--stage-authority'', ''0'', ''--narrow-verify'', cs_narrow_verify s,
     ''--expected-round-trips'', int_str (cs_rounds s), ''--attempt-id'', cs_attempt s]
    @ concat (map (\<lambda>f. [''--fixed-file'', f]) (cs_fixed_files s))"

text \<open>What the supervisor sees of one session: the exit code of its start, and of each readiness probe
  with whether the deadline has passed. \<open>None\<close> of a poll: the probes given are all of a session
  that is still working.\<close>

record chain_env =
  ce_start :: "string \<Rightarrow> int"
  ce_polls :: "string \<Rightarrow> (int \<times> bool) list"

datatype session_end = Ready | Launch_failed int | Timeout | Terminal_failure

primrec poll_session :: "(int \<times> bool) list \<Rightarrow> session_end option" where
  "poll_session [] = None"
| "poll_session (probe # rest) =
    (if fst probe = 0 then Some Ready
     else if fst probe \<noteq> 2 \<or> snd probe then Some (if fst probe = 2 then Timeout else Terminal_failure)
     else poll_session rest)"

primrec run_chain :: "chain_env \<Rightarrow> chain_session list \<Rightarrow> (string \<times> session_end) list option" where
  "run_chain env [] = Some []"
| "run_chain env (s # rest) =
    (if ce_start env (cs_attempt s) \<noteq> 0 then Some [(cs_attempt s, Launch_failed (ce_start env (cs_attempt s)))]
     else case poll_session (ce_polls env (cs_attempt s)) of
       None \<Rightarrow> None
     | Some Ready \<Rightarrow> map_option (\<lambda>r. (cs_attempt s, Ready) # r) (run_chain env rest)
     | Some failed \<Rightarrow> Some [(cs_attempt s, failed)])"

definition supervise :: "chain_env \<Rightarrow> chain_manifest \<Rightarrow> string + ((string \<times> session_end) list \<times> int) option" where
  "supervise env m =
    (if cm_mode m \<noteq> ''serial'' then Inl ''parallel-subsession-use-dispatch-batch''
     else Inr (map_option (\<lambda>receipt. (receipt,
       if length receipt = length (cm_sessions m) \<and> list_all (\<lambda>e. snd e = Ready) receipt then 0 else 1))
       (run_chain env (cm_sessions m))))"


section \<open>What a loaded manifest guarantees\<close>

definition session_ok :: "string \<Rightarrow> nat \<Rightarrow> nat \<Rightarrow> chain_session \<Rightarrow> bool" where
  "session_ok worktree total_count offset s \<longleftrightarrow> cs_index s = offset \<and> cs_count s = total_count \<and>
     SUBSESSION_ID_RE (cs_id s) \<and> attempt_form (cs_attempt s) \<and> cs_adapter s \<in> set ADAPTERS \<and>
     1 \<le> cs_rounds s \<and> cs_rounds s \<le> 20 \<and> cs_narrow_verify s \<noteq> [] \<and>
     cs_fixed_files s \<noteq> [] \<and> sorted (cs_fixed_files s) \<and> distinct (cs_fixed_files s) \<and>
     (\<forall>f \<in> set (cs_fixed_files s). inside worktree f)"

lemma collect_fixed_ok:
  "collect_fixed fw worktree raws result = Inr files \<Longrightarrow> distinct result \<Longrightarrow> \<forall>f \<in> set result. inside worktree f \<Longrightarrow>
   distinct files \<and> (\<forall>f \<in> set files. inside worktree f) \<and> (raws \<noteq> [] \<or> result \<noteq> [] \<longrightarrow> files \<noteq> [])"
proof (induction raws arbitrary: result)
  case (Cons raw raws)
  from Cons.prems(1) obtain path where "inside worktree path"
    and rest: "collect_fixed fw worktree raws (if path \<in> set result then result else result @ [path]) = Inr files"
    by (auto simp: bindr_Inr_iff split: if_splits)
  with Cons.prems(2,3) have "distinct (if path \<in> set result then result else result @ [path])"
    "\<forall>f \<in> set (if path \<in> set result then result else result @ [path]). inside worktree f" by auto
  moreover have "(if path \<in> set result then result else result @ [path]) \<noteq> []" by auto
  ultimately show ?case using Cons.IH [OF rest] by simp
qed auto

lemma sort_Nil_iff [simp]: "sort (xs :: string list) = [] \<longleftrightarrow> xs = []"
  by (metis length_0_conv length_sort)

lemma fixed_files_ok:
  "fixed_files fw vals worktree = Inr files \<Longrightarrow>
   files \<noteq> [] \<and> sorted files \<and> distinct files \<and> (\<forall>f \<in> set files. inside worktree f)"
  using collect_fixed_ok [of fw worktree "the_list vals" "[]"]
  by (auto simp: fixed_files_def bindr_Inr_iff split: if_splits)

lemma session_of_ok:
  assumes "session_of fw base worktree n offset ids attempts item = Inr s"
  shows "session_ok worktree n offset s \<and> cs_id s \<notin> set ids \<and> cs_attempt s \<notin> set attempts"
proof -
  from assms have obj: "is_obj item" by (simp add: session_of_def split: if_splits)
  have adapter: "the_str v \<in> set ADAPTERS" if "member_of v ADAPTERS = Inr True" for v
    using that by (cases v) (auto simp: member_of_def)
  from assms obj show ?thesis
    unfolding session_of_def session_ok_def Let_def
    by (auto simp: bindr_Inr_iff adapter dest!: fixed_files_ok split: if_splits option.splits)
qed

definition sessions_ok :: "string \<Rightarrow> nat \<Rightarrow> chain_session list \<Rightarrow> bool" where
  "sessions_ok worktree n ss \<longleftrightarrow> distinct (map cs_id ss) \<and> distinct (map cs_attempt ss) \<and>
     (\<forall>i < length ss. session_ok worktree n (Suc i) (ss ! i))"

lemma normalize_ok:
  "normalize_sessions fw base worktree n items acc = Inr ss \<Longrightarrow> sessions_ok worktree n acc \<Longrightarrow>
   sessions_ok worktree n ss \<and> length ss = length acc + length items"
proof (induction items arbitrary: acc)
  case (Cons item items)
  from Cons.prems(1) obtain s where s: "session_of fw base worktree n (Suc (length acc)) (map cs_id acc) (map cs_attempt acc) item = Inr s"
    and rest: "normalize_sessions fw base worktree n items (acc @ [s]) = Inr ss" by (auto simp: bindr_Inr_iff)
  have "sessions_ok worktree n (acc @ [s])"
    using Cons.prems(2) session_of_ok [OF s] by (auto simp: sessions_ok_def nth_append less_Suc_eq)
  from Cons.IH [OF rest this] show ?case by simp
qed simp

lemma claim_files_ok:
  "claim_files sid owners files = Inr owners' \<Longrightarrow>
   (\<forall>f p. map_of owners f = Some p \<longrightarrow> map_of owners' f = Some p) \<and> (\<forall>f \<in> set files. map_of owners' f = Some sid)"
proof (induction files arbitrary: owners)
  case (Cons fl files)
  show ?case
  proof (cases "map_of owners fl")
    case None
    with Cons.prems have rest: "claim_files sid (owners @ [(fl, sid)]) files = Inr owners'" by simp
    have "map_of (owners @ [(fl, sid)]) fl = Some sid" using None by (simp add: map_add_def)
    moreover have "map_of (owners @ [(fl, sid)]) f = Some p" if "map_of owners f = Some p" for f p
      using that by (auto simp: map_add_def)
    ultimately show ?thesis using Cons.IH [OF rest] by auto
  qed (use Cons in \<open>auto split: if_splits\<close>)
qed simp

lemma claim_all_files_ok:
  "claim_all_files owners ss = Inr () \<Longrightarrow>
   (\<forall>s \<in> set ss. \<forall>f \<in> set (cs_fixed_files s). \<forall>p. map_of owners f = Some p \<longrightarrow> p = cs_id s) \<and>
   (\<forall>s \<in> set ss. \<forall>t \<in> set ss. cs_id s \<noteq> cs_id t \<longrightarrow> set (cs_fixed_files s) \<inter> set (cs_fixed_files t) = {})"
proof (induction ss arbitrary: owners)
  case (Cons s ss)
  from Cons.prems obtain owners' where claim: "claim_files (cs_id s) owners (cs_fixed_files s) = Inr owners'"
    and rest: "claim_all_files owners' ss = Inr ()" by (auto simp: bindr_Inr_iff)
  note own = claim_files_ok [OF claim]
  note ih = Cons.IH [OF rest]
  have "p = cs_id s" if "f \<in> set (cs_fixed_files s)" "map_of owners f = Some p" for f p using own that by force
  moreover have "p = cs_id t" if "t \<in> set ss" "f \<in> set (cs_fixed_files t)" "map_of owners f = Some p" for t f p
    using own ih that by blast
  moreover have "set (cs_fixed_files s) \<inter> set (cs_fixed_files t) = {}" if "t \<in> set ss" "cs_id s \<noteq> cs_id t" for t
    using own ih that by fastforce
  ultimately show ?case using ih by (auto simp: Int_commute)
qed simp



section \<open>Binding a session\<close>

lemma validated_subsession:
  "validate_attempt_metadata w md = Inr () \<Longrightarrow> \<exists>depth. validate_subsession md depth = Inr ()"
  by (auto simp: validate_attempt_metadata_def Let_def bindr_Inr_iff split: option.splits if_splits)

lemma validated_subsession_complete:
  assumes "validate_attempt_metadata w md = Inr ()" "ostr md ''subsession_id'' \<noteq> []" "k \<in> set subsession_required"
  shows "ostr md k \<noteq> []"
proof
  assume empty: "ostr md k = []"
  obtain depth where "validate_subsession md depth = Inr ()" using validated_subsession [OF assms(1)] by blast
  moreover have "filter (\<lambda>k. ostr md k = []) subsession_required \<noteq> []"
    using assms(3) empty by (auto simp: filter_empty_conv)
  ultimately show False
    using assms(2) by (auto simp: validate_subsession_def Let_def bindr_Inr_iff split: if_splits)
qed

text \<open>No stage session can be bound. The axes that are validated leave out the digest of the phase
  brief, which the validator demands of every sub-session; so a declaration that names a sub-session
  is refused whatever its arguments, its files and the action.\<close>

theorem no_stage_session_can_be_bound:
  assumes "given (sa_id a)"
  shows "isl (bind_session fw ledger_ok a artifact_root action)"
proof -
  have "validate_attempt_metadata False (attempt_axes a b) \<noteq> Inr ()" for b
  proof
    assume ok: "validate_attempt_metadata False (attempt_axes a b) = Inr ()"
    have "ostr (attempt_axes a b) ''subsession_id'' \<noteq> []"
      using assms by (auto simp: attempt_axes_def given_def)
    moreover have "''phase_brief_sha256'' \<in> set subsession_required" by (simp add: subsession_required_def)
    ultimately have "ostr (attempt_axes a b) ''phase_brief_sha256'' \<noteq> []"
      by (rule validated_subsession_complete [OF ok])
    then show False by (simp add: attempt_axes_def split: if_splits)
  qed
  then show ?thesis
    using assms by (auto simp: bind_session_def Let_def bindr_def split: option.splits sum.splits)
qed

section \<open>The order of a serial chain\<close>

lemma run_chain_prefix:
  "run_chain env ss = Some receipt \<Longrightarrow>
   length receipt \<le> length ss \<and> map fst receipt = take (length receipt) (map cs_attempt ss) \<and>
   (\<forall>i. Suc i < length receipt \<longrightarrow> snd (receipt ! i) = Ready) \<and>
   (\<forall>i < length receipt. snd (receipt ! i) = Ready \<longrightarrow> ce_start env (fst (receipt ! i)) = 0 \<and>
      poll_session (ce_polls env (fst (receipt ! i))) = Some Ready) \<and>
   (list_all (\<lambda>e. snd e = Ready) receipt \<longrightarrow> length receipt = length ss)"
proof (induction ss arbitrary: receipt)
  case (Cons s ss)
  show ?case
  proof (cases "ce_start env (cs_attempt s) = 0 \<and> poll_session (ce_polls env (cs_attempt s)) = Some Ready")
    case True
    with Cons.prems obtain rest where rest: "run_chain env ss = Some rest" and r: "receipt = (cs_attempt s, Ready) # rest" by auto
    note ih = Cons.IH [OF rest]
    then show ?thesis using True
      by (auto simp: r nth_Cons' gr0_conv_Suc split: if_splits)
  next
    case False
    with Cons.prems obtain st where "receipt = [(cs_attempt s, st)]" "st \<noteq> Ready"
      by (auto split: if_splits option.splits session_end.splits)
    then show ?thesis by simp
  qed
qed simp


section \<open>Witnesses\<close>

definition demo_session :: "string \<Rightarrow> string \<Rightarrow> string \<Rightarrow> json" where
  "demo_session sid att fl = JObj [(''subsession_id'', JStr sid), (''attempt_id'', JStr att), (''adapter'', JStr ''codex''),
     (''slug'', JStr ''s''), (''phase_brief'', JStr ''brief.md''), (''narrow_verify'', JStr ''make t''),
     (''expected_round_trips'', JInt 2), (''fixed_files'', JList [JStr fl])]"

definition demo_chain :: "string \<Rightarrow> json" where
  "demo_chain mode = JObj [(''schema_version'', JInt 1), (''kind'', JStr ''stage-session-chain''), (''chain_id'', JStr ''ssc-abcd''),
     (''mode'', JStr mode), (''worktree'', JStr ''/w''), (''route_file'', JStr ''/r.json''),
     (''sessions'', JList [demo_session ''ss-aaaa'' ''att-aaaaaaaa'' ''a.py'', demo_session ''ss-bbbb'' ''att-bbbbbbbb'' ''b.py''])]"

definition demo_stage_files :: "string \<Rightarrow> stage_files" where
  "demo_stage_files mode = \<lparr>sf_resolve = (\<lambda>p. p), sf_json = (\<lambda>_. Some (demo_chain mode)), sf_bytes = (\<lambda>_. Some ''x''),
     sf_sha256 = (\<lambda>_. replicate 64 (CHR ''a''))\<rparr>"

lemma demo_chain_loads: "\<not> isl (load_manifest (demo_stage_files ''parallel'') ''/m/chain.json'' None None)"
  by code_simp


definition demo_session_args :: session_args where
  "demo_session_args = \<lparr>sa_id = Some ''ss-aaaa'', sa_index = Some 1, sa_count = Some 2, sa_mode = Some ''serial'',
     sa_purpose = ''planned'', sa_chain_id = Some ''ssc-abcd'', sa_phase_brief = Some ''/w/brief.md'', sa_stage_authority = 0,
     sa_fixed_file = [''a.py''], sa_narrow_verify = Some ''make t'', sa_rounds = Some 2, sa_state_dir = None,
     sa_route_id = ''r1'', sa_route_node = ''n1'', sa_attempt_id = ''att-aaaaaaaa'', sa_dispatch_depth = 2,
     sa_execution_surface = ''registered-headless'', sa_registered_worker = JInt 1, sa_fallback_hop = ''same-harness-headless'',
     sa_worktree = ''/w'', sa_batch_expectation = JNull\<rparr>"

text \<open>The declaration is complete in every other respect: with the digest among the axes it is accepted.\<close>

lemma demo_session_is_complete:
  "bind_session (demo_stage_files ''serial'') True demo_session_args ''/art'' ''start'' = Inl ''subsession-metadata-missing''"
  "\<exists>b. validate_attempt_metadata False
     ((''phase_brief_sha256'', JStr (sb_phase_brief_sha256 b)) # attempt_axes demo_session_args b) = Inr ()"
proof -
  show "bind_session (demo_stage_files ''serial'') True demo_session_args ''/art'' ''start'' = Inl ''subsession-metadata-missing''"
    by code_simp
  let ?b = "\<lparr>sb_attempt_id = ''att-aaaaaaaa'', sb_fixed_file = [''/w/a.py''], sb_phase_brief = ''/w/brief.md'',
    sb_state_ledger = ''/art/l.md'', sb_fixed_files_sha256 = replicate 64 (CHR ''a''),
    sb_narrow_verify_sha256 = replicate 64 (CHR ''a''), sb_phase_brief_sha256 = replicate 64 (CHR ''a'')\<rparr>"
  have "validate_attempt_metadata False ((''phase_brief_sha256'', JStr (sb_phase_brief_sha256 ?b)) # attempt_axes demo_session_args ?b) = Inr ()"
    by code_simp
  then show "\<exists>b. validate_attempt_metadata False
     ((''phase_brief_sha256'', JStr (sb_phase_brief_sha256 b)) # attempt_axes demo_session_args b) = Inr ()" ..
qed

theorem no_stage_session_can_be_bound_witness:
  "isl (bind_session (demo_stage_files ''serial'') True demo_session_args ''/art'' ''start'')"
  by (rule no_stage_session_can_be_bound) (simp add: demo_session_args_def given_def)

definition demo_chain_env :: chain_env where
  "demo_chain_env = \<lparr>ce_start = (\<lambda>_. 0), ce_polls = (\<lambda>a. [(2, False), (if a = ''att-bbbbbbbb'' then 1 else 0, False)])\<rparr>"

definition demo_ends :: "string + ((string \<times> session_end) list \<times> int) option" where
  "demo_ends = bindr (load_manifest (demo_stage_files ''serial'') ''/m/chain.json'' None None) (supervise demo_chain_env)"

lemma demo_ends_value: "demo_ends = Inr (Some ([(''att-aaaaaaaa'', Ready), (''att-bbbbbbbb'', Terminal_failure)], 1))"
  by code_simp


end
