(* ===== verification/Readiness.thy ===== *)
theory Readiness
  imports Stage_Session Attempt_Registry Processes
begin

text \<open>
  Readiness of the predecessors of a route node (\<open>utilities/dispatch_contract.py\<close>,
  \<open>completion_marker_gate\<close> to \<open>completion_attempt_readiness\<close>): a completion marker is proved current
  against the route, its evidence, its history and its attempt link; the attempt it names is proved
  terminal and quiescent in the registry and the process table; and a node is not started over a
  previous attempt of its own that may still run. Files are read through \<open>stage_files\<close>; \<open>None\<close> for
  the registry means that it could not be read. The rows of \<open>nodes\<close> are objects, as a sealed route
  has them.
\<close>

section \<open>Route and registry lookups\<close>

definition route_nodes :: "obj \<Rightarrow> json list" where
  "route_nodes route = the_list (oget_or route ''nodes'' (JList []))"

definition node_by_id :: "obj \<Rightarrow> json \<Rightarrow> obj option" where
  \<comment> \<open>\<open>next((row for row in route.get("nodes", []) if row.get("id") == id), None)\<close>\<close>
  "node_by_id route nid = map_option the_obj (find (\<lambda>n. py_eq (oget (the_obj n) ''id'') nid) (route_nodes route))"

definition meta_is :: "meta \<Rightarrow> string \<Rightarrow> json \<Rightarrow> bool" where
  \<comment> \<open>\<open>metadata.get(key) == value\<close> for a JSON value\<close>
  "meta_is md k v = (case map_of md k of None \<Rightarrow> v = JNull | Some s \<Rightarrow> v = JStr s)"

definition route_node_row :: "obj \<Rightarrow> json \<Rightarrow> string list \<Rightarrow> bool" where
  \<comment> \<open>the rows of one route node\<close>
  "route_node_row route nid fs \<longleftrightarrow> length fs = 6 \<and> meta_is (row_meta fs) ''route_id'' (oget route ''route_id'')
     \<and> meta_is (row_meta fs) ''route_node'' nid"

section \<open>Is a marker current?\<close>

text \<open>An exception the function catches is \<open>Inr False\<close>; an \<open>AttributeError\<close> is not caught.\<close>

definition path_file :: "string \<Rightarrow> string \<Rightarrow> string" where
  "path_file dir name = path_join dir name"

definition evidence_proved :: "stage_files \<Rightarrow> json \<Rightarrow> bool" where
  "evidence_proved fw evidence =
    (if \<not> is_obj evidence then False
     else let path = py_str (oget_or (the_obj evidence) ''path'' (JStr [])) in
       is_absolute path \<and> (case sf_bytes fw path of
         None \<Rightarrow> False
       | Some bytes \<Rightarrow> oget (the_obj evidence) ''sha256'' = JStr (sf_sha256 fw bytes)))"

definition resource_marker :: "obj \<Rightarrow> bool" where
  "resource_marker marker =
    (list_all (\<lambda>k. oget marker k = JNull) [''attempt_id'', ''dispatch_depth'', ''transport'', ''execution_surface'', ''fallback_hop'']
     \<and> oget marker ''registered_worker'' = JBool False)"

definition chain_marker :: "stage_files \<Rightarrow> obj \<Rightarrow> obj \<Rightarrow> obj \<Rightarrow> bool" where
  "chain_marker fw route node marker =
    (let path = py_str (oget_or marker ''subsession_manifest'' (JStr [])) in
     if \<not> is_absolute path \<or> (case sf_bytes fw path of None \<Rightarrow> True
          | Some bytes \<Rightarrow> oget marker ''subsession_manifest_sha256'' \<noteq> JStr (sf_sha256 fw bytes))
     then False
     else case load_manifest fw path None (Some node) of
       Inl _ \<Rightarrow> False
     | Inr m \<Rightarrow>
         py_eq (oget (cm_raw m) ''route_id'') (oget route ''route_id'') \<and>
         py_eq (oget (cm_raw m) ''route_hash'') (oget route ''route_hash'') \<and>
         py_eq (oget (cm_raw m) ''chain_id'') (oget marker ''session_chain_id'') \<and>
         oget marker ''attempt_id'' = JStr (''att-stage-'' @ take 32 (py_str (oget marker ''subsession_manifest_sha256''))) \<and>
         py_eq (oget marker ''dispatch_depth'') (oget node ''dispatch_depth'') \<and>
         oget marker ''transport'' = JStr ''headless'' \<and> oget marker ''execution_surface'' = JStr ''inline'' \<and>
         oget marker ''registered_worker'' = JBool False \<and> oget marker ''fallback_hop'' = JStr ''inline'')"

definition safe_attempt :: "string \<Rightarrow> string" where
  "safe_attempt a = map (\<lambda>c. if is_alnum c \<or> c \<in> set ''._-'' then c else CHR ''_'') a"

definition marker_axes :: "obj \<Rightarrow> obj" where
  "marker_axes marker =
    [(''attempt_schema_version'', JInt ATTEMPT_SCHEMA_VERSION), (''dispatch_depth'', oget marker ''dispatch_depth''),
     (''transport'', oget marker ''transport''), (''execution_surface'', oget marker ''execution_surface''),
     (''registered_worker'', oget marker ''registered_worker''),
     (''fallback_hop'', py_or (oget marker ''fallback_hop'') (JStr []))]"

definition link_expected :: "obj \<Rightarrow> string \<Rightarrow> obj \<Rightarrow> string \<Rightarrow> string \<Rightarrow> obj" where
  "link_expected route node_id marker marker_path history_path =
    [(''schema_version'', JInt 2), (''route_id'', oget route ''route_id''), (''node_id'', JStr node_id),
     (''attempt_id'', oget marker ''attempt_id''), (''dispatch_depth'', oget marker ''dispatch_depth''),
     (''transport'', oget marker ''transport''), (''execution_surface'', oget marker ''execution_surface''),
     (''registered_worker'', oget marker ''registered_worker''), (''fallback_hop'', oget marker ''fallback_hop''),
     (''evidence_sha256'', oget (the_obj (oget marker ''evidence'')) ''sha256''),
     (''completion_marker'', JStr marker_path), (''completion_marker_history'', JStr history_path)]"

definition attempt_marker :: "stage_files \<Rightarrow> obj \<Rightarrow> obj \<Rightarrow> string \<Rightarrow> string \<Rightarrow> string \<Rightarrow> obj \<Rightarrow> string + bool" where
  "attempt_marker fw route node node_id marker_path history_path marker =
    (if \<not> nonempty_str (oget marker ''attempt_id'') then Inr False
     else if validate_attempt_metadata False (marker_axes marker) \<noteq> Inr () then Inr False
     else case py_int_of (oget marker ''dispatch_depth'') of
       None \<Rightarrow> Inr False
     | Some depth \<Rightarrow>
       if \<not> py_eq (JInt depth) (oget node ''dispatch_depth'') then Inr False
       else case sf_json fw (path_file (path_parent marker_path)
              (node_id @ ''.'' @ safe_attempt (the_str (oget marker ''attempt_id'')) @ ''.attempt.json'')) of
         None \<Rightarrow> Inr False
       | Some link \<Rightarrow>
           if \<not> is_obj link then Inl ''AttributeError''
           else Inr (list_all (\<lambda>(k, v). py_eq (oget (the_obj link) k) v)
             (link_expected route node_id marker marker_path history_path)))"

definition marker_matches :: "obj \<Rightarrow> obj \<Rightarrow> obj \<Rightarrow> bool" where
  "marker_matches route node marker =
    list_all (\<lambda>(k, v). py_eq (oget marker k) v)
      [(''route_id'', oget route ''route_id''), (''route_hash'', oget route ''route_hash''),
       (''registry_digest'', oget route ''registry_digest''), (''node_id'', JStr (py_str (oget node ''id''))),
       (''completion_gate'', oget node ''completion_gate'')]"

definition completion_marker_is_current :: "stage_files \<Rightarrow> obj \<Rightarrow> obj \<Rightarrow> string \<Rightarrow> json \<Rightarrow> string + bool" where
  \<comment> \<open>\<open>given\<close>: the marker passed in; an empty one is read again\<close>
  "completion_marker_is_current fw route node marker_path given_marker =
    (case (if truthy given_marker then Some given_marker else sf_json fw marker_path) of
       None \<Rightarrow> Inr False
     | Some value \<Rightarrow>
       let marker = the_obj value; node_id = py_str (oget node ''id'') in
       if \<not> is_obj value \<or> \<not> py_eq (oget marker ''schema_version'') (JInt 2) then Inr False
       else if ''id'' \<notin> fst ` set node then Inr False
       else case py_int_of (oget_or marker ''sequence'' (JInt 0)) of
         None \<Rightarrow> Inr False
       | Some sequence \<Rightarrow>
         let history_path = path_file (path_parent marker_path) (node_id @ ''.'' @ int_str sequence @ ''.json'') in
         if sequence < 1 \<or> \<not> marker_matches route node marker \<or> \<not> evidence_proved fw (oget marker ''evidence'')
         then Inr False
         else case sf_json fw history_path of
           None \<Rightarrow> Inr False
         | Some history \<Rightarrow>
             if \<not> py_eq history value then Inr False
             else if py_eq (oget node ''kind'') (JStr ''resource-runner'') then Inr (resource_marker marker)
             else if py_eq (oget marker ''stage_authority'') (JStr ''owner-chain'') then Inr (chain_marker fw route node marker)
             else attempt_marker fw route node node_id marker_path history_path marker)"

section \<open>Is its attempt ready?\<close>

record attempt_readiness =
  ar_state :: string
  ar_reason :: string
  ar_attempt_id :: string

definition conflicting_row :: "obj \<Rightarrow> json \<Rightarrow> string \<Rightarrow> string list \<Rightarrow> bool" where
  "conflicting_row route nid attempt_id fs \<longleftrightarrow> route_node_row route nid fs \<and> map_of (row_meta fs) ''attempt_id'' \<noteq> Some attempt_id
     \<and> open_status (fs ! 1) \<and> mget (row_meta fs) ''attempt_id'' [] \<noteq> []"

definition exact_row :: "obj \<Rightarrow> json \<Rightarrow> string \<Rightarrow> string list \<Rightarrow> bool" where
  "exact_row route nid attempt_id fs \<longleftrightarrow> route_node_row route nid fs \<and> map_of (row_meta fs) ''attempt_id'' = Some attempt_id"

definition completion_attempt_readiness ::
  "os \<Rightarrow> obj \<Rightarrow> obj \<Rightarrow> obj \<Rightarrow> string list option \<Rightarrow> attempt_readiness" where
  "completion_attempt_readiness os route node marker registry =
    (let verdict = (\<lambda>st rs a. \<lparr>ar_state = st, ar_reason = rs, ar_attempt_id = a\<rparr>) in
     if py_eq (oget marker ''stage_authority'') (JStr ''owner-chain'')
     then verdict ''ready'' ''subsession-chain-quiescence-verified-at-stage-gate'' []
     else if py_eq (oget node ''kind'') (JStr ''resource-runner'') \<or> oget marker ''registered_worker'' = JBool False
     then verdict ''ready'' ''semantic-terminal-no-registered-process'' []
     else if \<not> nonempty_str (oget marker ''attempt_id'') then verdict ''unverifiable'' ''marker-attempt-id-missing'' []
     else let attempt_id = the_str (oget marker ''attempt_id'') in
     case registry of
       None \<Rightarrow> verdict ''unverifiable'' ''registry-unreadable'' attempt_id
     | Some lines \<Rightarrow> (case all_rows (exact_row route (oget node ''id'') attempt_id) 0 lines of
         [(i, fs)] \<Rightarrow>
           (case validate_attempt_metadata False (jmeta (row_meta fs)) of
              Inl e \<Rightarrow> verdict ''unverifiable'' e attempt_id
            | Inr _ \<Rightarrow>
              if fs ! 1 \<noteq> ''done'' \<or> map_of (row_meta fs) ''note'' \<noteq> Some ''completed-marker''
              then verdict ''unverifiable'' ''marker-attempt-not-terminal'' attempt_id
              else if all_rows (conflicting_row route (oget node ''id'') attempt_id) 0 lines \<noteq> []
              then verdict ''draining'' ''conflicting-active-retry'' attempt_id
              else let process = attempt_process_quiescence os (row_meta fs) in
                verdict (if q_state process = ''quiescent'' then ''ready''
                         else if q_state process = ''live'' then ''draining'' else ''unverifiable'')
                  (q_reason process) attempt_id)
       | rows \<Rightarrow> verdict ''unverifiable'' (''marker-attempt-row-count-'' @ int_str (int (length rows))) attempt_id))"

section \<open>The gates of a start\<close>

definition sibling_row :: "obj \<Rightarrow> json \<Rightarrow> string \<Rightarrow> string list \<Rightarrow> bool" where
  \<comment> \<open>a row of the node that is not the launching attempt and recorded a governed process\<close>
  "sibling_row route nid attempt_id fs \<longleftrightarrow> route_node_row route nid fs \<and>
     mget (row_meta fs) ''attempt_id'' [] \<notin> {[], attempt_id} \<and> mget (row_meta fs) ''pid'' [] \<noteq> []"

definition sibling_attempt_gate :: "os \<Rightarrow> obj \<Rightarrow> json \<Rightarrow> string \<Rightarrow> string list option \<Rightarrow> string + unit" where
  \<comment> \<open>\<open>attempt_id\<close> is empty when none is given; the last matching row is authoritative\<close>
  "sibling_attempt_gate os route nid attempt_id registry = (case registry of
       None \<Rightarrow> Inr ()
     | Some lines \<Rightarrow>
       let siblings = all_rows (sibling_row route nid attempt_id) 0 lines in
       if siblings = [] then Inr ()
       else let process = attempt_process_quiescence os (row_meta (snd (last siblings))) in
         if q_state process = ''quiescent'' then Inr ()
         else Inl (if q_state process = ''live'' then ''prior-attempt-still-live'' else ''prior-attempt-unverifiable''))"

datatype dep_check = Missing | Blocked attempt_readiness | Ready_dep

definition marker_path :: "string \<Rightarrow> string \<Rightarrow> string \<Rightarrow> string" where
  "marker_path agent_home route_id dep =
    path_join (path_join agent_home (''.dispatch/completion/'' @ route_id)) (dep @ ''.json'')"

definition check_dependency ::
  "stage_files \<Rightarrow> os \<Rightarrow> obj \<Rightarrow> string \<Rightarrow> string list option \<Rightarrow> json \<Rightarrow> string + dep_check" where
  "check_dependency fw os route agent_home registry dep =
    (if \<not> is_str (oget route ''route_id'') then Inl (if ''route_id'' \<in> fst ` set route then ''TypeError'' else ''KeyError'')
     else let path = marker_path agent_home (the_str (oget route ''route_id'')) (py_str dep) in
     if sf_bytes fw path = None then Inr Missing
     else case sf_json fw path of
       None \<Rightarrow> Inr Missing
     | Some marker \<Rightarrow> (case node_by_id route dep of
         None \<Rightarrow> Inr Missing
       | Some dep_node \<Rightarrow> bindr (completion_marker_is_current fw route dep_node path marker) (\<lambda>current.
           if \<not> current then Inr Missing
           else let readiness = completion_attempt_readiness os route dep_node (the_obj marker) registry in
             Inr (if ar_state readiness = ''ready'' then Ready_dep else Blocked readiness))))"

primrec check_dependencies ::
  "stage_files \<Rightarrow> os \<Rightarrow> obj \<Rightarrow> string \<Rightarrow> string list option \<Rightarrow> json list \<Rightarrow> string + dep_check list" where
  "check_dependencies fw os route agent_home registry [] = Inr []"
| "check_dependencies fw os route agent_home registry (dep # deps) =
    bindr (check_dependency fw os route agent_home registry dep) (\<lambda>c.
    bindr (check_dependencies fw os route agent_home registry deps) (\<lambda>cs. Inr (c # cs)))"

definition blocked_draining :: "dep_check \<Rightarrow> bool" where
  "blocked_draining c = (case c of Blocked r \<Rightarrow> ar_state r = ''draining'' | _ \<Rightarrow> False)"

definition is_blocked :: "dep_check \<Rightarrow> bool" where
  "is_blocked c = (case c of Blocked _ \<Rightarrow> True | _ \<Rightarrow> False)"

definition completion_marker_gate ::
  "stage_files \<Rightarrow> os \<Rightarrow> string \<Rightarrow> json \<Rightarrow> string \<Rightarrow> string \<Rightarrow> string list option \<Rightarrow> string \<Rightarrow> string + unit" where
  "completion_marker_gate fw os route_file nid action agent_home registry attempt_id =
    (if route_file = [] then Inr ()
     else case sf_json fw route_file of
       None \<Rightarrow> Inl ''route-unreadable''
     | Some value \<Rightarrow>
       let route = the_obj value;
           version = py_or (py_or (oget route ''dispatch_contract_version'') (oget route ''broker_contract_version'')) (JInt 1) in
       if \<not> is_obj value then Inl ''AttributeError''
       else if action \<in> {''register'', ''start''} \<and> \<not> py_eq version (JInt 3) then Inl ''legacy-broker-route-read-only''
       else if action \<noteq> ''start'' \<or> \<not> py_eq version (JInt 3) then Inr ()
       else case node_by_id route nid of
         None \<Rightarrow> Inr ()
       | Some node \<Rightarrow>
         bindr (check_dependencies fw os route agent_home registry (the_list (oget_or node ''depends_on'' (JList [])))) (\<lambda>checks.
           if Missing \<in> set checks then Inl ''completion-marker-missing''
           else if list_ex is_blocked checks
           then Inl (if list_ex blocked_draining checks then ''predecessor-process-draining'' else ''predecessor-process-unverifiable'')
           else sibling_attempt_gate os route nid attempt_id registry))"


section \<open>What a passed gate proves\<close>

text \<open>The marker of a predecessor, as the gate reads it: it is the current one, and it agrees with the
  route, with the evidence file on disk and with its history.\<close>

definition marker_proved :: "stage_files \<Rightarrow> obj \<Rightarrow> obj \<Rightarrow> string \<Rightarrow> obj \<Rightarrow> bool" where
  "marker_proved fw route node path marker \<longleftrightarrow>
     py_eq (oget marker ''schema_version'') (JInt 2) \<and> marker_matches route node marker \<and>
     evidence_proved fw (oget marker ''evidence'') \<and>
     (\<exists>sequence history. py_int_of (oget_or marker ''sequence'' (JInt 0)) = Some sequence \<and> 1 \<le> sequence \<and>
        sf_json fw (path_file (path_parent path) (py_str (oget node ''id'') @ ''.'' @ int_str sequence @ ''.json'')) = Some history \<and>
        py_eq history (JObj marker))"

text \<open>No process is left that could belong to it.\<close>

definition attempt_over :: "os \<Rightarrow> obj \<Rightarrow> obj \<Rightarrow> obj \<Rightarrow> string list option \<Rightarrow> bool" where
  "attempt_over os route node marker registry \<longleftrightarrow>
     py_eq (oget marker ''stage_authority'') (JStr ''owner-chain'') \<or> py_eq (oget node ''kind'') (JStr ''resource-runner'') \<or>
     oget marker ''registered_worker'' = JBool False \<or>
     (\<exists>a lines i fs. oget marker ''attempt_id'' = JStr a \<and> registry = Some lines \<and>
        all_rows (exact_row route (oget node ''id'') a) 0 lines = [(i, fs)] \<and> valid_row_metadata (row_meta fs) \<and>
        fs ! 1 = ''done'' \<and> map_of (row_meta fs) ''note'' = Some ''completed-marker'' \<and>
        all_rows (conflicting_row route (oget node ''id'') a) 0 lines = [] \<and>
        q_state (attempt_process_quiescence os (row_meta fs)) = ''quiescent'')"

definition dependency_proved :: "stage_files \<Rightarrow> os \<Rightarrow> obj \<Rightarrow> string \<Rightarrow> string list option \<Rightarrow> json \<Rightarrow> bool" where
  "dependency_proved fw os route agent_home registry dep \<longleftrightarrow> (\<exists>route_id node marker.
     oget route ''route_id'' = JStr route_id \<and> node_by_id route dep = Some node \<and>
     sf_json fw (marker_path agent_home route_id (py_str dep)) = Some (JObj marker) \<and>
     marker_proved fw route node (marker_path agent_home route_id (py_str dep)) marker \<and>
     attempt_over os route node marker registry)"

lemma current_marker_proved:
  assumes "completion_marker_is_current fw route node path val = Inr True" "sf_json fw path = Some val"
  shows "\<exists>marker. val = JObj marker \<and> marker_proved fw route node path marker"
proof -
  have given: "(if truthy val then Some val else sf_json fw path) = Some val" using assms(2) by simp
  have obj: "is_obj val" using assms(1) by (auto simp: completion_marker_is_current_def given Let_def split: if_splits)
  then obtain marker where m: "val = JObj marker" by (cases val) (auto simp: is_obj_def)
  have "marker_proved fw route node path marker"
    using assms(1) unfolding completion_marker_is_current_def given
    by (auto simp: m Let_def marker_proved_def linorder_not_less [symmetric] split: if_splits option.splits)
  with m show ?thesis by blast
qed

lemma ready_attempt_over:
  assumes "ar_state (completion_attempt_readiness os route node marker registry) = ''ready''"
  shows "attempt_over os route node marker registry"
proof (rule ccontr)
  assume no: "\<not> attempt_over os route node marker registry"
  then have gates: "\<not> py_eq (oget marker ''stage_authority'') (JStr ''owner-chain'')"
    "\<not> (py_eq (oget node ''kind'') (JStr ''resource-runner'') \<or> oget marker ''registered_worker'' = JBool False)"
    by (auto simp: attempt_over_def)
  obtain a lines where a: "oget marker ''attempt_id'' = JStr a" and reg: "registry = Some lines"
    using assms gates by (auto simp: completion_attempt_readiness_def Let_def nonempty_str_def split: if_splits option.splits json.splits)
  obtain i fs where row: "all_rows (exact_row route (oget node ''id'') a) 0 lines = [(i, fs)]"
    using assms gates by (auto simp: completion_attempt_readiness_def Let_def a reg split: if_splits list.splits prod.splits)
  show False
    using assms gates no unfolding completion_attempt_readiness_def Let_def
    by (auto simp: a reg row attempt_over_def valid_row_metadata_def split: if_splits sum.splits)
qed

lemma check_dependency_ready:
  assumes "check_dependency fw os route agent_home registry dep = Inr Ready_dep"
  shows "dependency_proved fw os route agent_home registry dep"
proof -
  from assms obtain route_id marker node where rid: "oget route ''route_id'' = JStr route_id"
    and marker: "sf_json fw (marker_path agent_home route_id (py_str dep)) = Some marker"
    and node: "node_by_id route dep = Some node"
    and current: "completion_marker_is_current fw route node (marker_path agent_home route_id (py_str dep)) marker = Inr True"
    and ready: "ar_state (completion_attempt_readiness os route node (the_obj marker) registry) = ''ready''"
    by (auto simp: check_dependency_def is_str_def Let_def bindr_Inr_iff split: if_splits option.splits json.splits)
  from current_marker_proved [OF current marker] ready_attempt_over [OF ready] rid marker node
  show ?thesis by (auto simp: dependency_proved_def)
qed

lemma check_dependencies_all:
  "check_dependencies fw os route agent_home registry deps = Inr checks \<Longrightarrow> \<forall>c \<in> set checks. c = Ready_dep \<Longrightarrow>
   \<forall>dep \<in> set deps. dependency_proved fw os route agent_home registry dep"
  by (induction deps arbitrary: checks) (auto simp: bindr_Inr_iff check_dependency_ready)


text \<open>A link file that is JSON but not an object escapes the exceptions the proof of a marker catches.\<close>

lemma listed_link_raises:
  assumes "nonempty_str (oget marker ''attempt_id'')" "validate_attempt_metadata False (marker_axes marker) = Inr ()"
    and "py_int_of (oget marker ''dispatch_depth'') = Some depth" "py_eq (JInt depth) (oget node ''dispatch_depth'')"
    and "sf_json fw (path_file (path_parent path) (node_id @ ''.'' @ safe_attempt (the_str (oget marker ''attempt_id'')) @ ''.attempt.json''))
      = Some (JList xs)"
  shows "attempt_marker fw route node node_id path history marker = Inl ''AttributeError''"
  using assms by (simp add: attempt_marker_def is_obj_def)


section \<open>Witness\<close>

definition demo_gate_route :: json where
  "demo_gate_route = JObj [(''dispatch_contract_version'', JInt 3), (''route_id'', JStr ''r1''), (''route_hash'', JStr ''h''),
     (''registry_digest'', JStr ''d''), (''nodes'', JList [
       JObj [(''id'', JStr ''n1''), (''completion_gate'', JStr ''g''), (''dispatch_depth'', JInt 1)],
       JObj [(''id'', JStr ''n2''), (''depends_on'', JList [JStr ''n1''])]])]"

definition demo_marker_axes :: obj where
  "demo_marker_axes = [(''schema_version'', JInt 2), (''route_id'', JStr ''r1''), (''node_id'', JStr ''n1''),
     (''attempt_id'', JStr ''att-a''), (''dispatch_depth'', JInt 1), (''transport'', JStr ''headless''),
     (''execution_surface'', JStr ''registered-headless''), (''registered_worker'', JBool True),
     (''fallback_hop'', JStr ''same-harness-headless'')]"

definition demo_marker :: json where
  "demo_marker = JObj (demo_marker_axes @ [(''sequence'', JInt 1), (''route_hash'', JStr ''h''), (''registry_digest'', JStr ''d''),
     (''completion_gate'', JStr ''g''), (''evidence'', JObj [(''path'', JStr ''/e''), (''sha256'', JStr ''s'')])])"

definition demo_link :: json where
  "demo_link = JObj (demo_marker_axes @ [(''evidence_sha256'', JStr ''s''),
     (''completion_marker'', JStr ''/h/.dispatch/completion/r1/n1.json''),
     (''completion_marker_history'', JStr ''/h/.dispatch/completion/r1/n1.1.json'')])"

definition demo_gate_files :: stage_files where
  "demo_gate_files = \<lparr>sf_resolve = (\<lambda>p. p),
     sf_json = (\<lambda>p. Some (if p = ''/route.json'' then demo_gate_route
       else if p = ''/h/.dispatch/completion/r1/n1.att-a.attempt.json'' then demo_link else demo_marker)),
     sf_bytes = (\<lambda>_. Some ''x''), sf_sha256 = (\<lambda>_. ''s'')\<rparr>"

definition demo_done_row :: string where
  "demo_done_row = join [tab] [''t'', ''done'', ''/repo'', ''/w'', ''slug'', join '','' [
     ''attempt_id=att-a'', ''attempt_schema_version=2'', ''dispatch_depth=1'', ''transport=headless'',
     ''execution_surface=registered-headless'', ''registered_worker=1'', ''fallback_hop=same-harness-headless'',
     ''route_id=r1'', ''route_node=n1'', ''note=completed-marker'', ''pid=9'', ''pid_start=50'', ''pgid=9'',
     ''pid_observer_ns=pid:[1]'', ''pid_ns=pid:[1]'']]"

lemma demo_gate_passes:
  "completion_marker_gate demo_gate_files demo_os ''/route.json'' (JStr ''n2'') ''start'' ''/h'' (Some [demo_done_row]) ''att-b'' = Inr ()"
  by code_simp


end
