(* ===== verification/Batch_Recovery.thy ===== *)
theory Batch_Recovery
  imports Readiness Batch_Contract
begin

text \<open>
  Recovering one leg of a parallel batch (\<open>utilities/model-worker-governor.py\<close>,
  \<open>_validate_batch_peer\<close>): a reservation for a single missing leg is minted only when every other
  member of the sealed manifest is proved to be running or to be completed. The proof of one peer reads
  the route, the registry, the process table and the completion marker of that member, so this theory
  joins the batch contract with the readiness of attempts.
\<close>

definition peer_form :: "json \<Rightarrow> bool" where
  "peer_form peer \<longleftrightarrow> is_obj peer \<and>
     set (map fst (the_obj peer)) = {''agent_home'', ''attempt_id'', ''jobs'', ''route''}"

definition peer_path :: "json \<Rightarrow> string \<Rightarrow> string + string" where
  "peer_path peer k = (case oget (the_obj peer) k of
       JStr p \<Rightarrow> if is_absolute p then Inr p else Inl ''parallel batch peer paths must be absolute''
     | _ \<Rightarrow> Inl ''parallel batch peer paths must be absolute'')"

definition group_nodes :: "obj \<Rightarrow> obj \<Rightarrow> string list" where
  \<comment> \<open>the ids of the route nodes in the manifest's group\<close>
  "group_nodes route m = sort (map (\<lambda>n. py_str (oget_or (the_obj n) ''id'' (JStr [])))
     (filter (\<lambda>n. is_obj n \<and> py_eq (manifest_group (the_obj n)) (manifest_group m)) (route_nodes route)))"

definition peer_expected :: "obj \<Rightarrow> string \<Rightarrow> (string \<times> string) list \<Rightarrow> obj \<Rightarrow> string \<Rightarrow> meta" where
  "peer_expected m digest legs member attempt_id =
    [(''attempt_id'', attempt_id), (''route_id'', mstr m ''route_id''), (''route_node'', mstr member ''route_node''),
     (''parent_attempt_id'', mstr m ''parent_attempt_id''), (''harness'', mstr member ''harness''),
     (''child_harness'', mstr member ''harness''), (''fallback_hop'', mstr member ''fallback_hop''),
     (''fallback_ordinal'', mstr member ''fallback_ordinal''),
     (''reservation_kind'', if schema_two m then ''parallel-batch'' else ''replica-batch''),
     (''batch_declared_size'', mstr m ''declared_size''), (''batch_group'', py_str (manifest_group m)),
     (''batch_route_id'', mstr m ''route_id''), (''batch_parent_attempt_id'', mstr m ''parent_attempt_id''),
     (''batch_attempt_id'', attempt_id), (''batch_route_node'', mstr member ''route_node''),
     (''batch_harness'', mstr member ''harness''), (''batch_fallback_hop'', mstr member ''fallback_hop''),
     (''batch_fallback_ordinal'', mstr member ''fallback_ordinal''), (''batch_independence'', mstr m ''independence''),
     (''batch_assignment_sha256'', mstr member ''assignment_sha256''), (''batch_manifest_sha256'', digest),
     (''batch_leg_sha256'', mget legs attempt_id []), (''launch_claimed'', ''1'')]
    @ (if schema_two m
       then [(''parallel_group'', py_str (manifest_group m)), (''replica_group'', py_str (manifest_group m)),
         (''batch_model_profile'', mstr member ''model_profile''), (''batch_perspective'', mstr member ''perspective''),
         (''batch_parallel_leg_index'', mstr member ''parallel_leg_index'')]
       else [])"

definition peer_state ::
  "stage_files \<Rightarrow> os \<Rightarrow> obj \<Rightarrow> obj \<Rightarrow> obj \<Rightarrow> string \<Rightarrow> string list \<Rightarrow> string list \<Rightarrow> string + (string \<times> string)" where
  \<comment> \<open>state and reason of a peer whose row agrees with the manifest\<close>
  "peer_state fw os route m member agent_home lines fs =
    (if open_status (fs ! 1) then
       (let process = attempt_process_quiescence os (row_meta fs) in
        if q_state process \<noteq> ''live'' then Inl ''parallel batch peer is not live'' else Inr (''active'', q_reason process))
     else if fs ! 1 = ''done'' \<and> map_of (row_meta fs) ''note'' = Some ''completed-marker'' then
       (let path = marker_path agent_home (mstr m ''route_id'') (mstr member ''route_node'') in
        case sf_json fw path of
          None \<Rightarrow> Inl ''parallel batch peer marker unreadable''
        | Some marker \<Rightarrow> (case node_by_id route (oget member ''route_node'') of
            None \<Rightarrow> Inl ''parallel batch peer marker is not current''
          | Some node \<Rightarrow> bindr (completion_marker_is_current fw route node path marker) (\<lambda>current.
              if \<not> current then Inl ''parallel batch peer marker is not current''
              else let readiness = completion_attempt_readiness os route node (the_obj marker) (Some lines) in
                if ar_state readiness \<noteq> ''ready'' then Inl ''parallel batch peer completion not ready''
                else Inr (''completed'', ar_reason readiness))))
     else Inl ''parallel batch peer is terminal without completion'')"

definition validate_batch_peer ::
  "stage_files \<Rightarrow> os \<Rightarrow> (string \<Rightarrow> string list option) \<Rightarrow> obj \<Rightarrow> string \<Rightarrow> (string \<times> string) list \<Rightarrow> string list \<Rightarrow> json
    \<Rightarrow> string + obj" where
  \<comment> \<open>the result is \<open>batch_peer_proof\<close>; \<open>registry\<close> reads a registry file under its lock\<close>
  "validate_batch_peer fw os registry m digest legs selected peer =
    (if \<not> peer_form peer then Inl ''parallel batch partial recovery requires exact peer proof''
     else bindr (peer_path peer ''agent_home'') (\<lambda>home. bindr (peer_path peer ''jobs'') (\<lambda>jobs.
     bindr (peer_path peer ''route'') (\<lambda>route_path.
     let att = oget (the_obj peer) ''attempt_id''; a = the_str att; agent_home = sf_resolve fw home;
         jobs_file = sf_resolve fw jobs; route_file = sf_resolve fw route_path in
     if \<not> nonempty_str att then Inl ''parallel batch peer attempt is invalid''
     else (case find (\<lambda>x. mstr x ''attempt_id'' = a) (rev (manifest_members m)) of
       None \<Rightarrow> Inl ''parallel batch peer is not a non-selected member''
     | Some member \<Rightarrow>
       if a \<in> set selected then Inl ''parallel batch peer is not a non-selected member''
       else (case sf_json fw route_file of
         None \<Rightarrow> Inl ''parallel batch peer route unreadable''
       | Some route_value \<Rightarrow>
         let route = the_obj route_value in
         if \<not> is_obj route_value \<or> \<not> py_eq (oget route ''route_id'') (oget m ''route_id'') then Inl ''parallel batch peer route mismatch''
         else if group_nodes route m \<noteq> sort (map (\<lambda>x. mstr x ''route_node'') (manifest_members m))
         then Inl ''parallel batch peer route group mismatch''
         else (case registry jobs_file of
           None \<Rightarrow> Inl ''parallel batch peer registry unreadable''
         | Some lines \<Rightarrow> (case all_rows (attempt_row a) 0 lines of
             [(i, fs)] \<Rightarrow>
               if \<not> valid_row_metadata (row_meta fs) then Inl ''parallel batch peer row invalid''
               else if list_ex (\<lambda>(k, v). map_of (row_meta fs) k \<noteq> Some v) (peer_expected m digest legs member a)
                 \<or> sf_resolve fw (fs ! 3) \<noteq> sf_resolve fw (py_str (oget_or route ''cwd'' (JStr [])))
               then Inl ''parallel batch peer identity mismatch''
               else bindr (peer_state fw os route m member agent_home lines fs) (\<lambda>(st, reason).
                 Inr [(''agent_home'', JStr agent_home), (''attempt_id'', JStr a), (''jobs'', JStr jobs_file),
                      (''manifest_sha256'', JStr digest), (''reason'', JStr reason), (''route'', JStr route_file),
                      (''state'', JStr st)])
           | _ \<Rightarrow> Inl ''parallel batch peer row is not unique''))))))))"

definition prove_peer ::
  "(string \<Rightarrow> string) \<Rightarrow> stage_files \<Rightarrow> os \<Rightarrow> (string \<Rightarrow> string list option) \<Rightarrow> json \<Rightarrow> string list \<Rightarrow> json \<Rightarrow> string + obj" where
  "prove_peer sha256 fw os registry manifest selected peer =
    bindr (verify_manifest sha256 manifest) (\<lambda>(m, digest, legs). validate_batch_peer fw os registry m digest legs selected peer)"

section \<open>What a recovery proves\<close>

text \<open>A peer is accounted for: its one row agrees with the sealed manifest, and it runs or is over.\<close>

definition peer_accounted ::
  "stage_files \<Rightarrow> os \<Rightarrow> (string \<Rightarrow> string list option) \<Rightarrow> obj \<Rightarrow> string \<Rightarrow> (string \<times> string) list \<Rightarrow> string \<Rightarrow> bool" where
  "peer_accounted fw os registry m digest legs a \<longleftrightarrow>
    (\<exists>jobs lines i fs member route. registry jobs = Some lines \<and> all_rows (attempt_row a) 0 lines = [(i, fs)] \<and>
       member \<in> set (manifest_members m) \<and> mstr member ''attempt_id'' = a \<and>
       (\<forall>(k, v) \<in> set (peer_expected m digest legs member a). map_of (row_meta fs) k = Some v) \<and>
       (open_status (fs ! 1) \<and> q_state (attempt_process_quiescence os (row_meta fs)) = ''live'' \<or>
        fs ! 1 = ''done'' \<and> map_of (row_meta fs) ''note'' = Some ''completed-marker'' \<and>
        (\<exists>node marker path. node_by_id route (oget member ''route_node'') = Some node \<and>
           marker_proved fw route node path marker \<and> attempt_over os route node marker (Some lines))))"

lemma peer_state_accounted:
  assumes "peer_state fw os route m member agent_home lines fs = Inr r"
  shows "open_status (fs ! 1) \<and> q_state (attempt_process_quiescence os (row_meta fs)) = ''live'' \<or>
    fs ! 1 = ''done'' \<and> map_of (row_meta fs) ''note'' = Some ''completed-marker'' \<and>
    (\<exists>node marker path. node_by_id route (oget member ''route_node'') = Some node \<and>
       marker_proved fw route node path marker \<and> attempt_over os route node marker (Some lines))"
proof (cases "open_status (fs ! 1)")
  case True
  with assms show ?thesis by (auto simp: peer_state_def Let_def split: if_splits)
next
  case False
  let ?path = "marker_path agent_home (mstr m ''route_id'') (mstr member ''route_node'')"
  from assms False obtain marker node where closed: "fs ! 1 = ''done''" "map_of (row_meta fs) ''note'' = Some ''completed-marker''"
    and marker: "sf_json fw ?path = Some marker" and node: "node_by_id route (oget member ''route_node'') = Some node"
    and current: "completion_marker_is_current fw route node ?path marker = Inr True"
    and ready: "ar_state (completion_attempt_readiness os route node (the_obj marker) (Some lines)) = ''ready''"
    by (auto simp: peer_state_def Let_def bindr_Inr_iff split: if_splits option.splits)
  from current_marker_proved [OF current marker] obtain d where "marker = JObj d" "marker_proved fw route node ?path d" by blast
  with closed node ready_attempt_over [OF ready] show ?thesis by auto
qed

lemma validated_peer_accounted:
  assumes "validate_batch_peer fw os registry m digest legs selected peer = Inr proof'"
  shows "\<exists>a. oget proof' ''attempt_id'' = JStr a \<and> oget (the_obj peer) ''attempt_id'' = JStr a \<and> a \<notin> set selected \<and>
    peer_accounted fw os registry m digest legs a"
proof -
  let ?a = "the_str (oget (the_obj peer) ''attempt_id'')"
  from assms obtain member route agent_home jobs lines i fs r where
    att: "nonempty_str (oget (the_obj peer) ''attempt_id'')"
    and member: "find (\<lambda>x. mstr x ''attempt_id'' = ?a) (rev (manifest_members m)) = Some member"
    and other: "?a \<notin> set selected"
    and lines: "registry jobs = Some lines" and row: "all_rows (attempt_row ?a) 0 lines = [(i, fs)]"
    and agree: "\<not> list_ex (\<lambda>(k, v). map_of (row_meta fs) k \<noteq> Some v) (peer_expected m digest legs member ?a)"
    and state: "peer_state fw os route m member agent_home lines fs = Inr r"
    and result: "oget proof' ''attempt_id'' = JStr ?a"
    unfolding validate_batch_peer_def
    by (auto simp: bindr_Inr_iff Let_def oget_def split: if_splits option.splits list.splits)
  from att have eq: "oget (the_obj peer) ''attempt_id'' = JStr ?a" by (auto simp: nonempty_str_def split: json.splits)
  from member have "member \<in> set (manifest_members m)" "mstr member ''attempt_id'' = ?a"
    by (auto simp: find_Some_iff in_set_conv_nth) (metis in_set_conv_nth length_rev set_rev)+
  moreover from agree have "\<forall>(k, v) \<in> set (peer_expected m digest legs member ?a). map_of (row_meta fs) k = Some v"
    by (auto simp: list_ex_iff)
  ultimately have "peer_accounted fw os registry m digest legs ?a"
    unfolding peer_accounted_def using lines row peer_state_accounted [OF state] by blast
  with result eq other show ?thesis by blast
qed

lemma failed_member:
  assumes "find (\<lambda>r. case r of Inl _ \<Rightarrow> True | Inr _ \<Rightarrow> False) (map f xs) = None" "x \<in> set xs"
  shows "\<exists>r. f x = Inr r"
  using assms by (cases "f x") (fastforce simp: find_None_iff)+

lemma batch_peers_all_proved:
  assumes "batch_peers sha256 prove peers m selected = Inr proofs"
    and "member \<in> set (manifest_members m)" "mstr member ''attempt_id'' \<notin> set selected"
  shows "\<exists>p d r. p \<in> set (the_list peers) \<and> p = JObj d \<and> oget d ''attempt_id'' = JStr (mstr member ''attempt_id'') \<and>
    prove p = Inr r"
proof -
  let ?others = "filter (\<lambda>a. a \<notin> set selected) (remdups (map (\<lambda>x. mstr x ''attempt_id'') (manifest_members m)))"
  let ?id = "\<lambda>p. case p of JObj d \<Rightarrow> oget d ''attempt_id'' | _ \<Rightarrow> JNull"
  let ?failed = "find (\<lambda>r. case r of Inl _ \<Rightarrow> True | Inr _ \<Rightarrow> False) (map prove (the_list peers))"
  from assms(1) have names: "set (map ?id (the_list peers)) = set (map JStr ?others)"
    and no_error: "\<nexists>err. ?failed = Some (Inl err)"
    unfolding batch_peers_def Let_def by (auto split: if_splits)
  have none: "?failed = None"
  proof (cases ?failed)
    case (Some r)
    then have "case r of Inl _ \<Rightarrow> True | Inr _ \<Rightarrow> False" unfolding find_Some_iff by blast
    with Some no_error show ?thesis by (cases r) auto
  qed simp
  have "JStr (mstr member ''attempt_id'') \<in> set (map JStr ?others)" using assms(2,3) by auto
  then have "JStr (mstr member ''attempt_id'') \<in> set (map ?id (the_list peers))" unfolding names .
  then obtain p where p: "p \<in> set (the_list peers)" "?id p = JStr (mstr member ''attempt_id'')" by auto
  from p(2) obtain d where "p = JObj d" "oget d ''attempt_id'' = JStr (mstr member ''attempt_id'')" by (cases p) auto
  with p(1) failed_member [OF none p(1)] show ?thesis by blast
qed

lemma reserve_batch_partial:
  assumes "reserve_batch sha256 prove ge worker_class requested pid manifest selected peers f = (Inr tokens, f')"
    and "verify_manifest sha256 manifest = Inr (m, digest, legs)"
    and "py_int_of (oget m ''declared_size'') \<noteq> Some (int (length selected))"
  shows "\<exists>proofs. batch_peers sha256 prove peers m selected = Inr proofs"
  using assms by (auto simp: reserve_batch_def batch_extras_def bindr_Inr_iff Let_def split: sum.splits if_splits)

text \<open>The first leg of a sealed batch is lost; the second runs as process 7.\<close>

definition demo_leg :: "string \<Rightarrow> string \<Rightarrow> string \<Rightarrow> int \<Rightarrow> obj" where
  "demo_leg attempt node harness i =
     [(''assignment_sha256'', JStr (''sha256:'' @ replicate 64 (CHR ''a''))), (''attempt_id'', JStr attempt),
      (''fallback_hop'', JStr ''same-harness-headless''), (''fallback_ordinal'', JInt 1), (''harness'', JStr harness),
      (''model_profile'', JStr ''deep''), (''parallel_leg_index'', JInt i), (''perspective'', JStr ''security''),
      (''route_node'', JStr node)]"

definition demo_manifest :: obj where
  "demo_manifest = manifest_common 2 (JStr ''g'') (JStr ''r'') (JStr ''p'') (JStr ''cross-harness'')
       (JList [JStr ''cross-harness'']) (JList [JStr ''cross-harness'']) JNull @
     [(''members'', JList [JObj (demo_leg ''at1'' ''n1'' ''codex'' 0), JObj (demo_leg ''at2'' ''n2'' ''claude'' 1)])]"

definition demo_digest :: string where "demo_digest = ''sha256:'' @ replicate 64 (CHR ''a'')"

definition demo_legs :: "(string \<times> string) list" where
  "demo_legs = [(''at1'', demo_digest), (''at2'', demo_digest)]"

definition demo_peer :: obj where
  "demo_peer = [(''agent_home'', JStr ''/h''), (''attempt_id'', JStr ''at2''), (''jobs'', JStr ''/jobs''), (''route'', JStr ''/r'')]"

definition demo_peer_route :: json where
  "demo_peer_route = JObj [(''route_id'', JStr ''r''), (''cwd'', JStr ''/repo''),
     (''nodes'', JList [demo_route_node ''n1'' ''codex'' 0, demo_route_node ''n2'' ''claude'' 1])]"

definition demo_peer_files :: stage_files where
  "demo_peer_files = \<lparr>sf_resolve = (\<lambda>p. p), sf_json = (\<lambda>p. if p = ''/r'' then Some demo_peer_route else None),
     sf_bytes = (\<lambda>_. None), sf_sha256 = (\<lambda>_. [])\<rparr>"

definition demo_peer_meta :: meta where
  "demo_peer_meta = peer_expected demo_manifest demo_digest demo_legs (demo_leg ''at2'' ''n2'' ''claude'' 1) ''at2'' @
     [(''attempt_schema_version'', ''2''), (''dispatch_depth'', ''2''), (''transport'', ''headless''),
      (''execution_surface'', ''registered-headless''), (''registered_worker'', ''1''), (''pid'', ''7''),
      (''pid_start'', ''99''), (''pgid'', ''7''), (''pid_observer_ns'', ''pid:[1]''), (''pid_ns'', ''pid:[1]'')]"

definition demo_peer_row :: string where
  "demo_peer_row = join [tab] [''t'', ''open'', ''slug'', ''/repo'', ''w'', join '','' (map (\<lambda>(k, v). kv_part k v) demo_peer_meta)]"

definition demo_peer_registry :: "string \<Rightarrow> string list option" where
  "demo_peer_registry p = (if p = ''/jobs'' then Some [demo_peer_row] else None)"

lemma demo_batch_builds:
  "build_manifest demo_sha (JStr ''g'') JNull (JStr ''r'') (JStr ''p'') (JStr ''cross-harness'')
     (JList [JObj (demo_leg ''at1'' ''n1'' ''codex'' 0), JObj (demo_leg ''at2'' ''n2'' ''claude'' 1)]) JNull JNull JNull
   = Inr (demo_manifest, demo_digest, demo_legs)"
proof -
  let ?legs = "[demo_leg ''at1'' ''n1'' ''codex'' 0, demo_leg ''at2'' ''n2'' ''claude'' 1]"
  have sealed: "seal demo_sha (manifest_common (Suc (Suc 0)) (JStr ''g'') (JStr ''r'') (JStr ''p'') (JStr ''cross-harness'')
      (JList [JStr ''cross-harness'']) (JList [JStr ''cross-harness'']) JNull) ?legs = (demo_manifest, demo_digest, demo_legs)"
    by (simp add: seal_def demo_manifest_def demo_digest_def demo_legs_def json_digest_def demo_sha_def demo_leg_def Let_def oget_def mstr_def numeral_2_eq_2)
  have checked: "check_members (map JObj ?legs) = Inr ?legs"
    "members_consistent ?legs ''cross-harness'' (JList [JStr ''cross-harness'']) JNull = Inr ()"
    "sort_key leg_index ?legs = ?legs"
    by code_simp+
  have axes: "axes_ok (JList [JStr ''cross-harness''])" by code_simp
  show ?thesis using sealed checked axes
    by (simp add: build_manifest_def nonempty_str_def MIN_WIDTH_def MAX_WIDTH_def str_in_def SUPPORTED_INDEPENDENCE_def
        Let_def py_or_def is_list_def)
qed

lemma demo_manifest_verifies: "verify_manifest demo_sha (JObj demo_manifest) = Inr (demo_manifest, demo_digest, demo_legs)"
  using verify_built [OF demo_batch_builds] by simp

lemma demo_meta_clean:
  "distinct (map fst demo_peer_meta)" "list_all (\<lambda>(k, v). CHR '','' \<notin> set k \<and> CHR ''='' \<notin> set k \<and> CHR '','' \<notin> set v \<and>
     tab \<notin> set k \<and> tab \<notin> set v) demo_peer_meta"
  by code_simp+

lemma demo_peer_fields:
  "row_fields demo_peer_row = [''t'', ''open'', ''slug'', ''/repo'', ''w'', join '','' (map (\<lambda>(k, v). kv_part k v) demo_peer_meta)]"
proof -
  have "tab \<notin> set (join '','' (map (\<lambda>(k, v). kv_part k v) demo_peer_meta))"
    using demo_meta_clean(2) set_join [of "'',''" "map (\<lambda>(k, v). kv_part k v) demo_peer_meta"]
    by (auto simp: list_all_iff kv_part_def)
  then show ?thesis unfolding demo_peer_row_def row_fields_def by (subst split_on_join) simp_all
qed

lemma demo_peer_row_meta: "parse_registry_metadata (join '','' (map (\<lambda>(k, v). kv_part k v) demo_peer_meta)) = demo_peer_meta"
  by (rule parse_render [OF demo_meta_clean(1)]) (use demo_meta_clean(2) in \<open>auto simp: list_all_iff\<close>)

lemma demo_meta_valid:
  "valid_row_metadata demo_peer_meta" "q_state (attempt_process_quiescence demo_os demo_peer_meta) = ''live''"
  "map_of demo_peer_meta ''attempt_id'' = Some ''at2''"
  by code_simp+

lemma demo_meta_agrees:
  "\<not> list_ex (\<lambda>(k, v). map_of demo_peer_meta k \<noteq> Some v)
     (peer_expected demo_manifest demo_digest demo_legs (demo_leg ''at2'' ''n2'' ''claude'' 1) ''at2'')"
  by code_simp

lemma demo_route_agrees:
  "group_nodes (the_obj demo_peer_route) demo_manifest = sort (map (\<lambda>x. mstr x ''route_node'') (manifest_members demo_manifest))"
  "find (\<lambda>x. mstr x ''attempt_id'' = ''at2'') (rev (manifest_members demo_manifest)) = Some (demo_leg ''at2'' ''n2'' ''claude'' 1)"
  "py_eq (oget (the_obj demo_peer_route) ''route_id'') (oget demo_manifest ''route_id'')" "is_obj demo_peer_route"
  "py_str (oget_or (the_obj demo_peer_route) ''cwd'' (JStr [])) = ''/repo''"
  by code_simp+

lemma demo_peer_validates:
  "\<exists>r. validate_batch_peer demo_peer_files demo_os demo_peer_registry demo_manifest demo_digest demo_legs [''at1''] (JObj demo_peer) = Inr r"
proof -
  let ?fs = "[''t'', ''open'', ''slug'', ''/repo'', ''w'', join '','' (map (\<lambda>(k, v). kv_part k v) demo_peer_meta)]"
  have meta: "row_meta ?fs = demo_peer_meta" by (simp add: row_meta_def demo_peer_row_meta)
  have row: "attempt_row ''at2'' ?fs"
    by (simp add: attempt_row_def row_has_attempt_def demo_peer_row_meta demo_meta_valid)
  have state: "\<exists>r. peer_state demo_peer_files demo_os (the_obj demo_peer_route) demo_manifest (demo_leg ''at2'' ''n2'' ''claude'' 1) ''/h''
      [demo_peer_row] ?fs = Inr r"
    by (simp add: peer_state_def open_status_def meta demo_meta_valid)
  have peer: "peer_form (JObj demo_peer)" "peer_path (JObj demo_peer) ''agent_home'' = Inr ''/h''"
    "peer_path (JObj demo_peer) ''jobs'' = Inr ''/jobs''" "peer_path (JObj demo_peer) ''route'' = Inr ''/r''"
    "oget demo_peer ''attempt_id'' = JStr ''at2''"
    by code_simp+
  have files: "sf_resolve demo_peer_files = (\<lambda>p. p)" "sf_json demo_peer_files ''/r'' = Some demo_peer_route"
    "demo_peer_registry ''/jobs'' = Some [demo_peer_row]"
    by (simp_all add: demo_peer_files_def demo_peer_registry_def)
  from state demo_meta_agrees show ?thesis
    by (auto simp: validate_batch_peer_def peer files nonempty_str_def Let_def demo_route_agrees demo_peer_fields row meta
        demo_meta_valid bindr_def)
qed

text \<open>C22: A reservation that admits only part of a sealed batch is granted only when every member left
  out is accounted for: a registry holds exactly one row of its attempt, that row carries the identity the
  sealed manifest gives it (the leg digest included), and it either runs now in a live process group or is
  done with a current completion marker behind which no process is left.\<close>

theorem one_leg_recovery_needs_every_peer:
  assumes "reserve_batch sha256 (prove_peer sha256 fw os registry manifest selected) ge worker_class requested pid
      manifest selected peers f = (Inr tokens, f')"
    and "verify_manifest sha256 manifest = Inr (m, digest, legs)"
    and "py_int_of (oget m ''declared_size'') \<noteq> Some (int (length selected))"
    and "member \<in> set (manifest_members m)" "mstr member ''attempt_id'' \<notin> set selected"
  shows "peer_accounted fw os registry m digest legs (mstr member ''attempt_id'')"
proof -
  from reserve_batch_partial [OF assms(1-3)] obtain proofs where
    "batch_peers sha256 (prove_peer sha256 fw os registry manifest selected) peers m selected = Inr proofs" by blast
  from batch_peers_all_proved [OF this assms(4,5)] obtain d r where
    id: "oget d ''attempt_id'' = JStr (mstr member ''attempt_id'')"
    and "prove_peer sha256 fw os registry manifest selected (JObj d) = Inr r" by blast
  then have "validate_batch_peer fw os registry m digest legs selected (JObj d) = Inr r"
    by (simp add: prove_peer_def assms(2))
  from validated_peer_accounted [OF this] id show ?thesis by auto
qed

lemma demo_recovery_granted:
  "\<exists>tokens f'. reserve_batch demo_sha (prove_peer demo_sha demo_peer_files demo_os demo_peer_registry (JObj demo_manifest) [''at1''])
     (demo_gov_env 0 [demo_token]) ''dispatch'' 1 7 (JObj demo_manifest) [''at1''] (JList [JObj demo_peer]) No_state = (Inr tokens, f')"
proof -
  let ?prove = "prove_peer demo_sha demo_peer_files demo_os demo_peer_registry (JObj demo_manifest) [''at1'']"
  obtain r where r: "?prove (JObj demo_peer) = Inr r"
    using demo_peer_validates by (auto simp: prove_peer_def demo_manifest_verifies)
  have members: "map (\<lambda>x. mstr x ''attempt_id'') (manifest_members demo_manifest) = [''at1'', ''at2'']"
    "list_ex (\<lambda>x. mstr x ''attempt_id'' = ''at1'') (manifest_members demo_manifest)"
    "py_int_of (oget demo_manifest ''declared_size'') = Some 2" "oget demo_peer ''attempt_id'' = JStr ''at2''"
    by code_simp+
  have peers: "\<exists>proofs. batch_peers demo_sha ?prove (JList [JObj demo_peer]) demo_manifest [''at1''] = Inr proofs"
    by (simp add: batch_peers_def members r is_list_def Let_def)
  then obtain extras where extras: "batch_extras demo_sha ?prove (JObj demo_manifest) [''at1''] (JList [JObj demo_peer]) = Inr [extras]"
    by (auto simp: batch_extras_def demo_manifest_verifies members Let_def)
  let ?ge = "demo_gov_env 0 [demo_token]"
  have "\<not> isl (limits ?ge)" "\<not> isl (fst (reserve ?ge ''dispatch'' 7 [extras] No_state))" by code_simp+
  then obtain l tokens f' where l: "limits ?ge = Inr l"
    and granted: "reserve ?ge ''dispatch'' 7 [extras] No_state = (Inr tokens, f')"
    by (metis prod.collapse sum.collapse(2))
  have "process_starttime (ge_os0 ?ge) 7 \<noteq> None" by code_simp
  then have "reserve_batch demo_sha ?prove ?ge ''dispatch'' 1 7 (JObj demo_manifest) [''at1''] (JList [JObj demo_peer]) No_state
      = (Inr tokens, f')"
    by (simp add: reserve_batch_def l demo_manifest_verifies extras granted)
  then show ?thesis by blast
qed

theorem one_leg_recovery_needs_every_peer_witness:
  "peer_accounted demo_peer_files demo_os demo_peer_registry demo_manifest demo_digest demo_legs ''at2''"
proof -
  have other: "demo_leg ''at2'' ''n2'' ''claude'' 1 \<in> set (manifest_members demo_manifest)"
    using demo_route_agrees(2) by (auto simp: find_Some_iff in_set_conv_nth) (metis in_set_conv_nth length_rev set_rev)+
  have id: "mstr (demo_leg ''at2'' ''n2'' ''claude'' 1) ''attempt_id'' = ''at2''"
    "py_int_of (oget demo_manifest ''declared_size'') \<noteq> Some (int (length [''at1'']))"
    by code_simp+
  from demo_recovery_granted obtain tokens f' where
    "reserve_batch demo_sha (prove_peer demo_sha demo_peer_files demo_os demo_peer_registry (JObj demo_manifest) [''at1''])
     (demo_gov_env 0 [demo_token]) ''dispatch'' 1 7 (JObj demo_manifest) [''at1''] (JList [JObj demo_peer]) No_state = (Inr tokens, f')"
    by blast
  from one_leg_recovery_needs_every_peer [OF this demo_manifest_verifies id(2) other] show ?thesis by (simp add: id)
qed

end
