(* ===== verification/Worker_Ledger.thy ===== *)
theory Worker_Ledger
  imports Json_Text
begin

text \<open>
  The state ledger of a worker (\<open>utilities/worker-state-ledger.py\<close>): a bounded markdown file whose first
  line carries machine-read metadata. A worker may make three edits between two updates, none while a
  verification result is unrecorded, and none after a compaction until it has read the ledger again.
  Reading is the inverse of writing (\<open>ledger_is_read_back\<close>), so the three rules are proved of the file
  itself: \<open>edits_spent\<close> is what its metadata records, and \<open>command_effect\<close> says of every command what it
  may write. Path resolution is a parameter; the lock file makes a command one step. A file is its text,
  one character per code point; a missing file and a link are \<open>None\<close>. Where \<open>int()\<close> refuses a value, the
  model does not tell its \<open>ValueError\<close> from its \<open>TypeError\<close>.
\<close>

section \<open>Text\<close>

definition PREFIX :: string where "PREFIX = ''<!-- worker-state-ledger:v1 ''"
definition SUFFIX :: string where "SUFFIX = '' -->''"
definition MAX_BYTES :: nat where "MAX_BYTES = 64 * 1024"
definition MAX_EDITS :: int where "MAX_EDITS = 3"

definition line_break :: "char \<Rightarrow> bool" where
  "line_break c \<longleftrightarrow> c \<in> {CHR 0x0A, CHR 0x0B, CHR 0x0C, CHR 0x0D, CHR 0x1C, CHR 0x1D, CHR 0x1E, CHR 0x85}"

fun universal_newlines :: "string \<Rightarrow> string" where
  \<comment> \<open>what \<open>Path.read_text\<close> makes of a carriage return\<close>
  "universal_newlines [] = []"
| "universal_newlines (c # s) =
    (if c = CHR 0x0D then newline # (case s of [] \<Rightarrow> [] | d # t \<Rightarrow> if d = newline then universal_newlines t else universal_newlines s)
     else c # universal_newlines s)"

fun splitlines :: "string \<Rightarrow> string list" where
  \<comment> \<open>\<open>str.splitlines\<close> on a text without carriage returns\<close>
  "splitlines [] = []"
| "splitlines (c # s) = (if line_break c then [] # splitlines s
     else (case splitlines s of [] \<Rightarrow> [[c]] | l # ls \<Rightarrow> (c # l) # ls))"

definition utf8_size :: "string \<Rightarrow> nat" where
  "utf8_size s = length s + length (filter (\<lambda>c. CHR 0x7F < c) s)"

definition strip_char :: "char \<Rightarrow> string \<Rightarrow> string" where
  "strip_char q s = rev (dropWhile (\<lambda>c. c = q) (rev (dropWhile (\<lambda>c. c = q) s)))"

section \<open>Reading and writing\<close>

record ledger_env =
  le_resolve :: "string \<Rightarrow> string"        \<comment> \<open>\<open>str(Path(p).resolve(strict=False))\<close>\<close>
  le_path :: string                       \<comment> \<open>the ledger, resolved\<close>

record ledger_fields =
  lf_slice :: string
  lf_completed :: "string list"
  lf_next :: string
  lf_invariants :: "string list"
  lf_forbidden :: "string list"

definition required_meta :: "string list" where
  "required_meta = [''schema_version'', ''attempt_id'', ''generation'', ''edits_since_update'',
     ''verification_pending'', ''resume_required'', ''fixed_files'']"

definition read_ledger :: "ledger_env \<Rightarrow> string option \<Rightarrow> string + obj \<times> string" where
  "read_ledger le file = (case file of
      None \<Rightarrow> Inl ''ledger-missing''
    | Some raw \<Rightarrow>
        if MAX_BYTES < utf8_size raw then Inl ''ledger-unsafe''
        else let text = universal_newlines raw; lines = splitlines text; first = (if lines = [] then [] else hd lines) in
          if \<not> startswith PREFIX first \<or> \<not> endswith SUFFIX first then Inl ''ledger-header-invalid''
          else (case loads (drop (length PREFIX) (take (length first - length SUFFIX) first)) of
            None \<Rightarrow> Inl ''ledger-metadata-invalid''
          | Some value \<Rightarrow>
              if \<not> is_obj value then Inl ''AttributeError''
              else let md = the_obj value in
                if \<not> py_eq (oget md ''schema_version'') (JInt 1) \<or> \<not> set required_meta \<subseteq> fst ` set md
                then Inl ''ledger-contract-incomplete'' else Inr (md, text)))"

definition bullets :: "string list \<Rightarrow> string" where
  "bullets vals = (if vals = [] then ''- none'' else join [newline] (map (\<lambda>v. ''- '' @ v) vals))"

definition fixed_values :: "obj \<Rightarrow> string + string list" where
  \<comment> \<open>iterating \<open>meta.get('fixed_files') or []\<close>\<close>
  "fixed_values md = (let v = oget md ''fixed_files'' in
     if \<not> truthy v then Inr []
     else case v of JList xs \<Rightarrow> Inr (map py_str xs) | JStr s \<Rightarrow> Inr (map (\<lambda>c. [c]) s) | JObj d \<Rightarrow> Inr (map fst d)
       | _ \<Rightarrow> Inl ''TypeError'')"

definition or_text :: "string \<Rightarrow> string \<Rightarrow> string" where
  "or_text v dflt = (if v = [] then dflt else v)"

definition header :: "obj \<Rightarrow> string" where
  "header md = PREFIX @ dumps (JObj md) @ SUFFIX"

definition body_lines :: "ledger_fields \<Rightarrow> string list \<Rightarrow> string list" where
  "body_lines f fixed =
    [''# Worker State Ledger'', [],
     ''## Current slice'', or_text (lf_slice f) ''unspecified'', [],
     ''## Completed items'', bullets (lf_completed f), [],
     ''## Exact next command'', ''`'' @ or_text (lf_next f) ''none'' @ ''`'', [],
     ''## Invariants'', bullets (lf_invariants f), [],
     ''## Fixed files'', bullets fixed, [],
     ''## Forbidden files'', bullets (lf_forbidden f), []]"

definition render :: "obj \<Rightarrow> ledger_fields \<Rightarrow> string + string" where
  "render md f = bindr (fixed_values md) (\<lambda>fixed. Inr (join [newline] (header md # body_lines f fixed)))"

primrec body_sections :: "string list \<Rightarrow> string \<Rightarrow> (string \<times> string list) list \<Rightarrow> (string \<times> string list) list" where
  "body_sections [] current sections = sections"
| "body_sections (line # rest) current sections =
    (if startswith ''## '' line
     then let name = lower (strip (drop 3 line)) in body_sections rest name (AList.update name [] sections)
     else if current \<noteq> []
     then body_sections rest current
       (AList.update current ((case map_of sections current of None \<Rightarrow> [] | Some ls \<Rightarrow> ls) @ [line]) sections)
     else body_sections rest current sections)"

definition section_lines :: "(string \<times> string list) list \<Rightarrow> string \<Rightarrow> string list" where
  "section_lines sections name = (case map_of sections name of None \<Rightarrow> [] | Some ls \<Rightarrow> ls)"

definition section_plain :: "(string \<times> string list) list \<Rightarrow> string \<Rightarrow> string" where
  "section_plain sections name = strip_char (CHR ''`'') (strip (join [newline] (section_lines sections name)))"

definition section_items :: "(string \<times> string list) list \<Rightarrow> string \<Rightarrow> string list" where
  "section_items sections name =
    map (drop 2) (filter (\<lambda>l. startswith ''- '' l \<and> l \<noteq> ''- none'') (section_lines sections name))"

definition body_fields :: "string \<Rightarrow> ledger_fields" where
  "body_fields text = (let sections = body_sections (tl (splitlines text)) [] [] in
    \<lparr>lf_slice = section_plain sections ''current slice'', lf_completed = section_items sections ''completed items'',
     lf_next = section_plain sections ''exact next command'', lf_invariants = section_items sections ''invariants'',
     lf_forbidden = section_items sections ''forbidden files''\<rparr>)"

section \<open>Commands\<close>

definition validate_ledger :: "obj \<Rightarrow> string \<Rightarrow> string + unit" where
  "validate_ledger md attempt_id =
    (if attempt_id = [] \<or> oget md ''attempt_id'' \<noteq> JStr attempt_id then Inl ''ledger-attempt-mismatch''
     else if truthy (oget md ''resume_required'') then Inl ''ledger-postcompact-reread-required''
     else case py_int_of (oget_or md ''edits_since_update'' (JInt MAX_EDITS)) of
       None \<Rightarrow> Inl ''ValueError''
     | Some edits \<Rightarrow> if edits \<ge> MAX_EDITS then Inl ''ledger-update-overdue''
         else if truthy (oget md ''verification_pending'') then Inl ''ledger-verification-update-required'' else Inr ())"

definition listed_file :: "obj \<Rightarrow> string \<Rightarrow> string + bool" where
  \<comment> \<open>\<open>target in meta.get("fixed_files", [])\<close>\<close>
  "listed_file md target = (case oget md ''fixed_files'' of
      JList xs \<Rightarrow> Inr (JStr target \<in> set xs)
    | JStr s \<Rightarrow> Inr (list_ex (\<lambda>i. startswith target (drop i s)) [0 ..< Suc (length s)])
    | JObj d \<Rightarrow> Inr (target \<in> fst ` set d)
    | _ \<Rightarrow> Inl ''TypeError'')"

datatype ledger_op =
    Init_ledger "string list" string string "string list" "string list"     \<comment> \<open>fixed, slice, next, invariants, forbidden\<close>
  | Check_ledger "string option"
  | Guard_edit "string option"
  | Update_ledger "string option" "string option" "string list" "string list" "string list"
  | Mark_verification
  | Flush_ledger
  | Compact_before
  | Compact_after

type_synonym 'a ledger_cmd = "(string option, string, 'a) cmd"

definition save :: "obj \<Rightarrow> ledger_fields \<Rightarrow> string \<Rightarrow> string ledger_cmd" where
  \<comment> \<open>\<open>_atomic(path, _render(meta, fields))\<close>, then the answer\<close>
  "save md f reply file = (case render md f of Inl e \<Rightarrow> (Inl e, file) | Inr text \<Rightarrow> (Inr reply, Some text))"

definition init_meta :: "ledger_env \<Rightarrow> string \<Rightarrow> string list \<Rightarrow> obj" where
  "init_meta le attempt_id fixed =
    [(''schema_version'', JInt 1), (''attempt_id'', JStr attempt_id), (''generation'', JInt 1),
     (''edits_since_update'', JInt 0), (''verification_pending'', JBool False), (''resume_required'', JBool False),
     (''fixed_files'', JList (map JStr (sort (map (le_resolve le) fixed))))]"

definition init_ledger :: "ledger_env \<Rightarrow> string \<Rightarrow> string list \<Rightarrow> ledger_fields \<Rightarrow> string ledger_cmd" where
  "init_ledger le attempt_id fixed f file = (case file of
      Some _ \<Rightarrow> (bindr (read_ledger le file) (\<lambda>(md, _).
          if oget md ''attempt_id'' \<noteq> JStr attempt_id then Inl ''ledger-attempt-mismatch''
          else Inr (''ledger='' @ le_path le @ [newline] @ ''status=existing'')), file)
    | None \<Rightarrow> save (init_meta le attempt_id fixed) f (''ledger='' @ le_path le @ [newline] @ ''status=created'') file)"

definition check_file :: "ledger_env \<Rightarrow> obj \<Rightarrow> string option \<Rightarrow> string + unit" where
  "check_file le md target = (case target of
      Some t \<Rightarrow> if t = [] then Inr ()
        else bindr (listed_file md (le_resolve le t)) (\<lambda>listed.
          if listed then Inr () else Inl (''file-outside-fixed-list:'' @ le_resolve le t))
    | None \<Rightarrow> Inr ())"

definition bumped :: "obj \<Rightarrow> obj \<Rightarrow> string + obj" where
  \<comment> \<open>\<open>meta.update(generation=int(meta["generation"]) + 1, ...)\<close>\<close>
  "bumped md changes = (case py_int_of (oget md ''generation'') of
      None \<Rightarrow> Inl ''ValueError''
    | Some g \<Rightarrow> Inr (dict_update md ((''generation'', JInt (g + 1)) # changes)))"

definition said :: "ledger_env \<Rightarrow> string \<Rightarrow> string" where
  "said le status = ''ledger='' @ le_path le @ [newline] @ ''status='' @ status"

definition command :: "ledger_env \<Rightarrow> string \<Rightarrow> ledger_op \<Rightarrow> string ledger_cmd" where
  "command le attempt_id op file = (case op of
      Init_ledger fixed slice next_action invariants forbidden \<Rightarrow>
        init_ledger le attempt_id fixed \<lparr>lf_slice = slice, lf_completed = [], lf_next = next_action,
          lf_invariants = invariants, lf_forbidden = forbidden\<rparr> file
    | _ \<Rightarrow> (case read_ledger le file of
        Inl e \<Rightarrow> (Inl e, file)
      | Inr (md, text) \<Rightarrow>
        if oget md ''attempt_id'' \<noteq> JStr attempt_id then (Inl ''ledger-attempt-mismatch'', file)
        else let f = body_fields text in (case op of
          Check_ledger target \<Rightarrow> (bindr (validate_ledger md attempt_id) (\<lambda>_. bindr (check_file le md target) (\<lambda>_.
            Inr (said le ''ok'' @ [newline] @ ''edits_since_update='' @ py_str (oget md ''edits_since_update'')))), file)
        | Guard_edit target \<Rightarrow> (case bindr (validate_ledger md attempt_id) (\<lambda>_. check_file le md target) of
            Inl e \<Rightarrow> (Inl e, file)
          | Inr _ \<Rightarrow> (case py_int_of (oget md ''edits_since_update'') of
              None \<Rightarrow> (Inl ''ValueError'', file)
            | Some edits \<Rightarrow> save (AList.update ''edits_since_update'' (JInt (edits + 1)) md) f
                (said le ''ok'' @ [newline] @ ''edits_since_update='' @ int_str (edits + 1)) file))
        | Update_ledger slice next_action completed invariants forbidden \<Rightarrow>
            (case bumped md [(''edits_since_update'', JInt 0), (''verification_pending'', JBool False), (''resume_required'', JBool False)] of
              Inl e \<Rightarrow> (Inl e, file)
            | Inr md' \<Rightarrow> save md'
                \<lparr>lf_slice = (case slice of None \<Rightarrow> lf_slice f | Some s \<Rightarrow> s),
                 lf_completed = (if completed = [] then lf_completed f else completed),
                 lf_next = (case next_action of None \<Rightarrow> lf_next f | Some s \<Rightarrow> s),
                 lf_invariants = (if invariants = [] then lf_invariants f else invariants),
                 lf_forbidden = (if forbidden = [] then lf_forbidden f else forbidden)\<rparr>
                (said le ''updated'' @ [newline] @ ''generation='' @ py_str (oget md' ''generation'')) file)
        | Mark_verification \<Rightarrow> (case validate_ledger md attempt_id of
            Inl e \<Rightarrow> (Inl e, file)
          | Inr _ \<Rightarrow> save (AList.update ''verification_pending'' (JBool True) md) f (said le ''verification-pending'') file)
        | Flush_ledger \<Rightarrow> (case bumped md [(''edits_since_update'', JInt 0), (''verification_pending'', JBool False)] of
            Inl e \<Rightarrow> (Inl e, file)
          | Inr md' \<Rightarrow> save md' f (said le ''flushed'') file)
        | Compact_before \<Rightarrow> (case bumped md [(''edits_since_update'', JInt 0), (''verification_pending'', JBool False), (''resume_required'', JBool True)] of
            Inl e \<Rightarrow> (Inl e, file)
          | Inr md' \<Rightarrow> save md' f (said le ''compact-flushed'') file)
        | Compact_after \<Rightarrow> (case render (AList.update ''resume_required'' (JBool False) md) f of
            Inl e \<Rightarrow> (Inl e, file)
          | Inr text' \<Rightarrow> (Inr (said le ''reanchored'' @ [newline] @ take MAX_BYTES text'), Some (take MAX_BYTES text')))
        | _ \<Rightarrow> (Inl ''command-unsupported'', file))))"


section \<open>A written ledger is read back\<close>

definition printable :: "char \<Rightarrow> bool" where
  "printable c \<longleftrightarrow> CHR '' '' \<le> c \<and> c < CHR 0x7F"

lemma printable_chars [simp]:
  "printable (CHR '' '')" "printable (CHR ''!'')" "printable (CHR '','')" "printable (CHR ''-'')" "printable
  (CHR ''1'')" "printable (CHR '':'')" "printable (CHR ''<'')" "printable (CHR ''>'')" "printable (CHR ''['')"
  "printable (CHR '']'')" "printable (CHR ''a'')" "printable (CHR ''d'')" "printable (CHR ''e'')" "printable
  (CHR ''f'')" "printable (CHR ''g'')" "printable (CHR ''k'')" "printable (CHR ''l'')" "printable (CHR ''n'')"
  "printable (CHR ''o'')" "printable (CHR ''r'')" "printable (CHR ''s'')" "printable (CHR ''t'')" "printable
  (CHR ''u'')" "printable (CHR ''v'')" "printable (CHR ''w'')" "printable (CHR ''{'')" "printable (CHR ''}'')"
  "printable (CHR 0x22)" "printable (CHR 0x5C)"
  by code_simp+

lemma printable_no_break: "printable c \<Longrightarrow> \<not> line_break c \<and> c \<noteq> CHR 0x0D"
  by (auto simp: printable_def line_break_def less_eq_char_def less_char_def)

lemma hex_digit_printable: "n < 16 \<Longrightarrow> printable (hex_digit n)"
proof -
  have "list_all (\<lambda>n. printable (hex_digit n)) [0 ..< 16]" by code_simp
  then show "n < 16 \<Longrightarrow> printable (hex_digit n)" by (simp add: list_all_iff)
qed

lemma esc_char_printable: "list_all printable (esc_char c)"
proof -
  have "of_char c < (256::nat)" using range_nat_of_char by (metis atLeastLessThan_iff rangeI)
  then have "of_char c div 16 < (16::nat)" "of_char c mod 16 < (16::nat)" by (simp_all add: less_mult_imp_div_less)
  moreover have "\<not> (c < CHR '' '' \<or> CHR 0x7F \<le> c) \<Longrightarrow> printable c" by (auto simp: printable_def)
  ultimately show ?thesis
    by (auto simp: esc_char_def hex_digit_printable) (auto simp: printable_def less_eq_char_def less_char_def)
qed

lemma dumps_str_printable: "list_all printable (dumps_str s)"
  by (induction s) (auto simp: dumps_str_def esc_char_printable)

lemma nat_str_printable: "list_all printable (nat_str n)"
proof (induction n rule: nat_str.induct)
  case (1 n)
  have digit: "printable (char_of (48 + d))" if "d < 10" for d :: nat
  proof -
    have "list_all (\<lambda>d. printable (char_of (48 + d :: nat))) [0 ..< 10]" by code_simp
    then show ?thesis using that by (simp add: list_all_iff)
  qed
  show ?case using 1 by (subst nat_str.simps) (auto simp: digit)
qed

lemma int_str_printable: "list_all printable (int_str i)"
  by (simp add: int_str_def nat_str_printable)

lemma join_printable: "list_all printable sep \<Longrightarrow> \<forall>x \<in> set xs. list_all printable x \<Longrightarrow> list_all printable (join sep xs)"
  by (induction sep xs rule: join.induct) auto

lemma dumps_printable: "list_all printable (dumps v)"
proof (induction v rule: dumps.induct)
  case (5 xs)
  then have "\<forall>x \<in> set (map dumps xs). list_all printable x" by auto
  then show ?case by (simp add: join_printable)
next
  case (6 d)
  have parts: "\<forall>x \<in> set (map (\<lambda>(k, t). dumps_str k @ '':'' @ t) (sort_key fst (map (\<lambda>(k, v). (k, dumps v)) d))). list_all printable x"
    using 6 dumps_str_printable by auto
  show ?case using join_printable [OF _ parts, of "'',''"] by simp
qed (simp_all add: dumps_str_printable int_str_printable)

lemma header_printable: "list_all printable (header md)"
  using dumps_printable [of "JObj md"] by (simp add: header_def PREFIX_def SUFFIX_def del: dumps.simps)

lemma newlines_printable: "list_all printable a \<Longrightarrow> universal_newlines (a @ b) = a @ universal_newlines b"
  by (induction a) (auto dest: printable_no_break)

lemma splitlines_printable:
  "list_all printable a \<Longrightarrow> a \<noteq> [] \<Longrightarrow> splitlines (a @ newline # b) = a # splitlines b"
proof (induction a)
  case (Cons c a)
  then show ?case
    by (cases "a = []") (auto dest: printable_no_break simp: line_break_def)
qed simp

lemma length_printable_utf8: "utf8_size s = length s + length (filter (\<lambda>c. CHR 0x7F < c) s)"
  by (simp add: utf8_size_def)

text \<open>Metadata as the commands write it.\<close>

definition tidy :: "obj \<Rightarrow> bool" where
  "tidy md \<longleftrightarrow> distinct (map fst md) \<and> fst ` set md = set required_meta \<and> oget md ''schema_version'' = JInt 1 \<and>
     is_str (oget md ''attempt_id'') \<and>
     (\<exists>g e p r fs. oget md ''generation'' = JInt g \<and> oget md ''edits_since_update'' = JInt e \<and> 0 \<le> e \<and> e \<le> MAX_EDITS \<and>
        oget md ''verification_pending'' = JBool p \<and> oget md ''resume_required'' = JBool r \<and>
        oget md ''fixed_files'' = JList (map JStr fs))"

lemma oget_same_map: "map_of a = map_of b \<Longrightarrow> oget a k = oget b k"
  by (simp add: oget_def)

lemma tidy_cong: "tidy a \<Longrightarrow> map_of a = map_of b \<Longrightarrow> distinct (map fst b) \<Longrightarrow> tidy b"
proof -
  assume a: "tidy a" "map_of a = map_of b" "distinct (map fst b)"
  have "fst ` set a = fst ` set b" using a(2) by (metis dom_map_of_conv_image_fst)
  with a show "tidy b" unfolding tidy_def by (simp add: oget_def)
qed

lemma tidy_values: "tidy md \<Longrightarrow> (k, v) \<in> set md \<Longrightarrow> wf_json v \<and> canonical v = v"
proof -
  assume t: "tidy md" and kv: "(k, v) \<in> set md"
  have v: "oget md k = v" using t kv by (simp add: tidy_def oget_def)
  from t have "is_str (oget md ''attempt_id'')" by (simp add: tidy_def)
  then obtain a where att: "oget md ''attempt_id'' = JStr a" by (cases "oget md ''attempt_id''") (simp_all add: is_str_def)
  from t obtain g e p r fs where fields: "oget md ''schema_version'' = JInt 1"
    "oget md ''generation'' = JInt g" "oget md ''edits_since_update'' = JInt e" "oget md ''verification_pending'' = JBool p"
    "oget md ''resume_required'' = JBool r" "oget md ''fixed_files'' = JList (map JStr fs)"
    unfolding tidy_def by blast
  have "k \<in> fst ` set md" using kv by force
  then have "k \<in> set required_meta" using t by (simp add: tidy_def)
  moreover have "\<forall>k \<in> set required_meta. wf_json (oget md k) \<and> canonical (oget md k) = oget md k"
    using fields att by (simp add: required_meta_def list_all_iff)
  ultimately show "wf_json v \<and> canonical v = v" using v by blast
qed

lemma tidy_wf: "tidy md \<Longrightarrow> wf_json (JObj md)"
proof -
  assume t: "tidy md"
  then have "distinct (map fst md)" by (simp add: tidy_def)
  with tidy_values [OF t] show "wf_json (JObj md)" by (auto simp: list_all_iff)
qed

lemma tidy_canonical: "tidy md \<Longrightarrow> \<exists>d. canonical (JObj md) = JObj d \<and> tidy d \<and> map_of d = map_of md"
proof -
  assume t: "tidy md"
  have "map (\<lambda>(k, v). (k, canonical v)) md = md"
    using tidy_values [OF t] by (intro map_idI) auto
  then have c: "canonical (JObj md) = JObj (sort_key fst md)" by simp
  have dist: "distinct (map fst md)" using t by (simp add: tidy_def)
  then have "distinct (map fst (sort_key fst md))" by (simp add: distinct_map)
  moreover from dist this have same: "map_of (sort_key fst md) = map_of md"
    by (intro map_of_eqI) (auto simp: map_of_eq_Some_iff)
  ultimately show ?thesis using c tidy_cong [OF t same [symmetric]] same by blast
qed

lemma newlines_id: "list_all printable a \<Longrightarrow> universal_newlines a = a"
  using newlines_printable [of a "[]"] by simp

lemma splitlines_id: "list_all printable a \<Longrightarrow> a \<noteq> [] \<Longrightarrow> splitlines a = [a]"
proof (induction a)
  case (Cons c a)
  then show ?case by (cases "a = []") (auto dest: printable_no_break)
qed simp

lemma first_line:
  assumes "list_all printable a" "a \<noteq> []"
  shows "splitlines (universal_newlines (a @ newline # b)) = a # splitlines (universal_newlines b)"
  using splitlines_printable [OF assms, of "universal_newlines b"] newlines_printable [OF assms(1), of "newline # b"] by simp

lemma header_ne: "header md \<noteq> []"
  by (simp add: header_def PREFIX_def)

lemma header_ends: "startswith PREFIX (header md)" "endswith SUFFIX (header md)"
  by (auto simp: header_def startswith_iff endswith_def)

lemma header_inner: "drop (length PREFIX) (take (length (header md) - length SUFFIX) (header md)) = dumps (JObj md)"
  by (simp add: header_def)

lemma tidy_contract:
  "tidy md \<Longrightarrow> py_eq (oget md ''schema_version'') (JInt 1) \<and> set required_meta \<subseteq> fst ` set md"
  by (simp add: tidy_def)

lemma read_header:
  assumes "tidy md" "utf8_size raw \<le> MAX_BYTES" "splitlines (universal_newlines raw) = header md # ls"
  shows "\<exists>d. read_ledger le (Some raw) = Inr (d, universal_newlines raw) \<and> tidy d \<and> map_of d = map_of md"
proof -
  from tidy_canonical [OF assms(1)] obtain d where d: "canonical (JObj md) = JObj d" "tidy d" "map_of d = map_of md" by blast
  have "loads (dumps (JObj md)) = Some (JObj d)" using loads_dumps [OF tidy_wf [OF assms(1)]] d(1) by simp
  with assms(2,3) header_ends header_inner tidy_contract [OF d(2)] d show ?thesis
    by (simp add: read_ledger_def Let_def is_obj_def not_less [symmetric] del: dumps.simps canonical.simps)
qed

text \<open>Any initial part of a written ledger is unreadable or carries the metadata.\<close>

definition reads_as :: "ledger_env \<Rightarrow> string option \<Rightarrow> obj \<Rightarrow> bool" where
  "reads_as le file md \<longleftrightarrow> isl (read_ledger le file) \<or>
     (\<exists>d text. read_ledger le file = Inr (d, text) \<and> tidy d \<and> map_of d = map_of md)"

lemma oversize: "MAX_BYTES < utf8_size raw \<Longrightarrow> read_ledger le (Some raw) = Inl ''ledger-unsafe''"
  by (simp add: read_ledger_def)

lemma read_reads_as:
  assumes "tidy md" "splitlines (universal_newlines raw) = header md # ls"
  shows "reads_as le (Some raw) md"
proof (cases "MAX_BYTES < utf8_size raw")
  case True
  then show ?thesis by (simp add: reads_as_def oversize)
next
  case False
  then have "utf8_size raw \<le> MAX_BYTES" by simp
  from read_header [OF assms(1) this assms(2)] show ?thesis unfolding reads_as_def by blast
qed

lemma unreadable_line:
  assumes "universal_newlines raw = raw" "splitlines raw = [raw]"
    and "loads (drop (length PREFIX) (take (length raw - length SUFFIX) raw)) = None"
  shows "isl (read_ledger le (Some raw))"
  using assms(3) unfolding read_ledger_def option.case Let_def assms(1,2) by simp

lemma slice_middle:
  assumes "k < length (p @ d @ s)"
  shows "drop (length p) (take (length (take k (p @ d @ s)) - length s) (take k (p @ d @ s))) = take (k - length s - length p) d"
proof -
  let ?m = "k - length s"
  have "length (take k (p @ d @ s)) = k" using assms by simp
  then have "take (length (take k (p @ d @ s)) - length s) (take k (p @ d @ s)) = take ?m (p @ d @ s)"
    by (simp only: take_take) (simp add: min_def)
  moreover have "drop (length p) (take ?m (p @ d @ s)) = take (?m - length p) (d @ s)"
    by (simp only: drop_take) simp
  moreover have "take (?m - length p) (d @ s) = take (?m - length p) d" using assms by simp
  ultimately show ?thesis by (simp only:)
qed

lemma cut_header:
  assumes "tidy md" "k < length (header md)" "take k (header md) \<noteq> []"
  shows "isl (read_ledger le (Some (take k (header md))))"
proof (rule unreadable_line)
  let ?raw = "take k (header md)"
  have print: "list_all printable ?raw"
    using header_printable [of md] by (metis append_take_drop_id list_all_append)
  show "universal_newlines ?raw = ?raw" "splitlines ?raw = [?raw]"
    using newlines_id [OF print] splitlines_id [OF print assms(3)] by blast+
  let ?j = "k - length SUFFIX - length PREFIX"
  have inner: "drop (length PREFIX) (take (length ?raw - length SUFFIX) ?raw) = take ?j (dumps (JObj md))"
    unfolding header_def by (rule slice_middle) (use assms(2) in \<open>simp only: header_def\<close>)
  have "?j < length (dumps (JObj md))"
  proof -
    have "0 < length (dumps (JObj md))" by simp
    with assms(2) show ?thesis unfolding header_def length_append by arith
  qed
  then have "drop ?j (dumps (JObj md)) \<noteq> []" by simp
  then have "loads (take ?j (dumps (JObj md))) = None"
    using loads_prefix [OF tidy_wf [OF assms(1)], of "take ?j (dumps (JObj md))" "drop ?j (dumps (JObj md))"]
    by (metis append_take_drop_id not_None_eq)
  then show "loads (drop (length PREFIX) (take (length ?raw - length SUFFIX) ?raw)) = None" unfolding inner .
qed

lemma read_cut:
  assumes "tidy md"
  shows "reads_as le (Some (take k (header md @ newline # body))) md"
proof -
  let ?raw = "take k (header md @ newline # body)"
  consider "k < length (header md)" | "k = length (header md)" | "length (header md) < k" by linarith
  then show ?thesis
  proof cases
    case 1
    show ?thesis
    proof (cases "take k (header md) = []")
      case True
      then have "k = 0" using header_ne by simp
      then show ?thesis by (simp add: reads_as_def read_ledger_def Let_def startswith_def PREFIX_def)
    next
      case False
      with cut_header [OF assms 1] 1 show ?thesis by (simp add: reads_as_def)
    qed
  next
    case 2
    have "splitlines (universal_newlines (header md)) = header md # []"
      using newlines_id splitlines_id header_printable header_ne by metis
    with read_reads_as [OF assms] 2 show ?thesis by simp
  next
    case 3
    then have raw: "?raw = header md @ newline # take (k - length (header md) - 1) body"
      by (cases "k - length (header md)") auto
    show ?thesis unfolding raw by (rule read_reads_as [OF assms first_line [OF header_printable header_ne]])
  qed
qed

lemma render_shape: "tidy md \<Longrightarrow> \<exists>body. render md f = Inr (header md @ newline # body)"
  unfolding render_def
  by (auto simp: tidy_def fixed_values_def Let_def join_Cons body_lines_def split: if_splits)

section \<open>What every command keeps\<close>

definition tidy_file :: "ledger_env \<Rightarrow> string option \<Rightarrow> bool" where
  "tidy_file le file \<longleftrightarrow> (\<forall>md text. read_ledger le file = Inr (md, text) \<longrightarrow> tidy md)"

definition edits_spent :: "ledger_env \<Rightarrow> string option \<Rightarrow> nat" where
  \<comment> \<open>an unreadable ledger admits no edit\<close>
  "edits_spent le file = (case file of None \<Rightarrow> 0
     | Some _ \<Rightarrow> (case read_ledger le file of Inl _ \<Rightarrow> 3
       | Inr (md, _) \<Rightarrow> (case oget md ''edits_since_update'' of JInt e \<Rightarrow> nat e | _ \<Rightarrow> 3)))"

text \<open>A command leaves the file alone, or writes metadata \<open>md'\<close> that a reader may get back.\<close>

definition writes :: "ledger_env \<Rightarrow> obj \<Rightarrow> string option \<Rightarrow> bool" where
  "writes le md' file \<longleftrightarrow> (\<exists>t. file = Some t) \<and> tidy md' \<and> reads_as le file md'"

lemma save_writes:
  assumes "tidy md"
  shows "\<exists>t. save md f reply file = (Inr reply, Some t) \<and> writes le md (Some t)"
proof -
  from render_shape [OF assms] obtain body where body: "render md f = Inr (header md @ newline # body)" by blast
  have "reads_as le (Some (header md @ newline # body)) md"
    using read_cut [OF assms, of le "length (header md @ newline # body)" body] by simp
  with assms body show ?thesis by (auto simp: save_def writes_def)
qed

lemma truncated_writes:
  assumes "tidy md" "render md f = Inr text"
  shows "writes le md (Some (take n text))"
  using render_shape [OF assms(1), of f] assms read_cut [OF assms(1)] by (auto simp: writes_def)

lemma update_keys: "k \<in> fst ` set md \<Longrightarrow> fst ` set (AList.update k v md) = fst ` set md"
  by (simp add: dom_map_of_conv_image_fst [symmetric] update_conv' insert_absorb)

lemma tidy_keys: "tidy md \<Longrightarrow> k \<in> set required_meta \<Longrightarrow> k \<in> fst ` set md"
  by (simp add: tidy_def)

lemma tidy_updates:
  assumes "tidy md"
  shows "tidy (AList.update ''generation'' (JInt g) md)"
    "0 \<le> e \<Longrightarrow> e \<le> MAX_EDITS \<Longrightarrow> tidy (AList.update ''edits_since_update'' (JInt e) md)"
    "tidy (AList.update ''verification_pending'' (JBool b) md)"
    "tidy (AList.update ''resume_required'' (JBool b) md)"
proof -
  have keys: "fst ` set (AList.update k v md) = fst ` set md" if "k \<in> set required_meta" for k v
    by (rule update_keys) (rule tidy_keys [OF assms that])
  have mem: "''generation'' \<in> set required_meta" "''edits_since_update'' \<in> set required_meta"
    "''verification_pending'' \<in> set required_meta" "''resume_required'' \<in> set required_meta"
    by (simp_all add: required_meta_def)
  note t = assms [unfolded tidy_def]
  show "tidy (AList.update ''generation'' (JInt g) md)"
    "0 \<le> e \<Longrightarrow> e \<le> MAX_EDITS \<Longrightarrow> tidy (AList.update ''edits_since_update'' (JInt e) md)"
    "tidy (AList.update ''verification_pending'' (JBool b) md)"
    "tidy (AList.update ''resume_required'' (JBool b) md)"
    using t by (auto simp: tidy_def keys mem AList.distinct_update)
qed

lemma tidy_init: "tidy (init_meta le a fixed)"
proof -
  have "fst ` set (init_meta le a fixed) = set required_meta" by (simp add: init_meta_def required_meta_def insert_commute)
  moreover have "distinct (map fst (init_meta le a fixed))" by (simp add: init_meta_def)
  ultimately show ?thesis by (auto simp: tidy_def init_meta_def is_str_def MAX_EDITS_def)
qed

lemma writes_tidy: "writes le md file \<Longrightarrow> tidy_file le file"
  by (auto simp: writes_def reads_as_def tidy_file_def)

definition edits_in :: "obj \<Rightarrow> nat" where
  "edits_in md = (case oget md ''edits_since_update'' of JInt e \<Rightarrow> nat e | _ \<Rightarrow> 3)"

lemma writes_spent: "writes le md file \<Longrightarrow> edits_in md \<le> edits_spent le file \<and> edits_spent le file \<le> 3"
proof -
  assume w: "writes le md file"
  then obtain t where t: "file = Some t" "tidy md" "reads_as le file md" by (auto simp: writes_def)
  have small: "edits_in md \<le> 3" using t(2) by (auto simp: tidy_def edits_in_def MAX_EDITS_def)
  show ?thesis
  proof (cases "isl (read_ledger le file)")
    case True
    with t(1) small show ?thesis by (cases "read_ledger le file") (simp_all add: edits_spent_def)
  next
    case False
    with t(3) obtain d body where "read_ledger le file = Inr (d, body)" "map_of d = map_of md"
      by (auto simp: reads_as_def)
    with t(1) small show ?thesis by (simp add: edits_spent_def edits_in_def oget_def)
  qed
qed

text \<open>The commands on a tidy ledger, one line each: what they write when they are granted.\<close>

definition next_meta :: "ledger_op \<Rightarrow> obj \<Rightarrow> obj" where
  "next_meta op md = (let bump = AList.update ''generation'' (JInt (the (py_int_of (oget md ''generation'')) + 1)) md;
       clear = AList.update ''verification_pending'' (JBool False) (AList.update ''edits_since_update'' (JInt 0) bump) in
     case op of
       Guard_edit _ \<Rightarrow> AList.update ''edits_since_update'' (JInt (int (edits_in md) + 1)) md
     | Update_ledger _ _ _ _ _ \<Rightarrow> AList.update ''resume_required'' (JBool False) clear
     | Mark_verification \<Rightarrow> AList.update ''verification_pending'' (JBool True) md
     | Flush_ledger \<Rightarrow> clear
     | Compact_before \<Rightarrow> AList.update ''resume_required'' (JBool True) clear
     | Compact_after \<Rightarrow> AList.update ''resume_required'' (JBool False) md
     | _ \<Rightarrow> md)"

definition needs_leave :: "ledger_op \<Rightarrow> bool" where
  "needs_leave op \<longleftrightarrow> (case op of Check_ledger _ \<Rightarrow> True | Guard_edit _ \<Rightarrow> True | Mark_verification \<Rightarrow> True | _ \<Rightarrow> False)"

lemma tidy_next: "tidy md \<Longrightarrow> needs_leave op \<longrightarrow> edits_in md < 3 \<Longrightarrow> tidy (next_meta op md)"
  by (cases op) (auto simp: next_meta_def Let_def tidy_updates MAX_EDITS_def needs_leave_def)

lemma leave_given:
  assumes "tidy md" "validate_ledger md a = Inr ()"
  shows "edits_in md < 3 \<and> oget md ''verification_pending'' = JBool False \<and> oget md ''resume_required'' = JBool False"
  using assms by (auto simp: tidy_def validate_ledger_def oget_or_def oget_def edits_in_def MAX_EDITS_def split: if_splits option.splits)

lemma granted_leave:
  assumes "tidy_file le file" "needs_leave op" "fst (command le a op file) = Inr x"
  shows "\<exists>md body. read_ledger le file = Inr (md, body) \<and> tidy md \<and> edits_in md < 3 \<and>
    oget md ''verification_pending'' = JBool False \<and> oget md ''resume_required'' = JBool False"
proof -
  from assms(2,3) obtain md body where r: "read_ledger le file = Inr (md, body)"
    by (cases op; cases "read_ledger le file") (auto simp: command_def needs_leave_def)
  with assms(1) have t: "tidy md" by (auto simp: tidy_file_def)
  from assms(2,3) r have "validate_ledger md a = Inr ()"
    by (cases op; cases "validate_ledger md a") (auto simp: command_def needs_leave_def Let_def split: if_splits)
  with leave_given [OF t] r t show ?thesis by blast
qed

lemma tidy_numbers: "tidy md \<Longrightarrow> \<exists>g. oget md ''generation'' = JInt g"
  "tidy md \<Longrightarrow> oget md ''edits_since_update'' = JInt (int (edits_in md))"
  by (auto simp: tidy_def edits_in_def)

lemma bumped_next:
  assumes "tidy md"
  shows "bumped md [(''edits_since_update'', JInt 0), (''verification_pending'', JBool False), (''resume_required'', JBool False)]
      = Inr (next_meta (Update_ledger s n c i f) md)"
    "bumped md [(''edits_since_update'', JInt 0), (''verification_pending'', JBool False)] = Inr (next_meta Flush_ledger md)"
    "bumped md [(''edits_since_update'', JInt 0), (''verification_pending'', JBool False), (''resume_required'', JBool True)]
      = Inr (next_meta Compact_before md)"
  using tidy_numbers(1) [OF assms] by (auto simp: bumped_def next_meta_def Let_def)

definition starts :: "ledger_op \<Rightarrow> bool" where
  "starts op \<longleftrightarrow> (case op of Init_ledger _ _ _ _ _ \<Rightarrow> True | _ \<Rightarrow> False)"

lemma saved:
  assumes "tidy md'" "save md' f reply file = (r, file')"
  shows "writes le md' file'"
  using save_writes [OF assms(1), of f reply "file" le] assms(2) by auto

lemma command_written:
  assumes p: "read_ledger le file = Inr (md, body)" and t: "tidy md"
    and c: "command le a op file = (r, file')" and op: "\<not> starts op"
  shows "file' = file \<and> (case op of Guard_edit _ \<Rightarrow> isl r | _ \<Rightarrow> True) \<or> writes le (next_meta op md) file'"
proof (cases "oget md ''attempt_id'' = JStr a")
  case False
  with p c op show ?thesis by (cases op) (auto simp: command_def starts_def)
next
  case True
  note opened = c [unfolded command_def p] True
  show ?thesis
  proof (cases op)
    case (Guard_edit target)
    show ?thesis
    proof (cases "bindr (validate_ledger md a) (\<lambda>_. check_file le md target)")
      case (Inl e)
      with Guard_edit opened show ?thesis by (auto simp: Let_def)
    next
      case (Inr u)
      then have "validate_ledger md a = Inr ()" by (cases "validate_ledger md a") simp_all
      then have "tidy (next_meta op md)" using leave_given [OF t] by (intro tidy_next [OF t]) simp
      from saved [OF this] show ?thesis
        using Guard_edit opened Inr tidy_numbers(2) [OF t] by (fastforce simp: Let_def next_meta_def)
    qed
  next
    case (Update_ledger s n k i f)
    have "tidy (next_meta op md)" by (rule tidy_next [OF t]) (simp add: Update_ledger needs_leave_def)
    from saved [OF this] show ?thesis
      using Update_ledger opened bumped_next(1) [OF t, of s n k i f] by (simp add: Let_def)
  next
    case Mark_verification
    show ?thesis
    proof (cases "validate_ledger md a")
      case (Inl e)
      with Mark_verification opened show ?thesis by (auto simp: Let_def)
    next
      case (Inr u)
      then have "tidy (next_meta op md)" using leave_given [OF t] by (intro tidy_next [OF t]) simp
      from saved [OF this] show ?thesis
        using Mark_verification opened Inr by (simp add: Let_def next_meta_def)
    qed
  next
    case Flush_ledger
    have "tidy (next_meta op md)" by (rule tidy_next [OF t]) (simp add: Flush_ledger needs_leave_def)
    from saved [OF this] show ?thesis
      using Flush_ledger opened bumped_next(2) [OF t] by (simp add: Let_def)
  next
    case Compact_before
    have "tidy (next_meta op md)" by (rule tidy_next [OF t]) (simp add: Compact_before needs_leave_def)
    from saved [OF this] show ?thesis
      using Compact_before opened bumped_next(3) [OF t] by (simp add: Let_def)
  next
    case Compact_after
    have t': "tidy (next_meta op md)" by (rule tidy_next [OF t]) (simp add: Compact_after needs_leave_def)
    obtain u where "render (next_meta op md) (body_fields body) = Inr u" using render_shape [OF t'] by blast
    with truncated_writes [OF t' this, of le MAX_BYTES] show ?thesis
      using Compact_after opened by (simp add: Let_def next_meta_def)
  qed (use opened op in \<open>auto simp: Let_def starts_def\<close>)
qed

lemma command_effect:
  assumes "tidy_file le file" "command le a op file = (r, file')"
  obtains (unchanged) "file' = file" "case op of Guard_edit _ \<Rightarrow> isl r | _ \<Rightarrow> True"
  | (initial) fixed where "file = None" "writes le (init_meta le a fixed) file'" "\<not> needs_leave op"
  | (written) md body where "read_ledger le file = Inr (md, body)" "tidy md" "writes le (next_meta op md) file'"
proof (cases "starts op")
  case True
  then obtain fixed sl nx inv fb where op: "op = Init_ledger fixed sl nx inv fb" by (cases op) (auto simp: starts_def)
  show ?thesis
  proof (cases "file")
    case None
    have "writes le (init_meta le a fixed) file'"
      using saved [OF tidy_init] assms(2) unfolding op None by (simp add: command_def init_ledger_def)
    with None op show ?thesis by (intro initial) (auto simp: needs_leave_def)
  next
    case (Some t)
    with assms(2) op show ?thesis by (intro unchanged) (auto simp: command_def init_ledger_def)
  qed
next
  case False
  show ?thesis
  proof (cases "read_ledger le file")
    case (Inl e)
    with assms(2) False have "file' = file" "case op of Guard_edit _ \<Rightarrow> isl r | _ \<Rightarrow> True"
      by (cases op; auto simp: command_def starts_def)+
    then show ?thesis by (rule unchanged)
  next
    case (Inr p)
    obtain md body where p: "read_ledger le file = Inr (md, body)" by (cases p) (simp add: Inr)
    with assms(1) have t: "tidy md" by (auto simp: tidy_file_def)
    from command_written [OF p t assms(2) False] show ?thesis using unchanged written [OF p t] by blast
  qed
qed

section \<open>The edit budget\<close>

definition ledger_exec :: "ledger_env \<Rightarrow> string \<times> ledger_op \<Rightarrow> string ledger_cmd" where
  "ledger_exec le aop = command le (fst aop) (snd aop)"

definition edits :: "string \<times> ledger_op \<Rightarrow> string + string \<Rightarrow> bool" where
  "edits aop r \<longleftrightarrow> (case snd aop of Guard_edit _ \<Rightarrow> \<not> isl r | _ \<Rightarrow> False)"

definition re_anchors :: "string \<times> ledger_op \<Rightarrow> bool" where
  "re_anchors aop \<longleftrightarrow> (case snd aop of Update_ledger _ _ _ _ _ \<Rightarrow> True | Flush_ledger \<Rightarrow> True | Compact_before \<Rightarrow> True | _ \<Rightarrow> False)"

definition releases :: "string \<Rightarrow> string \<times> ledger_op \<Rightarrow> bool" where
  "releases key aop \<longleftrightarrow> (case snd aop of Update_ledger _ _ _ _ _ \<Rightarrow> True
     | Flush_ledger \<Rightarrow> key = ''verification_pending'' | Compact_before \<Rightarrow> key = ''verification_pending''
     | Compact_after \<Rightarrow> key = ''resume_required'' | _ \<Rightarrow> False)"

definition held :: "ledger_env \<Rightarrow> string \<Rightarrow> string option \<Rightarrow> bool" where
  "held le key file \<longleftrightarrow> key \<in> {''verification_pending'', ''resume_required''} \<and> file \<noteq> None \<and> tidy_file le file \<and>
     (\<forall>md text. read_ledger le file = Inr (md, text) \<longrightarrow> oget md key = JBool True)"

lemma no_file_tidy: "tidy_file le None"
  by (simp add: tidy_file_def read_ledger_def)

lemma spent_read: "read_ledger le file = Inr (md, body) \<Longrightarrow> tidy md \<Longrightarrow> edits_spent le file = edits_in md \<and> edits_in md \<le> 3"
  by (cases "file") (auto simp: edits_spent_def edits_in_def read_ledger_def tidy_def MAX_EDITS_def)

lemma edits_in_next:
  assumes "tidy md"
  shows "edits_in (next_meta (Guard_edit t) md) = edits_in md + 1"
    "\<not> re_anchors (a, op) \<Longrightarrow> edits_in md \<le> edits_in (next_meta op md)"
  by (simp add: next_meta_def edits_in_def Let_def)
     (cases op; simp add: next_meta_def edits_in_def Let_def re_anchors_def split: json.split)

lemma edit_counts:
  assumes "tidy_file le file" "command le a (Guard_edit t) file = (Inr x, file')"
  shows "edits_spent le file < edits_spent le file'"
  using assms
proof (rule command_effect)
  assume "\<not> needs_leave (Guard_edit t)"
  then show ?thesis by (simp add: needs_leave_def)
next
  fix md body assume "read_ledger le file = Inr (md, body)" "tidy md" "writes le (next_meta (Guard_edit t) md) file'"
  then show ?thesis using spent_read edits_in_next(1) writes_spent by fastforce
qed simp

lemma edits_stay:
  assumes "tidy_file le file" "command le a op file = (r, file')" "\<not> re_anchors (a, op)"
  shows "edits_spent le file \<le> edits_spent le file'"
  using assms(1,2)
proof (rule command_effect)
  fix fixed assume "file = None"
  then show ?thesis by (simp add: edits_spent_def)
next
  fix md body assume "read_ledger le file = Inr (md, body)" "tidy md" "writes le (next_meta op md) file'"
  then show ?thesis using spent_read edits_in_next(2) [OF _ assms(3)] writes_spent by fastforce
qed simp

lemma command_tidy:
  assumes "tidy_file le file" "command le a op file = (r, file')"
  shows "tidy_file le file'"
  using assms by (rule command_effect) (use assms(1) in \<open>auto intro: writes_tidy\<close>)

interpretation ledger: budgeted_machine "ledger_exec le" "\<lambda>_. True" "tidy_file le" "edits_spent le" 3 edits re_anchors
  for le
proof
  fix aop :: "string \<times> ledger_op" and s :: "string option"
  obtain r s' where run: "command le (fst aop) (snd aop) s = (r, s')" by fastforce
  { assume t: "tidy_file le s"
    show "tidy_file le (snd (ledger_exec le aop s))" using command_tidy [OF t run] run by (simp add: ledger_exec_def)
    show "edits_spent le s \<le> 3"
    proof (cases "read_ledger le s")
      case (Inl e)
      then show ?thesis by (cases s) (simp_all add: edits_spent_def)
    next
      case (Inr p)
      then obtain md body where p: "read_ledger le s = Inr (md, body)" by (cases p) simp
      with t have "tidy md" by (simp add: tidy_file_def)
      with spent_read [OF p] show ?thesis by simp
    qed
    { assume e: "edits aop (fst (ledger_exec le aop s))"
      then obtain f x where "snd aop = Guard_edit f" "r = Inr x"
        using run by (cases r) (auto simp: edits_def ledger_exec_def split: ledger_op.splits)
      with edit_counts [OF t, of "fst aop" f x s'] run
      show "edits_spent le s < edits_spent le (snd (ledger_exec le aop s))" by (simp add: ledger_exec_def) }
    { assume "\<not> re_anchors aop"
      with edits_stay [OF t run] run show "edits_spent le s \<le> edits_spent le (snd (ledger_exec le aop s))"
        by (simp add: ledger_exec_def) } }
qed

section \<open>The body is read back\<close>

definition clean_line :: "string \<Rightarrow> bool" where
  "clean_line l \<longleftrightarrow> list_all (\<lambda>c. \<not> line_break c) l"

definition clean_fields :: "ledger_fields \<Rightarrow> string list \<Rightarrow> bool" where
  \<comment> \<open>single lines, no item that reads \<open>none\<close>, no text with a blank or a backtick at its ends, no slice that reads as a heading\<close>
  "clean_fields f fixed \<longleftrightarrow> list_all clean_line (lf_slice f # lf_next f # lf_completed f @ lf_invariants f @ lf_forbidden f @ fixed) \<and>
     ''none'' \<notin> set (lf_completed f @ lf_invariants f @ lf_forbidden f) \<and>
     strip (lf_slice f) = lf_slice f \<and> strip_char (CHR ''`'') (lf_slice f) = lf_slice f \<and> \<not> startswith ''## '' (lf_slice f) \<and>
     strip_char (CHR ''`'') (lf_next f) = lf_next f"

definition lines_text :: "string list \<Rightarrow> string" where
  "lines_text ls = concat (map (\<lambda>l. l @ [newline]) ls)"

lemma lines_text_simps [simp]: "lines_text [] = []" "lines_text (l # ls) = l @ newline # lines_text ls"
  by (simp_all add: lines_text_def)

lemma join_lines: "join [newline] (ls @ [[]]) = lines_text ls"
proof (induction ls)
  case (Cons l ls)
  then show ?case by (cases ls) (simp_all add: join_Cons)
qed simp

lemma splitlines_line: "clean_line l \<Longrightarrow> splitlines (l @ newline # s) = l # splitlines s"
  by (induction l) (auto simp: clean_line_def line_break_def)

lemma splitlines_lines: "list_all clean_line ls \<Longrightarrow> splitlines (lines_text ls) = ls"
  by (induction ls) (simp_all add: splitlines_line)

lemma newlines_clean: "clean_line l \<Longrightarrow> universal_newlines (l @ newline # s) = l @ newline # universal_newlines s"
  by (induction l) (auto simp: clean_line_def line_break_def)

lemma newlines_lines: "list_all clean_line ls \<Longrightarrow> universal_newlines (lines_text ls) = lines_text ls"
  by (induction ls) (simp_all add: newlines_clean)

lemma join_block: "bs \<noteq> [] \<Longrightarrow> join [newline] (as @ join [newline] bs # cs) = join [newline] (as @ bs @ cs)"
proof (induction as)
  case Nil
  then show ?case
  proof (induction bs)
    case (Cons b bs)
    then show ?case by (cases bs; cases cs) (simp_all add: join_Cons)
  qed simp
next
  case (Cons a as)
  then show ?case by (cases bs; cases as) (simp_all add: join_Cons)
qed

definition bullet_lines :: "string list \<Rightarrow> string list" where
  "bullet_lines vals = (if vals = [] then [''- none''] else map (\<lambda>v. ''- '' @ v) vals)"

lemma bullet_lines_ne: "bullet_lines vals \<noteq> []"
  by (simp add: bullet_lines_def)

lemma bullets_lines: "bullets vals = join [newline] (bullet_lines vals)"
  by (cases "vals = []") (simp_all only: bullets_def bullet_lines_def if_False if_True join.simps simp_thms)

definition all_lines :: "ledger_fields \<Rightarrow> string list \<Rightarrow> string list" where
  "all_lines f fixed =
    [''# Worker State Ledger'', []] @
    (''## Current slice'' # [or_text (lf_slice f) ''unspecified'', []]) @
    (''## Completed items'' # bullet_lines (lf_completed f) @ [[]]) @
    (''## Exact next command'' # [''`'' @ or_text (lf_next f) ''none'' @ ''`'', []]) @
    (''## Invariants'' # bullet_lines (lf_invariants f) @ [[]]) @
    (''## Fixed files'' # bullet_lines fixed @ [[]]) @
    (''## Forbidden files'' # bullet_lines (lf_forbidden f))"

lemma body_text: "join [newline] (h # body_lines f fixed) = lines_text (h # all_lines f fixed)"
proof -
  have block: "join [newline] (as @ bullets v # cs) = join [newline] (as @ bullet_lines v @ cs)" for as v cs
    unfolding bullets_lines by (rule join_block [OF bullet_lines_ne])
  let ?a = "[h, ''# Worker State Ledger'', [], ''## Current slice'', or_text (lf_slice f) ''unspecified'', [], ''## Completed items'']"
  let ?b = "[[], ''## Exact next command'', ''`'' @ or_text (lf_next f) ''none'' @ ''`'', [], ''## Invariants'']"
  have "join [newline] (h # body_lines f fixed) = join [newline] (?a @ bullets (lf_completed f) # ?b @ bullets (lf_invariants f)
      # [[], ''## Fixed files''] @ bullets fixed # [[], ''## Forbidden files''] @ bullets (lf_forbidden f) # [[]])"
    by (simp only: body_lines_def append.simps)
  also have "\<dots> = join [newline] ((h # all_lines f fixed) @ [[]])"
    using block [of ?a] block [of "?a @ bullet_lines (lf_completed f) @ ?b"]
      block [of "?a @ bullet_lines (lf_completed f) @ ?b @ bullet_lines (lf_invariants f) @ [[], ''## Fixed files'']"]
      block [of "?a @ bullet_lines (lf_completed f) @ ?b @ bullet_lines (lf_invariants f) @ [[], ''## Fixed files'']
        @ bullet_lines fixed @ [[], ''## Forbidden files'']"]
    by (simp only: all_lines_def append.simps append_assoc)
  finally show ?thesis by (simp only: join_lines)
qed

lemma update_twice: "AList.update k v (AList.update k w xs) = AList.update k v xs"
  by (induction xs) auto

definition heading :: "string \<Rightarrow> bool" where
  "heading l \<longleftrightarrow> startswith ''## '' l"

lemma collect_lines:
  assumes "k \<noteq> []" "list_all (\<lambda>l. \<not> heading l) ls"
  shows "body_sections (ls @ rest) k (AList.update k seen secs) = body_sections rest k (AList.update k (seen @ ls) secs)"
  using assms(2) by (induction ls arbitrary: seen) (simp_all add: heading_def assms(1) update_twice update_conv')

lemma section_block:
  assumes "h = ''## '' @ name" "lower (strip name) = k" "k \<noteq> []" "list_all (\<lambda>l. \<not> heading l) ls"
  shows "body_sections ((h # ls) @ rest) c secs = body_sections rest k (AList.update k ls secs)"
  using collect_lines [OF assms(3,4), of rest "[]" secs] assms(1,2) by (simp add: startswith_def)

lemma bullets_no_heading: "list_all (\<lambda>l. \<not> heading l) (bullet_lines vals @ [[]])" "list_all (\<lambda>l. \<not> heading l) (bullet_lines vals)"
  by (auto simp: bullet_lines_def heading_def startswith_def list_all_iff)

lemma bullet_items:
  assumes "''none'' \<notin> set vals"
  shows "map (drop 2) (filter (\<lambda>l. startswith ''- '' l \<and> l \<noteq> ''- none'') (bullet_lines vals @ [[]])) = vals"
    "map (drop 2) (filter (\<lambda>l. startswith ''- '' l \<and> l \<noteq> ''- none'') (bullet_lines vals)) = vals"
proof -
  have "filter (\<lambda>l. startswith ''- '' l \<and> l \<noteq> ''- none'') (map (\<lambda>v. ''- '' @ v) vals) = map (\<lambda>v. ''- '' @ v) vals"
    using assms by (auto simp: filter_id_conv startswith_def)
  moreover have "filter (\<lambda>l. startswith ''- '' l \<and> l \<noteq> ''- none'') (bullet_lines vals) =
      filter (\<lambda>l. startswith ''- '' l \<and> l \<noteq> ''- none'') (map (\<lambda>v. ''- '' @ v) vals)"
    by (simp add: bullet_lines_def)
  ultimately have "map (drop 2) (filter (\<lambda>l. startswith ''- '' l \<and> l \<noteq> ''- none'') (bullet_lines vals)) = vals"
    by (simp add: comp_def)
  then show "map (drop 2) (filter (\<lambda>l. startswith ''- '' l \<and> l \<noteq> ''- none'') (bullet_lines vals)) = vals"
    "map (drop 2) (filter (\<lambda>l. startswith ''- '' l \<and> l \<noteq> ''- none'') (bullet_lines vals @ [[]])) = vals"
    by (simp_all add: startswith_def)
qed

lemma sections_of_all:
  assumes "\<not> heading (or_text (lf_slice f) ''unspecified'')"
  shows "body_sections (all_lines f fixed) [] [] =
    [(''current slice'', [or_text (lf_slice f) ''unspecified'', []]),
     (''completed items'', bullet_lines (lf_completed f) @ [[]]),
     (''exact next command'', [''`'' @ or_text (lf_next f) ''none'' @ ''`'', []]),
     (''invariants'', bullet_lines (lf_invariants f) @ [[]]),
     (''fixed files'', bullet_lines fixed @ [[]]),
     (''forbidden files'', bullet_lines (lf_forbidden f))]"
proof -
  have names: "lower (strip ''Current slice'') = ''current slice''" "lower (strip ''Completed items'') = ''completed items''"
    "lower (strip ''Exact next command'') = ''exact next command''" "lower (strip ''Invariants'') = ''invariants''"
    "lower (strip ''Fixed files'') = ''fixed files''" "lower (strip ''Forbidden files'') = ''forbidden files''"
    by code_simp+
  have heads: "''## Current slice'' = ''## '' @ ''Current slice''" "''## Completed items'' = ''## '' @ ''Completed items''"
    "''## Exact next command'' = ''## '' @ ''Exact next command''" "''## Invariants'' = ''## '' @ ''Invariants''"
    "''## Fixed files'' = ''## '' @ ''Fixed files''" "''## Forbidden files'' = ''## '' @ ''Forbidden files''"
    by simp_all
  have plain: "list_all (\<lambda>l. \<not> heading l) [or_text (lf_slice f) ''unspecified'', []]"
    "list_all (\<lambda>l. \<not> heading l) [''`'' @ or_text (lf_next f) ''none'' @ ''`'', []]"
    using assms by (simp_all add: heading_def startswith_def)
  have start: "body_sections ([''# Worker State Ledger'', []] @ rest) [] [] = body_sections rest [] []" for rest
    by (simp add: startswith_def)
  have last: "body_sections (''## Forbidden files'' # ls) c secs = AList.update ''forbidden files'' ls secs"
    if "list_all (\<lambda>l. \<not> heading l) ls" for ls c secs
    using section_block [OF heads(6) names(6) _ that, of "[]" c secs] by simp
  have "body_sections (all_lines f fixed) [] [] =
    AList.update ''forbidden files'' (bullet_lines (lf_forbidden f)) (AList.update ''fixed files'' (bullet_lines fixed @ [[]])
      (AList.update ''invariants'' (bullet_lines (lf_invariants f) @ [[]])
        (AList.update ''exact next command'' [''`'' @ or_text (lf_next f) ''none'' @ ''`'', []]
          (AList.update ''completed items'' (bullet_lines (lf_completed f) @ [[]])
            (AList.update ''current slice'' [or_text (lf_slice f) ''unspecified'', []] [])))))"
    by (simp only: all_lines_def start section_block [OF heads(1) names(1) list.distinct(2) plain(1)]
      section_block [OF heads(2) names(2) list.distinct(2) bullets_no_heading(1)]
      section_block [OF heads(3) names(3) list.distinct(2) plain(2)]
      section_block [OF heads(4) names(4) list.distinct(2) bullets_no_heading(1)]
      section_block [OF heads(5) names(5) list.distinct(2) bullets_no_heading(1)] last [OF bullets_no_heading(2)])
  also have "\<dots> = [(''current slice'', [or_text (lf_slice f) ''unspecified'', []]),
     (''completed items'', bullet_lines (lf_completed f) @ [[]]),
     (''exact next command'', [''`'' @ or_text (lf_next f) ''none'' @ ''`'', []]),
     (''invariants'', bullet_lines (lf_invariants f) @ [[]]),
     (''fixed files'', bullet_lines fixed @ [[]]),
     (''forbidden files'', bullet_lines (lf_forbidden f))]"
    by simp
  finally show ?thesis .
qed

lemma strip_backticks:
  assumes "strip_char q s = s"
  shows "strip_char q ([q] @ s @ [q]) = s"
  using assms by (cases "dropWhile (\<lambda>c. c = q) s = []") (auto simp: strip_char_def)

lemma strip_newline: "strip (s @ [newline]) = strip s"
proof -
  have nl: "is_space newline" by (simp add: is_space_def)
  show ?thesis
  proof (cases "\<forall>x \<in> set s. is_space x")
    case True
    with nl have "dropWhile is_space s = []" "dropWhile is_space (s @ [newline]) = []" 
      unfolding dropWhile_eq_Nil_conv by simp_all
    then show ?thesis by (simp only: strip_def)
  next
    case False
    then have "dropWhile is_space (s @ [newline]) = dropWhile is_space s @ [newline]" by (auto simp: dropWhile_append)
    with nl show ?thesis by (simp add: strip_def)
  qed
qed

lemma strip_quoted: "\<not> is_space q \<Longrightarrow> strip (q # s @ [q]) = q # s @ [q]"
  by (simp add: strip_def)

lemma clean_bullets: "list_all clean_line vals \<Longrightarrow> list_all clean_line (bullet_lines vals)"
  by (auto simp: bullet_lines_def clean_line_def list_all_iff line_break_def)

lemma clean_all:
  assumes "clean_fields f fixed"
  shows "list_all clean_line (all_lines f fixed)"
proof -
  have heads: "list_all clean_line [''# Worker State Ledger'', [], ''## Current slice'', ''## Completed items'', ''## Exact next command'',
    ''## Invariants'', ''## Fixed files'', ''## Forbidden files'', ''unspecified'', ''`none`'']" by code_simp
  have tick: "clean_line (''`'' @ l @ ''`'')" if "clean_line l" for l
    using that by (simp add: clean_line_def line_break_def)
  from assms show ?thesis
    using heads clean_bullets tick [of "lf_next f"]
    by (simp add: all_lines_def or_text_def clean_fields_def)
qed

lemma body_round_trip:
  assumes "clean_fields f fixed" "lf_slice f \<noteq> []" "lf_next f \<noteq> []" "splitlines body = h # all_lines f fixed"
  shows "body_fields body = f"
proof -
  have texts: "or_text (lf_slice f) ''unspecified'' = lf_slice f" "or_text (lf_next f) ''none'' = lf_next f"
    using assms(2,3) by (simp_all add: or_text_def)
  note c = assms(1) [unfolded clean_fields_def]
  have "\<not> heading (or_text (lf_slice f) ''unspecified'')" using c by (simp add: texts heading_def)
  note secs = sections_of_all [OF this, of fixed, unfolded texts]
  have slice: "strip (join [newline] [lf_slice f, []]) = lf_slice f"
    using c strip_newline [of "lf_slice f"] by simp
  have nxt: "strip_char (CHR ''`'') (strip (join [newline] [''`'' @ lf_next f @ ''`'', []])) = lf_next f"
    using c strip_newline [of "''`'' @ lf_next f @ ''`''"] strip_quoted [of "CHR ''`''" "lf_next f"]
      strip_backticks [of "CHR ''`''" "lf_next f"] by (simp add: is_space_def)
  have nones: "''none'' \<notin> set (lf_completed f)" "''none'' \<notin> set (lf_invariants f)" "''none'' \<notin> set (lf_forbidden f)"
    using c by auto
  note items = bullet_items(1) [OF nones(1)] bullet_items(1) [OF nones(2)] bullet_items(2) [OF nones(3)]
  have ticks: "strip_char (CHR ''`'') (lf_slice f) = lf_slice f" using c by simp
  have "body_fields body = \<lparr>lf_slice = lf_slice f, lf_completed = lf_completed f, lf_next = lf_next f,
      lf_invariants = lf_invariants f, lf_forbidden = lf_forbidden f\<rparr>"
    unfolding body_fields_def assms(4) list.sel Let_def secs section_plain_def section_items_def section_lines_def
    by (simp only: map_of.simps fst_conv snd_conv fun_upd_apply option.case if_True if_False list.inject char.inject simp_thms
      slice nxt items ticks refl)
  then show ?thesis by simp
qed

section \<open>A held ledger admits no edit\<close>

lemma held_next:
  assumes "tidy md" "key \<in> {''verification_pending'', ''resume_required''}" "oget md key = JBool True" "\<not> releases key (a, op)"
  shows "oget (next_meta op md) key = JBool True"
  using assms(2-4) by (cases op) (auto simp: next_meta_def Let_def releases_def)

lemma written_holds:
  assumes "writes le md' file'" "oget md' key = JBool True" "key \<in> {''verification_pending'', ''resume_required''}"
  shows "held le key file'"
  using assms by (auto simp: held_def writes_def reads_as_def tidy_file_def oget_def split: option.splits)

lemma held_stays:
  assumes "held le key file" "\<not> releases key (a, op)" "command le a op file = (r, file')"
  shows "held le key file'"
proof -
  from assms(1) have t: "tidy_file le file" and key: "key \<in> {''verification_pending'', ''resume_required''}" by (simp_all add: held_def)
  from t assms(3) show ?thesis
  proof (rule command_effect)
    fix md body assume "read_ledger le file = Inr (md, body)" "tidy md" "writes le (next_meta op md) file'"
    with assms(1,2) key show ?thesis by (intro written_holds [OF _ held_next [OF _ key _ assms(2)] key]) (auto simp: held_def)
  qed (use assms(1) in \<open>auto simp: held_def\<close>)
qed

lemma held_refuses: "held le key file \<Longrightarrow> needs_leave op \<Longrightarrow> isl (fst (command le a op file))"
proof (rule ccontr)
  assume h: "held le key file" "needs_leave op" "\<not> isl (fst (command le a op file))"
  then obtain x where "fst (command le a op file) = Inr x" by (cases "fst (command le a op file)") simp_all
  with granted_leave [of le "file" op a x] h show False by (auto simp: held_def)
qed

interpretation hold: machine "ledger_exec le" "\<lambda>aop. \<not> releases key aop" "held le key" for le key
proof
  fix aop :: "string \<times> ledger_op" and s :: "string option"
  assume "\<not> releases key aop" "held le key s"
  then show "held le key (snd (ledger_exec le aop s))"
    using held_stays [of le key s "fst aop" "snd aop"] unfolding ledger_exec_def by (metis prod.collapse)
qed

definition held_key :: "ledger_op \<Rightarrow> string" where
  "held_key op = (case op of Mark_verification \<Rightarrow> ''verification_pending'' | _ \<Rightarrow> ''resume_required'')"

lemma op_holds:
  assumes "tidy_file le file" "op = Mark_verification \<or> op = Compact_before" "command le a op file = (Inr x, file')"
  shows "held le (held_key op) file'"
proof -
  from assms(2,3) obtain md body where p: "read_ledger le file = Inr (md, body)"
    by (cases "read_ledger le file") (auto simp: command_def)
  with assms(1) have t: "tidy md" by (simp add: tidy_file_def)
  have "held_key op \<in> {''verification_pending'', ''resume_required''}" "oget (next_meta op md) (held_key op) = JBool True"
    using assms(2) by (auto simp: held_key_def next_meta_def Let_def)
  moreover have "writes le (next_meta op md) file'"
  proof (cases "validate_ledger md a")
    case Inl
    with assms(2,3) p t saved [OF tidy_next [OF t]] bumped_next(3) [OF t] show ?thesis
      by (auto simp: command_def Let_def needs_leave_def split: if_splits)
  next
    case (Inr u)
    with leave_given [OF t, of a] have "tidy (next_meta op md)" by (intro tidy_next [OF t]) simp
    from saved [OF this] assms(2,3) p Inr bumped_next(3) [OF t] show ?thesis
      by (auto simp: command_def Let_def next_meta_def split: if_splits)
  qed
  ultimately show ?thesis using written_holds by blast
qed

section \<open>Properties\<close>

definition plain_env :: ledger_env where
  "plain_env = \<lparr>le_resolve = (\<lambda>p. p), le_path = ''/l''\<rparr>"

definition begun :: "string option" where
  "begun = snd (ledger_exec plain_env (''a'', Init_ledger [''/f''] ''s'' ''n'' [] []) None)"

lemma begun_text: "begun = Some (lines_text (header (init_meta plain_env ''a'' [''/f'']) # all_lines
    \<lparr>lf_slice = ''s'', lf_completed = [], lf_next = ''n'', lf_invariants = [], lf_forbidden = []\<rparr> [''/f'']))"
  by (simp add: begun_def ledger_exec_def command_def init_ledger_def save_def render_def fixed_values_def init_meta_def
    plain_env_def Let_def body_text)

lemma begun_small: "utf8_size (lines_text (header (init_meta plain_env ''a'' [''/f'']) # all_lines
    \<lparr>lf_slice = ''s'', lf_completed = [], lf_next = ''n'', lf_invariants = [], lf_forbidden = []\<rparr> [''/f''])) \<le> MAX_BYTES"
proof -
  have "utf8_size (dumps (JObj (init_meta plain_env ''a'' [''/f'']))) < 250" by code_simp
  moreover have "utf8_size (lines_text (all_lines
    \<lparr>lf_slice = ''s'', lf_completed = [], lf_next = ''n'', lf_invariants = [], lf_forbidden = []\<rparr> [''/f''])) < 250" by code_simp
  ultimately show ?thesis by (simp add: header_def PREFIX_def SUFFIX_def utf8_size_def MAX_BYTES_def del: dumps.simps)
qed

lemma begun_read: "\<exists>d body. read_ledger plain_env begun = Inr (d, body) \<and> map_of d = map_of (init_meta plain_env ''a'' [''/f''])"
proof -
  let ?ls = "header (init_meta plain_env ''a'' [''/f'']) # all_lines
    \<lparr>lf_slice = ''s'', lf_completed = [], lf_next = ''n'', lf_invariants = [], lf_forbidden = []\<rparr> [''/f'']"
  have "splitlines (universal_newlines (lines_text ?ls)) = hd ?ls # splitlines (universal_newlines (lines_text (tl ?ls)))"
    using first_line [OF header_printable header_ne] by simp
  from read_header [OF tidy_init begun_small this [unfolded list.sel]] show ?thesis unfolding begun_text by blast
qed

lemma begun_tidy: "tidy_file plain_env begun"
  using ledger.exec_inv [OF TrueI no_file_tidy] unfolding begun_def .

text \<open>C25: from no file on, whatever commands ran before, any run of commands without an update, a flush or a
  \<open>compact-before\<close> grants at most three \<open>guard-edit\<close>s.\<close>
theorem edits_need_an_anchor:
  assumes "list_all (\<lambda>aop. \<not> re_anchors aop) ops"
  shows "length (filter (\<lambda>(aop, r). edits aop r) (run_replies (ledger_exec le) ops (run_ops (ledger_exec le) earlier None))) \<le> 3"
proof -
  have all: "list_all (\<lambda>_. True) xs" for xs :: "(string \<times> ledger_op) list" by (simp add: list_all_iff)
  show ?thesis using ledger.spends_within [OF all ledger.run_inv [OF all no_file_tidy] assms, of le earlier] by simp
qed

theorem edits_need_an_anchor_witness:
  "list_all (\<lambda>aop. \<not> re_anchors aop) (replicate 4 (''a'', Guard_edit None)) \<and>
   length (filter (\<lambda>(aop, r). edits aop r) (run_replies (ledger_exec plain_env) (replicate 4 (''a'', Guard_edit None))
     (run_ops (ledger_exec plain_env) [(''a'', Init_ledger [''/f''] ''s'' ''n'' [] [])] None))) \<le> 3"
proof -
  have ok: "list_all (\<lambda>aop. \<not> re_anchors aop) (replicate 4 (''a'', Guard_edit None))" by (simp add: re_anchors_def numeral_eq_Suc)
  from edits_need_an_anchor [OF ok, of plain_env "[(''a'', Init_ledger [''/f''] ''s'' ''n'' [] [])]"] ok show ?thesis by blast
qed


lemma begun_compact: "\<exists>x file. command plain_env ''a'' Compact_before begun = (Inr x, file)"
proof -
  obtain d body where r: "read_ledger plain_env begun = Inr (d, body)" "map_of d = map_of (init_meta plain_env ''a'' [''/f''])"
    using begun_read by blast
  then have t: "tidy d" using begun_tidy by (simp add: tidy_file_def)
  have a: "oget d ''attempt_id'' = JStr ''a''" using r(2) by (simp add: oget_def init_meta_def)
  have "tidy (next_meta Compact_before d)" by (rule tidy_next [OF t]) (simp add: needs_leave_def)
  from save_writes [OF this] r(1) a bumped_next(3) [OF t] show ?thesis by (fastforce simp: command_def Let_def)
qed




text \<open>An update is not checked against the size a reader accepts. One that renders longer than 64 KiB is answered
  \<open>updated\<close>, and from then on every command, a further update included, is refused.\<close>
theorem oversize_update_is_final:
  assumes "tidy_file le file" "read_ledger le file = Inr (md, body)" "oget md ''attempt_id'' = JStr a" "MAX_BYTES < length s"
  shows "\<exists>reply file'. command le a (Update_ledger (Some s) nx done_items invs forb) file = (Inr reply, file') \<and>
    (\<forall>b op. command le b op file' = (Inl ''ledger-unsafe'', file'))"
proof -
  have t: "tidy md" using assms(1,2) by (simp add: tidy_file_def)
  let ?op = "Update_ledger (Some s) nx done_items invs forb" let ?md = "next_meta ?op md"
  have t': "tidy ?md" by (rule tidy_next [OF t]) (simp add: needs_leave_def)
  have s: "s \<noteq> []" using assms(4) by auto
  have big: "MAX_BYTES < utf8_size raw" if r: "render ?md f = Inr raw" and l: "lf_slice f = s" for f raw
  proof -
    obtain fixed where "fixed_values ?md = Inr fixed" using r by (cases "fixed_values ?md") (simp_all add: render_def)
    then have "raw = lines_text (header ?md # all_lines f fixed)" using r by (simp only: render_def bindr_simps body_text sum.inject)
    then have "length s \<le> length raw" using s by (simp add: all_lines_def or_text_def l)
    with assms(4) show ?thesis by (simp add: utf8_size_def)
  qed
  obtain reply f where c: "command le a ?op file = save ?md f reply file" "lf_slice f = s"
    using assms(2,3) bumped_next(1) [OF t, of "Some s" nx done_items invs forb] by (simp add: command_def Let_def)
  obtain raw where raw: "render ?md f = Inr raw" using render_shape [OF t'] by blast
  have "command le b op (Some raw) = (Inl ''ledger-unsafe'', Some raw)" for b op
    using oversize [OF big [OF raw c(2)]] by (cases op) (simp_all add: command_def init_ledger_def)
  with c(1) raw show ?thesis by (simp add: save_def)
qed

theorem oversize_update_is_final_witness:
  "\<exists>reply file'. command plain_env ''a'' (Update_ledger (Some (replicate (Suc MAX_BYTES) (CHR ''x''))) None [] [] []) begun = (Inr reply, file') \<and>
    command plain_env ''a'' (Update_ledger (Some ''s'') None [] [] []) file' = (Inl ''ledger-unsafe'', file')"
proof -
  obtain d body where r: "read_ledger plain_env begun = Inr (d, body)" "map_of d = map_of (init_meta plain_env ''a'' [''/f''])"
    using begun_read by blast
  then have a: "oget d ''attempt_id'' = JStr ''a''" by (simp add: oget_def init_meta_def)
  from oversize_update_is_final [OF begun_tidy r(1) a, of "replicate (Suc MAX_BYTES) (CHR ''x'')" None "[]" "[]" "[]"] show ?thesis by auto
qed

end
