(* ===== verification/Completion.thy ===== *)
theory Completion
  imports Readiness Json_Text
begin

text \<open>
  Publication of completions (\<open>utilities/capability-route.py\<close>, \<open>_marker_attempt_axes\<close> to
  \<open>complete_subsession_stage\<close>). A completed attempt leaves three files in the directory of its route: the
  numbered history \<open><node>.<k>.json\<close> and the link \<open><node>.<attempt>.attempt.json\<close>, both written once, and the
  canonical marker \<open><node>.json\<close>, replaced atomically; then its row in \<open>jobs.log\<close> is closed.

  The file locks make one command one step, but a command may die on the way: \<open>cw_power\<close> counts the file
  operations it still gets. A file created and not yet written has the content \<open>None\<close>. The route has passed
  \<open>verify_route\<close>, so its id, hash and digest are strings; temporary names are left out.
\<close>

section \<open>Files\<close>

record completion_env =
  ce_fw :: stage_files                        \<comment> \<open>the evidence, the manifests and every file outside the directory\<close>
  ce_home :: string
  ce_norm :: "string \<Rightarrow> string"              \<comment> \<open>\<open>str(Path(p))\<close>\<close>
  ce_now :: string
  ce_unwritable :: "string option"            \<comment> \<open>the reason \<open>ensure_global_registry_writable\<close> raises\<close>

record completion_world =
  cw_files :: "(string \<times> json option) list"
  cw_jobs :: "string list option"
  cw_power :: nat

type_synonym 'a completion_cmd = "(completion_world, string, 'a) cmd"

definition completion_dir :: "completion_env \<Rightarrow> string \<Rightarrow> string" where
  "completion_dir env route_id = path_join (ce_home env) (''.dispatch/completion/'' @ route_id)"

definition tick :: "unit completion_cmd" where
  "tick w = (if cw_power w = 0 then (Inl ''crash'', w) else (Inr (), w\<lparr>cw_power := cw_power w - 1\<rparr>))"

definition put :: "string \<Rightarrow> json option \<Rightarrow> unit completion_cmd" where
  "put path content = bindc tick (\<lambda>_ w. (Inr (), w\<lparr>cw_files := AList.update path content (cw_files w)\<rparr>))"

definition write_once :: "string \<Rightarrow> json \<Rightarrow> unit completion_cmd" where
  "write_once path payload w = (case map_of (cw_files w) path of
      Some content \<Rightarrow> if content = Some payload then ret () w
        else raise ''immutable route already exists with different content'' w
    | None \<Rightarrow> bindc (put path None) (\<lambda>_. put path (Some payload)) w)"

definition atomic_write :: "string \<Rightarrow> json \<Rightarrow> unit completion_cmd" where
  "atomic_write path payload = put path (Some payload)"

definition load_json :: "string \<Rightarrow> json completion_cmd" where
  \<comment> \<open>\<open>json.loads(path.read_text())\<close>\<close>
  "load_json path w = (case map_of (cw_files w) path of
      None \<Rightarrow> raise ''FileNotFoundError'' w
    | Some None \<Rightarrow> raise ''JSONDecodeError'' w
    | Some (Some v) \<Rightarrow> ret v w)"

definition load_obj :: "string \<Rightarrow> obj completion_cmd" where
  \<comment> \<open>and \<open>.get\<close> on what was read\<close>
  "load_obj path = bindc (load_json path) (\<lambda>v. if is_obj v then ret (the_obj v) else raise ''AttributeError'')"

section \<open>The axes of a marker\<close>

definition opt_json :: "string option \<Rightarrow> json" where
  "opt_json v = (case v of None \<Rightarrow> JNull | Some s \<Rightarrow> JStr s)"

definition given :: "string option \<Rightarrow> bool" where
  "given v \<longleftrightarrow> v \<noteq> None \<and> v \<noteq> Some []"

definition resource_axes :: obj where
  "resource_axes = [(''attempt_id'', JNull), (''dispatch_depth'', JNull), (''transport'', JNull), (''execution_surface'', JNull),
     (''registered_worker'', JBool False), (''fallback_hop'', JNull)]"

definition chain_axes :: "obj \<Rightarrow> string option \<Rightarrow> obj \<Rightarrow> string + obj" where
  "chain_axes node attempt_id md =
    (if \<not> given attempt_id \<or> \<not> truthy (oget md ''subsession_manifest'') then Inl ''owner-chain completion identity incomplete''
     else bindr (dict_item md ''subsession_manifest_sha256'') (\<lambda>digest. bindr (dict_item md ''session_chain_id'') (\<lambda>chain.
       Inr [(''attempt_id'', opt_json attempt_id), (''dispatch_depth'', oget node ''dispatch_depth''), (''transport'', JStr ''headless''),
         (''execution_surface'', JStr ''inline''), (''registered_worker'', JBool False), (''fallback_hop'', JStr ''inline''),
         (''stage_authority'', JStr ''owner-chain''), (''subsession_manifest'', oget md ''subsession_manifest''),
         (''subsession_manifest_sha256'', digest), (''session_chain_id'', chain)])))"

definition direct_metadata :: obj where
  "direct_metadata = [(''attempt_schema_version'', JInt 2), (''dispatch_depth'', JInt 0), (''transport'', JStr ''interactive''),
     (''execution_surface'', JStr ''inline''), (''registered_worker'', JBool False), (''fallback_hop'', JStr [])]"

definition attempt_axes_of :: "obj \<Rightarrow> string option \<Rightarrow> obj \<Rightarrow> string + obj" where
  "attempt_axes_of node attempt_id md =
    bindr (validate_attempt_metadata False md) (\<lambda>_.
      (case py_int_of (oget md ''dispatch_depth'') of
        None \<Rightarrow> Inl ''ValueError''
      | Some depth \<Rightarrow>
          if \<not> py_eq (JInt depth) (oget node ''dispatch_depth'')
          then Inl ''completion attempt dispatch_depth does not match route node''
          else let hop = py_str (py_or (oget md ''fallback_hop'') (JStr [])) in
            Inr [(''attempt_id'', opt_json attempt_id), (''dispatch_depth'', JInt depth), (''transport'', JStr (ostr md ''transport'')),
              (''execution_surface'', JStr (ostr md ''execution_surface'')),
              (''registered_worker'', JBool (lower (ostr md ''registered_worker'') \<in> {''1'', ''true''})),
              (''fallback_hop'', if hop = [] then JNull else JStr hop)]))"

definition marker_attempt_axes :: "obj \<Rightarrow> string option \<Rightarrow> obj option \<Rightarrow> string + obj" where
  "marker_attempt_axes node attempt_id metadata =
    (if py_eq (oget node ''kind'') (JStr ''resource-runner'') then
       if given attempt_id \<or> (metadata \<noteq> None \<and> metadata \<noteq> Some []) then Inl ''resource completion cannot carry agent attempt axes''
       else Inr resource_axes
     else (case metadata of
       Some md \<Rightarrow> if py_eq (oget md ''stage_authority'') (JStr ''owner-chain'') then chain_axes node attempt_id md
                  else attempt_axes_of node attempt_id md
     | None \<Rightarrow> if \<not> py_eq (oget node ''dispatch_depth'') (JInt 0) \<or> \<not> py_eq (oget node ''execution_surface'') (JStr ''inline'')
               then Inl ''current dispatched completion requires exact attempt metadata''
               else attempt_axes_of node attempt_id direct_metadata))"

section \<open>The numbered history and the canonical marker\<close>

definition history_number :: "string \<Rightarrow> string \<Rightarrow> string \<Rightarrow> int option" where
  \<comment> \<open>the number of a file that \<open>glob(f"{node_id}.*.json")\<close> lists\<close>
  "history_number directory node_id path =
    (let prefix = path_join directory (node_id @ ''.''); middle = drop (length prefix) (take (length path - 5) path) in
     if startswith prefix path \<and> endswith ''.json'' path \<and> isdigit middle then Some (digits_val middle) else None)"

definition next_marker_sequence :: "string \<Rightarrow> string \<Rightarrow> (string \<times> json option) list \<Rightarrow> int" where
  "next_marker_sequence directory node_id files =
    foldl max 0 (List.map_filter (\<lambda>(path, _). history_number directory node_id path) files) + 1"

definition canonical_path :: "string \<Rightarrow> string \<Rightarrow> string" where
  "canonical_path directory node_id = path_join directory (node_id @ ''.json'')"

definition history_path :: "string \<Rightarrow> string \<Rightarrow> json \<Rightarrow> string" where
  "history_path directory node_id sequence = path_join directory (node_id @ ''.'' @ py_str sequence @ ''.json'')"

definition read_evidence :: "completion_env \<Rightarrow> string \<Rightarrow> string + json" where
  "read_evidence env evidence = (case sf_bytes (ce_fw env) evidence of
      None \<Rightarrow> Inl ''OSError''
    | Some bytes \<Rightarrow> Inr (JStr (sf_sha256 (ce_fw env) bytes)))"

definition marker_sha :: "obj \<Rightarrow> string + json" where
  \<comment> \<open>\<open>marker.get("evidence", {}).get("sha256")\<close>\<close>
  "marker_sha marker = (case oget_or marker ''evidence'' (JObj []) of JObj d \<Rightarrow> Inr (oget d ''sha256'') | _ \<Rightarrow> Inl ''AttributeError'')"

definition static_identity :: "obj \<Rightarrow> obj \<Rightarrow> string \<Rightarrow> obj" where
  "static_identity route node node_id =
    [(''schema_version'', JInt 2), (''route_id'', oget route ''route_id''), (''route_hash'', oget route ''route_hash''),
     (''registry_digest'', oget route ''registry_digest''), (''node_id'', JStr node_id), (''completion_gate'', oget node ''completion_gate'')]"

definition new_marker :: "completion_env \<Rightarrow> obj \<Rightarrow> obj \<Rightarrow> string \<Rightarrow> string \<Rightarrow> json \<Rightarrow> obj \<Rightarrow> int \<Rightarrow> obj" where
  "new_marker env route node node_id evidence sha axes sequence =
    [(''schema_version'', JInt 2), (''route_id'', oget route ''route_id''), (''route_hash'', oget route ''route_hash''),
     (''registry_digest'', oget route ''registry_digest''), (''node_id'', JStr node_id)] @ axes @
    [(''completion_gate'', oget node ''completion_gate''), (''evidence'', JObj [(''path'', JStr evidence), (''sha256'', sha)]),
     (''sequence'', JInt sequence), (''completed_at'', JStr (ce_now env))]"

primrec write_history :: "nat \<Rightarrow> string \<Rightarrow> string \<Rightarrow> (int \<Rightarrow> obj) \<Rightarrow> int \<Rightarrow> obj completion_cmd" where
  \<comment> \<open>the loop over \<open>sequence\<close>: only a \<open>ValueError\<close> of \<open>write_once\<close> is caught\<close>
  "write_history 0 directory node_id marker sequence w = raise ''out of fuel'' w"
| "write_history (Suc n) directory node_id marker sequence w =
    (case write_once (history_path directory node_id (JInt sequence)) (JObj (marker sequence)) w of
      (Inr _, w') \<Rightarrow> (Inr (marker sequence), w')
    | (Inl e, w') \<Rightarrow> if e = ''crash'' then (Inl e, w') else write_history n directory node_id marker (sequence + 1) w')"

definition publish_new :: "completion_env \<Rightarrow> obj \<Rightarrow> obj \<Rightarrow> string \<Rightarrow> string \<Rightarrow> json \<Rightarrow> obj \<Rightarrow> string \<Rightarrow> obj completion_cmd" where
  "publish_new env route node node_id evidence sha axes directory w =
    bindc (write_history (Suc (length (cw_files w))) directory node_id (new_marker env route node node_id evidence sha axes)
        (next_marker_sequence directory node_id (cw_files w)))
      (\<lambda>marker. bindc (atomic_write (canonical_path directory node_id) (JObj marker)) (\<lambda>_. ret marker)) w"

definition existing_marker :: "obj \<Rightarrow> obj \<Rightarrow> string \<Rightarrow> string \<Rightarrow> obj \<Rightarrow> obj completion_cmd" where
  \<comment> \<open>the canonical marker that carries this very completion\<close>
  "existing_marker route node node_id directory existing w =
    (if \<not> agrees existing (static_identity route node node_id) then raise ''canonical completion marker identity conflict'' w
     else let path = history_path directory node_id (oget existing ''sequence'') in
       if map_of (cw_files w) path = None then raise ''canonical completion marker history conflict'' w
       else bindc (load_json path) (\<lambda>history. if py_eq history (JObj existing) then ret existing
         else raise ''canonical completion marker history conflict'') w)"

definition lift :: "string + 'a \<Rightarrow> 'a completion_cmd" where
  "lift r w = (r, w)"

definition write_completion_marker ::
  "completion_env \<Rightarrow> obj \<Rightarrow> obj \<Rightarrow> string \<Rightarrow> string \<Rightarrow> string option \<Rightarrow> obj option \<Rightarrow> obj completion_cmd" where
  "write_completion_marker env route node node_id evidence attempt_id metadata =
    (let directory = completion_dir env (the_str (oget route ''route_id'')); canonical = canonical_path directory node_id in
     bindc (lift (read_evidence env evidence)) (\<lambda>sha.
     bindc (lift (marker_attempt_axes node attempt_id metadata)) (\<lambda>axes w.
       if map_of (cw_files w) canonical = None then publish_new env route node node_id evidence sha axes directory w
       else bindc (load_obj canonical) (\<lambda>existing. bindc (lift (marker_sha existing)) (\<lambda>old_sha.
         if py_eq old_sha sha \<and> agrees existing axes then existing_marker route node node_id directory existing
         else publish_new env route node node_id evidence sha axes directory)) w)))"

section \<open>The link of an attempt\<close>

definition link_path :: "string \<Rightarrow> string \<Rightarrow> string \<Rightarrow> string" where
  "link_path directory node_id attempt_id = path_join directory (node_id @ ''.'' @ safe_attempt attempt_id @ ''.attempt.json'')"

definition link_identity :: "obj \<Rightarrow> string \<Rightarrow> string \<Rightarrow> obj \<Rightarrow> json \<Rightarrow> obj" where
  "link_identity route node_id attempt_id axes sha =
    [(''schema_version'', JInt 2), (''route_id'', oget route ''route_id''), (''node_id'', JStr node_id), (''attempt_id'', JStr attempt_id)]
    @ filter (\<lambda>(k, _). k \<noteq> ''attempt_id'') axes @ [(''evidence_sha256'', sha)]"

definition linked_marker ::
  "completion_env \<Rightarrow> obj \<Rightarrow> obj \<Rightarrow> string \<Rightarrow> string \<Rightarrow> string \<Rightarrow> obj \<Rightarrow> json \<Rightarrow> string \<Rightarrow> obj completion_cmd" where
  \<comment> \<open>the marker an existing link names, when both still carry this completion\<close>
  "linked_marker env route node node_id evidence attempt_id axes sha directory =
    bindc (load_obj (link_path directory node_id attempt_id)) (\<lambda>link.
      if \<not> agrees link (link_identity route node_id attempt_id axes sha)
      then raise ''immutable attempt completion differs from existing link''
      else let named = oget_or link ''completion_marker_history'' (JStr []) in
        if \<not> is_str named then raise ''TypeError''
        else let path = ce_norm env (the_str named) in (\<lambda>w.
          if map_of (cw_files w) path = None then raise ''immutable attempt completion history is missing'' w
          else bindc (load_obj path) (\<lambda>marker. bindc (lift (marker_sha marker)) (\<lambda>old_sha.
            if \<not> agrees marker (filter (\<lambda>(k, _). k \<noteq> ''evidence_sha256'') (link_identity route node_id attempt_id axes sha)) \<or> \<not> py_eq old_sha sha
            then raise ''immutable attempt completion history differs from link''
            else if path \<noteq> ce_norm env (history_path directory node_id (oget marker ''sequence''))
            then raise ''immutable attempt completion history path differs from link''
            else if \<not> agrees marker [(''route_hash'', oget route ''route_hash''), (''registry_digest'', oget route ''registry_digest''),
                (''completion_gate'', oget node ''completion_gate'')]
              \<or> \<not> py_eq (oget (the_obj (oget_or marker ''evidence'' (JObj []))) ''path'') (JStr evidence)
            then raise ''immutable attempt completion route identity differs from link''
            else ret marker)) w))"

definition new_link :: "obj \<Rightarrow> string \<Rightarrow> string \<Rightarrow> obj \<Rightarrow> string \<Rightarrow> string + obj" where
  "new_link route node_id attempt_id marker directory =
    bindr (dict_item marker ''sequence'') (\<lambda>sequence. bindr (dict_item marker ''dispatch_depth'') (\<lambda>depth. bindr (dict_item marker ''transport'') (\<lambda>transport.
    bindr (dict_item marker ''execution_surface'') (\<lambda>surface. bindr (dict_item marker ''registered_worker'') (\<lambda>registered.
    bindr (dict_item marker ''fallback_hop'') (\<lambda>hop. bindr (dict_item marker ''evidence'') (\<lambda>evidence.
    bindr (if is_obj evidence then dict_item (the_obj evidence) ''sha256'' else Inl ''TypeError'') (\<lambda>sha.
      Inr [(''schema_version'', JInt 2), (''route_id'', oget route ''route_id''), (''node_id'', JStr node_id), (''attempt_id'', JStr attempt_id),
        (''dispatch_depth'', depth), (''transport'', transport), (''execution_surface'', surface), (''registered_worker'', registered),
        (''fallback_hop'', hop), (''evidence_sha256'', sha), (''completion_marker'', JStr (canonical_path directory node_id)),
        (''completion_marker_history'', JStr (history_path directory node_id sequence))]))))))))"

definition publish_link :: "completion_env \<Rightarrow> obj \<Rightarrow> string \<Rightarrow> string \<Rightarrow> string \<Rightarrow> obj \<Rightarrow> obj completion_cmd" where
  "publish_link env route node_id attempt_id directory marker =
    bindc (lift (new_link route node_id attempt_id marker directory)) (\<lambda>link.
    bindc (write_once (link_path directory node_id attempt_id) (JObj link)) (\<lambda>_.
    bindc (load_json (canonical_path directory node_id)) (\<lambda>current.
      if py_eq current (JObj marker)
      then bindc (atomic_write (path_join directory (node_id @ ''.attempt.json'')) (JObj link)) (\<lambda>_. ret marker)
      else ret marker)))"

definition publish_completion_locked ::
  "completion_env \<Rightarrow> obj \<Rightarrow> obj \<Rightarrow> string \<Rightarrow> string \<Rightarrow> string option \<Rightarrow> obj option \<Rightarrow> bool \<Rightarrow> obj completion_cmd" where
  "publish_completion_locked env route node node_id evidence attempt_id metadata require_existing_link =
    bindc (lift (marker_attempt_axes node attempt_id metadata)) (\<lambda>axes.
    bindc (lift (read_evidence env evidence)) (\<lambda>sha.
      let directory = completion_dir env (the_str (oget route ''route_id''));
          attempt = the attempt_id in
      bindc (\<lambda>w.
          if given attempt_id \<and> map_of (cw_files w) (link_path directory node_id attempt) \<noteq> None
          then linked_marker env route node node_id evidence attempt axes sha directory w
          else if require_existing_link then raise ''completed attempt row lacks immutable completion link'' w
          else write_completion_marker env route node node_id evidence attempt_id metadata w) (\<lambda>marker.
        if \<not> given attempt_id then ret marker else publish_link env route node_id attempt directory marker)))"

section \<open>Completing a node\<close>

definition explicit_axis_keys :: "string list" where
  "explicit_axis_keys = [''attempt_schema_version'', ''dispatch_depth'', ''transport'', ''execution_surface'', ''registered_worker'', ''fallback_hop'']"

definition same_axes :: "meta \<Rightarrow> obj \<Rightarrow> bool" where
  "same_axes row explicit \<longleftrightarrow>
    list_all (\<lambda>k. lower (mget row k []) = lower (ostr explicit k)) explicit_axis_keys"

definition no_stage_authority :: "meta \<Rightarrow> bool" where
  "no_stage_authority md \<longleftrightarrow> mget md ''subsession_id'' [] \<noteq> [] \<or> lower (mget md ''stage_authority'' ''1'') \<in> {''0'', ''false''}"

definition marker_eligible :: "string list \<Rightarrow> bool" where
  \<comment> \<open>a row the supervisor closed with a success verdict, whose marker is still missing\<close>
  "marker_eligible fs \<longleftrightarrow> fs ! 1 = ''done'' \<and> map_of (row_meta fs) ''note'' = Some ''completed-supervisor''
     \<and> map_of (row_meta fs) ''failure_class'' = Some ''pass''"

definition row_check :: "obj \<Rightarrow> string \<Rightarrow> obj option \<Rightarrow> string list \<Rightarrow> string + unit" where
  "row_check route node_id explicit fs =
    (let md = row_meta fs in
     case validate_attempt_metadata False (jmeta md) of
       Inl e \<Rightarrow> Inl (''row-contract-invalid:'' @ e)
     | Inr _ \<Rightarrow>
       if no_stage_authority md then Inl ''subsession-has-no-stage-gate-authority''
       else if \<not> meta_is md ''route_id'' (oget route ''route_id'') \<or> \<not> meta_is md ''route_hash'' (oget route ''route_hash'')
         \<or> map_of md ''route_node'' \<noteq> Some node_id
       then Inl ''attempt row route identity mismatch''
       else if (case explicit of None \<Rightarrow> False | Some e \<Rightarrow> \<not> same_axes md e)
       then Inl ''explicit attempt metadata differs from canonical row''
       else if fs ! 1 \<notin> {''open'', ''running'', ''done''} then Inl (''attempt-row-terminal:'' @ fs ! 1)
       else if fs ! 1 = ''done'' \<and> map_of md ''note'' \<noteq> Some ''completed-marker'' \<and> \<not> marker_eligible fs
       then Inl (''attempt-row-terminal-without-completion:'' @ (case map_of md ''note'' of None \<Rightarrow> ''unknown'' | Some t \<Rightarrow> if t = [] then ''unknown'' else t))
       else Inr ())"

definition closing_pipe :: "string \<Rightarrow> string \<Rightarrow> json \<Rightarrow> string \<Rightarrow> string" where
  "closing_pipe directory node_id sequence pipe =
    pipe @ '','' @ kv_part ''note'' ''completed-marker''
      @ '','' @ kv_part ''completion_marker'' (canonical_path directory node_id)
      @ '','' @ kv_part ''completion_marker_history'' (history_path directory node_id sequence)"

definition closed_fields :: "string \<Rightarrow> string \<Rightarrow> json \<Rightarrow> string list \<Rightarrow> string list" where
  "closed_fields directory node_id sequence fs = fs[1 := ''done'', 5 := closing_pipe directory node_id sequence (fs ! 5)]"

definition replace_registry :: "string list \<Rightarrow> unit completion_cmd" where
  "replace_registry lines = bindc tick (\<lambda>_ w. (Inr (), w\<lparr>cw_jobs := Some lines\<rparr>))"

definition complete_row ::
  "completion_env \<Rightarrow> obj \<Rightarrow> obj \<Rightarrow> string \<Rightarrow> string \<Rightarrow> string \<Rightarrow> string list \<Rightarrow> nat \<Rightarrow> string list \<Rightarrow> (obj \<times> string option) completion_cmd" where
  \<comment> \<open>the part under the registry lock, once the row is found and accepted\<close>
  "complete_row env route node node_id evidence attempt_id lines i fs =
    (let directory = completion_dir env (the_str (oget route ''route_id''));
         already_closed = (fs ! 1 = ''done'' \<and> \<not> marker_eligible fs);
         metadata = jmeta (filter (\<lambda>(k, _). \<not> startswith ''_'' k) (row_meta fs)) in
     bindc (publish_completion_locked env route node node_id evidence (Some attempt_id) (Some metadata) already_closed) (\<lambda>marker.
       if already_closed then ret (marker, Some ''already-closed'')
       else bindc (lift (dict_item marker ''sequence'')) (\<lambda>sequence.
         bindc (replace_registry (store_row lines i (closed_fields directory node_id sequence fs))) (\<lambda>_.
           ret (marker, Some (if marker_eligible fs then ''marker-appended'' else ''closed''))))))"

definition publish_then_raise ::
  "completion_env \<Rightarrow> obj \<Rightarrow> obj \<Rightarrow> string \<Rightarrow> string \<Rightarrow> string \<Rightarrow> obj option \<Rightarrow> string \<Rightarrow> (obj \<times> string option) completion_cmd" where
  \<comment> \<open>with explicit metadata the marker is published even where the row cannot be closed\<close>
  "publish_then_raise env route node node_id evidence attempt_id explicit reason =
    (if explicit = None then raise reason
     else bindc (publish_completion_locked env route node node_id evidence (Some attempt_id) explicit False) (\<lambda>_. raise reason))"

definition complete_node ::
  "completion_env \<Rightarrow> obj \<Rightarrow> obj \<Rightarrow> string \<Rightarrow> string \<Rightarrow> bool \<Rightarrow> string option \<Rightarrow> obj option \<Rightarrow> (obj \<times> string option) completion_cmd" where
  "complete_node env route node node_id evidence jobs attempt_id explicit =
    (if jobs \<and> \<not> given attempt_id then raise ''registered completion requires --attempt-id''
     else if \<not> jobs \<and> given attempt_id \<and> explicit = None then raise ''unregistered completion requires explicit attempt metadata''
     else if \<not> jobs \<and> explicit \<noteq> None \<and> \<not> given attempt_id then raise ''explicit attempt metadata requires --attempt-id''
     else if \<not> jobs
     then bindc (publish_completion_locked env route node node_id evidence attempt_id explicit False) (\<lambda>marker.
       ret (marker, if given attempt_id then Some ''unregistered-complete'' else None))
     else let attempt = the attempt_id in
       case ce_unwritable env of
         Some reason \<Rightarrow> publish_then_raise env route node node_id evidence attempt explicit (''row-close-failed:'' @ reason)
       | None \<Rightarrow> (\<lambda>w. let lines = (case cw_jobs w of None \<Rightarrow> [] | Some ls \<Rightarrow> ls); w' = w\<lparr>cw_jobs := Some lines\<rparr> in
           case find_row (attempt_row attempt) 0 lines of
             None \<Rightarrow> publish_then_raise env route node node_id evidence attempt explicit
               (''attempt-row-absent:'' @ attempt @ ''; exact fallback attempt metadata required'') w'
           | Some (i, fs) \<Rightarrow>
               bindc (lift (row_check route node_id explicit fs)) (\<lambda>_. complete_row env route node node_id evidence attempt lines i fs) w'))"

section \<open>A stage of sub-sessions\<close>

definition session_passed :: "os \<Rightarrow> obj \<Rightarrow> string \<Rightarrow> obj \<Rightarrow> string list \<Rightarrow> chain_session \<Rightarrow> string + unit" where
  "session_passed os route node_id manifest lines s =
    (case all_rows (attempt_row (cs_attempt s)) 0 lines of
      [(i, fs)] \<Rightarrow>
        let md = row_meta fs in
        bindr (validate_attempt_metadata False (jmeta md)) (\<lambda>_.
          if list_ex (\<lambda>(k, v). mget md k [] \<noteq> v)
            [(''route_id'', py_str (oget route ''route_id'')), (''route_node'', node_id), (''subsession_id'', cs_id s),
             (''session_chain_id'', py_str (oget manifest ''chain_id'')), (''stage_authority'', ''0'')]
          then Inl (''subsession attempt identity mismatch:'' @ cs_attempt s)
          else if fs ! 1 \<noteq> ''done'' \<or> map_of md ''note'' \<notin> {Some ''completed-supervisor'', Some ''completed-marker''}
            \<or> map_of md ''failure_class'' \<noteq> Some ''pass''
          then Inl (''subsession not semantic PASS:'' @ cs_attempt s)
          else let process = attempt_process_quiescence os md in
            if q_state process \<noteq> ''quiescent'' then Inl (''subsession process not quiescent:'' @ cs_attempt s @ '':'' @ q_reason process)
            else Inr ())
    | rows \<Rightarrow> Inl (''subsession attempt row count invalid:'' @ cs_attempt s @ '':'' @ int_str (int (length rows))))"

primrec sessions_passed :: "os \<Rightarrow> obj \<Rightarrow> string \<Rightarrow> obj \<Rightarrow> string list \<Rightarrow> chain_session list \<Rightarrow> string + unit" where
  "sessions_passed os route node_id manifest lines [] = Inr ()"
| "sessions_passed os route node_id manifest lines (s # rest) =
    bindr (session_passed os route node_id manifest lines s) (\<lambda>_. sessions_passed os route node_id manifest lines rest)"

definition complete_subsession_stage ::
  "completion_env \<Rightarrow> os \<Rightarrow> obj \<Rightarrow> obj \<Rightarrow> string \<Rightarrow> string \<Rightarrow> string \<Rightarrow> (obj \<times> nat) completion_cmd" where
  "complete_subsession_stage env os route node node_id evidence manifest_path =
    bindc (lift (load_manifest (ce_fw env) manifest_path None (Some node))) (\<lambda>m w.
      let manifest = cm_raw m in
      if \<not> py_eq (oget manifest ''route_id'') (oget route ''route_id'') \<or> \<not> py_eq (oget manifest ''route_hash'') (oget route ''route_hash'')
        \<or> sf_resolve (ce_fw env) (cm_route_file m)
            \<noteq> sf_resolve (ce_fw env) (py_str (oget_or route ''_route_file'' (JStr (cm_route_file m))))
      then raise ''subsession manifest route identity mismatch'' w
      else (case cw_jobs w of
        None \<Rightarrow> raise ''subsession registry missing'' w
      | Some lines \<Rightarrow>
          bindc (lift (sessions_passed os route node_id manifest lines (cm_sessions m))) (\<lambda>_.
          bindc (write_completion_marker env route node node_id evidence (Some (''att-stage-'' @ take 32 (cm_sha256 m)))
              (Some [(''stage_authority'', JStr ''owner-chain''), (''subsession_manifest'', JStr (sf_resolve (ce_fw env) manifest_path)),
                (''subsession_manifest_sha256'', JStr (cm_sha256 m)), (''session_chain_id'', oget manifest ''chain_id'')])) (\<lambda>marker.
            ret (marker, length (cm_sessions m)))) w))"

section \<open>File names\<close>

text \<open>The files of a node are named \<open><node>.<tail>\<close>; a node id has no dot and no slash.\<close>

definition named :: "string \<Rightarrow> string \<Rightarrow> string \<Rightarrow> string" where
  "named directory node_id t = path_join directory (node_id @ CHR ''.'' # t)"

definition plain_id :: "string \<Rightarrow> bool" where
  "plain_id n \<longleftrightarrow> CHR ''.'' \<notin> set n \<and> slash \<notin> set n"

abbreviation hist :: "string \<Rightarrow> string \<Rightarrow> int \<Rightarrow> string" where
  "hist directory n k \<equiv> named directory n (int_str k @ ''.json'')"

lemma paths_named:
  "canonical_path directory n = named directory n ''json''"
  "history_path directory n (JInt k) = hist directory n k"
  "link_path directory n a = named directory n (safe_attempt a @ ''.attempt.json'')"
  "path_join directory (n @ ''.attempt.json'') = named directory n ''attempt.json''"
  by (simp_all add: canonical_path_def history_path_def link_path_def named_def)

lemma dot_split: "CHR ''.'' \<notin> set n \<Longrightarrow> CHR ''.'' \<notin> set m \<Longrightarrow> n @ CHR ''.'' # s = m @ CHR ''.'' # t \<Longrightarrow> n = m \<and> s = t"
proof (induction n arbitrary: m)
  case Nil
  then show ?case by (cases m) auto
next
  case (Cons c n)
  then show ?case by (cases m) auto
qed

lemma plain_relative: "plain_id n \<Longrightarrow> \<not> is_absolute (n @ CHR ''.'' # t)"
  by (cases n) (auto simp: plain_id_def is_absolute_def startswith_def slash_def)

lemma named_eq:
  assumes "plain_id n" "plain_id m"
  shows "named directory n s = named directory m t \<longleftrightarrow> n = m \<and> s = t"
proof
  assume "named directory n s = named directory m t"
  then have "n @ CHR ''.'' # s = m @ CHR ''.'' # t"
    using assms plain_relative by (simp add: named_def path_join_def split: if_splits)
  with assms show "n = m \<and> s = t" using dot_split unfolding plain_id_def by blast
qed simp

lemma int_str_chars: "set (int_str k) \<subseteq> insert (CHR ''-'') {c. is_digit c}"
proof -
  have "set (nat_str n) \<subseteq> {c. is_digit c}" for n
    using nat_str_digit [of n] by (auto simp: list_all_iff)
  then show ?thesis by (auto simp: int_str_def)
qed

lemma int_str_inj: "int_str j = int_str k \<Longrightarrow> j = k"
proof -
  assume e: "int_str j = int_str k"
  have neg: "\<not> isdigit (int_str i)" if "i < 0" for i using that by (simp add: int_str_def isdigit_def)
  consider "0 \<le> j" "0 \<le> k" | "j < 0" "k < 0" | "0 \<le> j \<longleftrightarrow> k < 0" by linarith
  then show "j = k"
  proof cases
    case 1
    with e show ?thesis using digits_val_int_str by metis
  next
    case 2
    with e have "nat_str (nat (- j)) = nat_str (nat (- k))" by (simp add: int_str_def)
    then have "int (nat (- j)) = int (nat (- k))" using digits_val_nat_str by metis
    with 2 show ?thesis by simp
  next
    case 3
    with e neg isdigit_int_str show ?thesis by (metis linorder_not_less)
  qed
qed

lemma int_str_tail: "int_str k @ ''.json'' \<noteq> safe_attempt a @ ''.attempt.json''" "int_str k @ ''.json'' \<noteq> ''attempt.json''"
  "int_str k @ ''.json'' \<noteq> ''json''" "safe_attempt a @ ''.attempt.json'' \<noteq> ''json''" "safe_attempt a @ ''.attempt.json'' \<noteq> ''attempt.json''"
proof -
  have no: "CHR ''t'' \<notin> set (int_str k)" using int_str_chars [of k] by (auto simp: less_eq_char_def)
  have e: "safe_attempt a @ ''.attempt.json'' = (safe_attempt a @ ''.attempt'') @ ''.json''" by simp
  show "int_str k @ ''.json'' \<noteq> safe_attempt a @ ''.attempt.json''"
  proof
    assume "int_str k @ ''.json'' = safe_attempt a @ ''.attempt.json''"
    then have "int_str k = safe_attempt a @ ''.attempt''" unfolding e by (rule append_same_eq [THEN iffD1])
    with no show False by simp
  qed
  show "int_str k @ ''.json'' \<noteq> ''attempt.json''"
  proof
    assume "int_str k @ ''.json'' = ''attempt.json''"
    then have "int_str k @ ''.json'' = ''attempt'' @ ''.json''" by simp
    then have "int_str k = ''attempt''" by (rule append_same_eq [THEN iffD1])
    with no show False by simp
  qed
  show "int_str k @ ''.json'' \<noteq> ''json''" "safe_attempt a @ ''.attempt.json'' \<noteq> ''json''"
    by (auto dest: arg_cong [of _ _ length])
  show "safe_attempt a @ ''.attempt.json'' \<noteq> ''attempt.json''" by (auto dest: arg_cong [of _ _ length])
qed

section \<open>What the directory of a route holds\<close>

abbreviation content :: "completion_world \<Rightarrow> string \<Rightarrow> json option option" where
  "content w \<equiv> map_of (cw_files w)"

definition made :: "obj \<Rightarrow> obj \<Rightarrow> string \<Rightarrow> int \<Rightarrow> obj \<Rightarrow> bool" where
  "made route node n k m \<longleftrightarrow> 1 \<le> k \<and> (\<exists>env evidence sha a md axes. marker_attempt_axes node a md = Inr axes \<and>
     m = new_marker env route node n evidence (JStr sha) axes k)"

definition good_link :: "string \<Rightarrow> obj \<Rightarrow> (string \<Rightarrow> json option option) \<Rightarrow> string \<Rightarrow> string \<Rightarrow> json \<Rightarrow> bool" where
  \<comment> \<open>the link of some attempt with this file name, to a marker of the history\<close>
  "good_link directory route f n a v \<longleftrightarrow> (\<exists>b m k l. safe_attempt b = safe_attempt a \<and> new_link route n b m directory = Inr l \<and>
     v = JObj l \<and> map_of m ''sequence'' = Some (JInt k) \<and> f (hist directory n k) = Some (Some (JObj m)))"

definition store_ok :: "string \<Rightarrow> obj \<Rightarrow> (string \<Rightarrow> obj) \<Rightarrow> (string \<Rightarrow> json option option) \<Rightarrow> bool" where
  "store_ok directory route nodeof f \<longleftrightarrow> (\<forall>n. plain_id n \<longrightarrow>
     (\<forall>k v. f (hist directory n k) = Some (Some v) \<longrightarrow> (\<exists>m. v = JObj m \<and> made route (nodeof n) n k m)) \<and>
     (\<forall>c. f (named directory n ''json'') = Some c \<longrightarrow> (\<exists>m k. c = Some (JObj m) \<and> f (hist directory n k) = Some (Some (JObj m)))) \<and>
     (\<forall>a v. f (named directory n (safe_attempt a @ ''.attempt.json'')) = Some (Some v) \<longrightarrow> good_link directory route f n a v))"

definition keeps :: "string \<Rightarrow> (string \<Rightarrow> json option option) \<Rightarrow> (string \<Rightarrow> json option option) \<Rightarrow> bool" where
  \<comment> \<open>the files written once are never rewritten\<close>
  "keeps directory f g \<longleftrightarrow> (\<forall>n t c. plain_id n \<longrightarrow> t \<notin> {''json'', ''attempt.json''} \<longrightarrow> f (named directory n t) = Some c \<longrightarrow>
     g (named directory n t) = Some c)"

lemma keeps_refl [simp]: "keeps directory f f"
  by (simp add: keeps_def)

lemma keeps_trans: "keeps directory f g \<Longrightarrow> keeps directory g h \<Longrightarrow> keeps directory f h"
  by (simp add: keeps_def)

lemma keeps_hist: "keeps directory f g \<Longrightarrow> plain_id n \<Longrightarrow> f (hist directory n k) = Some (Some v) \<Longrightarrow> g (hist directory n k) = Some (Some v)"
  unfolding keeps_def using int_str_tail(2,3) [of k] by blast

lemma keeps_link: "keeps directory f g \<Longrightarrow> plain_id n \<Longrightarrow> f (named directory n (safe_attempt a @ ''.attempt.json'')) = Some c \<Longrightarrow>
  g (named directory n (safe_attempt a @ ''.attempt.json'')) = Some c"
  unfolding keeps_def using int_str_tail(4,5) [of a] by blast

lemma good_link_keeps: "good_link directory route f n a v \<Longrightarrow> keeps directory f g \<Longrightarrow> plain_id n \<Longrightarrow> good_link directory route g n a v"
  unfolding good_link_def using keeps_hist by blast

lemma store_okD:
  assumes "store_ok directory route nodeof f" "plain_id n"
  shows "f (hist directory n k) = Some (Some v) \<Longrightarrow> \<exists>m. v = JObj m \<and> made route (nodeof n) n k m"
    "f (named directory n ''json'') = Some c \<Longrightarrow> \<exists>m k. c = Some (JObj m) \<and> f (hist directory n k) = Some (Some (JObj m))"
    "f (named directory n (safe_attempt a @ ''.attempt.json'')) = Some (Some v) \<Longrightarrow> good_link directory route f n a v"
  using assms unfolding store_ok_def by blast+

lemma keeps_upd: "f p = None \<or> (\<forall>n t. plain_id n \<longrightarrow> t \<notin> {''json'', ''attempt.json''} \<longrightarrow> p \<noteq> named directory n t) \<Longrightarrow> keeps directory f (f(p \<mapsto> c))"
  by (auto simp: keeps_def)

text \<open>The four kinds of writes.\<close>

lemma store_ok_upd:
  assumes "store_ok directory route nodeof f" "keeps directory f (f(p \<mapsto> c))"
    and "\<And>n k v. plain_id n \<Longrightarrow> p = hist directory n k \<Longrightarrow> c = Some v \<Longrightarrow> \<exists>m. v = JObj m \<and> made route (nodeof n) n k m"
    and "\<And>n. plain_id n \<Longrightarrow> p = named directory n ''json'' \<Longrightarrow> \<exists>m k. c = Some (JObj m) \<and> f (hist directory n k) = Some (Some (JObj m))"
    and "\<And>n a v. plain_id n \<Longrightarrow> p = named directory n (safe_attempt a @ ''.attempt.json'') \<Longrightarrow> c = Some v \<Longrightarrow> good_link directory route f n a v"
  shows "store_ok directory route nodeof (f(p \<mapsto> c))"
  unfolding store_ok_def
proof (intro allI impI conjI)
  fix n assume n: "plain_id n"
  let ?g = "f(p \<mapsto> c)"
  { fix k v assume "?g (hist directory n k) = Some (Some v)"
    then show "\<exists>m. v = JObj m \<and> made route (nodeof n) n k m"
      using assms(3) [OF n] store_okD(1) [OF assms(1) n] by (auto split: if_splits) }
  { fix c' assume "?g (named directory n ''json'') = Some c'"
    then have "\<exists>m k. c' = Some (JObj m) \<and> f (hist directory n k) = Some (Some (JObj m))"
      using assms(4) [OF n] store_okD(2) [OF assms(1) n] by (auto split: if_splits)
    then show "\<exists>m k. c' = Some (JObj m) \<and> ?g (hist directory n k) = Some (Some (JObj m))"
      using keeps_hist [OF assms(2) n] by blast }
  { fix a v assume "?g (named directory n (safe_attempt a @ ''.attempt.json'')) = Some (Some v)"
    then have "good_link directory route f n a v"
      using assms(5) [OF n] store_okD(3) [OF assms(1) n] by (auto split: if_splits)
    then show "good_link directory route ?g n a v" using good_link_keeps assms(2) n by blast }
qed

lemma store_torn:
  assumes "store_ok directory route nodeof f" "plain_id n" "t \<notin> {''json'', ''attempt.json''}" "f (named directory n t) = None"
  shows "store_ok directory route nodeof (f(named directory n t \<mapsto> None))" "keeps directory f (f(named directory n t \<mapsto> None))"
proof -
  show k: "keeps directory f (f(named directory n t \<mapsto> None))" using assms(4) by (intro keeps_upd) simp
  show "store_ok directory route nodeof (f(named directory n t \<mapsto> None))"
    using assms(2,3) by (intro store_ok_upd [OF assms(1) k]) (auto simp: named_eq)
qed

lemma store_history:
  assumes "store_ok directory route nodeof f" "plain_id n" "f (hist directory n k) = None" "made route (nodeof n) n k m"
  shows "store_ok directory route nodeof (f(hist directory n k \<mapsto> Some (JObj m)))" "keeps directory f (f(hist directory n k \<mapsto> Some (JObj m)))"
proof -
  show kp: "keeps directory f (f(hist directory n k \<mapsto> Some (JObj m)))" using assms(3) by (intro keeps_upd) simp
  show "store_ok directory route nodeof (f(hist directory n k \<mapsto> Some (JObj m)))"
    using assms(2,4) int_str_inj int_str_tail by (intro store_ok_upd [OF assms(1) kp]) (auto simp: named_eq dest: sym)
qed

lemma store_link:
  assumes "store_ok directory route nodeof f" "plain_id n" "f (named directory n (safe_attempt a @ ''.attempt.json'')) = None"
    "good_link directory route f n a v"
  shows "store_ok directory route nodeof (f(named directory n (safe_attempt a @ ''.attempt.json'') \<mapsto> Some v))"
    "keeps directory f (f(named directory n (safe_attempt a @ ''.attempt.json'') \<mapsto> Some v))"
proof -
  let ?p = "named directory n (safe_attempt a @ ''.attempt.json'')"
  show kp: "keeps directory f (f(?p \<mapsto> Some v))" using assms(3) by (intro keeps_upd) simp
  have same: "good_link directory route f n b v" if "safe_attempt a = safe_attempt b" for b
    using assms(4) that by (simp add: good_link_def)
  show "store_ok directory route nodeof (f(?p \<mapsto> Some v))"
    using assms(2) same int_str_tail by (intro store_ok_upd [OF assms(1) kp]) (auto simp: named_eq dest: sym)
qed

lemma store_canonical:
  assumes "store_ok directory route nodeof f" "plain_id n" "f (hist directory n k) = Some (Some (JObj m))"
  shows "store_ok directory route nodeof (f(named directory n ''json'' \<mapsto> Some (JObj m)))"
    "keeps directory f (f(named directory n ''json'' \<mapsto> Some (JObj m)))"
proof -
  let ?p = "named directory n ''json''"
  show kp: "keeps directory f (f(?p \<mapsto> Some (JObj m)))" using assms(2) by (intro keeps_upd) (auto simp: named_eq)
  show "store_ok directory route nodeof (f(?p \<mapsto> Some (JObj m)))"
    using assms(2,3) int_str_tail by (intro store_ok_upd [OF assms(1) kp]) (auto simp: named_eq dest: sym)
qed

lemma store_alias:
  assumes "store_ok directory route nodeof f" "plain_id n"
  shows "store_ok directory route nodeof (f(named directory n ''attempt.json'' \<mapsto> c))"
    "keeps directory f (f(named directory n ''attempt.json'' \<mapsto> c))"
proof -
  let ?p = "named directory n ''attempt.json''"
  show kp: "keeps directory f (f(?p \<mapsto> c))" using assms(2) by (intro keeps_upd) (auto simp: named_eq)
  show "store_ok directory route nodeof (f(?p \<mapsto> c))"
    using assms(2) int_str_tail by (intro store_ok_upd [OF assms(1) kp]) (auto simp: named_eq dest: sym)
qed

section \<open>What the commands write\<close>

lemma put_effect: "put p c w = (r, w') \<Longrightarrow> cw_jobs w' = cw_jobs w \<and>
  (r = Inr () \<and> content w' = (content w)(p \<mapsto> c) \<or> r = Inl ''crash'' \<and> content w' = content w)"
  by (auto simp: put_def tick_def bindc_def update_conv' split: if_splits)

lemma write_once_effect:
  assumes "write_once p v w = (r, w')"
  shows "cw_jobs w' = cw_jobs w"
    "r = Inr () \<and> (content w p = None \<or> content w p = Some (Some v)) \<and> content w' = (content w)(p \<mapsto> Some v) \<or>
     isl r \<and> content w' = content w \<or>
     r = Inl ''crash'' \<and> content w p = None \<and> content w' = (content w)(p \<mapsto> None)"
proof -
  consider c where "content w p = Some c" | "content w p = None" by (cases "content w p") auto
  then have "cw_jobs w' = cw_jobs w \<and> (r = Inr () \<and> (content w p = None \<or> content w p = Some (Some v)) \<and> content w' = (content w)(p \<mapsto> Some v) \<or>
     isl r \<and> content w' = content w \<or> r = Inl ''crash'' \<and> content w p = None \<and> content w' = (content w)(p \<mapsto> None))"
  proof cases
    case 1
    with assms show ?thesis by (auto simp: write_once_def fun_upd_idem split: if_splits)
  next
    case 2
    obtain r1 w1 where one: "put p None w = (r1, w1)" by fastforce
    show ?thesis
    proof (cases r1)
      case (Inl e)
      with 2 assms one put_effect [OF one] show ?thesis by (auto simp: write_once_def bindc_def)
    next
      case (Inr u)
      then have "put p (Some v) w1 = (r, w')" using 2 assms one by (simp add: write_once_def bindc_def)
      with 2 Inr put_effect [OF one] put_effect [OF this] show ?thesis by auto
    qed
  qed
  then show "cw_jobs w' = cw_jobs w"
    "r = Inr () \<and> (content w p = None \<or> content w p = Some (Some v)) \<and> content w' = (content w)(p \<mapsto> Some v) \<or>
     isl r \<and> content w' = content w \<or>
     r = Inl ''crash'' \<and> content w p = None \<and> content w' = (content w)(p \<mapsto> None)" by blast+
qed

text \<open>A command that keeps the directory in order and, when it answers a marker, answers one of the history.\<close>

definition recorded :: "string \<Rightarrow> completion_world \<Rightarrow> string \<Rightarrow> obj \<Rightarrow> bool" where
  "recorded directory w n m \<longleftrightarrow> (\<exists>k. content w (hist directory n k) = Some (Some (JObj m)))"

lemma write_history_effect:
  assumes "write_history fuel directory n marker k w = (r, w')" "store_ok directory route nodeof (content w)" "plain_id n"
    and "\<And>k. 1 \<le> k \<Longrightarrow> made route (nodeof n) n k (marker k)" and "1 \<le> k"
  shows "store_ok directory route nodeof (content w') \<and> keeps directory (content w) (content w') \<and> cw_jobs w' = cw_jobs w \<and>
    (\<forall>m. r = Inr m \<longrightarrow> (\<exists>j. m = marker j \<and> content w' (hist directory n j) = Some (Some (JObj m))))"
  using assms(1,2,5)
proof (induction fuel arbitrary: k w)
  case (Suc fuel)
  obtain r1 w1 where one: "write_once (hist directory n k) (JObj (marker k)) w = (r1, w1)" by fastforce
  have tail: "int_str k @ ''.json'' \<notin> {''json'', ''attempt.json''}" using int_str_tail(2,3) by auto
  have kept: "store_ok directory route nodeof (content w1) \<and> keeps directory (content w) (content w1) \<and> cw_jobs w1 = cw_jobs w"
    using write_once_effect [OF one] Suc.prems(2) store_torn [OF Suc.prems(2) assms(3) tail]
      store_history [OF Suc.prems(2) assms(3) _ assms(4) [OF Suc.prems(3)]] by (auto simp: fun_upd_idem)
  show ?case
  proof (cases r1)
    case (Inr u)
    then have "r = Inr (marker k)" "w' = w1" using Suc.prems(1) one by (simp_all add: paths_named)
    moreover have "content w1 (hist directory n k) = Some (Some (JObj (marker k)))" using write_once_effect(2) [OF one] Inr by auto
    ultimately show ?thesis using kept by blast
  next
    case (Inl e)
    show ?thesis
    proof (cases "e = ''crash''")
      case True
      then have "r = Inl e" "w' = w1" using Suc.prems(1) one Inl by (simp_all add: paths_named)
      with kept show ?thesis by simp
    next
      case False
      then have rest: "write_history fuel directory n marker (k + 1) w1 = (r, w')"
        using Suc.prems(1) one Inl by (simp add: paths_named)
      have ok: "store_ok directory route nodeof (content w1)" using kept by blast
      have k: "1 \<le> k + 1" using Suc.prems(3) by simp
      have "keeps directory (content w) (content w')" using Suc.IH [OF rest ok k] kept keeps_trans by blast
      with Suc.IH [OF rest ok k] kept show ?thesis by simp
    qed
  qed
qed auto

definition orderly :: "string \<Rightarrow> obj \<Rightarrow> (string \<Rightarrow> obj) \<Rightarrow> completion_world \<Rightarrow> completion_world \<Rightarrow> bool" where
  "orderly directory route nodeof w w' \<longleftrightarrow> store_ok directory route nodeof (content w) \<longrightarrow>
     store_ok directory route nodeof (content w') \<and> keeps directory (content w) (content w')"

lemma orderly_refl [simp]: "orderly directory route nodeof w w"
  by (simp add: orderly_def)

lemma orderly_trans: "orderly directory route nodeof u v \<Longrightarrow> orderly directory route nodeof v w \<Longrightarrow> orderly directory route nodeof u w"
  unfolding orderly_def using keeps_trans by blast

lemma put_jobs: "put p c w = (r, w') \<Longrightarrow> cw_jobs w' = cw_jobs w"
  using put_effect by blast

lemma foldl_max_le: "(z::int) \<le> foldl max z xs"
  by (induction xs arbitrary: z) (auto intro: order_trans max.cobounded1)

lemma next_marker_positive: "1 \<le> next_marker_sequence directory n files"
  using foldl_max_le [of 0] by (simp add: next_marker_sequence_def)

lemma publish_new_effect:
  assumes "publish_new env route (nodeof n) n evidence (JStr sha) axes directory w = (r, w')"
    and "marker_attempt_axes (nodeof n) a md = Inr axes" "plain_id n" "store_ok directory route nodeof (content w)"
  shows "orderly directory route nodeof w w' \<and> cw_jobs w' = cw_jobs w \<and> (\<forall>m. r = Inr m \<longrightarrow> recorded directory w' n m)"
proof -
  let ?mk = "new_marker env route (nodeof n) n evidence (JStr sha) axes"
  have made: "1 \<le> k \<Longrightarrow> made route (nodeof n) n k (?mk k)" for k unfolding made_def using assms(2) by blast
  obtain r1 w1 where one: "write_history (Suc (length (cw_files w))) directory n ?mk (next_marker_sequence directory n (cw_files w)) w = (r1, w1)"
    by fastforce
  note eff = write_history_effect [OF one assms(4,3) made next_marker_positive]
  show ?thesis
  proof (cases r1)
    case (Inl e)
    with assms(1) one eff show ?thesis by (auto simp: publish_new_def bindc_def orderly_def simp del: write_history.simps)
  next
    case (Inr m)
    with eff obtain j where j: "content w1 (hist directory n j) = Some (Some (JObj m))" by blast
    have s1: "store_ok directory route nodeof (content w1)" using eff by blast
    obtain r2 w2 where two: "put (named directory n ''json'') (Some (JObj m)) w1 = (r2, w2)" by fastforce
    have w2: "store_ok directory route nodeof (content w2) \<and> keeps directory (content w1) (content w2) \<and> cw_jobs w2 = cw_jobs w1"
      using put_effect [OF two] store_canonical [OF s1 assms(3) j] s1 by auto
    moreover have "w' = w2" "r = (case r2 of Inl e \<Rightarrow> Inl e | Inr _ \<Rightarrow> Inr m)"
      using assms(1) one two Inr
      by (auto simp: publish_new_def bindc_def atomic_write_def paths_named simp del: write_history.simps split: sum.splits)
    moreover have "content w2 (hist directory n j) = Some (Some (JObj m))" using keeps_hist [of directory "content w1" "content w2" n j] w2 assms(3) j by blast
    moreover have "keeps directory (content w) (content w2)" using w2 eff keeps_trans by blast
    ultimately show ?thesis using w2 eff by (auto simp: orderly_def recorded_def split: sum.splits)
  qed
qed

lemma load_json_effect: "load_json p w = (r, w') \<Longrightarrow> w' = w \<and> (\<forall>v. r = Inr v \<longleftrightarrow> content w p = Some (Some v))"
  by (auto simp: load_json_def split: option.splits)

lemma load_obj_effect: "load_obj p w = (r, w') \<Longrightarrow> w' = w \<and> (\<forall>d. r = Inr d \<longleftrightarrow> content w p = Some (Some (JObj d)))"
  by (auto simp: load_obj_def load_json_def bindc_def is_obj_def split: option.splits json.splits if_splits)

lemma existing_marker_effect:
  assumes "existing_marker route node n directory existing w = (r, w')"
  shows "w' = w" "r = Inr m \<Longrightarrow> m = existing"
  using assms by (auto simp: existing_marker_def Let_def bindc_def load_json_def split: if_splits option.splits)

lemma bindc_lift: "bindc (lift x) f w = (case x of Inl e \<Rightarrow> (Inl e, w) | Inr a \<Rightarrow> f a w)"
  by (auto simp: lift_def bindc_def split: sum.splits)

definition effect :: "string \<Rightarrow> obj \<Rightarrow> (string \<Rightarrow> obj) \<Rightarrow> string \<Rightarrow> completion_world \<Rightarrow> (string + obj) \<times> completion_world \<Rightarrow> bool" where
  \<comment> \<open>what the directory gains and what is answered\<close>
  "effect directory route nodeof n w res \<longleftrightarrow> orderly directory route nodeof w (snd res) \<and> cw_jobs (snd res) = cw_jobs w \<and>
     (\<forall>m. fst res = Inr m \<longrightarrow> recorded directory (snd res) n m)"

lemma effect_error: "effect directory route nodeof n w (Inl e, w)"
  by (simp add: effect_def)

lemma write_completion_marker_effect:
  assumes "store_ok directory route nodeof (content w)" "plain_id n" "completion_dir env (the_str (oget route ''route_id'')) = directory"
  shows "effect directory route nodeof n w (write_completion_marker env route (nodeof n) n evidence a md w)"
proof (cases "read_evidence env evidence")
  case (Inl e)
  then show ?thesis by (simp add: write_completion_marker_def Let_def bindc_lift effect_error)
next
  case sha: (Inr sha)
  then obtain s where s: "sha = JStr s" by (auto simp: read_evidence_def split: option.splits)
  show ?thesis
  proof (cases "marker_attempt_axes (nodeof n) a md")
    case (Inl e)
    with sha show ?thesis by (simp add: write_completion_marker_def Let_def bindc_lift effect_error)
  next
    case axes: (Inr axes)
    have new: "effect directory route nodeof n w (publish_new env route (nodeof n) n evidence sha axes directory w)"
      using publish_new_effect [OF _ axes assms(2,1)] unfolding effect_def s by (metis surjective_pairing)
    let ?c = "named directory n ''json''"
    show ?thesis
    proof (cases "content w ?c")
      case None
      with sha axes assms(3) new show ?thesis by (simp add: write_completion_marker_def Let_def bindc_lift paths_named)
    next
      case (Some c)
      with store_okD(2) [OF assms(1,2)] obtain m k where m: "c = Some (JObj m)" "content w (hist directory n k) = Some (Some (JObj m))" by blast
      have load: "load_obj ?c w = (Inr m, w)" using Some m(1) by (simp add: load_obj_def load_json_def bindc_def is_obj_def)
      have old: "effect directory route nodeof n w (existing_marker route (nodeof n) n directory m w)"
      proof -
        obtain r w' where e: "existing_marker route (nodeof n) n directory m w = (r, w')" by fastforce
        have "w' = w" "\<And>x. r = Inr x \<Longrightarrow> x = m" using existing_marker_effect [OF e] by auto
        with m(2) e show ?thesis by (auto simp: effect_def recorded_def)
      qed
      have form: "write_completion_marker env route (nodeof n) n evidence a md w =
        (case marker_sha m of Inl e \<Rightarrow> (Inl e, w) | Inr old_sha \<Rightarrow>
          (if py_eq old_sha sha \<and> agrees m axes then existing_marker route (nodeof n) n directory m
           else publish_new env route (nodeof n) n evidence sha axes directory) w)"
        using Some sha axes assms(3) load
        by (simp add: write_completion_marker_def Let_def bindc_lift paths_named bindc_apply [of "load_obj ?c"])
      show ?thesis using old new unfolding form by (auto simp: effect_error split: sum.splits)
    qed
  qed
qed

definition sane :: "string \<Rightarrow> obj \<Rightarrow> completion_env \<Rightarrow> bool" where
  "sane directory route env \<longleftrightarrow> completion_dir env (the_str (oget route ''route_id'')) = directory \<and>
     (\<forall>n k. plain_id n \<longrightarrow> ce_norm env (hist directory n k) = hist directory n k)"

lemma new_link_shape:
  assumes "new_link route n b m directory = Inr l" "map_of m ''sequence'' = Some (JInt k)"
  shows "oget_or l ''completion_marker_history'' (JStr []) = JStr (hist directory n k)" "oget l ''attempt_id'' = JStr b"
  using assms by (auto simp: new_link_def bindr_Inr_iff dict_item_def paths_named split: option.splits)

lemma made_sequence: "made route node n k m \<Longrightarrow> map_of m ''sequence'' = Some (JInt k)"
proof -
  assume "made route node n k m"
  then obtain env evidence sha a md axes where ax: "marker_attempt_axes node a md = Inr axes"
    and m: "m = new_marker env route node n evidence (JStr sha) axes k" unfolding made_def by blast
  have "map_of axes ''sequence'' = None"
    using ax by (auto simp: marker_attempt_axes_def chain_axes_def attempt_axes_of_def resource_axes_def Let_def bindr_Inr_iff
      split: if_splits option.splits)
  then show ?thesis by (simp add: m new_marker_def map_add_def)
qed

lemma linked_marker_effect:
  assumes "store_ok directory route nodeof (content w)" "plain_id n" "sane directory route env"
    "linked_marker env route (nodeof n) n evidence a axes sha directory w = (r, w')"
  shows "w' = w \<and> (\<forall>m. r = Inr m \<longrightarrow> (\<exists>k l. content w (link_path directory n a) = Some (Some (JObj l)) \<and>
    oget_or l ''completion_marker_history'' (JStr []) = JStr (hist directory n k) \<and> content w (hist directory n k) = Some (Some (JObj m))))"
proof -
  obtain r1 w1 where one: "load_obj (link_path directory n a) w = (r1, w1)" by fastforce
  note l1 = load_obj_effect [OF one]
  show ?thesis
  proof (cases r1)
    case (Inl e)
    with assms(4) one l1 show ?thesis by (auto simp: linked_marker_def bindc_apply [of "load_obj (link_path directory n a)"])
  next
    case (Inr l)
    with l1 have l: "content w (named directory n (safe_attempt a @ ''.attempt.json'')) = Some (Some (JObj l))" by (auto simp: paths_named)
    from store_okD(3) [OF assms(1,2) l] obtain b m k where b: "new_link route n b m directory = Inr l"
      "map_of m ''sequence'' = Some (JInt k)" by (auto simp: good_link_def)
    have history: "oget_or l ''completion_marker_history'' (JStr []) = JStr (hist directory n k)" using new_link_shape b by blast
    have norm: "ce_norm env (hist directory n k) = hist directory n k" using assms(2,3) by (simp add: sane_def)
    obtain r2 w2 where two: "load_obj (hist directory n k) w = (r2, w2)" by fastforce
    note l2 = load_obj_effect [OF two]
    have "w' = w \<and> (\<forall>m. r = Inr m \<longrightarrow> content w (hist directory n k) = Some (Some (JObj m)))"
      using assms(4) one Inr l1 l2 history norm two
      by (auto simp: linked_marker_def bindc_apply [of "load_obj (link_path directory n a)"] bindc_apply [of "load_obj (hist directory n k)"]
        Let_def is_str_def bindc_lift split: if_splits sum.splits)
    with l history show ?thesis unfolding paths_named by blast
  qed
qed

lemma publish_link_effect:
  assumes "store_ok directory route nodeof (content w)" "plain_id n" "recorded directory w n m"
    "publish_link env route n a directory m w = (r, w')"
  shows "orderly directory route nodeof w w' \<and> cw_jobs w' = cw_jobs w \<and>
    (\<forall>x. r = Inr x \<longrightarrow> x = m \<and> (\<exists>l. new_link route n a m directory = Inr l \<and>
      content w' (link_path directory n a) = Some (Some (JObj l)) \<and>
      (content w (named directory n ''json'') = Some (Some (JObj m)) \<and> py_eq (JObj m) (JObj m)
        \<longrightarrow> content w' (named directory n ''attempt.json'') = Some (Some (JObj l)))))"
proof (cases "new_link route n a m directory")
  case (Inl e)
  with assms(4) show ?thesis by (auto simp: publish_link_def bindc_lift)
next
  case (Inr l)
  let ?p = "named directory n (safe_attempt a @ ''.attempt.json'')"
  from assms(3) obtain k where k: "content w (hist directory n k) = Some (Some (JObj m))" by (auto simp: recorded_def)
  with store_okD(1) [OF assms(1,2)] have seq: "map_of m ''sequence'' = Some (JInt k)" using made_sequence by blast
  have good: "good_link directory route (content w) n a (JObj l)" unfolding good_link_def using Inr seq k by blast
  have form: "(r, w') = bindc (write_once ?p (JObj l)) (\<lambda>_. bindc (load_json (named directory n ''json'')) (\<lambda>current.
      if py_eq current (JObj m) then bindc (atomic_write (named directory n ''attempt.json'') (JObj l)) (\<lambda>_. ret m) else ret m)) w"
    using assms(4) Inr unfolding publish_link_def paths_named bindc_lift by simp
  obtain r1 w1 where one: "write_once ?p (JObj l) w = (r1, w1)" by fastforce
  have tail: "safe_attempt a @ ''.attempt.json'' \<notin> {''json'', ''attempt.json''}" using int_str_tail(4,5) by auto
  have w1: "store_ok directory route nodeof (content w1)" "keeps directory (content w) (content w1)" "cw_jobs w1 = cw_jobs w"
    using write_once_effect [OF one] assms(1) store_torn [OF assms(1,2) tail] store_link [OF assms(1,2) _ good]
    by (auto simp: fun_upd_idem)
  show ?thesis
  proof (cases r1)
    case (Inl e)
    then have "w' = w1" "isl r" using form one by (auto simp: bindc_def)
    with w1 show ?thesis by (auto simp: orderly_def)
  next
    case done1: (Inr u)
    have at: "content w1 ?p = Some (Some (JObj l))" using write_once_effect(2) [OF one] done1 by auto
    have ne: "named directory n ''json'' \<noteq> ?p" using int_str_tail(4) [of a] by (simp add: named_eq assms(2))
    have canon: "content w1 (named directory n ''json'') = content w (named directory n ''json'')"
      using write_once_effect(2) [OF one] ne by auto
    show ?thesis
    proof (cases "\<exists>cur. content w1 (named directory n ''json'') = Some (Some cur) \<and> py_eq cur (JObj m)")
      case True
      obtain r2 w2 where two: "put (named directory n ''attempt.json'') (Some (JObj l)) w1 = (r2, w2)" by fastforce
      note eff = put_effect [OF two]
      have w2: "store_ok directory route nodeof (content w2)" "keeps directory (content w1) (content w2)" "cw_jobs w2 = cw_jobs w1"
        using eff w1(1) store_alias [OF w1(1) assms(2)] by auto
      have res: "w' = w2" "r = (case r2 of Inl e \<Rightarrow> Inl e | Inr _ \<Rightarrow> Inr m)"
        using form one two done1 True
        by (auto simp: bindc_def load_json_def atomic_write_def split: sum.splits)
      have link: "content w2 ?p = Some (Some (JObj l))" using keeps_link [OF w2(2) assms(2) at] .
      have "r = Inr m \<Longrightarrow> content w2 (named directory n ''attempt.json'') = Some (Some (JObj l))"
        using eff res by (auto split: sum.splits)
      with w1 w2 res link Inr keeps_trans [OF w1(2) w2(2)] show ?thesis by (auto simp: orderly_def paths_named split: sum.splits)
    next
      case False
      then have "w' = w1" "r = Inr m \<or> isl r" and nc: "content w1 (named directory n ''json'') = Some (Some (JObj m)) \<Longrightarrow> \<not> py_eq (JObj m) (JObj m)"
        using form one done1
        by (auto simp: bindc_def load_json_def split: option.splits)
      with w1 at Inr canon show ?thesis by (auto simp: orderly_def paths_named)
    qed
  qed
qed

definition bound_to :: "string \<Rightarrow> completion_world \<Rightarrow> string \<times> string \<Rightarrow> obj \<Rightarrow> bool" where
  "bound_to directory w na m \<longleftrightarrow> (\<exists>l k. content w (link_path directory (fst na) (snd na)) = Some (Some (JObj l)) \<and>
     oget_or l ''completion_marker_history'' (JStr []) = JStr (hist directory (fst na) k) \<and>
     content w (hist directory (fst na) k) = Some (Some (JObj m)))"

lemma bound_keeps: "bound_to directory w (n, a) m \<Longrightarrow> keeps directory (content w) (content w') \<Longrightarrow> plain_id n \<Longrightarrow> bound_to directory w' (n, a) m"
  unfolding bound_to_def fst_conv snd_conv paths_named using keeps_hist keeps_link by blast

lemma recorded_keeps: "recorded directory w n m \<Longrightarrow> keeps directory (content w) (content w') \<Longrightarrow> plain_id n \<Longrightarrow> recorded directory w' n m"
  unfolding recorded_def using keeps_hist by blast

lemma hist_inj: "plain_id n \<Longrightarrow> hist directory n j = hist directory n k \<Longrightarrow> j = k"
  using int_str_inj [of j k] by (simp add: named_eq)

definition publishes :: "string \<Rightarrow> obj \<Rightarrow> (string \<Rightarrow> obj) \<Rightarrow> string \<Rightarrow> string option \<Rightarrow> completion_world \<Rightarrow> (string + obj) \<Rightarrow> completion_world \<Rightarrow> bool" where
  "publishes directory route nodeof n a w r w' \<longleftrightarrow> orderly directory route nodeof w w' \<and>
     (\<forall>m. r = Inr m \<longrightarrow> recorded directory w' n m \<and> (given a \<longrightarrow> bound_to directory w' (n, the a) m \<and>
        (\<forall>u. bound_to directory w (n, the a) u \<longrightarrow> u = m)))"

lemma publishes_error: "publishes directory route nodeof n a w (Inl e) w"
  by (simp add: publishes_def)

lemma publish_completion_effect:
  assumes ok: "store_ok directory route nodeof (content w)" and n: "plain_id n" and env: "sane directory route env"
    and run: "publish_completion_locked env route (nodeof n) n evidence a md need w = (r, w')"
  shows "publishes directory route nodeof n a w r w' \<and> cw_jobs w' = cw_jobs w"
proof (cases "\<exists>axes sha. marker_attempt_axes (nodeof n) a md = Inr axes \<and> read_evidence env evidence = Inr sha")
  case False
  then consider e where "marker_attempt_axes (nodeof n) a md = Inl e"
    | axes e where "marker_attempt_axes (nodeof n) a md = Inr axes" "read_evidence env evidence = Inl e"
    by (cases "marker_attempt_axes (nodeof n) a md"; cases "read_evidence env evidence") simp_all
  then obtain e where "publish_completion_locked env route (nodeof n) n evidence a md need w = (Inl e, w)"
    by cases (simp_all add: publish_completion_locked_def bindc_lift Let_def)
  with run have "r = Inl e" "w' = w" by simp_all
  then show ?thesis by (simp add: publishes_error)
next
  case True
  then obtain axes sha where ax: "marker_attempt_axes (nodeof n) a md = Inr axes" and sha: "read_evidence env evidence = Inr sha" by blast
  have dir: "completion_dir env (the_str (oget route ''route_id'')) = directory" using env by (simp add: sane_def)
  let ?first = "\<lambda>w. if given a \<and> content w (link_path directory n (the a)) \<noteq> None
          then linked_marker env route (nodeof n) n evidence (the a) axes sha directory w
          else if need then raise ''completed attempt row lacks immutable completion link'' w
          else write_completion_marker env route (nodeof n) n evidence a md w"
  have form: "(r, w') = bindc ?first (\<lambda>m. if \<not> given a then ret m else publish_link env route n (the a) directory m) w"
    using run ax sha dir unfolding publish_completion_locked_def by (simp add: bindc_lift Let_def)
  obtain r1 w1 where one: "?first w = (r1, w1)" by fastforce
  have first: "orderly directory route nodeof w w1 \<and> cw_jobs w1 = cw_jobs w \<and> (\<forall>m. r1 = Inr m \<longrightarrow> recorded directory w1 n m \<and>
      (given a \<longrightarrow> (\<forall>u. bound_to directory w (n, the a) u \<longrightarrow> u = m)))"
  proof (cases "given a \<and> content w (link_path directory n (the a)) \<noteq> None")
    case True
    then have "linked_marker env route (nodeof n) n evidence (the a) axes sha directory w = (r1, w1)" using one by simp
    note eff = linked_marker_effect [OF ok n env this]
    show ?thesis
    proof (intro conjI allI impI)
      show "orderly directory route nodeof w w1" "cw_jobs w1 = cw_jobs w" using eff by simp_all
      fix m assume "r1 = Inr m"
      with eff obtain k l where m: "w1 = w" "content w (link_path directory n (the a)) = Some (Some (JObj l))"
        "oget_or l ''completion_marker_history'' (JStr []) = JStr (hist directory n k)" "content w (hist directory n k) = Some (Some (JObj m))"
        by blast
      then show "recorded directory w1 n m" by (auto simp: recorded_def)
      fix u assume "bound_to directory w (n, the a) u"
      with m show "u = m" by (auto simp: bound_to_def)
    qed
  next
    case False
    have nb: "given a \<Longrightarrow> \<not> bound_to directory w (n, the a) u" for u using False by (auto simp: bound_to_def)
    show ?thesis
    proof (cases need)
      case True
      with False one nb show ?thesis by auto
    next
      case no: False
      then have "(r1, w1) = write_completion_marker env route (nodeof n) n evidence a md w" using one False by (simp split: if_splits)
      with write_completion_marker_effect [OF ok n dir, of evidence a md] nb show ?thesis by (metis effect_def fst_conv snd_conv)
    qed
  qed
  show ?thesis
  proof (cases r1)
    case (Inl e)
    then have "r = Inl e" "w' = w1" using form one by (simp_all add: bindc_apply)
    with first show ?thesis by (simp add: publishes_def)
  next
    case (Inr m)
    have ok1: "store_ok directory route nodeof (content w1)" and rec: "recorded directory w1 n m"
      using first ok Inr by (auto simp: orderly_def)
    show ?thesis
    proof (cases "given a")
      case False
      then have "r = Inr m" "w' = w1" using form one Inr by (simp_all add: bindc_apply)
      with first False Inr show ?thesis by (simp add: publishes_def)
    next
      case True
      then have pl: "publish_link env route n (the a) directory m w1 = (r, w')" using form one Inr by (simp add: bindc_apply)
      note eff = publish_link_effect [OF ok1 n rec pl]
      have kp: "keeps directory (content w1) (content w')" using eff ok1 by (simp add: orderly_def)
      have "bound_to directory w' (n, the a) m" if x: "r = Inr x" for x
      proof -
        obtain l where l: "new_link route n (the a) m directory = Inr l" "content w' (link_path directory n (the a)) = Some (Some (JObj l))"
          using eff x by blast
        obtain k where k: "content w1 (hist directory n k) = Some (Some (JObj m))" using rec by (auto simp: recorded_def)
        have "map_of m ''sequence'' = Some (JInt k)" using store_okD(1) [OF ok1 n k] made_sequence by blast
        from new_link_shape(1) [OF l(1) this] l(2) keeps_hist [OF kp n k] show ?thesis unfolding bound_to_def by auto
      qed
      moreover have "orderly directory route nodeof w w'" using eff first orderly_trans by blast
      moreover have "recorded directory w' n m" by (rule recorded_keeps [OF rec kp n])
      moreover have "x = m" if "r = Inr x" for x using eff that by blast
      moreover have "u = m" if "bound_to directory w (n, the a) u" for u using first Inr True that by blast
      ultimately show ?thesis using eff first unfolding publishes_def by metis
    qed
  qed
qed

definition completes :: "string \<Rightarrow> obj \<Rightarrow> (string \<Rightarrow> obj) \<Rightarrow> string \<Rightarrow> string option \<Rightarrow> completion_world \<Rightarrow> (string + obj \<times> 'b) \<Rightarrow> completion_world \<Rightarrow> bool" where
  "completes directory route nodeof n a w r w' \<longleftrightarrow> orderly directory route nodeof w w' \<and>
     (\<forall>m st. r = Inr (m, st) \<longrightarrow> recorded directory w' n m \<and> (given a \<longrightarrow> bound_to directory w' (n, the a) m \<and>
        (\<forall>u. bound_to directory w (n, the a) u \<longrightarrow> u = m)))"

definition quiet :: "(obj \<Rightarrow> (obj \<times> 'b) completion_cmd) \<Rightarrow> bool" where
  \<comment> \<open>what follows a publication touches no file of the directory and answers its marker\<close>
  "quiet f \<longleftrightarrow> (\<forall>m w. content (snd (f m w)) = content w \<and> (\<forall>x st. fst (f m w) = Inr (x, st) \<longrightarrow> x = m))"

lemma completes_error: "content w' = content w \<Longrightarrow> completes directory route nodeof n a w (Inl e) w'"
  by (simp add: completes_def orderly_def)

lemma content_eqs:
  assumes "content v = content w"
  shows "recorded directory v = recorded directory w" "bound_to directory v = bound_to directory w"
    "orderly directory route nodeof u v = orderly directory route nodeof u w" "orderly directory route nodeof v u = orderly directory route nodeof w u"
  using assms by (simp_all add: recorded_def [abs_def] bound_to_def [abs_def] orderly_def)

lemma publish_then:
  assumes "store_ok directory route nodeof (content w)" "plain_id n" "sane directory route env" "quiet f" "content w0 = content w"
    and run: "bindc (publish_completion_locked env route (nodeof n) n evidence a md need) f w0 = (r, w')"
  shows "completes directory route nodeof n a w r w'"
proof -
  obtain r1 w1 where one: "publish_completion_locked env route (nodeof n) n evidence a md need w0 = (r1, w1)" by fastforce
  have eff: "publishes directory route nodeof n a w r1 w1"
    using publish_completion_effect [OF assms(1) [folded assms(5)] assms(2,3) one] assms(5)
    by (simp add: publishes_def content_eqs [OF assms(5)])
  show ?thesis
  proof (cases r1)
    case (Inl e)
    then have "r = Inl e" "w' = w1" using run one by (simp_all add: bindc_apply)
    with eff show ?thesis by (simp add: publishes_def completes_def)
  next
    case (Inr m)
    then have f: "f m w1 = (r, w')" using run one by (simp add: bindc_apply)
    then have "content w' = content w1" "\<And>x st. r = Inr (x, st) \<Longrightarrow> x = m"
      using assms(4) unfolding quiet_def by (metis snd_conv, metis fst_conv)
    with eff Inr content_eqs [of w' w1] show ?thesis unfolding publishes_def completes_def by metis
  qed
qed

lemma replace_registry_eq: "replace_registry ls w = (if cw_power w = 0 then (Inl ''crash'', w)
    else (Inr (), w\<lparr>cw_power := cw_power w - 1, cw_jobs := Some ls\<rparr>))"
  by (simp add: replace_registry_def tick_def bindc_def)

lemma quiet_close: "quiet (\<lambda>m. if c then ret (m, st) else bindc (lift (dict_item m k)) (\<lambda>v. bindc (replace_registry (g v)) (\<lambda>_. ret (m, st'))))"
  by (auto simp: quiet_def lift_def bindc_def replace_registry_eq split: sum.splits if_splits)

lemma complete_node_effect:
  assumes ok: "store_ok directory route nodeof (content w)" and n: "plain_id n" and env: "sane directory route env"
    and run: "complete_node env route (nodeof n) n evidence jobs a explicit w = (r, w')"
  shows "completes directory route nodeof n a w r w'"
proof -
  note then_quiet = publish_then [OF ok n env]
  have raise: "completes directory route nodeof n a w r w'"
    if g: "given a" and e: "publish_then_raise env route (nodeof n) n evidence (the a) explicit reason w0 = (r, w')" and w0: "content w0 = content w"
    for reason w0
  proof (cases "explicit = None")
    case True
    with e w0 show ?thesis by (auto simp: publish_then_raise_def intro: completes_error)
  next
    case False
    have a: "Some (the a) = a" using g by (cases a) (simp_all add: given_def)
    have "quiet (\<lambda>_. raise reason)" by (simp add: quiet_def)
    from then_quiet [OF this w0] e False a show ?thesis by (simp add: publish_then_raise_def)
  qed
  show ?thesis
  proof (cases "jobs")
    case False
    have q: "quiet (\<lambda>m. ret (m, st))" for st by (simp add: quiet_def)
    show ?thesis
      using run False then_quiet [OF q refl] by (auto simp: complete_node_def completes_error split: if_splits)
  next
    case True
    show ?thesis
    proof (cases "given a")
      case False
      with run True show ?thesis by (auto simp: complete_node_def completes_error)
    next
      case g: True
      then have a: "Some (the a) = a" by (cases a) (simp_all add: given_def)
      let ?lines = "case cw_jobs w of None \<Rightarrow> [] | Some ls \<Rightarrow> ls" let ?w = "w\<lparr>cw_jobs := Some ?lines\<rparr>"
      show ?thesis
      proof (cases "ce_unwritable env")
        case (Some reason)
        with run True g raise [OF g _ refl] show ?thesis by (simp add: complete_node_def)
      next
        case None
        have w0: "content ?w = content w" by simp
        show ?thesis
        proof (cases "find_row (attempt_row (the a)) 0 ?lines")
          case None
          with run True g \<open>ce_unwritable env = None\<close> raise [OF g _ w0] show ?thesis by (simp add: complete_node_def Let_def)
        next
          case (Some ifs)
          obtain i fs where ifs: "ifs = (i, fs)" by fastforce
          have step: "bindc (lift (row_check route n explicit fs)) (\<lambda>_. complete_row env route (nodeof n) n evidence (the a) ?lines i fs) ?w = (r, w')"
            using run True g None Some ifs by (simp add: complete_node_def Let_def)
          show ?thesis
          proof (cases "row_check route n explicit fs")
            case (Inl e)
            with step show ?thesis by (auto simp: bindc_lift intro: completes_error)
          next
            case (Inr u)
            with step have "complete_row env route (nodeof n) n evidence (the a) ?lines i fs ?w = (r, w')" by (simp add: bindc_lift)
            then show ?thesis unfolding complete_row_def Let_def a by (rule then_quiet [OF quiet_close w0])
          qed
        qed
      qed
    qed
  qed
qed

lemma subsession_stage_effect:
  assumes ok: "store_ok directory route nodeof (content w)" and n: "plain_id n" and env: "sane directory route env"
    and run: "complete_subsession_stage env os route (nodeof n) n evidence manifest w = (r, w')"
  shows "orderly directory route nodeof w w'"
proof -
  have dir: "completion_dir env (the_str (oget route ''route_id'')) = directory" using env by (simp add: sane_def)
  show ?thesis
  proof (cases "w' = w")
    case False
    then have "\<exists>a md r'. write_completion_marker env route (nodeof n) n evidence a md w = (r', w')"
      using run by (auto simp: complete_subsession_stage_def lift_def Let_def bindc_apply split: sum.splits if_splits option.splits prod.splits)
    then show ?thesis using write_completion_marker_effect [OF ok n dir] by (metis effect_def snd_conv)
  qed simp
qed

section \<open>Any run of commands\<close>

datatype completion_op =
    Complete completion_env string string bool "string option" "obj option" nat    \<comment> \<open>the last: file operations before the process dies\<close>
  | Aggregate completion_env os string string string nat
  | Registry_changes "string list option"                                          \<comment> \<open>another program rewrites \<open>jobs.log\<close>\<close>

definition completion_exec :: "obj \<Rightarrow> (string \<Rightarrow> obj) \<Rightarrow> completion_op \<Rightarrow> obj completion_cmd" where
  "completion_exec route nodeof op w = (case op of
      Complete env n evidence jobs a explicit life \<Rightarrow>
        bindc (complete_node env route (nodeof n) n evidence jobs a explicit) (\<lambda>(m, _). ret m) (w\<lparr>cw_power := life\<rparr>)
    | Aggregate env os n evidence manifest life \<Rightarrow>
        bindc (complete_subsession_stage env os route (nodeof n) n evidence manifest) (\<lambda>(m, _). ret m) (w\<lparr>cw_power := life\<rparr>)
    | Registry_changes jobs \<Rightarrow> (Inl ''registry'', w\<lparr>cw_jobs := jobs\<rparr>))"

definition completion_op_ok :: "string \<Rightarrow> obj \<Rightarrow> completion_op \<Rightarrow> bool" where
  "completion_op_ok directory route op \<longleftrightarrow> (case op of
      Complete env n _ _ _ _ _ \<Rightarrow> plain_id n \<and> sane directory route env
    | Aggregate env _ n _ _ _ \<Rightarrow> plain_id n \<and> sane directory route env
    | Registry_changes _ \<Rightarrow> True)"

definition answers_marker :: "completion_op \<Rightarrow> string + obj \<Rightarrow> string \<times> string \<Rightarrow> obj \<Rightarrow> bool" where
  \<comment> \<open>the completion of an attempt answered this marker\<close>
  "answers_marker op r na m \<longleftrightarrow> (case op of
      Complete _ n _ _ a _ _ \<Rightarrow> a = Some (snd na) \<and> n = fst na \<and> given a \<and> r = Inr m
    | _ \<Rightarrow> False)"

lemma store_ok_empty: "store_ok directory route nodeof (\<lambda>_. None)"
  by (simp add: store_ok_def)

lemma exec_complete:
  assumes "store_ok directory route nodeof (content w)" "completion_op_ok directory route (Complete env n evidence jobs a explicit life)"
  obtains r :: "string + obj \<times> string option" and w' where "completion_exec route nodeof (Complete env n evidence jobs a explicit life) w = (map_sum id fst r, w')"
    "completes directory route nodeof n a w r w'"
proof -
  obtain r w' where run: "complete_node env route (nodeof n) n evidence jobs a explicit (w\<lparr>cw_power := life\<rparr>) = (r, w')" by fastforce
  have ok: "store_ok directory route nodeof (content (w\<lparr>cw_power := life\<rparr>))" using assms(1) by simp
  have "completes directory route nodeof n a (w\<lparr>cw_power := life\<rparr>) r w'"
    using complete_node_effect [OF ok _ _ run] assms(2) by (simp add: completion_op_ok_def)
  then have "completes directory route nodeof n a w r w'" by (simp add: completes_def orderly_def bound_to_def)
  moreover have "completion_exec route nodeof (Complete env n evidence jobs a explicit life) w = (map_sum id fst r, w')"
    using run by (cases r) (auto simp: completion_exec_def bindc_apply)
  ultimately show thesis using that by blast
qed

lemma exec_orderly:
  assumes "store_ok directory route nodeof (content w)" "completion_op_ok directory route op"
  shows "orderly directory route nodeof w (snd (completion_exec route nodeof op w))"
proof (cases op)
  case (Complete env n evidence jobs a explicit life)
  from exec_complete [OF assms(1) assms(2) [unfolded Complete]] show ?thesis unfolding Complete
    by (metis completes_def snd_conv)
next
  case (Aggregate env os n evidence manifest life)
  let ?w = "w\<lparr>cw_power := life\<rparr>"
  obtain r w' where run: "complete_subsession_stage env os route (nodeof n) n evidence manifest ?w = (r, w')" by fastforce
  have n: "plain_id n" "sane directory route env" and ok: "store_ok directory route nodeof (content ?w)"
    using assms Aggregate by (simp_all add: completion_op_ok_def)
  have "orderly directory route nodeof ?w w'" by (rule subsession_stage_effect [OF ok n run])
  then have "orderly directory route nodeof w w'" by (simp add: orderly_def)
  moreover have "snd (completion_exec route nodeof op w) = w'"
    using run Aggregate by (auto simp: completion_exec_def bindc_apply split: sum.splits)
  ultimately show ?thesis by simp
next
  case (Registry_changes jobs)
  then show ?thesis by (simp add: completion_exec_def orderly_def)
qed

lemma op_plain: "completion_op_ok directory route op \<Longrightarrow> answers_marker op r (n, a) m \<Longrightarrow> plain_id n"
  by (cases op) (auto simp: completion_op_ok_def answers_marker_def)

interpretation completions: agreeing_machine "completion_exec route nodeof" "completion_op_ok directory route"
  "\<lambda>w. store_ok directory route nodeof (content w)" "\<lambda>w na m. plain_id (fst na) \<and> bound_to directory w na m" answers_marker
  for directory route nodeof
proof
  fix op :: completion_op and w :: completion_world and na :: "string \<times> string" and m u :: obj
  assume ok: "completion_op_ok directory route op" and inv: "store_ok directory route nodeof (content w)"
  note o = exec_orderly [OF inv ok]
  show "store_ok directory route nodeof (content (snd (completion_exec route nodeof op w)))" using o inv by (simp add: orderly_def)
  { assume "plain_id (fst na) \<and> bound_to directory w na m"
    then show "plain_id (fst na) \<and> bound_to directory (snd (completion_exec route nodeof op w)) na m"
      using bound_keeps o inv unfolding orderly_def by (cases na) auto }
  { assume ans: "answers_marker op (fst (completion_exec route nodeof op w)) na m"
    obtain n a where na: "na = (n, a)" by fastforce
    from ans obtain env evidence jobs explicit life where op: "op = Complete env n evidence jobs (Some a) explicit life"
      "given (Some a)" by (cases op) (auto simp: answers_marker_def na)
    from exec_complete [OF inv ok [unfolded op(1)]] obtain r :: "string + obj \<times> string option" and w' where
      run: "completion_exec route nodeof op w = (map_sum id fst r, w')" and c: "completes directory route nodeof n (Some a) w r w'"
      unfolding op(1) .
    from ans run obtain st where r: "r = Inr (m, st)" by (cases r) (auto simp: answers_marker_def op(1))
    have "bound_to directory w' (n, a) m" "\<forall>u. bound_to directory w (n, a) u \<longrightarrow> u = m"
      using c r op(2) unfolding completes_def by auto
    then show "plain_id (fst na) \<and> bound_to directory (snd (completion_exec route nodeof op w)) na m"
      and "plain_id (fst na) \<and> bound_to directory w na u \<Longrightarrow> m = u"
      using run na op_plain [OF ok ans [unfolded na]] by auto }
next
  show "\<And>op r k v u. answers_marker op r k v \<Longrightarrow> answers_marker op r k u \<Longrightarrow> v = u"
    by (auto simp: answers_marker_def split: completion_op.splits)
qed

text \<open>C28: a completion is immutable. Whatever commands run on the directory of a route, crashes at any file operation
  included, all successful completions of one attempt of one node answer the same marker.\<close>
theorem completion_is_immutable:
  assumes "list_all (completion_op_ok directory route) ops" and "cw_files w = []"
    and "(op, r) \<in> set (run_replies (completion_exec route nodeof) ops w)" "answers_marker op r (n, a) m"
    and "(op', r') \<in> set (run_replies (completion_exec route nodeof) ops w)" "answers_marker op' r' (n, a) m'"
  shows "m = m'"
  using completions.answers_agree [OF assms(1) _ assms(3,5,4,6)] store_ok_empty assms(2) by simp

section \<open>What a completion answers\<close>

lemma py_eq_JStr [simp]: "py_eq v (JStr s) \<longleftrightarrow> v = JStr s"
  by (cases v) auto

lemma agrees_member: "agrees d e \<Longrightarrow> map_of e k = Some v \<Longrightarrow> py_eq (oget d k) v"
  by (auto simp: agrees_def list_all_iff dest: map_of_SomeD)

lemma axes_attempt:
  assumes "marker_attempt_axes node (Some a) md = Inr axes" "a \<noteq> []"
  shows "map_of axes ''attempt_id'' = Some (JStr a)"
  using assms by (auto simp: marker_attempt_axes_def chain_axes_def attempt_axes_of_def Let_def bindr_Inr_iff given_def opt_json_def
      split: if_splits option.splits)

lemma new_marker_sha [simp]: "marker_attempt_axes node a md = Inr axes \<Longrightarrow> marker_sha (new_marker env route node n evidence sha axes k) = Inr sha"
proof -
  assume "marker_attempt_axes node a md = Inr axes"
  then have "map_of axes ''evidence'' = None"
    by (auto simp: marker_attempt_axes_def chain_axes_def attempt_axes_of_def resource_axes_def Let_def bindr_Inr_iff split: if_splits option.splits)
  then show ?thesis by (simp add: marker_sha_def new_marker_def oget_or_def map_add_def)
qed

lemma new_marker_attempt:
  assumes "marker_attempt_axes node (Some a) md = Inr axes" "a \<noteq> []"
  shows "oget (new_marker env route node n evidence sha axes k) ''attempt_id'' = JStr a"
  using axes_attempt [OF assms] by (simp add: new_marker_def oget_def map_add_def)

definition carries :: "obj \<Rightarrow> string \<Rightarrow> json \<Rightarrow> bool" where
  "carries m a sha \<longleftrightarrow> oget m ''attempt_id'' = JStr a \<and> marker_sha m = Inr sha"

lemma write_history_answers: "write_history f d n marker k u = (Inr x, u') \<Longrightarrow> \<exists>j. x = marker j"
  by (induction f arbitrary: k u) (auto split: prod.splits sum.splits if_splits)

lemma write_completion_marker_carries:
  assumes "write_completion_marker env route node n evidence (Some a) md w = (Inr m, w')" "a \<noteq> []"
    "read_evidence env evidence = Inr sha" "marker_attempt_axes node (Some a) md = Inr axes"
  shows "carries m a sha"
proof -
  obtain s where s: "sha = JStr s" using assms(3) by (auto simp: read_evidence_def split: option.splits)
  have new: "carries x a sha" if p: "publish_new env route node n evidence sha axes dir v = (Inr x, v')" for x dir v v'
  proof -
    from p obtain j where "x = new_marker env route node n evidence sha axes j"
      by (auto simp: publish_new_def bindc_def simp del: write_history.simps dest!: write_history_answers split: prod.splits sum.splits)
    then show ?thesis using new_marker_attempt [OF assms(4,2)] new_marker_sha [OF assms(4)] by (simp add: carries_def)
  qed
  have old: "carries x a sha" if "agrees x axes" "marker_sha x = Inr t" "py_eq t sha" for x t
    using agrees_member [OF that(1) axes_attempt [OF assms(4,2)]] that(2,3) s by (simp add: carries_def)
  show ?thesis
    using assms(1) unfolding write_completion_marker_def Let_def bindc_lift assms(3,4) sum.case
    by (auto simp: bindc_apply lift_def dest: new old existing_marker_effect(2) split: if_splits prod.splits sum.splits)
qed

lemma linked_marker_carries:
  assumes "linked_marker env route node n evidence a axes (JStr s) directory w = (Inr m, w')"
  shows "carries m a (JStr s)" "py_eq (oget (the_obj (oget_or m ''evidence'' (JObj []))) ''path'') (JStr evidence)"
proof -
  have mem: "map_of (filter (\<lambda>(k, _). k \<noteq> ''evidence_sha256'') (link_identity route n a axes (JStr s))) ''attempt_id'' = Some (JStr a)"
    by (simp add: link_identity_def)
  have "agrees m (filter (\<lambda>(k, _). k \<noteq> ''evidence_sha256'') (link_identity route n a axes (JStr s))) \<and> marker_sha m = Inr (JStr s) \<and>
      py_eq (oget (the_obj (oget_or m ''evidence'' (JObj []))) ''path'') (JStr evidence)"
    using assms by (auto simp: linked_marker_def bindc_apply lift_def Let_def split: if_splits prod.splits sum.splits)
  then show "carries m a (JStr s)" "py_eq (oget (the_obj (oget_or m ''evidence'' (JObj []))) ''path'') (JStr evidence)"
    using agrees_member [OF _ mem] by (auto simp: carries_def)
qed

lemma publish_answers:
  assumes ok: "store_ok directory route nodeof (content w)" and n: "plain_id n" and env: "sane directory route env" and a: "a \<noteq> []"
    and run: "publish_completion_locked env route (nodeof n) n evidence (Some a) md need w = (Inr m, w')"
  obtains axes s k l where "marker_attempt_axes (nodeof n) (Some a) md = Inr axes" "read_evidence env evidence = Inr (JStr s)" "carries m a (JStr s)"
    "made route (nodeof n) n k m" "content w' (hist directory n k) = Some (Some (JObj m))"
    "new_link route n a m directory = Inr l" "content w' (link_path directory n a) = Some (Some (JObj l))"
proof -
  have dir: "completion_dir env (the_str (oget route ''route_id'')) = directory" using env by (simp add: sane_def)
  obtain axes sha where ax: "marker_attempt_axes (nodeof n) (Some a) md = Inr axes" and sha: "read_evidence env evidence = Inr sha"
    using run by (auto simp: publish_completion_locked_def lift_def bindc_apply Let_def split: sum.splits prod.splits)
  obtain s where s: "sha = JStr s" using sha by (auto simp: read_evidence_def split: option.splits)
  let ?first = "\<lambda>w. if content w (link_path directory n a) \<noteq> None
          then linked_marker env route (nodeof n) n evidence a axes sha directory w
          else if need then raise ''completed attempt row lacks immutable completion link'' w
          else write_completion_marker env route (nodeof n) n evidence (Some a) md w"
  have form: "(Inr m, w') = bindc ?first (\<lambda>m. publish_link env route n a directory m) w"
    using run ax sha dir a unfolding publish_completion_locked_def by (simp add: bindc_lift Let_def given_def)
  then obtain m1 w1 where one: "?first w = (Inr m1, w1)" and two: "publish_link env route n a directory m1 w1 = (Inr m, w')"
    by (auto simp: bindc_apply split: prod.splits sum.splits)
  have first: "store_ok directory route nodeof (content w1) \<and> recorded directory w1 n m1 \<and> carries m1 a sha"
  proof (cases "content w (link_path directory n a) \<noteq> None")
    case True
    then have run1: "linked_marker env route (nodeof n) n evidence a axes sha directory w = (Inr m1, w1)" using one by simp
    from linked_marker_effect [OF ok n env run1] ok linked_marker_carries(1) [OF run1 [unfolded s]] s show ?thesis
      by (auto simp: recorded_def)
  next
    case False
    with one have run1: "write_completion_marker env route (nodeof n) n evidence (Some a) md w = (Inr m1, w1)"
      by (auto split: if_splits)
    from write_completion_marker_effect [OF ok n dir, of evidence "Some a" md] run1 ok
      write_completion_marker_carries [OF run1 a sha ax] show ?thesis by (auto simp: effect_def orderly_def)
  qed
  then have ok1: "store_ok directory route nodeof (content w1)" and rec: "recorded directory w1 n m1" and car: "carries m1 a sha" by auto
  note eff = publish_link_effect [OF ok1 n rec two]
  then have m: "m = m1" and kp: "keeps directory (content w1) (content w')" using ok1 by (auto simp: orderly_def)
  obtain l where l: "new_link route n a m1 directory = Inr l" "content w' (link_path directory n a) = Some (Some (JObj l))" using eff by blast
  obtain k where k: "content w1 (hist directory n k) = Some (Some (JObj m1))" using rec by (auto simp: recorded_def)
  have "made route (nodeof n) n k m1" using store_okD(1) [OF ok1 n k] by blast
  then show thesis using that [OF ax sha [unfolded s] car [folded m, unfolded s]] m l keeps_hist [OF kp n k] by blast
qed

lemma hop_text:
  assumes "ostr md k \<in> set FALLBACK_HOPS \<or> ostr md k = []"
  shows "py_str (py_or (oget md k) (JStr [])) = ostr md k"
proof (cases "map_of md k")
  case None
  then show ?thesis by (simp add: oget_def oget_or_def py_or_def)
next
  case (Some v)
  then have v: "oget md k = v" "oget_or md k (JStr []) = v" by (simp_all add: oget_def oget_or_def)
  show ?thesis
  proof (cases "truthy v")
    case True
    with v show ?thesis by (simp add: py_or_def)
  next
    case False
    with assms v show ?thesis by (cases v) (auto simp: py_or_def FALLBACK_HOPS_def py_str_def int_str_def nat_str.simps split: if_splits)
  qed
qed

lemma registered_text:
  assumes "registered_worker (oget md k) = Inr b"
  shows "lower (ostr md k) \<in> {''1'', ''true''} \<longleftrightarrow> b"
proof -
  have low: "lower ''True'' = ''true''" "lower ''False'' = ''false''" "lower ''None'' = ''none''" by code_simp+
  show ?thesis
  proof (cases "map_of md k")
    case None
    with assms low show ?thesis by (simp add: oget_def registered_worker_def)
  next
    case (Some v)
    with assms low show ?thesis
      by (cases v) (auto simp: oget_def oget_or_def registered_worker_def split: if_splits)
  qed
qed

lemma validated_axes:
  assumes "validate_attempt_metadata False md = Inr ()" "py_int_of (oget md ''dispatch_depth'') = Some depth"
  shows "validate_attempt_metadata False
    [(''attempt_schema_version'', JInt ATTEMPT_SCHEMA_VERSION), (''dispatch_depth'', JInt depth), (''transport'', JStr (ostr md ''transport'')),
     (''execution_surface'', JStr (ostr md ''execution_surface'')),
     (''registered_worker'', JBool (lower (ostr md ''registered_worker'') \<in> {''1'', ''true''})),
     (''fallback_hop'', JStr (py_str (py_or (oget md ''fallback_hop'') (JStr []))))] = Inr ()"
proof -
  have "map_of md ''dispatch_depth'' \<noteq> None" using assms(2) by (auto simp: oget_def split: option.splits)
  then have dd: "py_int_of (oget_or md ''dispatch_depth'' (JInt (- 1))) = Some depth"
    using assms(2) by (auto simp: oget_def oget_or_def split: option.splits)
  obtain sv where sv: "py_int_of (oget_or md ''attempt_schema_version'' (JInt 0)) = Some sv"
    using assms(1) by (auto simp: validate_attempt_metadata_def split: option.splits)
  obtain b where b: "registered_worker (oget md ''registered_worker'') = Inr b"
    using assms(1) sv dd by (auto simp: validate_attempt_metadata_def Let_def bindr_Inr_iff split: if_splits)
  note facts = assms(1) [unfolded validate_attempt_metadata_def Let_def sv dd b bindr_simps]
  have hop: "ostr md ''fallback_hop'' \<in> set FALLBACK_HOPS \<or> ostr md ''fallback_hop'' = []"
    using facts by (auto split: if_splits)
  have sub: "validate_subsession [(''attempt_schema_version'', JInt ATTEMPT_SCHEMA_VERSION), (''dispatch_depth'', JInt depth), (''transport'', JStr t),
     (''execution_surface'', JStr x), (''registered_worker'', JBool c), (''fallback_hop'', JStr h)] depth = Inr ()" for t x c h
    by (simp add: validate_subsession_def Let_def registered_worker_def py_str_def lower_def lower_char_def less_eq_char_def)
  have reg: "registered_worker (JBool c) = Inr c" for c by (simp add: registered_worker_def)
  have guard: "(if c then Inl e else r) = Inr x \<longleftrightarrow> \<not> c \<and> r = Inr x" for c and e :: string and r :: "string + unit" and x by auto
  note conds = facts [simplified prod.case option.case guard]
  show ?thesis
    unfolding validate_attempt_metadata_def Let_def hop_text [OF hop] registered_text [OF b]
    using conds by (simp add: sub reg guard) blast
qed

section \<open>The gate of a successor\<close>

definition files_of :: "completion_env \<Rightarrow> completion_world \<Rightarrow> stage_files" where
  \<comment> \<open>the files a reader sees afterwards\<close>
  "files_of env w = (ce_fw env)\<lparr>
     sf_json := (\<lambda>p. case content w p of Some c \<Rightarrow> c | None \<Rightarrow> sf_json (ce_fw env) p),
     sf_bytes := (\<lambda>p. case content w p of Some c \<Rightarrow> Some (case c of Some v \<Rightarrow> dumps v | None \<Rightarrow> []) | None \<Rightarrow> sf_bytes (ce_fw env) p)\<rparr>"

lemma oget_present: "oget d k = v \<Longrightarrow> v \<noteq> JNull \<Longrightarrow> k \<in> fst ` set d"
  by (auto simp: oget_def split: option.splits dest!: map_of_SomeD) force

lemma made_attempt:
  assumes "made route node n k m" "oget m ''attempt_id'' = JStr a" "oget m ''stage_authority'' \<noteq> JStr ''owner-chain''"
  obtains env evidence s md depth where
    "m = new_marker env route node n evidence (JStr s) [(''attempt_id'', JStr a), (''dispatch_depth'', JInt depth),
       (''transport'', JStr (ostr md ''transport'')), (''execution_surface'', JStr (ostr md ''execution_surface'')),
       (''registered_worker'', JBool (lower (ostr md ''registered_worker'') \<in> {''1'', ''true''})),
       (''fallback_hop'', let hop = py_str (py_or (oget md ''fallback_hop'') (JStr [])) in if hop = [] then JNull else JStr hop)] k"
    "validate_attempt_metadata False md = Inr ()" "py_int_of (oget md ''dispatch_depth'') = Some depth"
    "py_eq (JInt depth) (oget node ''dispatch_depth'')" "1 \<le> k" "\<not> py_eq (oget node ''kind'') (JStr ''resource-runner'')"
proof -
  from assms(1) obtain env evidence s b md axes where ax: "marker_attempt_axes node b md = Inr axes"
    and m: "m = new_marker env route node n evidence (JStr s) axes k" and k: "1 \<le> k" unfolding made_def by blast
  have aid: "map_of axes ''attempt_id'' = Some (JStr a)" if "map_of axes ''attempt_id'' \<noteq> None"
    using assms(2) that by (auto simp: m new_marker_def oget_def map_add_def split: option.splits)
  have auth: "map_of axes ''stage_authority'' \<noteq> Some (JStr ''owner-chain'')"
    using assms(3) by (auto simp: m new_marker_def oget_def map_add_def)
  have nr: "\<not> py_eq (oget node ''kind'') (JStr ''resource-runner'')"
    using ax aid by (auto simp: marker_attempt_axes_def resource_axes_def split: if_splits)
  obtain d where at: "attempt_axes_of node b d = Inr axes"
    using ax nr auth by (auto simp: marker_attempt_axes_def chain_axes_def bindr_Inr_iff split: if_splits option.splits)
  then obtain depth where v: "validate_attempt_metadata False d = Inr ()" "py_int_of (oget d ''dispatch_depth'') = Some depth"
    "py_eq (JInt depth) (oget node ''dispatch_depth'')"
    by (auto simp: attempt_axes_of_def bindr_Inr_iff split: if_splits option.splits)
  have "axes = [(''attempt_id'', opt_json b), (''dispatch_depth'', JInt depth),
       (''transport'', JStr (ostr d ''transport'')), (''execution_surface'', JStr (ostr d ''execution_surface'')),
       (''registered_worker'', JBool (lower (ostr d ''registered_worker'') \<in> {''1'', ''true''})),
       (''fallback_hop'', let hop = py_str (py_or (oget d ''fallback_hop'') (JStr [])) in if hop = [] then JNull else JStr hop)]"
    using at v by (simp add: attempt_axes_of_def Let_def)
  moreover from this aid have "opt_json b = JStr a" by simp
  ultimately show thesis using that [OF _ v k nr, of env evidence s] m by simp
qed

lemma path_parent_join: "slash \<notin> set x \<Longrightarrow> d \<noteq> [] \<Longrightarrow> path_parent (path_join d x) = d"
proof -
  assume x: "slash \<notin> set x" and d: "d \<noteq> []"
  have na: "\<not> is_absolute x" using x by (cases x) (auto simp: is_absolute_def startswith_def slash_def)
  have drop: "dropWhile (\<lambda>c. c \<noteq> slash) (rev x @ slash # ys) = slash # ys" for ys
    using x by (induction x rule: rev_induct) auto
  show ?thesis
  proof (cases "d = ''/''")
    case True
    with na have "path_join d x = [slash] @ x" by (simp add: path_join_def slash_def)
    with drop [of "[]"] True show ?thesis by (simp add: path_parent_def)
  next
    case False
    with na have "path_join d x = d @ slash # x" by (simp add: path_join_def slash_def)
    with drop [of "rev d"] d show ?thesis by (simp add: path_parent_def)
  qed
qed

lemma oget_wf: "wf_json (JObj d) \<Longrightarrow> wf_json (oget d k)"
  by (auto simp: oget_def list_all_iff split: option.splits dest!: map_of_SomeD)

lemma published_is_current:
  assumes made: "made route node n k m" and a: "oget m ''attempt_id'' = JStr a" "a \<noteq> []" and own: "oget m ''stage_authority'' \<noteq> JStr ''owner-chain''"
    and wf: "wf_json (JObj route)" "wf_json (JObj node)" and nid: "oget node ''id'' = JStr n" "plain_id n" "directory \<noteq> []"
    and files: "content w (hist directory n k) = Some (Some (JObj m))" "content w (canonical_path directory n) = Some (Some (JObj m))"
    and link: "new_link route n a m directory = Inr l" "content w (link_path directory n a) = Some (Some (JObj l))"
    and evidence: "oget (the_obj (oget m ''evidence'')) ''path'' = JStr evidence" "is_absolute evidence" "content w evidence = None"
      "read_evidence env evidence = Inr sha" "marker_sha m = Inr sha"
  shows "completion_marker_is_current (files_of env w) route node (canonical_path directory n) JNull = Inr True"
proof -
  from made_attempt [OF made a(1) own] obtain env' ev s md depth where
    m: "m = new_marker env' route node n ev (JStr s) [(''attempt_id'', JStr a), (''dispatch_depth'', JInt depth),
       (''transport'', JStr (ostr md ''transport'')), (''execution_surface'', JStr (ostr md ''execution_surface'')),
       (''registered_worker'', JBool (lower (ostr md ''registered_worker'') \<in> {''1'', ''true''})),
       (''fallback_hop'', let hop = py_str (py_or (oget md ''fallback_hop'') (JStr [])) in if hop = [] then JNull else JStr hop)] k"
    and v: "validate_attempt_metadata False md = Inr ()" "py_int_of (oget md ''dispatch_depth'') = Some depth"
    and dd: "py_eq (JInt depth) (oget node ''dispatch_depth'')" and k: "1 \<le> k" and kind: "\<not> py_eq (oget node ''kind'') (JStr ''resource-runner'')" .
  let ?fw = "files_of env w" let ?p = "canonical_path directory n"
  have self: "py_eq (oget route x) (oget route x)" "py_eq (oget node x) (oget node x)" for x
    using py_eq_refl oget_wf wf by blast+
  have wfm: "wf_json (JObj m)"
    using oget_wf [OF wf(1)] oget_wf [OF wf(2)] by (simp add: m new_marker_def Let_def)
  have self_m: "py_eq (JObj m) (JObj m)" "py_eq (oget m x) (oget m x)" for x
    using py_eq_refl [OF wfm] py_eq_refl [OF oget_wf [OF wfm]] by blast+
  have present: "''id'' \<in> fst ` set node" using oget_present [OF nid(1)] by simp
  have parent: "path_parent ?p = directory"
    unfolding canonical_path_def using nid(2,3) by (intro path_parent_join) (auto simp: plain_id_def slash_def)
  have matches: "marker_matches route node m"
    using self by (simp add: marker_matches_def m new_marker_def nid(1))
  have bytes: "\<exists>b. sf_bytes ?fw evidence = Some b \<and> sha = JStr (sf_sha256 ?fw b)"
    using evidence(3,4) by (auto simp: files_of_def read_evidence_def split: option.splits)
  have ev: "ev = evidence" "sha = JStr s"
    using evidence(1,5) by (simp_all add: m new_marker_def marker_sha_def)
  have proved: "evidence_proved ?fw (oget m ''evidence'')"
    using bytes evidence(2) ev by (auto simp: evidence_proved_def m new_marker_def is_obj_def Let_def)
  have history: "sf_json ?fw (path_file directory (n @ ''.'' @ int_str k @ ''.json'')) = Some (JObj m)"
    using files(1) by (simp add: files_of_def path_file_def named_def)
  have axes: "marker_axes m = [(''attempt_schema_version'', JInt ATTEMPT_SCHEMA_VERSION), (''dispatch_depth'', JInt depth),
     (''transport'', JStr (ostr md ''transport'')), (''execution_surface'', JStr (ostr md ''execution_surface'')),
     (''registered_worker'', JBool (lower (ostr md ''registered_worker'') \<in> {''1'', ''true''})),
     (''fallback_hop'', JStr (py_str (py_or (oget md ''fallback_hop'') (JStr []))))]"
    by (simp add: marker_axes_def m new_marker_def Let_def py_or_def)
  have linked: "sf_json ?fw (path_file directory (n @ ''.'' @ safe_attempt a @ ''.attempt.json'')) = Some (JObj l)"
    using link(2) by (simp add: files_of_def path_file_def link_path_def)
  have fields: "list_all (\<lambda>(x, v). py_eq (oget l x) v) (link_expected route n m ?p (path_file directory (n @ ''.'' @ int_str k @ ''.json'')))"
  proof -
    have l: "l = [(''schema_version'', JInt 2), (''route_id'', oget route ''route_id''), (''node_id'', JStr n), (''attempt_id'', JStr a),
        (''dispatch_depth'', oget m ''dispatch_depth''), (''transport'', oget m ''transport''), (''execution_surface'', oget m ''execution_surface''),
        (''registered_worker'', oget m ''registered_worker''), (''fallback_hop'', oget m ''fallback_hop''), (''evidence_sha256'', JStr s),
        (''completion_marker'', JStr ?p), (''completion_marker_history'', JStr (hist directory n k))]"
      using link(1) by (auto simp: new_link_def m new_marker_def dict_item_def is_obj_def paths_named)
    have "oget (the_obj (oget m ''evidence'')) ''sha256'' = JStr s" by (simp add: m new_marker_def)
    moreover have "path_file directory (n @ ''.'' @ int_str k @ ''.json'') = hist directory n k" by (simp add: path_file_def named_def)
    ultimately show ?thesis unfolding l link_expected_def using self self_m(2) a(1) by simp
  qed
  have ddm: "py_int_of (oget m ''dispatch_depth'') = Some depth" by (simp add: m new_marker_def)
  have attempt: "attempt_marker ?fw route node n ?p (path_file directory (n @ ''.'' @ int_str k @ ''.json'')) m = Inr True"
    unfolding attempt_marker_def parent axes ddm a(1) validated_axes [OF v]
    using a(2) linked fields dd by (simp add: nonempty_str_def is_obj_def)
  have given: "sf_json ?fw ?p = Some (JObj m)" using files(2) by (simp add: files_of_def)
  have head: "py_eq (oget m ''schema_version'') (JInt 2)" "oget_or m ''sequence'' (JInt 0) = JInt k"
    by (simp_all add: m new_marker_def)
  show ?thesis
    unfolding completion_marker_is_current_def
    using given head present k matches proved history self_m(1) kind own attempt nid(1) parent
    by (simp add: is_obj_def Let_def)
qed

section \<open>The row is closed\<close>

definition clean_text :: "string \<Rightarrow> bool" where
  \<comment> \<open>fits into a field of a row\<close>
  "clean_text s \<longleftrightarrow> CHR '','' \<notin> set s \<and> tab \<notin> set s"

lemma clean_named: "clean_text directory \<Longrightarrow> clean_text n \<Longrightarrow> clean_text t \<Longrightarrow> clean_text (named directory n t)"
  by (auto simp: clean_text_def named_def path_join_def)

lemma closing_meta:
  assumes "clean_text directory" "clean_text n" "length fs = 6"
  shows "map_of (row_meta (closed_fields directory n (JInt k) fs)) = (map_of (row_meta fs))(''note'' \<mapsto> ''completed-marker'',
      ''completion_marker'' \<mapsto> canonical_path directory n, ''completion_marker_history'' \<mapsto> hist directory n k)"
    "tab \<notin> set (closing_pipe directory n (JInt k) p) \<longleftrightarrow> tab \<notin> set p"
proof -
  have int: "clean_text (int_str k @ ''.json'')" using int_str_chars [of k] by (auto simp: clean_text_def less_eq_char_def)
  have paths: "clean_text (canonical_path directory n)" "clean_text (hist directory n k)"
    using clean_named [OF assms(1,2) int] clean_named [OF assms(1,2), of "''json''"] by (simp_all add: paths_named clean_text_def)
  have snoc: "map_of (parse_registry_metadata (pipe @ '','' @ kv_part k' v)) = (map_of (parse_registry_metadata pipe))(k' \<mapsto> v)"
    if "CHR '','' \<notin> set k'" "CHR ''='' \<notin> set k'" "clean_text v" for pipe k' v
    using parse_snoc [of k' v pipe] that by (simp add: clean_text_def)
  have pipe: "closing_pipe directory n (JInt k) p = ((p @ '','' @ kv_part ''note'' ''completed-marker'')
      @ '','' @ kv_part ''completion_marker'' (canonical_path directory n)) @ '','' @ kv_part ''completion_marker_history'' (hist directory n k)" for p
    by (simp add: closing_pipe_def paths_named)
  show "tab \<notin> set (closing_pipe directory n (JInt k) p) \<longleftrightarrow> tab \<notin> set p"
    using paths unfolding pipe by (simp add: kv_part_def clean_text_def)
  have gs: "closed_fields directory n (JInt k) fs ! 5 = closing_pipe directory n (JInt k) (fs ! 5)" using assms(3) by (simp add: closed_fields_def)
  have cm: "clean_text ''completed-marker''" by (simp add: clean_text_def)
  show "map_of (row_meta (closed_fields directory n (JInt k) fs)) = (map_of (row_meta fs))(''note'' \<mapsto> ''completed-marker'',
      ''completion_marker'' \<mapsto> canonical_path directory n, ''completion_marker_history'' \<mapsto> hist directory n k)"
    unfolding row_meta_def gs pipe using snoc paths cm by (simp del: append_assoc)
qed

lemma closing_rewrite:
  assumes "clean_text directory" "clean_text n" "length fs = 6" "tab_free fs" "fs ! 1 \<in> {''open'', ''running'', ''done''}"
  shows "row_rewrite fs (closed_fields directory n (JInt k) fs)"
proof -
  let ?gs = "closed_fields directory n (JInt k) fs"
  have fixed: "map_of (row_meta ?gs) x = map_of (row_meta fs) x" if "fixed_key x" for x
    using that closing_meta(1) [OF assms(1-3), of k] by (auto simp: fixed_key_def ATTEMPT_MUTABLE_METADATA_def)
  have claimed: "claimed_row fs \<Longrightarrow> claimed_row ?gs"
    using closing_meta(1) [OF assms(1-3), of k] by (simp add: claimed_row_def)
  have "fs ! 5 \<in> set fs" using assms(3) by (intro nth_mem) simp
  then have "tab \<notin> set (fs ! 5)" using assms(4) by (simp add: tab_free_def)
  then have "tab \<notin> set (closing_pipe directory n (JInt k) (fs ! 5))" using closing_meta(2) [OF assms(1-3)] by simp
  then have "tab_free ?gs" using assms(4) by (simp add: closed_fields_def tab_free_update)
  with fixed claimed assms(3,5) show ?thesis by (auto simp: row_rewrite_def closed_fields_def open_status_def)
qed

definition row_closed :: "string \<Rightarrow> string list option \<Rightarrow> bool" where
  \<comment> \<open>the row of the attempt is closed as completed by a marker\<close>
  "row_closed a jobs \<longleftrightarrow> (\<exists>lines i fs. jobs = Some lines \<and> find_row (attempt_row a) 0 lines = Some (i, fs) \<and> fs ! 1 = ''done'' \<and>
     map_of (row_meta fs) ''note'' = Some ''completed-marker'' \<and> valid_row_metadata (row_meta fs))"

lemma complete_node_parts:
  assumes "complete_node env route node n evidence True a explicit w = (Inr (m, st), w')"
  obtains lines i fs w1 where "given a" "lines = (case cw_jobs w of None \<Rightarrow> [] | Some ls \<Rightarrow> ls)" "find_row (attempt_row (the a)) 0 lines = Some (i, fs)"
    "row_check route n explicit fs = Inr ()"
    "publish_completion_locked env route node n evidence a (Some (jmeta (filter (\<lambda>(k, _). \<not> startswith ''_'' k) (row_meta fs))))
        (fs ! 1 = ''done'' \<and> \<not> marker_eligible fs) (w\<lparr>cw_jobs := Some lines\<rparr>) = (Inr m, w1)"
    "content w' = content w1"
    "fs ! 1 = ''done'' \<and> \<not> marker_eligible fs \<and> cw_jobs w' = cw_jobs w1 \<or>
      (\<exists>sequence. dict_item m ''sequence'' = Inr sequence \<and> cw_jobs w' = Some (store_row lines i
        (closed_fields (completion_dir env (the_str (oget route ''route_id''))) n sequence fs)))"
proof -
  have g: "given a" using assms by (cases "given a") (auto simp: complete_node_def)
  then have a: "Some (the a) = a" by (cases a) (simp_all add: given_def)
  have wr: "ce_unwritable env = None"
    using assms g by (cases "ce_unwritable env")
      (auto simp: complete_node_def publish_then_raise_def bindc_apply split: if_splits prod.splits sum.splits)
  let ?lines = "case cw_jobs w of None \<Rightarrow> [] | Some ls \<Rightarrow> ls"
  obtain i fs where row: "find_row (attempt_row (the a)) 0 ?lines = Some (i, fs)"
    using assms g wr by (cases "find_row (attempt_row (the a)) 0 ?lines")
      (auto simp: complete_node_def publish_then_raise_def Let_def bindc_apply split: if_splits prod.splits sum.splits)
  have check: "row_check route n explicit fs = Inr ()"
    using assms g wr row by (cases "row_check route n explicit fs") (auto simp: complete_node_def Let_def bindc_lift)
  have step: "complete_row env route node n evidence (the a) ?lines i fs (w\<lparr>cw_jobs := Some ?lines\<rparr>) = (Inr (m, st), w')"
    using assms g wr row check by (simp add: complete_node_def Let_def bindc_lift)
  obtain r1 w1 where one: "publish_completion_locked env route node n evidence a (Some (jmeta (filter (\<lambda>(k, _). \<not> startswith ''_'' k) (row_meta fs))))
        (fs ! 1 = ''done'' \<and> \<not> marker_eligible fs) (w\<lparr>cw_jobs := Some ?lines\<rparr>) = (r1, w1)" by fastforce
  show thesis
  proof (cases r1)
    case (Inl e)
    with step one show ?thesis by (simp add: complete_row_def Let_def bindc_apply a)
  next
    case (Inr m1)
    note step1 = step [unfolded complete_row_def Let_def a bindc_apply one Inr prod.case sum.case]
    show ?thesis
    proof (cases "fs ! 1 = ''done'' \<and> \<not> marker_eligible fs")
      case True
      with step1 have "m1 = m" "w' = w1" by simp_all
      with True one Inr show ?thesis by (intro that [OF g refl row check]) auto
    next
      case False
      with step1 have "m1 = m \<and> content w' = content w1 \<and> (\<exists>sequence. dict_item m ''sequence'' = Inr sequence \<and> cw_jobs w' = Some (store_row ?lines i
        (closed_fields (completion_dir env (the_str (oget route ''route_id''))) n sequence fs)))"
        by (auto simp: lift_def bindc_apply replace_registry_eq split: sum.splits if_splits)
      with one Inr show ?thesis by (intro that [OF g refl row check]) auto
    qed
  qed
qed

lemma row_checked:
  assumes "row_check route n explicit fs = Inr ()"
  shows "valid_row_metadata (row_meta fs)" "fs ! 1 \<in> {''open'', ''running'', ''done''}"
    "fs ! 1 = ''done'' \<Longrightarrow> \<not> marker_eligible fs \<Longrightarrow> map_of (row_meta fs) ''note'' = Some ''completed-marker''"
  using assms by (auto simp: row_check_def Let_def valid_row_metadata_def split: sum.splits if_splits)

lemma complete_closes_row:
  assumes ok: "store_ok directory route nodeof (content w)" and n: "plain_id n" and env: "sane directory route env"
    and run: "complete_node env route (nodeof n) n evidence True a explicit w = (Inr (m, st), w')"
    and clean: "clean_text directory" "clean_text n"
  shows "row_closed (the a) (cw_jobs w')" "registry_step (case cw_jobs w of None \<Rightarrow> [] | Some ls \<Rightarrow> ls) (the (cw_jobs w'))"
proof -
  from complete_node_parts [OF run] obtain lines i fs w1 where g: "given a" and lines: "lines = (case cw_jobs w of None \<Rightarrow> [] | Some ls \<Rightarrow> ls)"
    and row: "find_row (attempt_row (the a)) 0 lines = Some (i, fs)" and check: "row_check route n explicit fs = Inr ()"
    and pub: "publish_completion_locked env route (nodeof n) n evidence a (Some (jmeta (filter (\<lambda>(k, _). \<not> startswith ''_'' k) (row_meta fs))))
        (fs ! 1 = ''done'' \<and> \<not> marker_eligible fs) (w\<lparr>cw_jobs := Some lines\<rparr>) = (Inr m, w1)"
    and jobs: "fs ! 1 = ''done'' \<and> \<not> marker_eligible fs \<and> cw_jobs w' = cw_jobs w1 \<or>
      (\<exists>sequence. dict_item m ''sequence'' = Inr sequence \<and> cw_jobs w' = Some (store_row lines i
        (closed_fields (completion_dir env (the_str (oget route ''route_id''))) n sequence fs)))" .
  have dir: "completion_dir env (the_str (oget route ''route_id'')) = directory" using env by (simp add: sane_def)
  have ok0: "store_ok directory route nodeof (content (w\<lparr>cw_jobs := Some lines\<rparr>))" using ok by simp
  note eff = publish_completion_effect [OF ok0 n env pub]
  have keep: "cw_jobs w1 = Some lines" using eff by simp
  note facts = find_row_row [OF row] row_checked [OF check]
  have len: "length fs = 6" using facts(3) by (simp add: attempt_row_def)
  have "store_ok directory route nodeof (content w1)" and "recorded directory w1 n m" using eff ok by (auto simp: publishes_def orderly_def)
  then obtain k where seq: "map_of m ''sequence'' = Some (JInt k)"
    using store_okD(1) [OF _ n] made_sequence unfolding recorded_def by blast
  note rewrite = closing_rewrite [OF clean len facts(4) facts(6), of k]
  show "row_closed (the a) (cw_jobs w')"
    using jobs
  proof (elim disjE)
    assume "fs ! 1 = ''done'' \<and> \<not> marker_eligible fs \<and> cw_jobs w' = cw_jobs w1"
    with keep row facts show ?thesis by (auto simp: row_closed_def)
  next
    assume "\<exists>sequence. dict_item m ''sequence'' = Inr sequence \<and> cw_jobs w' = Some (store_row lines i
        (closed_fields (completion_dir env (the_str (oget route ''route_id''))) n sequence fs))"
    then have w': "cw_jobs w' = Some (store_row lines i (closed_fields directory n (JInt k) fs))" using seq dir by (simp add: dict_item_def)
    have "find_row (attempt_row (the a)) 0 (store_row lines i (closed_fields directory n (JInt k) fs)) = Some (i, closed_fields directory n (JInt k) fs)"
      using find_row_rewrite [OF facts(1) rewrite [unfolded facts(2)], of "the a"] row facts(2) by simp
    moreover have "valid_row_metadata (row_meta (closed_fields directory n (JInt k) fs))"
      using row_rewrite_valid [OF rewrite] facts(5) by (simp add: valid_row_metadata_def)
    moreover have "closed_fields directory n (JInt k) fs ! 1 = ''done''" using len by (simp add: closed_fields_def)
    ultimately show ?thesis using closing_meta(1) [OF clean len, of k] by (auto simp: row_closed_def w')
  qed
  show "registry_step (case cw_jobs w of None \<Rightarrow> [] | Some ls \<Rightarrow> ls) (the (cw_jobs w'))"
    using jobs
  proof (elim disjE)
    assume "fs ! 1 = ''done'' \<and> \<not> marker_eligible fs \<and> cw_jobs w' = cw_jobs w1"
    with keep lines show ?thesis by (simp add: registry_step.keep)
  next
    assume "\<exists>sequence. dict_item m ''sequence'' = Inr sequence \<and> cw_jobs w' = Some (store_row lines i
        (closed_fields (completion_dir env (the_str (oget route ''route_id''))) n sequence fs))"
    then have "the (cw_jobs w') = store_row lines i (closed_fields directory n (JInt k) fs)" using seq dir by (simp add: dict_item_def)
    with registry_step.rewrite [OF facts(1) rewrite [unfolded facts(2)]] facts(2) lines show ?thesis by simp
  qed
qed


section \<open>Failures\<close>

lemma publish_jobs:
  assumes "store_ok directory route nodeof (content w)" "plain_id n" "sane directory route env"
    "publish_completion_locked env route (nodeof n) n evidence a md need w = (r, w')"
  shows "cw_jobs w' = cw_jobs w"
  using publish_completion_effect [OF assms] by simp


interpretation torn: machine "completion_exec route nodeof" "completion_op_ok directory route"
  "\<lambda>w. store_ok directory route nodeof (content w) \<and> plain_id n \<and> content w (link_path directory n a) = Some None"
  for directory route nodeof n a
proof
  fix op and w
  assume "completion_op_ok directory route op"
    and "store_ok directory route nodeof (content w) \<and> plain_id n \<and> content w (link_path directory n a) = Some None"
  then show "store_ok directory route nodeof (content (snd (completion_exec route nodeof op w))) \<and> plain_id n \<and>
      content (snd (completion_exec route nodeof op w)) (link_path directory n a) = Some None"
    using exec_orderly keeps_link unfolding orderly_def paths_named by blast
qed

text \<open>A crash between the creation of an attempt's link and the writing of its content is final: from then on, whatever
  commands run, no completion of that attempt is answered.\<close>
theorem torn_link_is_final:
  assumes "list_all (completion_op_ok directory route) (earlier @ ops)" "cw_files w0 = []" "w = run_ops (completion_exec route nodeof) earlier w0"
    and "plain_id n" "content w (link_path directory n a) = Some None"
    and "(op, r) \<in> set (run_replies (completion_exec route nodeof) ops w)"
  shows "\<not> answers_marker op r (n, a) m"
proof
  assume ans: "answers_marker op r (n, a) m"
  have all: "list_all (completion_op_ok directory route) earlier" "list_all (completion_op_ok directory route) ops" using assms(1) by simp_all
  have "store_ok directory route nodeof (content w)"
    using completions.run_inv [OF all(1), of nodeof w0] store_ok_empty assms(2,3) by simp
  with assms(4,5) have inv: "store_ok directory route nodeof (content w) \<and> plain_id n \<and> content w (link_path directory n a) = Some None" by blast
  from torn.run_replies_inv [OF all(2) inv assms(6)] obtain v where ok: "completion_op_ok directory route op"
    and v: "store_ok directory route nodeof (content v)" "content v (link_path directory n a) = Some None"
    and r: "r = fst (completion_exec route nodeof op v)" by blast
  let ?v' = "snd (completion_exec route nodeof op v)"
  have "bound_to directory ?v' (n, a) m" using completions.answer_binds [OF ok v(1)] ans r by auto
  moreover have "content ?v' (link_path directory n a) = Some None"
    using exec_orderly [OF v(1) ok] v keeps_link [OF _ assms(4)] unfolding orderly_def paths_named by blast
  ultimately show False by (simp add: bound_to_def)
qed

section \<open>Witnesses\<close>

definition demo_route_obj :: obj where
  "demo_route_obj = [(''route_id'', JStr ''r1''), (''route_hash'', JStr ''h''), (''registry_digest'', JStr ''d'')]"

definition demo_node :: obj where
  "demo_node = [(''id'', JStr ''n1''), (''completion_gate'', JStr ''g''), (''dispatch_depth'', JInt 1)]"

definition demo_completion_env :: "string \<Rightarrow> completion_env" where
  "demo_completion_env now = \<lparr>ce_fw = demo_gate_files, ce_home = ''/h'', ce_norm = (\<lambda>p. p), ce_now = now, ce_unwritable = None\<rparr>"

definition demo_row :: "string \<Rightarrow> string list \<Rightarrow> string" where
  "demo_row status tags = join [tab] [''t'', status, ''/repo'', ''/w'', ''slug'', join '','' ([
     ''attempt_id=att-a'', ''attempt_schema_version=2'', ''dispatch_depth=1'', ''transport=headless'',
     ''execution_surface=registered-headless'', ''registered_worker=1'', ''fallback_hop=same-harness-headless'',
     ''route_id=r1'', ''route_hash=h'', ''route_node=n1'', ''pid=9''] @ tags)]"

definition demo_start :: completion_world where
  "demo_start = \<lparr>cw_files = [], cw_jobs = Some [demo_row ''running'' []], cw_power = 9\<rparr>"

definition demo_complete :: "string \<Rightarrow> nat \<Rightarrow> completion_op" where
  "demo_complete now life = Complete (demo_completion_env now) ''n1'' ''/e'' True (Some ''att-a'') None life"

abbreviation demo_dir :: string where
  "demo_dir \<equiv> ''/h/.dispatch/completion/r1''"

definition demo_m :: obj where
  "demo_m = [(''schema_version'', JInt 2), (''route_id'', JStr ''r1''), (''route_hash'', JStr ''h''), (''registry_digest'', JStr ''d''),
     (''node_id'', JStr ''n1''), (''attempt_id'', JStr ''att-a''), (''dispatch_depth'', JInt 1), (''transport'', JStr ''headless''),
     (''execution_surface'', JStr ''registered-headless''), (''registered_worker'', JBool True),
     (''fallback_hop'', JStr ''same-harness-headless''), (''completion_gate'', JStr ''g''),
     (''evidence'', JObj [(''path'', JStr ''/e''), (''sha256'', JStr ''s'')]), (''sequence'', JInt 1), (''completed_at'', JStr ''t1'')]"

definition demo_attempt_link :: obj where
  "demo_attempt_link = [(''schema_version'', JInt 2), (''route_id'', JStr ''r1''), (''node_id'', JStr ''n1''), (''attempt_id'', JStr ''att-a''),
     (''dispatch_depth'', JInt 1), (''transport'', JStr ''headless''), (''execution_surface'', JStr ''registered-headless''),
     (''registered_worker'', JBool True), (''fallback_hop'', JStr ''same-harness-headless''), (''evidence_sha256'', JStr ''s''),
     (''completion_marker'', JStr ''/h/.dispatch/completion/r1/n1.json''),
     (''completion_marker_history'', JStr ''/h/.dispatch/completion/r1/n1.1.json'')]"

definition demo_completed :: completion_world where
  "demo_completed = \<lparr>cw_files = [(''/h/.dispatch/completion/r1/n1.1.json'', Some (JObj demo_m)),
      (''/h/.dispatch/completion/r1/n1.json'', Some (JObj demo_m)),
      (''/h/.dispatch/completion/r1/n1.att-a.attempt.json'', Some (JObj demo_attempt_link)),
      (''/h/.dispatch/completion/r1/n1.attempt.json'', Some (JObj demo_attempt_link))],
    cw_jobs = Some [demo_row ''done'' [''note=completed-marker'',
      ''completion_marker=/h/.dispatch/completion/r1/n1.json'', ''completion_marker_history=/h/.dispatch/completion/r1/n1.1.json'']], cw_power = 2\<rparr>"
definition demo_torn :: completion_world where
  "demo_torn = \<lparr>cw_files = [(''/h/.dispatch/completion/r1/n1.1.json'', Some (JObj demo_m)),
      (''/h/.dispatch/completion/r1/n1.json'', Some (JObj demo_m)),
      (''/h/.dispatch/completion/r1/n1.att-a.attempt.json'', None)], cw_jobs = Some [demo_row ''running'' []], cw_power = 0\<rparr>"

abbreviation demo_call :: "nat \<Rightarrow> (string + obj \<times> string option) \<times> completion_world" where
  "demo_call life \<equiv> complete_node (demo_completion_env ''t1'') demo_route_obj demo_node ''n1'' ''/e'' True (Some ''att-a'') None
     (demo_start\<lparr>cw_power := life\<rparr>)"

abbreviation demo_exec :: "completion_op \<Rightarrow> obj completion_cmd" where
  "demo_exec \<equiv> completion_exec demo_route_obj (\<lambda>_. demo_node)"

lemma demo_sane: "sane demo_dir demo_route_obj (demo_completion_env t)"
proof -
  have "completion_dir (demo_completion_env t) (the_str (oget demo_route_obj ''route_id'')) = demo_dir" by code_simp
  then show ?thesis by (simp add: sane_def demo_completion_env_def)
qed

lemma demo_ok: "completion_op_ok demo_dir demo_route_obj (demo_complete t life)"
  using demo_sane by (simp add: completion_op_ok_def demo_complete_def plain_id_def slash_def)

lemma demo_completes: "demo_call 9 = (Inr (demo_m, Some ''closed''), demo_completed)"
  by code_simp

lemma demo_crashes: "demo_call 4 = (Inl ''crash'', demo_torn)"
  by code_simp

lemma demo_again: "fst (demo_exec (demo_complete ''t2'' 9) demo_completed) = Inr demo_m"
  by code_simp

lemma demo_start_files: "cw_files demo_start = []"
  by (simp add: demo_start_def)

lemma demo_exec_simps:
  "demo_exec (demo_complete ''t1'' 9) demo_start = (Inr demo_m, demo_completed)"
  "demo_exec (demo_complete ''t1'' 4) demo_start = (Inl ''crash'', demo_torn)"
  using demo_completes demo_crashes by (simp_all add: completion_exec_def demo_complete_def bindc_def)

theorem completion_is_immutable_witness:
  "\<exists>m. answers_marker (demo_complete ''t1'' 9) (fst (demo_exec (demo_complete ''t1'' 9) demo_start)) (''n1'', ''att-a'') m \<and>
     answers_marker (demo_complete ''t2'' 9) (fst (demo_exec (demo_complete ''t2'' 9) demo_completed)) (''n1'', ''att-a'') m"
proof -
  let ?ops = "[demo_complete ''t1'' 9, demo_complete ''t2'' 9]"
  have rs: "run_replies demo_exec ?ops demo_start = [(demo_complete ''t1'' 9, Inr demo_m), (demo_complete ''t2'' 9, Inr demo_m)]"
    by (simp add: demo_exec_simps demo_again)
  have ans: "answers_marker (demo_complete t life) (Inr m) (''n1'', ''att-a'') m" for t life m
    by (simp add: answers_marker_def demo_complete_def given_def)
  have "list_all (completion_op_ok demo_dir demo_route_obj) ?ops" "cw_files demo_start = []" by (simp_all add: demo_ok demo_start_def)
  from completion_is_immutable [OF this, of "demo_complete ''t1'' 9" "Inr demo_m" _ "''n1''" "''att-a''" demo_m "demo_complete ''t2'' 9"
      "fst (demo_exec (demo_complete ''t2'' 9) demo_completed)" "projr (fst (demo_exec (demo_complete ''t2'' 9) demo_completed))"]
  show ?thesis using ans by (auto simp: rs demo_exec_simps demo_again)
qed

theorem torn_link_is_final_witness:
  "\<not> answers_marker (demo_complete ''t2'' 9) (fst (demo_exec (demo_complete ''t2'' 9) demo_torn)) (''n1'', ''att-a'') demo_m"
proof -
  have torn: "content demo_torn (link_path demo_dir ''n1'' ''att-a'') = Some None" by code_simp
  show ?thesis
    by (rule torn_link_is_final [of demo_dir demo_route_obj "[demo_complete ''t1'' 4]" "[demo_complete ''t2'' 9]" demo_start demo_torn "\<lambda>_. demo_node", OF _ _ _ _ torn])
      (simp_all add: demo_ok demo_exec_simps demo_start_files plain_id_def slash_def)
qed



end
