(* ===== verification/Route_Graph.thy ===== *)
theory Route_Graph
  imports Prelude
begin

text \<open>
  The stage graph of a route (\<open>utilities/capability-route.py\<close>, \<open>_parallel_path\<close> to \<open>_workflow_contract\<close>, with
  \<open>_scope_root\<close> and \<open>_overlap\<close> of \<open>tools/capability_topology.py\<close>): the expansion of the parallel groups of a recipe
  into sibling nodes, the summary of the groups a graph realizes, and the contract that names its terminal nodes
  and the continuation of every other one.

  A node is the JSON object it is in the code. The position of a node in the list stands for its identity
  (\<open>is\<close>). A node id that is not a string is refused here; the code takes any JSON value.
\<close>

section \<open>Python on JSON values\<close>

primrec collectr :: "('a \<Rightarrow> 'e + 'b) \<Rightarrow> 'a list \<Rightarrow> 'e + 'b list" where
  \<comment> \<open>\<open>[f(x) for x in xs]\<close> where \<open>f\<close> may raise\<close>
  "collectr f [] = Inr []"
| "collectr f (x # xs) = bindr (f x) (\<lambda>y. bindr (collectr f xs) (\<lambda>ys. Inr (y # ys)))"

definition items_of :: "json \<Rightarrow> string + json list" where
  \<comment> \<open>\<open>list(v)\<close>\<close>
  "items_of v = (case v of
      JList xs \<Rightarrow> Inr xs
    | JStr s \<Rightarrow> Inr (map (\<lambda>c. JStr [c]) s)
    | JObj d \<Rightarrow> Inr (map (\<lambda>(k, _). JStr k) d)
    | _ \<Rightarrow> Inl ''TypeError'')"

definition holds_str :: "string \<Rightarrow> json \<Rightarrow> string + bool" where
  \<comment> \<open>\<open>s in v\<close>\<close>
  "holds_str s v = (case v of
      JList xs \<Rightarrow> Inr (JStr s \<in> set xs)
    | JStr t \<Rightarrow> Inr (list_ex (\<lambda>i. startswith s (drop i t)) [0 ..< Suc (length t)])
    | JObj d \<Rightarrow> Inr (s \<in> fst ` set d)
    | _ \<Rightarrow> Inl ''TypeError'')"

definition as_seq :: "json \<Rightarrow> string + json list" where
  \<comment> \<open>what can be sliced\<close>
  "as_seq v = (if is_obj v then Inl ''TypeError'' else items_of v)"

definition as_str :: "json \<Rightarrow> string + string" where
  "as_str v = (case v of JStr s \<Rightarrow> Inr s | _ \<Rightarrow> Inl ''TypeError'')"

definition as_obj :: "json \<Rightarrow> string + obj" where
  \<comment> \<open>\<open>v[k]\<close> and \<open>v.get(k)\<close> need a dictionary\<close>
  "as_obj v = (case v of JObj d \<Rightarrow> Inr d | _ \<Rightarrow> Inl ''TypeError'')"

definition node_id :: "obj \<Rightarrow> string + string" where
  \<comment> \<open>\<open>node["id"]\<close>\<close>
  "node_id node = bindr (dict_item node ''id'') as_str"

definition slice_to :: "'a list \<Rightarrow> int \<Rightarrow> 'a list" where
  \<comment> \<open>\<open>xs[:n]\<close>\<close>
  "slice_to xs n = take (nat (if n < 0 then int (length xs) + n else n)) xs"

section \<open>Paths and scopes\<close>

abbreviation slash :: char where "slash \<equiv> CHR ''/''"

definition rpartition :: "char \<Rightarrow> string \<Rightarrow> string \<times> string \<times> string" where
  "rpartition c s = (if c \<in> set s
     then (rev (tl (dropWhile (\<lambda>x. x \<noteq> c) (rev s))), [c], rev (takeWhile (\<lambda>x. x \<noteq> c) (rev s)))
     else ([], [], s))"

definition parallel_path :: "string \<Rightarrow> string \<Rightarrow> string" where
  "parallel_path path suffix =
    (let stem = take (length path - 3) path in
     if endswith ''/**'' path \<and> CHR ''*'' \<notin> set stem then stem @ ''-'' @ suffix @ ''/**''
     else let (head, sep, tail) = rpartition slash path; (name, dot, ext) = rpartition (CHR ''.'') tail in
       if dot = [] then path @ ''-'' @ suffix else head @ sep @ name @ ''.'' @ suffix @ dot @ ext)"

definition scope_root :: "json \<Rightarrow> string + string" where
  "scope_root scope = (case scope of
      JStr s \<Rightarrow> if s = [] \<or> startswith [slash] s \<or> ''..'' \<in> set (split_on slash s) then Inl ''unsafe write scope''
        else Inr (if endswith ''/**'' s then take (length s - 3) s else s)
    | _ \<Rightarrow> Inl ''unsafe write scope'')"

definition overlap :: "json \<Rightarrow> json \<Rightarrow> string + bool" where
  "overlap a b = bindr (scope_root a) (\<lambda>a. bindr (scope_root b) (\<lambda>b.
     Inr (a = b \<or> startswith (b @ [slash]) a \<or> startswith (a @ [slash]) b)))"

section \<open>Expansion of parallel groups\<close>

definition ORDER :: "(string \<times> nat) list" where
  "ORDER = [(''direct'', 0), (''quick'', 1), (''standard'', 2), (''strong'', 3), (''thorough'', 4), (''adversarial'', 5)]"

definition order_of :: "json \<Rightarrow> string + nat" where
  \<comment> \<open>\<open>ORDER[v]\<close>\<close>
  "order_of v = (case v of
      JStr s \<Rightarrow> (case map_of ORDER s of Some n \<Rightarrow> Inr n | None \<Rightarrow> Inl ''KeyError'')
    | JList _ \<Rightarrow> Inl ''TypeError'' | JObj _ \<Rightarrow> Inl ''TypeError'' | _ \<Rightarrow> Inl ''KeyError'')"

definition suffixed_paths :: "obj \<Rightarrow> string \<Rightarrow> string \<Rightarrow> string + json" where
  \<comment> \<open>\<open>[_parallel_path(path, suffix) for path in base[key]]\<close>\<close>
  "suffixed_paths base key suffix = bindr (dict_item base key) (\<lambda>v. bindr (items_of v) (\<lambda>paths.
     bindr (collectr as_str paths) (\<lambda>paths. Inr (JList (map (\<lambda>p. JStr (parallel_path p suffix)) paths)))))"

definition leg_stamp :: "obj \<Rightarrow> string \<Rightarrow> int \<Rightarrow> json \<Rightarrow> obj \<Rightarrow> string + obj" where
  \<comment> \<open>the fields every leg gets, in the order they are assigned\<close>
  "leg_stamp grp base_id index width spec =
    bindr (dict_item spec ''suffix'') (\<lambda>suffix. bindr (dict_item spec ''model_profile'') (\<lambda>profile.
    bindr (dict_item spec ''perspective'') (\<lambda>perspective. bindr (dict_item grp ''id'') (\<lambda>group_id.
    bindr (dict_item grp ''kind'') (\<lambda>kind. bindr (dict_item grp ''join_policy'') (\<lambda>policy.
    bindr (dict_item grp ''independence_axes'') (\<lambda>axes. bindr (items_of axes) (\<lambda>axes.
      Inr [(''model_profile'', profile), (''perspective'', perspective), (''parallel_group'', group_id),
        (''parallel_group_kind'', kind), (''parallel_join_policy'', policy), (''parallel_independence_axes'', JList axes),
        (''parallel_leg_index'', JInt index), (''parallel_leg_count'', width), (''parallel_leg_suffix'', suffix),
        (''parallel_anchor'', JStr base_id), (''replica_group'', group_id), (''independence_axis'', JStr ''cross-harness'')]))))))))"

definition anchor_leg :: "obj \<Rightarrow> string \<Rightarrow> json \<Rightarrow> obj \<Rightarrow> json \<Rightarrow> string + obj" where
  \<comment> \<open>the leg of index 0: the anchor itself\<close>
  "anchor_leg grp base_id width base spec = bindr (as_obj spec) (\<lambda>spec.
     bindr (leg_stamp grp base_id 0 width spec) (\<lambda>fields. Inr (dict_update base fields)))"

definition sibling_leg :: "obj \<Rightarrow> string \<Rightarrow> json \<Rightarrow> obj \<Rightarrow> nat \<Rightarrow> json \<Rightarrow> string + obj" where
  \<comment> \<open>a leg of a later index: a copy of the stamped anchor\<close>
  "sibling_leg grp base_id width base index spec = bindr (as_obj spec) (\<lambda>spec.
     bindr (bindr (dict_item spec ''suffix'') as_str) (\<lambda>suffix.
     bindr (suffixed_paths base ''outputs'' suffix) (\<lambda>outputs.
     bindr (suffixed_paths base ''write_scope'' suffix) (\<lambda>scope.
     bindr (leg_stamp grp base_id (int index) width spec) (\<lambda>fields.
       Inr (dict_update base ([(''id'', JStr (base_id @ ''-'' @ suffix)), (''outputs'', outputs), (''write_scope'', scope)] @ fields)))))))"

definition realize_legs :: "obj \<Rightarrow> string \<Rightarrow> json \<Rightarrow> obj \<Rightarrow> json list \<Rightarrow> string + obj list" where
  "realize_legs grp base_id width base specs = (case specs of
      [] \<Rightarrow> Inr []
    | spec # rest \<Rightarrow> bindr (anchor_leg grp base_id width base spec) (\<lambda>anchor.
        bindr (collectr (\<lambda>(i, s). sibling_leg grp base_id width anchor i s) (zip [1 ..< Suc (length rest)] rest)) (\<lambda>siblings.
          Inr (anchor # siblings))))"

definition consumer_join :: "string \<Rightarrow> obj \<Rightarrow> obj list \<Rightarrow> obj \<Rightarrow> string + obj" where
  \<comment> \<open>a node that depends on the anchor depends on the siblings, too\<close>
  "consumer_join base_id base siblings node =
    bindr (holds_str base_id (oget_or node ''depends_on'' (JList []))) (\<lambda>direct. if \<not> direct then Inr node else
    bindr (bindr (dict_item node ''depends_on'') items_of) (\<lambda>deps. bindr (collectr node_id siblings) (\<lambda>ids.
      let node = AList.update ''depends_on'' (JList (deps @ map JStr ids)) node in
      if oget base ''kind'' = JStr ''review-worker'' then Inr node
      else bindr (items_of (oget_or node ''inputs'' (JList []))) (\<lambda>inputs.
        bindr (collectr (\<lambda>m. bindr (dict_item m ''outputs'') items_of) siblings) (\<lambda>outputs.
          Inr (AList.update ''inputs'' (JList (inputs @ concat outputs)) node))))))"

primrec find_anchor :: "json \<Rightarrow> obj list \<Rightarrow> string + nat" where
  \<comment> \<open>\<open>next(n for n in nodes if n["id"] == group["node"])\<close>\<close>
  "find_anchor target [] = Inl ''StopIteration''"
| "find_anchor target (node # nodes) = bindr (node_id node) (\<lambda>i. if target = JStr i then Inr 0
     else bindr (find_anchor target nodes) (\<lambda>k. Inr (Suc k)))"

definition expand_at :: "obj \<Rightarrow> json \<Rightarrow> int \<Rightarrow> json list \<Rightarrow> obj list \<Rightarrow> nat \<Rightarrow> string + obj list" where
  "expand_at grp width n legs nodes i =
    bindr (node_id (nodes ! i)) (\<lambda>base_id.
    bindr (realize_legs grp base_id width (nodes ! i) (slice_to legs n)) (\<lambda>members.
      let base = (if members = [] then nodes ! i else hd members); siblings = tl members in
      bindr (collectr (consumer_join base_id base siblings) (take i nodes)) (\<lambda>before.
      bindr (collectr (consumer_join base_id base siblings) (drop (Suc i) nodes)) (\<lambda>after.
        Inr (before @ base # siblings @ after)))))"

definition expand_group :: "nat \<Rightarrow> string \<Rightarrow> obj \<Rightarrow> obj list \<Rightarrow> string + obj list" where
  "expand_group level effective grp nodes =
    bindr (bindr (dict_item grp ''min_intensity'') order_of) (\<lambda>least. if level < least then Inr nodes else
    bindr (bindr (dict_item grp ''width_by_intensity'') as_obj) (\<lambda>widths.
    bindr (dict_item widths effective) (\<lambda>width.
    bindr (dict_item grp ''node'') (\<lambda>target. bindr (find_anchor target nodes) (\<lambda>i.
    bindr (bindr (dict_item grp ''legs'') as_seq) (\<lambda>legs.
    case num_of width of None \<Rightarrow> Inl ''TypeError'' | Some n \<Rightarrow> expand_at grp width n legs nodes i))))))"

primrec expand_groups :: "nat \<Rightarrow> string \<Rightarrow> json list \<Rightarrow> obj list \<Rightarrow> string + obj list" where
  "expand_groups level effective [] nodes = Inr nodes"
| "expand_groups level effective (g # groups) nodes = bindr (as_obj g) (\<lambda>grp.
     bindr (expand_group level effective grp nodes) (expand_groups level effective groups))"

definition expand_parallel_groups :: "obj list \<Rightarrow> json \<Rightarrow> string \<Rightarrow> string + obj list" where
  "expand_parallel_groups nodes groups effective =
    (if \<not> truthy groups then Inr nodes
     else case map_of ORDER effective of
       None \<Rightarrow> Inl ''invalid intensity''
     | Some level \<Rightarrow> bindr (items_of groups) (\<lambda>groups. expand_groups level effective groups nodes))"

section \<open>The summary of the realized groups\<close>

definition hashable :: "json \<Rightarrow> bool" where
  "hashable v = (\<not> is_list v \<and> \<not> is_obj v)"

definition group_row :: "json \<Rightarrow> obj \<Rightarrow> string + obj" where
  \<comment> \<open>the row a group starts with\<close>
  "group_row gid node =
    bindr (dict_item node ''parallel_group_kind'') (\<lambda>kind. bindr (dict_item node ''parallel_join_policy'') (\<lambda>policy.
    bindr (bindr (dict_item node ''parallel_independence_axes'') items_of) (\<lambda>axes.
    bindr (dict_item node ''parallel_leg_count'') (\<lambda>width.
      Inr [(''id'', gid), (''kind'', kind), (''join_policy'', policy), (''independence_axes'', JList axes), (''width'', width)]))))"

definition group_member :: "json \<Rightarrow> obj \<Rightarrow> json \<Rightarrow> (json \<times> obj \<times> json list) list \<Rightarrow> (json \<times> obj \<times> json list) list" where
  \<comment> \<open>\<open>groups.setdefault(gid, row)["members"].append(id)\<close>\<close>
  "group_member gid row member groups =
    (if list_ex (\<lambda>(k, _). py_eq k gid) groups
     then map (\<lambda>(k, r, ms). if py_eq k gid then (k, r, ms @ [member]) else (k, r, ms)) groups
     else groups @ [(gid, row, [member])])"

primrec collect_groups :: "obj list \<Rightarrow> (json \<times> obj \<times> json list) list \<Rightarrow> string + (json \<times> obj \<times> json list) list" where
  "collect_groups [] groups = Inr groups"
| "collect_groups (node # nodes) groups =
    (let gid = oget node ''parallel_group'' in
     if \<not> truthy gid then collect_groups nodes groups
     else bindr (group_row gid node) (\<lambda>row. if \<not> hashable gid then Inl ''TypeError'' else
       bindr (dict_item node ''id'') (\<lambda>member. collect_groups nodes (group_member gid row member groups))))"

definition group_summary :: "json \<times> obj \<times> json list \<Rightarrow> json" where
  "group_summary g = (case g of (_, row, members) \<Rightarrow> JObj (row @ [(''members'', JList members)]))"

definition realized_parallel_groups :: "obj list \<Rightarrow> string + json" where
  "realized_parallel_groups nodes = bindr (collect_groups nodes []) (\<lambda>groups. Inr (JList (map group_summary groups)))"

section \<open>The workflow contract\<close>

definition dep_items :: "obj \<Rightarrow> string + json list" where
  \<comment> \<open>\<open>node.get("depends_on", []) or []\<close>, as far as its members can be looked up\<close>
  "dep_items node = bindr (items_of (py_or (oget node ''depends_on'') (JList []))) (\<lambda>deps.
     if list_all hashable deps then Inr deps else Inl ''TypeError'')"

definition dependents :: "string \<Rightarrow> (string \<times> json list) list \<Rightarrow> string list" where
  "dependents i graph = [j. (j, deps) \<leftarrow> graph, d \<leftarrow> deps, d = JStr i]"

definition continuation_kind :: "obj \<Rightarrow> obj \<Rightarrow> string + json" where
  \<comment> \<open>the continuation of a node that is not terminal\<close>
  "continuation_kind registry node = (case oget node ''continuation'' of
      JObj c \<Rightarrow> bindr (bindr (dict_item registry ''continuation_kinds'') as_obj) (\<lambda>kinds.
        case oget c ''kind'' of
          JStr k \<Rightarrow> if k \<in> fst ` set kinds then Inr (JStr k) else Inl ''no valid continuation''
        | v \<Rightarrow> if hashable v then Inl ''no valid continuation'' else Inl ''TypeError'')
    | _ \<Rightarrow> Inl ''no valid continuation'')"

primrec contract_rows :: "obj \<Rightarrow> (string \<times> json list) list \<Rightarrow> (string \<times> obj) list \<Rightarrow> string list \<times> obj \<Rightarrow> string + string list \<times> obj" where
  \<comment> \<open>the terminal nodes and the continuations, in the order of the nodes\<close>
  "contract_rows registry graph [] acc = Inr acc"
| "contract_rows registry graph (p # rows) acc = (case p of (i, node) \<Rightarrow>
    if dependents i graph = []
    then if oget node ''terminal'' \<noteq> JBool True \<or> \<not> truthy (oget node ''terminal_gate'') then Inl ''terminal node lacks a sealed terminal gate''
      else if oget node ''kind'' = JStr ''resource-runner'' then Inl ''terminal node is a detached resource run''
      else contract_rows registry graph rows (fst acc @ [i], snd acc)
    else bindr (continuation_kind registry node) (\<lambda>k.
      contract_rows registry graph rows (fst acc, AList.update i k (snd acc))))"

definition workflow_contract :: "obj \<Rightarrow> obj list \<Rightarrow> json \<Rightarrow> string + json" where
  "workflow_contract registry nodes bindings =
    bindr (collectr node_id nodes) (\<lambda>ids. bindr (collectr dep_items nodes) (\<lambda>deps.
    bindr (contract_rows registry (zip ids deps) (zip ids nodes) ([], [])) (\<lambda>(terminal, continuations).
      if terminal = [] then Inl ''route declares no terminal node''
      else bindr (bindr (dict_item registry ''workflow_states'') items_of) (\<lambda>states.
        bindr (bindr (dict_item registry ''workflow_failure_states'') items_of) (\<lambda>failures.
          Inr (JObj [(''schema_version'', JInt 1), (''states'', JList states), (''failure_states'', JList failures),
            (''terminal_nodes'', JList (map JStr (sort terminal))), (''continuations'', JObj continuations),
            (''human_gate_bindings'', py_or bindings (JList []))]))))))"

section \<open>What an expansion does\<close>

definition nid :: "obj \<Rightarrow> string" where
  "nid node = the_str (oget node ''id'')"

definition deps :: "obj \<Rightarrow> json list" where
  "deps node = the_list (oget_or node ''depends_on'' (JList []))"

definition graph_ok :: "(string \<Rightarrow> nat) \<Rightarrow> obj list \<Rightarrow> bool" where
  \<comment> \<open>dependencies are lists and lead to nodes of a smaller rank: the graph has no cycle\<close>
  "graph_ok rank nodes \<longleftrightarrow> (\<forall>c \<in> set nodes. is_list (oget_or c ''depends_on'' (JList [])) \<and>
     (\<forall>d. JStr d \<in> set (deps c) \<longrightarrow> rank d < rank (nid c)))"

definition realized_specs :: "nat \<Rightarrow> string \<Rightarrow> obj \<Rightarrow> json list" where
  \<comment> \<open>the legs of a group that are realized\<close>
  "realized_specs level effective grp = (case order_of (oget grp ''min_intensity'') of Inl _ \<Rightarrow> []
     | Inr least \<Rightarrow> if level < least then [] else case as_seq (oget grp ''legs'') of Inl _ \<Rightarrow> []
       | Inr legs \<Rightarrow> slice_to legs (the (num_of (oget (the_obj (oget grp ''width_by_intensity'')) effective))))"

definition group_anchor :: "obj \<Rightarrow> string" where
  "group_anchor grp = the_str (oget grp ''node'')"

definition sibling_names :: "nat \<Rightarrow> string \<Rightarrow> obj \<Rightarrow> string list" where
  \<comment> \<open>the ids of the nodes a group adds\<close>
  "sibling_names level effective grp =
     map (\<lambda>s. group_anchor grp @ ''-'' @ the_str (oget (the_obj s) ''suffix'')) (tl (realized_specs level effective grp))"

lemma collectr_Inr: "collectr f xs = Inr ys \<longleftrightarrow> list_all2 (\<lambda>x y. f x = Inr y) xs ys"
  by (induction xs arbitrary: ys) (auto simp: bindr_Inr_iff list_all2_Cons1)

lemma list_all2_ex: "list_all2 P xs ys \<Longrightarrow> y \<in> set ys \<Longrightarrow> \<exists>x \<in> set xs. P x y"
  by (induction rule: list_all2_induct) auto

lemma list_all2_ex1: "list_all2 P xs ys \<Longrightarrow> x \<in> set xs \<Longrightarrow> \<exists>y \<in> set ys. P x y"
  by (induction rule: list_all2_induct) auto

lemma list_all2_map_eq: "list_all2 P xs ys \<Longrightarrow> (\<And>x y. P x y \<Longrightarrow> f x = g y) \<Longrightarrow> map f xs = map g ys"
  by (induction rule: list_all2_induct) auto

lemma map_zip_snd: "length is = length xs \<Longrightarrow> map (\<lambda>(i, s). h s) (zip is xs) = map h xs"
  by (induction "is" xs rule: list_induct2) auto

lemma dict_item_Inr: "dict_item d k = Inr v \<longleftrightarrow> map_of d k = Some v"
  by (auto simp: dict_item_def split: option.splits)

lemma dict_item_oget: "dict_item d k = Inr v \<Longrightarrow> oget d k = v"
  by (simp add: dict_item_Inr oget_def)

lemma as_obj_Inr: "as_obj v = Inr d \<longleftrightarrow> v = JObj d"
  by (auto simp: as_obj_def split: json.splits)

lemma as_str_Inr: "as_str v = Inr s \<longleftrightarrow> v = JStr s"
  by (auto simp: as_str_def split: json.splits)

lemma node_id_Inr: "node_id node = Inr i \<longleftrightarrow> map_of node ''id'' = Some (JStr i)"
  by (auto simp: node_id_def bindr_Inr_iff dict_item_Inr as_str_Inr)

lemma node_id_nid: "node_id node = Inr i \<Longrightarrow> nid node = i"
  by (simp add: node_id_Inr nid_def oget_def)

lemma collect_ids: "collectr node_id nodes = Inr ids \<Longrightarrow> ids = map nid nodes"
  unfolding collectr_Inr by (induction rule: list_all2_induct) (auto dest: node_id_nid)

lemma dict_update_other: "k \<notin> fst ` set e \<Longrightarrow> map_of (dict_update d e) k = map_of d k"
  by (induction e arbitrary: d) (auto simp: update_conv')

lemma leg_stamp_keys:
  assumes "leg_stamp grp b i w spec = Inr fields"
  shows "map fst fields = [''model_profile'', ''perspective'', ''parallel_group'', ''parallel_group_kind'', ''parallel_join_policy'',
    ''parallel_independence_axes'', ''parallel_leg_index'', ''parallel_leg_count'', ''parallel_leg_suffix'', ''parallel_anchor'', ''replica_group'', ''independence_axis'']"
  using assms by (auto simp: leg_stamp_def bindr_Inr_iff)

lemma leg_stamp_other:
  assumes "leg_stamp grp b i w spec = Inr fields" "k \<in> {''id'', ''depends_on'', ''outputs'', ''write_scope'', ''kind'', ''inputs''}"
  shows "map_of (dict_update base fields) k = map_of base k"
proof (rule dict_update_other)
  have "fst ` set fields = set (map fst fields)" by simp
  with leg_stamp_keys [OF assms(1)] assms(2) show "k \<notin> fst ` set fields" by auto
qed

lemma deps_cong: "map_of a ''depends_on'' = map_of b ''depends_on'' \<Longrightarrow> deps a = deps b \<and>
    is_list (oget_or a ''depends_on'' (JList [])) = is_list (oget_or b ''depends_on'' (JList []))"
  by (simp add: deps_def oget_or_def)

lemma nid_cong: "map_of a ''id'' = map_of b ''id'' \<Longrightarrow> nid a = nid b"
  by (simp add: nid_def oget_def)

definition copies :: "obj \<Rightarrow> obj \<Rightarrow> bool" where
  \<comment> \<open>the same dependencies\<close>
  "copies a b \<longleftrightarrow> map_of b ''depends_on'' = map_of a ''depends_on''"

lemma anchor_leg_Inr:
  assumes "anchor_leg grp b w base spec = Inr m"
  shows "copies base m" "nid m = nid base"
  using assms leg_stamp_other nid_cong [of m base] by (auto simp: anchor_leg_def bindr_Inr_iff copies_def)

lemma sibling_leg_Inr:
  assumes "sibling_leg grp b w base i spec = Inr m"
  shows "copies base m" "nid m = b @ ''-'' @ the_str (oget (the_obj spec) ''suffix'')"
proof -
  from assms obtain sp suffix outputs scope fields where sp: "spec = JObj sp" "dict_item sp ''suffix'' = Inr (JStr suffix)"
    and f: "leg_stamp grp b (int i) w sp = Inr fields"
    and m: "m = dict_update base ([(''id'', JStr (b @ ''-'' @ suffix)), (''outputs'', outputs), (''write_scope'', scope)] @ fields)"
    by (auto simp: sibling_leg_def bindr_Inr_iff as_obj_Inr as_str_Inr)
  let ?head = "[(''id'', JStr (b @ ''-'' @ suffix)), (''outputs'', outputs), (''write_scope'', scope)]"
  have "map_of m k = map_of (dict_update base ?head) k" if "k \<in> {''id'', ''depends_on''}" for k
    unfolding m dict_update_append using leg_stamp_other [OF f, of k] that by blast
  then show "copies base m" "nid m = b @ ''-'' @ the_str (oget (the_obj spec) ''suffix'')"
    using sp dict_item_oget [OF sp(2)] by (simp_all add: copies_def nid_def oget_def update_conv' dict_item_Inr)
qed

lemma realize_legs_Inr:
  assumes "realize_legs grp b w base specs = Inr members" "members \<noteq> []"
  shows "copies base (hd members)" "nid (hd members) = nid base" "\<forall>m \<in> set (tl members). copies base m"
    "map nid (tl members) = map (\<lambda>s. b @ ''-'' @ the_str (oget (the_obj s) ''suffix'')) (tl specs)"
proof -
  from assms obtain spec rest anchor siblings where specs: "specs = spec # rest" and anchor: "anchor_leg grp b w base spec = Inr anchor"
    and sib: "list_all2 (\<lambda>(i, s) m. sibling_leg grp b w anchor i s = Inr m) (zip [1 ..< Suc (length rest)] rest) siblings"
    and members: "members = anchor # siblings"
    by (cases specs) (auto simp: realize_legs_def bindr_Inr_iff collectr_Inr case_prod_unfold)
  show "copies base (hd members)" "nid (hd members) = nid base" using anchor_leg_Inr [OF anchor] members by simp_all
  show "\<forall>m \<in> set (tl members). copies base m"
    using list_all2_ex [OF sib] sibling_leg_Inr(1) anchor_leg_Inr(1) [OF anchor] members unfolding copies_def by fastforce
  have "map (\<lambda>(i, s). b @ ''-'' @ the_str (oget (the_obj s) ''suffix'')) (zip [1 ..< Suc (length rest)] rest) = map nid siblings"
    using sib by (rule list_all2_map_eq) (auto dest: sibling_leg_Inr)
  then show "map nid (tl members) = map (\<lambda>s. b @ ''-'' @ the_str (oget (the_obj s) ''suffix'')) (tl specs)"
    using members specs by (subst (asm) map_zip_snd) (simp_all del: upt_Suc)
qed

definition joined :: "string \<Rightarrow> string list \<Rightarrow> obj \<Rightarrow> obj \<Rightarrow> bool" where
  \<comment> \<open>the node after an expansion: a consumer of the anchor depends on the added nodes, too\<close>
  "joined a names c c' \<longleftrightarrow> nid c' = nid c \<and> is_list (oget_or c' ''depends_on'' (JList [])) \<and>
     deps c' = (if JStr a \<in> set (deps c) then deps c @ map JStr names else deps c)"

lemma consumer_join_Inr:
  assumes "consumer_join a base siblings c = Inr c'" "is_list (oget_or c ''depends_on'' (JList []))"
  shows "joined a (map nid siblings) c c'"
proof -
  from assms(2) obtain ds where ds: "oget_or c ''depends_on'' (JList []) = JList ds" by (auto simp: is_list_def split: json.splits)
  then have deps: "deps c = ds" by (simp add: deps_def)
  show ?thesis
  proof (cases "JStr a \<in> set ds")
    case False
    with assms(1) ds deps show ?thesis by (simp add: consumer_join_def holds_str_def joined_def is_list_def)
  next
    case True
    let ?c = "AList.update ''depends_on'' (JList (ds @ map JStr (map nid siblings))) c"
    from True assms(1) ds have "dict_item c ''depends_on'' = Inr (JList ds)"
      by (cases "map_of c ''depends_on''") (auto simp: oget_or_def dict_item_def)
    then have "bindr (dict_item c ''depends_on'') items_of = Inr ds" by (simp add: items_of_def)
    moreover from True assms(1) ds this obtain ids where ids: "collectr node_id siblings = Inr ids"
      by (cases "collectr node_id siblings") (simp_all add: consumer_join_def holds_str_def)
    ultimately have "(let node = ?c in if oget base ''kind'' = JStr ''review-worker'' then Inr node
      else bindr (items_of (oget_or node ''inputs'' (JList []))) (\<lambda>inputs.
        bindr (collectr (\<lambda>m. bindr (dict_item m ''outputs'') items_of) siblings) (\<lambda>outputs.
          Inr (AList.update ''inputs'' (JList (inputs @ concat outputs)) node)))) = (Inr c' :: string + obj)"
      using True assms(1) ds collect_ids [OF ids] by (simp add: consumer_join_def holds_str_def)
    then have "\<exists>v. c' = ?c \<or> c' = AList.update ''inputs'' v ?c"
      by (auto simp: Let_def bindr_Inr_iff split: if_splits)
    then have "map_of c' ''depends_on'' = Some (JList (ds @ map JStr (map nid siblings)))" "map_of c' ''id'' = map_of c ''id''"
      by (auto simp: update_conv')
    with True deps nid_cong [of c' c] show ?thesis by (simp add: joined_def deps_def oget_or_def is_list_def)
  qed
qed

lemma consumers_join_Inr:
  assumes "collectr (consumer_join a base siblings) cs = Inr cs'" "\<forall>c \<in> set cs. is_list (oget_or c ''depends_on'' (JList []))"
  shows "list_all2 (joined a (map nid siblings)) cs cs'"
  using assms consumer_join_Inr unfolding collectr_Inr by (induction cs cs' rule: list_all2_induct) auto

lemma expand_at_Inr:
  assumes run: "expand_at grp w n legs nodes i = Inr nodes'" and i: "i < length nodes"
    and lists: "\<forall>c \<in> set nodes. is_list (oget_or c ''depends_on'' (JList []))"
  obtains pre base siblings post a where "node_id (nodes ! i) = Inr a" "nodes' = pre @ base # siblings @ post"
    "map nid siblings = map (\<lambda>s. a @ ''-'' @ the_str (oget (the_obj s) ''suffix'')) (tl (slice_to legs n))"
    "nid base = a" "copies (nodes ! i) base" "\<forall>m \<in> set siblings. copies (nodes ! i) m"
    "list_all2 (joined a (map nid siblings)) (take i nodes) pre" "list_all2 (joined a (map nid siblings)) (drop (Suc i) nodes) post"
proof -
  from run obtain a members pre post where a: "node_id (nodes ! i) = Inr a" and members: "realize_legs grp a w (nodes ! i) (slice_to legs n) = Inr members"
    and pre: "collectr (consumer_join a (if members = [] then nodes ! i else hd members) (tl members)) (take i nodes) = Inr pre"
    and post: "collectr (consumer_join a (if members = [] then nodes ! i else hd members) (tl members)) (drop (Suc i) nodes) = Inr post"
    and nodes': "nodes' = pre @ (if members = [] then nodes ! i else hd members) # tl members @ post"
    by (auto simp: expand_at_def bindr_Inr_iff Let_def)
  note a' = node_id_nid [OF a]
  have names: "map nid (tl members) = map (\<lambda>s. a @ ''-'' @ the_str (oget (the_obj s) ''suffix'')) (tl (slice_to legs n)) \<and>
      (\<forall>m \<in> set (tl members). copies (nodes ! i) m) \<and> copies (nodes ! i) (if members = [] then nodes ! i else hd members) \<and>
      nid (if members = [] then nodes ! i else hd members) = a"
  proof (cases "members = []")
    case True
    with members have "slice_to legs n = []" by (cases "slice_to legs n") (auto simp: realize_legs_def bindr_Inr_iff)
    with True a' show ?thesis by (simp add: copies_def)
  next
    case False
    from realize_legs_Inr [OF members False] False a' show ?thesis by auto
  qed
  have "list_all2 (joined a (map nid (tl members))) (take i nodes) pre" "list_all2 (joined a (map nid (tl members))) (drop (Suc i) nodes) post"
    using lists by (auto intro!: consumers_join_Inr [OF pre] consumers_join_Inr [OF post] dest: in_set_takeD in_set_dropD)
  with a nodes' names show ?thesis by (intro that) auto
qed

lemma find_anchor_Inr: "find_anchor target nodes = Inr i \<Longrightarrow> i < length nodes \<and> (\<exists>a. target = JStr a \<and> node_id (nodes ! i) = Inr a)"
  by (induction nodes arbitrary: i) (auto simp: bindr_Inr_iff split: if_splits)

lemma graph_ok_lists: "graph_ok rank nodes \<Longrightarrow> \<forall>c \<in> set nodes. is_list (oget_or c ''depends_on'' (JList []))"
  by (simp add: graph_ok_def)

definition expands :: "string \<Rightarrow> string list \<Rightarrow> obj list \<Rightarrow> obj list \<Rightarrow> bool" where
  \<comment> \<open>one group: the names are added as siblings of the anchor \<open>a\<close>, and consumers are joined\<close>
  "expands a names nodes nodes' \<longleftrightarrow> mset (map nid nodes') = mset (map nid nodes) + mset names \<and>
     (\<forall>c' \<in> set nodes'. \<exists>c \<in> set nodes. (joined a names c c' \<or> copies c c' \<and> nid c = a \<and> nid c' \<in> insert a (set names)))"

lemma expand_group_Inr:
  assumes run: "expand_group level effective grp nodes = Inr nodes'" and ok: "graph_ok rank nodes"
  shows "expands (group_anchor grp) (sibling_names level effective grp) nodes nodes'"
proof -
  from run obtain mi least where mi: "dict_item grp ''min_intensity'' = Inr mi" "order_of mi = Inr least"
    by (auto simp: expand_group_def bindr_Inr_iff)
  note least = dict_item_oget [OF mi(1)] mi(2)
  show ?thesis
  proof (cases "level < least")
    case True
    with run least mi have "nodes' = nodes" "sibling_names level effective grp = []"
      by (simp_all add: expand_group_def sibling_names_def realized_specs_def)
    then show ?thesis using graph_ok_lists [OF ok] by (auto simp: expands_def joined_def)
  next
    case False
    with run mi obtain widths width target i lg legs n where widths: "dict_item grp ''width_by_intensity'' = Inr (JObj widths)"
      and width: "dict_item widths effective = Inr width" and target: "dict_item grp ''node'' = Inr target"
      and i: "find_anchor target nodes = Inr i" and legs: "dict_item grp ''legs'' = Inr lg" "as_seq lg = Inr legs"
      and n: "num_of width = Some n" and at: "expand_at grp width n legs nodes i = Inr nodes'"
      by (auto simp: expand_group_def bindr_Inr_iff as_obj_Inr split: option.splits)
    have specs: "realized_specs level effective grp = slice_to legs n"
      using False least dict_item_oget [OF widths] dict_item_oget [OF width] dict_item_oget [OF legs(1)] legs(2) n
      by (simp add: realized_specs_def)
    from find_anchor_Inr [OF i] obtain a where len: "i < length nodes" and a: "target = JStr a" "node_id (nodes ! i) = Inr a" by blast
    then have anchor: "group_anchor grp = a" using dict_item_oget [OF target] by (simp add: group_anchor_def)
    from expand_at_Inr [OF at len graph_ok_lists [OF ok]] obtain pre base siblings post a' where
      a': "node_id (nodes ! i) = Inr a'" and nodes': "nodes' = pre @ base # siblings @ post"
      and names0: "map nid siblings = map (\<lambda>s. a' @ ''-'' @ the_str (oget (the_obj s) ''suffix'')) (tl (slice_to legs n))"
      and base0: "nid base = a'" "copies (nodes ! i) base"
      and sib: "\<forall>m \<in> set siblings. copies (nodes ! i) m"
      and pre0: "list_all2 (joined a' (map nid siblings)) (take i nodes) pre" and post0: "list_all2 (joined a' (map nid siblings)) (drop (Suc i) nodes) post" .
    have "a' = a" using a' a(2) by simp
    then have names: "map nid siblings = sibling_names level effective grp" and base: "nid base = a" "copies (nodes ! i) base"
      and pre: "list_all2 (joined a (map nid siblings)) (take i nodes) pre" and post: "list_all2 (joined a (map nid siblings)) (drop (Suc i) nodes) post"
      using names0 base0 pre0 post0 by (simp_all add: sibling_names_def specs anchor)
    have split: "nodes = take i nodes @ nodes ! i # drop (Suc i) nodes" using len by (rule id_take_nth_drop)
    have ids: "map nid (take i nodes) = map nid pre" "map nid (drop (Suc i) nodes) = map nid post"
      using pre post by (auto intro: list_all2_map_eq simp: joined_def)
    have nida: "nid (nodes ! i) = a" using a(2) by (rule node_id_nid)
    have "mset (map nid nodes) = mset (map nid (take i nodes)) + {#a#} + mset (map nid (drop (Suc i) nodes))"
      using arg_cong [OF split, of "\<lambda>ns. mset (map nid ns)"] nida by simp
    then have "mset (map nid nodes') = mset (map nid nodes) + mset (sibling_names level effective grp)"
      unfolding nodes' using ids base(1) names by simp
    moreover have "\<exists>c \<in> set nodes. joined a (sibling_names level effective grp) c c' \<or> copies c c' \<and> nid c = a \<and> nid c' \<in> insert a (set (sibling_names level effective grp))"
      if c': "c' \<in> set nodes'" for c'
    proof -
      from c' consider "c' \<in> set pre" | "c' = base" | "c' \<in> set siblings" | "c' \<in> set post" unfolding nodes' by auto
      then show ?thesis
      proof cases
        case 1
        from list_all2_ex [OF pre 1] names show ?thesis by (metis in_set_takeD)
      next
        case 2
        with base nida len show ?thesis by (intro bexI [of _ "nodes ! i"]) auto
      next
        case 3
        then have "nid c' \<in> set (map nid siblings)" by simp
        with 3 sib names nida len show ?thesis by (intro bexI [of _ "nodes ! i"]) auto
      next
        case 4
        from list_all2_ex [OF post 4] names show ?thesis by (metis in_set_dropD)
      qed
    qed
    ultimately show ?thesis unfolding expands_def anchor by blast
  qed
qed

definition joins :: "obj list \<Rightarrow> string \<Rightarrow> string list \<Rightarrow> bool" where
  \<comment> \<open>whoever depends on \<open>a\<close> depends on all the names\<close>
  "joins nodes a names \<longleftrightarrow> (\<forall>c \<in> set nodes. JStr a \<in> set (deps c) \<longrightarrow> JStr ` set names \<subseteq> set (deps c))"

lemma copies_deps: "copies c c' \<Longrightarrow> deps c' = deps c \<and> is_list (oget_or c' ''depends_on'' (JList [])) = is_list (oget_or c ''depends_on'' (JList []))"
  unfolding copies_def by (rule deps_cong)

lemma expands_graph_ok:
  assumes e: "expands a names nodes nodes'" and ok: "graph_ok rank nodes" and rank: "\<forall>s \<in> set names. rank s = rank a"
  shows "graph_ok rank nodes'"
  unfolding graph_ok_def
proof
  fix c'
  assume "c' \<in> set nodes'"
  with e obtain c where c: "c \<in> set nodes" and "joined a names c c' \<or> copies c c' \<and> nid c = a \<and> nid c' \<in> insert a (set names)"
    unfolding expands_def by blast
  then show "is_list (oget_or c' ''depends_on'' (JList [])) \<and> (\<forall>d. JStr d \<in> set (deps c') \<longrightarrow> rank d < rank (nid c'))"
  proof (elim disjE conjE)
    assume "joined a names c c'"
    with ok c rank show ?thesis by (fastforce simp: graph_ok_def joined_def split: if_splits)
  next
    assume cp: "copies c c'" and "nid c = a" "nid c' \<in> insert a (set names)"
    with rank have "rank (nid c') = rank (nid c)" by auto
    with ok c copies_deps [OF cp] show ?thesis by (simp add: graph_ok_def)
  qed
qed

lemma expands_joins:
  assumes e: "expands a names nodes nodes'" and ok: "graph_ok rank nodes" and a: "a \<notin> set names"
  shows "joins nodes' a names"
  unfolding joins_def
proof (intro ballI impI)
  fix c'
  assume "c' \<in> set nodes'" and dep: "JStr a \<in> set (deps c')"
  with e obtain c where c: "c \<in> set nodes" and "joined a names c c' \<or> copies c c' \<and> nid c = a \<and> nid c' \<in> insert a (set names)"
    unfolding expands_def by blast
  then show "JStr ` set names \<subseteq> set (deps c')"
  proof (elim disjE conjE)
    assume "joined a names c c'"
    with dep a show ?thesis by (auto simp: joined_def split: if_splits)
  next
    assume "copies c c'" "nid c = a"
    with ok c dep copies_deps [of c c'] show ?thesis by (fastforce simp: graph_ok_def)
  qed
qed

lemma expands_keeps_joins:
  assumes e: "expands a names nodes nodes'" and j: "joins nodes b ns" and b: "b \<notin> set names"
  shows "joins nodes' b ns"
  unfolding joins_def
proof (intro ballI impI)
  fix c'
  assume "c' \<in> set nodes'" and dep: "JStr b \<in> set (deps c')"
  with e obtain c where c: "c \<in> set nodes" and "joined a names c c' \<or> copies c c'" unfolding expands_def by blast
  then have "JStr b \<in> set (deps c) \<and> set (deps c) \<subseteq> set (deps c')"
    using dep b copies_deps [of c c'] by (auto simp: joined_def split: if_splits)
  with j c show "JStr ` set ns \<subseteq> set (deps c')" unfolding joins_def by blast
qed

definition closed_deps :: "obj list \<Rightarrow> bool" where
  \<comment> \<open>every dependency is a node\<close>
  "closed_deps nodes \<longleftrightarrow> (\<forall>c \<in> set nodes. \<forall>d. JStr d \<in> set (deps c) \<longrightarrow> d \<in> nid ` set nodes)"

lemma expands_ids: "expands a names nodes nodes' \<Longrightarrow> nid ` set nodes' = nid ` set nodes \<union> set names"
proof -
  assume "expands a names nodes nodes'"
  then have "set_mset (mset (map nid nodes')) = set_mset (mset (map nid nodes) + mset names)" unfolding expands_def by presburger
  then show ?thesis by simp
qed

lemma expands_closed:
  assumes e: "expands a names nodes nodes'" and cl: "closed_deps nodes"
  shows "closed_deps nodes'"
  unfolding closed_deps_def
proof (intro ballI allI impI)
  fix c' d
  assume "c' \<in> set nodes'" and dep: "JStr d \<in> set (deps c')"
  with e obtain c where c: "c \<in> set nodes" and "joined a names c c' \<or> copies c c'" unfolding expands_def by blast
  then have "JStr d \<in> set (deps c) \<or> d \<in> set names"
    using dep copies_deps [of c c'] by (auto simp: joined_def split: if_splits)
  then show "d \<in> nid ` set nodes'" using cl c expands_ids [OF e] unfolding closed_deps_def by blast
qed

abbreviation names_of :: "nat \<Rightarrow> string \<Rightarrow> json \<Rightarrow> string list" where
  "names_of level effective g \<equiv> sibling_names level effective (the_obj g)"

abbreviation anchor_of :: "json \<Rightarrow> string" where
  "anchor_of g \<equiv> group_anchor (the_obj g)"

lemma expand_groups_Inr:
  assumes "expand_groups level effective gs nodes = Inr nodes'" "graph_ok rank nodes" "closed_deps nodes"
    "\<forall>g \<in> set gs. \<forall>s \<in> set (names_of level effective g). rank s = rank (anchor_of g)"
    "\<forall>g \<in> set gs. \<forall>h \<in> set gs. anchor_of g \<notin> set (names_of level effective h)"
  shows "graph_ok rank nodes' \<and> closed_deps nodes' \<and>
    mset (map nid nodes') = mset (map nid nodes @ concat (map (names_of level effective) gs)) \<and>
    (\<forall>g \<in> set gs. joins nodes' (anchor_of g) (names_of level effective g)) \<and>
    (\<forall>b ns. joins nodes b ns \<longrightarrow> (\<forall>g \<in> set gs. b \<notin> set (names_of level effective g)) \<longrightarrow> joins nodes' b ns)"
  using assms
proof (induction gs arbitrary: nodes)
  case (Cons g gs)
  from Cons.prems(1) obtain grp nodes1 where g: "g = JObj grp" and one: "expand_group level effective grp nodes = Inr nodes1"
    and rest: "expand_groups level effective gs nodes1 = Inr nodes'"
    by (auto simp: bindr_Inr_iff as_obj_Inr)
  note e = expand_group_Inr [OF one Cons.prems(2)]
  have ranks: "\<forall>s \<in> set (sibling_names level effective grp). rank s = rank (group_anchor grp)" using Cons.prems(4) g by simp
  have fresh: "group_anchor grp \<notin> set (sibling_names level effective grp)" using Cons.prems(5) g by auto
  note ok1 = expands_graph_ok [OF e Cons.prems(2) ranks]
  have ih: "graph_ok rank nodes' \<and> closed_deps nodes' \<and>
    mset (map nid nodes') = mset (map nid nodes1 @ concat (map (names_of level effective) gs)) \<and>
    (\<forall>g \<in> set gs. joins nodes' (anchor_of g) (names_of level effective g)) \<and>
    (\<forall>b ns. joins nodes1 b ns \<longrightarrow> (\<forall>g \<in> set gs. b \<notin> set (names_of level effective g)) \<longrightarrow> joins nodes' b ns)"
    using Cons.prems by (intro Cons.IH [OF rest ok1 expands_closed [OF e Cons.prems(3)]]) simp_all
  have "mset (map nid nodes1) = mset (map nid nodes) + mset (sibling_names level effective grp)" using e unfolding expands_def by blast
  moreover have "joins nodes' (group_anchor grp) (sibling_names level effective grp)"
    using ih expands_joins [OF e Cons.prems(2) fresh] Cons.prems(5) g by auto
  moreover have "joins nodes' b ns" if "joins nodes b ns" "\<forall>g \<in> set (g # gs). b \<notin> set (names_of level effective g)" for b ns
    using ih expands_keeps_joins [OF e that(1)] that(2) g by simp
  ultimately show ?case using ih g by simp
qed simp

lemma distinct_concat_nth: "distinct (concat xss) \<Longrightarrow> i < length xss \<Longrightarrow> j < length xss \<Longrightarrow> i \<noteq> j \<Longrightarrow> set (xss ! i) \<inter> set (xss ! j) = {}"
proof (induction xss arbitrary: i j)
  case (Cons xs xss)
  have other: "set xs \<inter> set (xss ! k) = {}" if "k < length xss" for k
    using Cons.prems(1) nth_mem [OF that] by fastforce
  from Cons other show ?case by (cases i; cases j) auto
qed simp

definition sound_graph :: "obj list \<Rightarrow> bool" where
  \<comment> \<open>distinct ids, dependencies are nodes, no cycle\<close>
  "sound_graph nodes \<longleftrightarrow> distinct (map nid nodes) \<and> closed_deps nodes \<and> (\<exists>rank. graph_ok rank nodes)"


section \<open>What a contract promises\<close>

definition leads_to :: "obj list \<Rightarrow> (string \<times> string) set" where
  \<comment> \<open>from a node to the nodes that depend on it\<close>
  "leads_to nodes = {(nid a, nid b) | a b. a \<in> set nodes \<and> b \<in> set nodes \<and> JStr (nid a) \<in> set (deps b)}"

definition sinks :: "obj list \<Rightarrow> obj list" where
  "sinks nodes = filter (\<lambda>n. \<forall>m \<in> set nodes. JStr (nid n) \<notin> set (deps m)) nodes"

lemma dep_items_deps:
  assumes "dep_items node = Inr ds" "is_list (oget_or node ''depends_on'' (JList []))"
  shows "ds = deps node"
  using assms by (cases "map_of node ''depends_on''")
    (auto simp: dep_items_def deps_def oget_def oget_or_def py_or_def items_of_def is_list_def bindr_Inr_iff split: if_splits json.splits)

lemma dependents_Nil: "dependents i graph = [] \<longleftrightarrow> (\<forall>(j, ds) \<in> set graph. JStr i \<notin> set ds)"
  by (auto simp: dependents_def)

lemma continuation_kind_Inr:
  assumes "continuation_kind registry node = Inr k"
  shows "\<exists>s kinds. k = JStr s \<and> oget (the_obj (oget node ''continuation'')) ''kind'' = JStr s \<and>
    oget registry ''continuation_kinds'' = JObj kinds \<and> s \<in> fst ` set kinds"
proof (cases "oget node ''continuation''")
  case (JObj c)
  with assms obtain kinds where kinds: "bindr (dict_item registry ''continuation_kinds'') as_obj = Inr kinds"
    by (cases "bindr (dict_item registry ''continuation_kinds'') as_obj") (auto simp: continuation_kind_def)
  then have "oget registry ''continuation_kinds'' = JObj kinds" by (auto simp: bindr_Inr_iff as_obj_Inr dest: dict_item_oget)
  with assms JObj kinds show ?thesis by (cases "oget c ''kind''") (auto simp: continuation_kind_def split: if_splits)
qed (use assms in \<open>simp_all add: continuation_kind_def\<close>)

lemma contract_rows_Inr:
  assumes "contract_rows registry graph rows acc = Inr (ts, cs)" "distinct (map fst rows)"
  shows "ts = fst acc @ map fst (filter (\<lambda>(i, _). dependents i graph = []) rows)"
    "\<forall>(i, node) \<in> set rows. if dependents i graph = []
       then oget node ''terminal'' = JBool True \<and> truthy (oget node ''terminal_gate'') \<and> oget node ''kind'' \<noteq> JStr ''resource-runner''
       else \<exists>k. continuation_kind registry node = Inr k \<and> map_of cs i = Some k"
    "\<forall>i. i \<notin> fst ` set rows \<longrightarrow> map_of cs i = map_of (snd acc) i"
  using assms
proof (induction rows arbitrary: acc)
  case (Cons p rows)
  obtain i node where p: "p = (i, node)" by fastforce
  {
    case 1
    show ?case
    proof (cases "dependents i graph = []")
      case True
      with 1 p have "contract_rows registry graph rows (fst acc @ [i], snd acc) = Inr (ts, cs)" by (auto split: if_splits)
      from Cons.IH(1) [OF this] 1 True p show ?thesis by simp
    next
      case False
      with 1 p obtain k where "contract_rows registry graph rows (fst acc, AList.update i k (snd acc)) = Inr (ts, cs)"
        by (auto simp: bindr_Inr_iff)
      from Cons.IH(1) [OF this] 1 False p show ?thesis by simp
    qed
  next
    case 2
    show ?case
    proof (cases "dependents i graph = []")
      case True
      with 2 p have rest: "contract_rows registry graph rows (fst acc @ [i], snd acc) = Inr (ts, cs)"
        and node: "oget node ''terminal'' = JBool True \<and> truthy (oget node ''terminal_gate'') \<and> oget node ''kind'' \<noteq> JStr ''resource-runner''"
        and d: "distinct (map fst rows)" by (auto split: if_splits)
      from Cons.IH(2) [OF rest d] True node p show ?thesis by simp
    next
      case False
      with 2 p obtain k where k: "continuation_kind registry node = Inr k"
        and rest: "contract_rows registry graph rows (fst acc, AList.update i k (snd acc)) = Inr (ts, cs)" by (auto simp: bindr_Inr_iff)
      from 2 p have d: "distinct (map fst rows)" "i \<notin> fst ` set rows" by auto
      have "map_of cs i = Some k" using Cons.IH(3) [OF rest d(1)] d(2) by (simp add: update_conv')
      with False k p Cons.IH(2) [OF rest d(1)] show ?thesis by simp
    qed
  next
    case 3
    show ?case
    proof (cases "dependents i graph = []")
      case True
      with 3 p have rest: "contract_rows registry graph rows (fst acc @ [i], snd acc) = Inr (ts, cs)"
        and d: "distinct (map fst rows)" by (auto split: if_splits)
      from Cons.IH(3) [OF rest d] p show ?thesis by simp
    next
      case False
      with 3 p obtain k where rest: "contract_rows registry graph rows (fst acc, AList.update i k (snd acc)) = Inr (ts, cs)"
        by (auto simp: bindr_Inr_iff)
      from 3 p have d: "distinct (map fst rows)" by auto
      from Cons.IH(3) [OF rest d] p show ?thesis by (simp add: update_conv')
    qed
  }
qed simp_all

lemma workflow_contract_Inr:
  assumes run: "workflow_contract registry nodes bindings = Inr c" and ok: "graph_ok rank nodes" and d: "distinct (map nid nodes)"
  obtains cs where "oget (the_obj c) ''terminal_nodes'' = JList (map JStr (sort (map nid (sinks nodes))))" "sinks nodes \<noteq> []"
    "oget (the_obj c) ''continuations'' = JObj cs"
    "\<forall>n \<in> set nodes. if n \<in> set (sinks nodes)
       then oget n ''terminal'' = JBool True \<and> truthy (oget n ''terminal_gate'') \<and> oget n ''kind'' \<noteq> JStr ''resource-runner''
       else \<exists>k. continuation_kind registry n = Inr k \<and> map_of cs (nid n) = Some k"
proof -
  from run obtain ids dss ts cs states failures where ids: "collectr node_id nodes = Inr ids" and dss: "collectr dep_items nodes = Inr dss"
    and rows: "contract_rows registry (zip ids dss) (zip ids nodes) ([], []) = Inr (ts, cs)" and ts: "ts \<noteq> []"
    and c: "c = JObj [(''schema_version'', JInt 1), (''states'', JList states), (''failure_states'', JList failures),
            (''terminal_nodes'', JList (map JStr (sort ts))), (''continuations'', JObj cs), (''human_gate_bindings'', py_or bindings (JList []))]"
    by (auto simp: workflow_contract_def bindr_Inr_iff split: if_splits)
  have ids': "ids = map nid nodes" using collect_ids [OF ids] .
  have dss': "dss = map deps nodes"
    using dss graph_ok_lists [OF ok] unfolding collectr_Inr by (induction rule: list_all2_induct) (auto dest: dep_items_deps)
  have graph: "zip ids dss = map (\<lambda>n. (nid n, deps n)) nodes" "zip ids nodes = map (\<lambda>n. (nid n, n)) nodes"
    unfolding ids' dss' by (induction nodes) auto
  have sink: "dependents (nid n) (zip ids dss) = [] \<longleftrightarrow> (\<forall>m \<in> set nodes. JStr (nid n) \<notin> set (deps m))" for n
    unfolding dependents_Nil graph by auto
  have fst: "map fst (zip ids nodes) = map nid nodes" unfolding graph by simp
  note spec = contract_rows_Inr [OF rows, unfolded fst, OF d]
  have "ts = map nid (sinks nodes)" using spec(1) unfolding graph(2) sinks_def by (simp add: filter_map comp_def sink)
  moreover have "\<forall>n \<in> set nodes. if n \<in> set (sinks nodes)
       then oget n ''terminal'' = JBool True \<and> truthy (oget n ''terminal_gate'') \<and> oget n ''kind'' \<noteq> JStr ''resource-runner''
       else \<exists>k. continuation_kind registry n = Inr k \<and> map_of cs (nid n) = Some k"
    using spec(2) unfolding graph(2) by (auto simp: sinks_def sink)
  ultimately show ?thesis using that c ts by auto
qed

lemma leads_to_sink:
  assumes ok: "graph_ok rank nodes"
  shows "n \<in> set nodes \<Longrightarrow> \<exists>t \<in> set (sinks nodes). (nid n, nid t) \<in> (leads_to nodes)\<^sup>*"
proof (induction n rule: measure_induct_rule [of "\<lambda>n. Max (rank ` nid ` set nodes) - rank (nid n)"])
  case (less n)
  show ?case
  proof (cases "n \<in> set (sinks nodes)")
    case False
    with less.prems obtain m where m: "m \<in> set nodes" "JStr (nid n) \<in> set (deps m)" by (auto simp: sinks_def)
    with ok have rank: "rank (nid n) < rank (nid m)" unfolding graph_ok_def by blast
    have "rank (nid m) \<le> Max (rank ` nid ` set nodes)" using m(1) by (intro Max_ge) auto
    with rank less.IH [OF _ m(1)] obtain t where "t \<in> set (sinks nodes)" "(nid m, nid t) \<in> (leads_to nodes)\<^sup>*" by force
    moreover have "(nid n, nid m) \<in> leads_to nodes" using m less.prems unfolding leads_to_def by blast
    ultimately show ?thesis by (meson converse_rtrancl_into_rtrancl)
  qed auto
qed

text \<open>C36: a workflow contract ends the graph: its terminal nodes are exactly the nodes nothing depends on, each with a gate
  and none a detached run; every other node has a continuation of a declared kind on record; and from every node a chain of
  dependents leads to a terminal one.\<close>
theorem contract_ends_the_graph:
  assumes run: "workflow_contract registry nodes bindings = Inr c" and sound: "sound_graph nodes"
  shows "oget (the_obj c) ''terminal_nodes'' = JList (map JStr (sort (map nid (sinks nodes)))) \<and>
    (\<forall>t \<in> set (sinks nodes). oget t ''terminal'' = JBool True \<and> truthy (oget t ''terminal_gate'') \<and> oget t ''kind'' \<noteq> JStr ''resource-runner'') \<and>
    (\<forall>n \<in> set nodes - set (sinks nodes). \<exists>k kinds. oget (the_obj (oget (the_obj c) ''continuations'')) (nid n) = JStr k \<and>
       oget registry ''continuation_kinds'' = JObj kinds \<and> k \<in> fst ` set kinds) \<and>
    (\<forall>n \<in> set nodes. \<exists>t \<in> set (sinks nodes). (nid n, nid t) \<in> (leads_to nodes)\<^sup>*)"
proof -
  from sound obtain rank where ok: "graph_ok rank nodes" and d: "distinct (map nid nodes)" unfolding sound_graph_def by blast
  from workflow_contract_Inr [OF run ok d] obtain cs where ts: "oget (the_obj c) ''terminal_nodes'' = JList (map JStr (sort (map nid (sinks nodes))))"
    and cs: "oget (the_obj c) ''continuations'' = JObj cs"
    and rows: "\<forall>n \<in> set nodes. if n \<in> set (sinks nodes)
       then oget n ''terminal'' = JBool True \<and> truthy (oget n ''terminal_gate'') \<and> oget n ''kind'' \<noteq> JStr ''resource-runner''
       else \<exists>k. continuation_kind registry n = Inr k \<and> map_of cs (nid n) = Some k" by blast
  have "set (sinks nodes) \<subseteq> set nodes" by (auto simp: sinks_def)
  with rows have "\<forall>t \<in> set (sinks nodes). oget t ''terminal'' = JBool True \<and> truthy (oget t ''terminal_gate'') \<and> oget t ''kind'' \<noteq> JStr ''resource-runner''"
    by auto
  moreover have "\<exists>k kinds. oget (the_obj (oget (the_obj c) ''continuations'')) (nid n) = JStr k \<and>
       oget registry ''continuation_kinds'' = JObj kinds \<and> k \<in> fst ` set kinds" if "n \<in> set nodes - set (sinks nodes)" for n
    using that rows cs continuation_kind_Inr [of registry n] by (fastforce simp: oget_def)
  ultimately show ?thesis using ts leads_to_sink [OF ok] by blast
qed

section \<open>Witnesses\<close>

definition strs :: "string list \<Rightarrow> json" where
  "strs ss = JList (map JStr ss)"

definition demo_stages :: "obj list" where
  "demo_stages = [
     [(''id'', JStr ''plan''), (''kind'', JStr ''pipeline-stage''), (''outputs'', strs [''plan.md'']), (''write_scope'', strs [''plan.md'']),
      (''continuation'', JObj [(''kind'', JStr ''inline-next'')])],
     [(''id'', JStr ''check''), (''kind'', JStr ''map-worker''), (''depends_on'', strs [''plan'']), (''inputs'', strs [''plan.md'']),
      (''outputs'', strs [''check.md'']), (''write_scope'', strs [''check.md'']), (''terminal'', JBool True), (''terminal_gate'', JStr ''g'')]]"

definition demo_groups :: "json list" where
  "demo_groups = [JObj [(''id'', JStr ''plans''), (''node'', JStr ''plan''), (''kind'', JStr ''explore''), (''min_intensity'', JStr ''standard''),
     (''width_by_intensity'', JObj [(''standard'', JInt 2)]), (''join_policy'', JStr ''all''), (''independence_axes'', strs [''cross-harness'']),
     (''legs'', JList (map (\<lambda>s. JObj [(''suffix'', JStr s), (''perspective'', JStr s), (''model_profile'', JStr ''deep'')]) [''anchor'', ''alt'']))]]"

lemma demo_stages_sound: "sound_graph demo_stages"
proof -
  have "distinct (map nid demo_stages)" by code_simp
  moreover have "closed_deps demo_stages"
    by (simp add: closed_deps_def demo_stages_def nid_def deps_def oget_def oget_or_def strs_def)
  moreover have "graph_ok (\<lambda>s. if s = ''plan'' then 0 else 1) demo_stages"
    by (simp add: graph_ok_def demo_stages_def nid_def deps_def oget_def oget_or_def strs_def is_list_def)
  ultimately show ?thesis unfolding sound_graph_def by blast
qed


theorem contract_ends_the_graph_witness:
  "\<exists>c. workflow_contract [(''continuation_kinds'', JObj [(''inline-next'', JObj [])]), (''workflow_states'', strs []), (''workflow_failure_states'', strs [])]
       demo_stages JNull = Inr c \<and> oget (the_obj c) ''terminal_nodes'' = strs [''check'']"
proof -
  let ?registry = "[(''continuation_kinds'', JObj [(''inline-next'', JObj [])]), (''workflow_states'', strs []), (''workflow_failure_states'', strs [])]"
  have "isl (workflow_contract ?registry demo_stages JNull) = False" by code_simp
  then obtain c where c: "workflow_contract ?registry demo_stages JNull = Inr c" by (cases "workflow_contract ?registry demo_stages JNull") auto
  have "map nid (sinks demo_stages) = [''check'']" by code_simp
  with contract_ends_the_graph [OF c demo_stages_sound] c show ?thesis by (simp add: strs_def)
qed

text \<open>
  Nothing in the expansion itself keeps the ids distinct: the id of an added leg may be one a node already has.
\<close>

lemma added_id_may_collide:
  "(case expand_parallel_groups (demo_stages @ [[(''id'', JStr ''plan-alt'')]]) (JList demo_groups) ''standard'' of
      Inr nodes \<Rightarrow> \<not> distinct (map nid nodes) | Inl _ \<Rightarrow> False)"
  by code_simp

end
