(* ===== verification/Route_Evidence.thy ===== *)
theory Route_Evidence
  imports Route_Graph Registry_Rows
begin

text \<open>
  The evidence a route is sealed with (\<open>utilities/capability-route.py\<close>, \<open>_validate_registered_headless_evidence\<close> to
  \<open>_verify_fallback_chain\<close>): the candidates of a quick route, the gate evidence of a tracked one, the checked tuples a
  nested launch may use, and the ordered fallback chain compiled from them.

  A contract version is the number the code compares; a set literal raises \<open>TypeError\<close> on a list or a dictionary.
\<close>

section \<open>Vocabulary\<close>

definition TRACKING :: "string list" where
  "TRACKING = [''tracked'', ''untracked'']"

definition GATE_FIELDS :: "string list" where
  "GATE_FIELDS = [''spec_read'', ''drift_verdict'', ''workflow_mode'', ''artifact_guard'']"

definition NESTED_STATUSES :: "string list" where
  "NESTED_STATUSES = [''supported'', ''unsupported'', ''unknown'']"

definition NESTED_FIELDS :: "string list" where
  \<comment> \<open>sorted\<close>
  "NESTED_FIELDS = [''child_harness'', ''failure_class'', ''launch_authority'', ''parent_harness'', ''parent_sandbox'',
     ''parent_transport'', ''probe_source'', ''probe_time'', ''status'']"

definition BROKER_FIELDS :: "string list" where
  "BROKER_FIELDS = [''broker_root'', ''broker_instance'']"

definition DISPATCH_CONTRACT_VERSION :: int where
  "DISPATCH_CONTRACT_VERSION = 3"

definition FALLBACK_ORDER :: "string list" where
  "FALLBACK_ORDER = [''same-harness-headless'', ''cross-harness-headless'', ''native-subagent'', ''inline'']"

definition EVIDENCE_CONSUMER_DISPATCH_DEPTH :: int where
  "EVIDENCE_CONSUMER_DISPATCH_DEPTH = 2"

definition HEADLESS_FIELDS :: "string list" where
  \<comment> \<open>\<open>REGISTERED_HEADLESS_EVIDENCE_FIELDS\<close>, sorted\<close>
  "HEADLESS_FIELDS = [''harness'', ''probe_source'', ''probe_time'', ''status'', ''surface'', ''transport'']"

definition HEADLESS_HARNESSES :: "string list" where
  "HEADLESS_HARNESSES = [''claude'', ''codex'', ''opencode'']"

definition NATIVE_SURFACES :: "(string \<times> string) list" where
  "NATIVE_SURFACES = [(''codex'', ''codex-native-subagent''), (''claude'', ''claude-subagent'')]"

definition NATIVE_FIELDS :: "string list" where
  \<comment> \<open>\<open>NATIVE_EVIDENCE_FIELDS\<close>, sorted\<close>
  "NATIVE_FIELDS = [''check_source'', ''execution_surface'', ''harness'', ''registered_worker'', ''status'', ''transport'']"

definition PARENT_SANDBOXES :: "(string \<times> string list) list" where
  \<comment> \<open>\<open>WRAPPER_PARENT_SANDBOXES\<close>\<close>
  "PARENT_SANDBOXES = [(''claude'', [''adapter-default'']),
     (''codex'', [''workspace-write'', ''danger-full-access'', ''read-only'']), (''opencode'', [''adapter-default''])]"

definition PARENT_TRANSPORT :: "(int \<times> string) list" where
  \<comment> \<open>\<open>PARENT_TRANSPORT_BY_DISPATCH_DEPTH\<close>\<close>
  "PARENT_TRANSPORT = [(0, ''interactive''), (1, ''headless'')]"

definition in_set :: "json \<Rightarrow> string list \<Rightarrow> string + bool" where
  \<comment> \<open>\<open>v in {...}\<close>\<close>
  "in_set v ss = (if hashable v then Inr (v \<in> JStr ` set ss) else Inl ''TypeError'')"

definition require :: "string \<Rightarrow> bool \<Rightarrow> string + unit" where
  \<comment> \<open>\<open>if not b: raise ValueError(e)\<close>\<close>
  "require e b = (if b then Inr () else Inl e)"

definition has_fields :: "string list \<Rightarrow> obj \<Rightarrow> bool" where
  "has_fields ks d \<longleftrightarrow> set ks \<subseteq> fst ` set d"

definition only_fields :: "string list \<Rightarrow> obj \<Rightarrow> obj" where
  \<comment> \<open>\<open>{key: row[key] for key in ks}\<close>\<close>
  "only_fields ks d = map (\<lambda>k. (k, oget d k)) ks"

section \<open>Candidates of a quick route\<close>

definition headless_row :: "json list \<Rightarrow> json \<Rightarrow> string + obj" where
  \<comment> \<open>one candidate; \<open>seen\<close> are the harnesses before it\<close>
  "headless_row seen row = (case row of
      JObj d \<Rightarrow>
        if \<not> has_fields HEADLESS_FIELDS d then Inl ''quick-headless-unavailable'' else
        bindr (in_set (oget d ''status'') NESTED_STATUSES) (\<lambda>status.
        bindr (require ''quick-headless-unavailable'' (status \<and> oget d ''transport'' = JStr ''headless'' \<and> oget d ''surface'' = JStr ''registered-headless'')) (\<lambda>_.
        bindr (in_set (oget d ''harness'') HEADLESS_HARNESSES) (\<lambda>harness.
        bindr (require ''quick-headless-unavailable'' (harness \<and> oget d ''harness'' \<notin> set seen \<and> truthy (oget d ''probe_source'') \<and> truthy (oget d ''probe_time''))) (\<lambda>_.
          Inr (only_fields HEADLESS_FIELDS d)))))
    | _ \<Rightarrow> Inl ''quick-headless-unavailable'')"

primrec headless_rows :: "json list \<Rightarrow> json list \<Rightarrow> string + obj list" where
  "headless_rows seen [] = Inr []"
| "headless_rows seen (row # rows) = bindr (headless_row seen row) (\<lambda>d.
     bindr (headless_rows (oget d ''harness'' # seen) rows) (\<lambda>ds. Inr (d # ds)))"

definition validate_headless_evidence :: "json \<Rightarrow> string + obj list" where
  \<comment> \<open>\<open>_validate_registered_headless_evidence\<close>\<close>
  "validate_headless_evidence evidence = (case evidence of
      JObj e \<Rightarrow> (case oget e ''candidates'' of
          JList (c # cs) \<Rightarrow> bindr (headless_rows [] (c # cs)) (\<lambda>rows.
            if list_ex (\<lambda>d. oget d ''status'' = JStr ''supported'') rows
            then Inr (sort_key (\<lambda>d. the_str (oget d ''harness'')) rows)
            else Inl ''quick-headless-unavailable'')
        | _ \<Rightarrow> Inl ''quick-headless-unavailable'')
    | _ \<Rightarrow> Inl ''quick-headless-unavailable'')"

section \<open>Gate evidence and scopes\<close>

definition gate_row :: "json \<Rightarrow> json \<Rightarrow> string + unit" where
  "gate_row tracking row = (case row of
      JObj d \<Rightarrow> (case oget d ''satisfied'' of
          JBool ok \<Rightarrow> if \<not> truthy (oget d ''source'') then Inl ''tracked gate requires satisfied boolean and source''
            else if tracking = JStr ''tracked'' \<and> \<not> ok then Inl ''tracked gate must be satisfied'' else Inr ()
        | _ \<Rightarrow> Inl ''tracked gate requires satisfied boolean and source'')
    | _ \<Rightarrow> Inl ''tracked gate requires satisfied boolean and source'')"

definition validate_tracking_evidence :: "json \<Rightarrow> json \<Rightarrow> string + json" where
  "validate_tracking_evidence tracking evidence =
    bindr (in_set tracking TRACKING) (\<lambda>known. if \<not> known then Inl ''invalid tracking value'' else
    case evidence of
      JObj e \<Rightarrow>
        if fst ` set e \<noteq> set GATE_FIELDS then Inl ''tracked gate evidence requires four fields''
        else if oget e ''workflow_mode'' \<noteq> tracking then Inl ''tracked gate workflow_mode mismatch''
        else if \<not> nonempty_str (oget e ''drift_verdict'') then Inl ''tracked gate drift_verdict required''
        else bindr (gate_row tracking (oget e ''spec_read'')) (\<lambda>_. bindr (gate_row tracking (oget e ''artifact_guard'')) (\<lambda>_.
          Inr evidence))
    | _ \<Rightarrow> Inl ''tracked gate evidence requires four fields'')"

definition scope_touches_spec :: "string \<Rightarrow> bool" where
  "scope_touches_spec scope = (let root = (if endswith ''/**'' scope then take (length scope - 3) scope else scope) in
     root = ''spec'' \<or> startswith ''spec/'' root)"

section \<open>Checked tuples\<close>

definition evidence_parent_depth :: "obj list \<Rightarrow> json \<Rightarrow> string + int" where
  \<comment> \<open>\<open>_evidence_parent_dispatch_depth\<close>\<close>
  "evidence_parent_depth nodes owner =
    (if \<not> list_ex (\<lambda>n. num_of (oget n ''dispatch_depth'') = Some EVIDENCE_CONSUMER_DISPATCH_DEPTH) nodes
     then Inl ''dispatch-evidence-without-consumer-node''
     else if num_of owner \<noteq> Some (EVIDENCE_CONSUMER_DISPATCH_DEPTH - 1) then Inl ''dispatch-evidence-parent-depth-mismatch''
     else Inr (EVIDENCE_CONSUMER_DISPATCH_DEPTH - 1))"

definition tuple_parent_identity :: "obj \<Rightarrow> int \<Rightarrow> string + unit" where
  \<comment> \<open>\<open>_validate_tuple_parent_identity\<close>\<close>
  "tuple_parent_identity row depth =
    bindr (in_set (oget row ''parent_harness'') (map fst PARENT_SANDBOXES)) (\<lambda>parent.
    bindr (require ''dispatch-evidence-parent-harness-unknown'' parent) (\<lambda>_.
    bindr (in_set (oget row ''child_harness'') (map fst PARENT_SANDBOXES)) (\<lambda>child.
    bindr (require ''dispatch-evidence-child-harness-unknown'' child) (\<lambda>_.
    case map_of PARENT_TRANSPORT depth of
      None \<Rightarrow> Inl ''KeyError''
    | Some transport \<Rightarrow>
        bindr (require ''dispatch-evidence-parent-transport-mismatch'' (oget row ''parent_transport'' = JStr transport)) (\<lambda>_.
        require ''dispatch-evidence-parent-sandbox-unknown''
          (oget row ''parent_sandbox'' \<in> JStr ` set (the (map_of PARENT_SANDBOXES (the_str (oget row ''parent_harness'')))))))))) "

definition version_fields :: "int \<Rightarrow> int \<Rightarrow> obj \<Rightarrow> string + obj" where
  \<comment> \<open>the part of a tuple's check that depends on the contract version, and the broker fields it keeps\<close>
  "version_fields version depth row =
    (if version = DISPATCH_CONTRACT_VERSION then
       bindr (require ''v3 dispatch evidence requires conductor launch authority'' (oget row ''launch_authority'' = JStr ''conductor'')) (\<lambda>_.
       bindr (in_set (oget row ''parent_transport'') WRAPPER_TRANSPORTS) (\<lambda>canonical.
       bindr (require ''v3 dispatch evidence requires canonical parent transport'' canonical) (\<lambda>_.
       bindr (tuple_parent_identity row depth) (\<lambda>_.
       bindr (require ''v3 dispatch evidence must not carry broker fields'' (\<not> list_ex (\<lambda>k. truthy (oget row k)) BROKER_FIELDS)) (\<lambda>_. Inr [])))))
     else if version = 2 then
       bindr (require ''v2 dispatch evidence requires broker_root'' (\<not> (oget row ''launch_authority'' = JStr ''ancestor-broker'' \<and>
         oget row ''status'' = JStr ''supported'' \<and> \<not> truthy (oget row ''broker_root'')))) (\<lambda>_.
         Inr (if truthy (oget row ''broker_root'') then [(''broker_root'', oget row ''broker_root'')] else []))
     else Inr (only_fields (filter (\<lambda>k. k \<in> fst ` set row) BROKER_FIELDS) row))"

definition tuple_row :: "int \<Rightarrow> int \<Rightarrow> json \<Rightarrow> string + obj" where
  "tuple_row version depth v = (case v of
      JObj row \<Rightarrow>
        if \<not> has_fields NESTED_FIELDS row then Inl ''nested eligibility tuple fields missing'' else
        bindr (in_set (oget row ''status'') NESTED_STATUSES) (\<lambda>status.
        bindr (require ''invalid nested eligibility status'' status) (\<lambda>_.
        bindr (require ''invalid nested launch authority'' (oget row ''launch_authority'' \<in> {JStr ''conductor'', JStr ''ancestor-broker''})) (\<lambda>_.
        bindr (require ''nested eligibility checked source/time required'' (truthy (oget row ''probe_source'') \<and> truthy (oget row ''probe_time''))) (\<lambda>_.
        bindr (version_fields version depth row) (\<lambda>extra. Inr (only_fields NESTED_FIELDS row @ extra))))))
    | _ \<Rightarrow> Inl ''nested eligibility tuple fields missing'')"

definition native_row :: "json \<Rightarrow> string + obj" where
  "native_row v = (case v of
      JObj row \<Rightarrow>
        if \<not> has_fields NATIVE_FIELDS row then Inl ''invalid native subagent evidence'' else
        bindr (in_set (oget row ''status'') NESTED_STATUSES) (\<lambda>status. if \<not> status then Inl ''invalid native subagent evidence'' else
        bindr (in_set (oget row ''harness'') (map fst NATIVE_SURFACES)) (\<lambda>harness.
        if harness \<and> oget row ''execution_surface'' = JStr (the (map_of NATIVE_SURFACES (the_str (oget row ''harness'')))) \<and>
           oget row ''transport'' = JStr ''headless'' \<and> oget row ''registered_worker'' = JBool False \<and> truthy (oget row ''check_source'')
        then Inr (only_fields NATIVE_FIELDS row) else Inl ''invalid native subagent evidence''))
    | _ \<Rightarrow> Inl ''invalid native subagent evidence'')"

definition version_of :: "json \<Rightarrow> string + int" where
  \<comment> \<open>\<open>contract_version or 1\<close>, one of the supported ones\<close>
  "version_of v = (let v = py_or v (JInt 1) in
     if \<not> hashable v then Inl ''TypeError''
     else case num_of v of
       Some n \<Rightarrow> if n \<in> {1, 2, DISPATCH_CONTRACT_VERSION} then Inr n else Inl ''unsupported dispatch contract version''
     | None \<Rightarrow> Inl ''unsupported dispatch contract version'')"

definition validate_dispatch_evidence :: "json \<Rightarrow> json \<Rightarrow> int \<Rightarrow> string + (obj list \<times> obj list)" where
  \<comment> \<open>the normalized tuples and native rows\<close>
  "validate_dispatch_evidence evidence contract_version depth =
    bindr (version_of contract_version) (\<lambda>version.
    case evidence of
      JObj e \<Rightarrow> (case oget e ''tuples'' of
          JList (t # ts) \<Rightarrow> bindr (collectr (tuple_row version depth) (t # ts)) (\<lambda>tuples.
            case oget_or e ''native_subagent'' (JList []) of
              JList natives \<Rightarrow> bindr (collectr native_row natives) (\<lambda>natives. Inr (tuples, natives))
            | _ \<Rightarrow> Inl ''native_subagent evidence must be a list'')
        | _ \<Rightarrow> Inl ''nested eligibility tuples required'')
    | _ \<Rightarrow> Inl ''checked dispatch evidence required'')"

definition evidence_json :: "obj list \<times> obj list \<Rightarrow> json" where
  "evidence_json e = JObj [(''tuples'', JList (map JObj (fst e))), (''native_subagent'', JList (map JObj (snd e)))]"

section \<open>The fallback chain\<close>

definition launchable :: "int \<Rightarrow> obj list \<Rightarrow> string + unit" where
  \<comment> \<open>at least one tuple can be launched under the contract version\<close>
  "launchable version rows =
    (if version = DISPATCH_CONTRACT_VERSION
     then require ''no supported direct headless tuple'' (list_ex (\<lambda>r. oget r ''status'' = JStr ''supported'') rows)
     else if version = 2
     then require ''no supported registered-headless launch tuple'' (list_ex (\<lambda>r. oget r ''status'' = JStr ''supported'' \<and>
       oget r ''launch_authority'' = JStr ''ancestor-broker'' \<and> truthy (oget r ''broker_root'')) rows)
     else require ''no supported registered-headless launch tuple'' (list_ex (\<lambda>r. oget r ''status'' = JStr ''supported'' \<and>
       oget r ''launch_authority'' = JStr ''ancestor-broker'' \<and> truthy (oget r ''broker_root'') \<and> truthy (oget r ''broker_instance'')) rows))"

definition same_harness :: "obj \<Rightarrow> bool" where
  "same_harness r \<longleftrightarrow> py_eq (oget r ''child_harness'') (oget r ''parent_harness'')"

definition fallback_chain :: "json \<Rightarrow> json \<Rightarrow> int \<Rightarrow> string + json list" where
  "fallback_chain evidence contract_version depth =
    bindr (validate_dispatch_evidence evidence contract_version depth) (\<lambda>(tuples, natives).
    bindr (version_of contract_version) (\<lambda>version.
      let own = (\<lambda>r. version \<noteq> DISPATCH_CONTRACT_VERSION \<or> oget r ''launch_authority'' = JStr ''conductor'');
          same = filter own (filter same_harness tuples);
          cross = filter own (filter (\<lambda>r. \<not> same_harness r) tuples) in
      bindr (launchable version (same @ cross)) (\<lambda>_. Inr [
        JObj [(''ordinal'', JInt 1), (''fallback_hop'', JStr ''same-harness-headless''), (''candidates'', JList (map JObj same))],
        JObj [(''ordinal'', JInt 2), (''fallback_hop'', JStr ''cross-harness-headless''), (''candidates'', JList (map JObj cross))],
        JObj [(''ordinal'', JInt 3), (''fallback_hop'', JStr ''native-subagent''), (''candidates'', JList (map JObj natives)),
          (''fleet_visibility'', JStr ''degraded'')],
        JObj [(''ordinal'', JInt 4), (''fallback_hop'', JStr ''inline''), (''status'', JStr ''eligible-after-prior-hop-exhaustion''),
          (''reason_enum'', JStr ''runtime-unavailable''), (''fleet_visibility'', JStr ''none'')]])))"

definition chain_candidates :: "obj list \<Rightarrow> string + obj list" where
  \<comment> \<open>\<open>[c for row in chain[:2] for c in row.get("candidates", [])]\<close>, each a dictionary\<close>
  "chain_candidates chain = bindr (collectr (\<lambda>row. items_of (oget_or row ''candidates'' (JList []))) (take 2 chain)) (\<lambda>css.
     collectr as_obj (concat css))"

definition chain_version_check :: "json \<Rightarrow> obj list \<Rightarrow> string + unit" where
  "chain_version_check version candidates =
    (let supported = (\<lambda>who. filter (\<lambda>c. oget c ''status'' = JStr ''supported'' \<and> oget c ''launch_authority'' = JStr who) candidates) in
     if num_of version = Some DISPATCH_CONTRACT_VERSION then
       if supported ''conductor'' = [] then Inl ''lacks supported direct headless tuple''
       else require ''v3 candidate carries retired broker fields''
         (\<not> list_ex (\<lambda>c. truthy (oget c ''broker_root'') \<or> truthy (oget c ''broker_instance'')) candidates)
     else if num_of version = Some 1 then
       require ''lacks supported dispatch-depth-0 broker tuple''
         (list_ex (\<lambda>c. truthy (oget c ''broker_root'') \<and> truthy (oget c ''broker_instance'')) (supported ''ancestor-broker''))
     else if num_of version = Some 2 then
       bindr (require ''lacks supported dispatch-depth-0 broker tuple'' (list_ex (\<lambda>c. truthy (oget c ''broker_root'')) (supported ''ancestor-broker''))) (\<lambda>_.
         require ''v2 candidate must not carry broker_instance'' (\<not> list_ex (\<lambda>c. truthy (oget c ''broker_instance'')) (supported ''ancestor-broker'')))
     else Inl ''UnboundLocalError'')"

definition verify_fallback_chain :: "obj \<Rightarrow> json \<Rightarrow> string + json list" where
  "verify_fallback_chain node contract_version = (case oget node ''fallback_hops'' of
      JList chain \<Rightarrow> bindr (collectr as_obj chain) (\<lambda>rows.
        if map (\<lambda>r. oget r ''fallback_hop'') rows \<noteq> map JStr FALLBACK_ORDER then Inl ''missing ordered dispatch fallback''
        else bindr (chain_candidates rows) (\<lambda>candidates.
          bindr (chain_version_check (py_or contract_version (JInt 1)) candidates) (\<lambda>_. Inr chain)))
    | _ \<Rightarrow> Inl ''missing ordered dispatch fallback'')"

section \<open>What the chain promises\<close>

lemma oget_only_fields: "oget (only_fields ks d) k = (if k \<in> set ks then oget d k else JNull)"
  by (induction ks) (auto simp: only_fields_def)

lemma fst_only_fields [simp]: "fst ` set (only_fields ks d) = set ks"
  by (force simp: only_fields_def)

lemma only_fields_again [simp]: "only_fields ks (only_fields ks d) = only_fields ks d"
proof -
  have "only_fields ks' (only_fields ks d) = only_fields ks' d" if "set ks' \<subseteq> set ks" for ks'
    unfolding only_fields_def [of ks' "only_fields ks d"] only_fields_def [of ks' d] using that by (auto simp: oget_only_fields)
  then show ?thesis by blast
qed

lemma require_Inr [simp]: "require e b = Inr u \<longleftrightarrow> b"
  by (simp add: require_def)

lemma in_set_Inr: "in_set v ss = Inr b \<longleftrightarrow> hashable v \<and> b = (v \<in> JStr ` set ss)"
  by (auto simp: in_set_def)

definition direct_tuple :: "int \<Rightarrow> obj \<Rightarrow> bool" where
  \<comment> \<open>a tuple a conductor at the given depth can launch\<close>
  "direct_tuple depth r \<longleftrightarrow> oget r ''launch_authority'' = JStr ''conductor'' \<and>
     (\<exists>harness transport sandboxes sandbox. map_of PARENT_TRANSPORT depth = Some transport \<and> map_of PARENT_SANDBOXES harness = Some sandboxes \<and>
       sandbox \<in> set sandboxes \<and> oget r ''parent_harness'' = JStr harness \<and> oget r ''parent_transport'' = JStr transport \<and>
       oget r ''parent_sandbox'' = JStr sandbox) \<and>
     oget r ''child_harness'' \<in> JStr ` fst ` set PARENT_SANDBOXES \<and>
     truthy (oget r ''probe_source'') \<and> truthy (oget r ''probe_time'') \<and> \<not> truthy (oget r ''broker_root'') \<and> \<not> truthy (oget r ''broker_instance'')"

lemma v3_row:
  assumes "tuple_row DISPATCH_CONTRACT_VERSION depth v = Inr r"
  shows "direct_tuple depth r" "tuple_row DISPATCH_CONTRACT_VERSION depth (JObj r) = Inr r"
proof -
  from assms obtain row where v: "v = JObj row" by (cases v) (simp_all add: tuple_row_def)
  from assms v have r: "r = only_fields NESTED_FIELDS row"
    by (auto simp: tuple_row_def version_fields_def bindr_Inr_iff split: if_splits)
  have same: "oget r k = oget row k" if "k \<in> set NESTED_FIELDS" for k using that by (simp add: r oget_only_fields)
  have none: "oget r k = JNull" if "k \<in> set BROKER_FIELDS" for k using that by (auto simp: r oget_only_fields NESTED_FIELDS_def BROKER_FIELDS_def)
  note fields = same [of "''status''"] same [of "''launch_authority''"] same [of "''probe_source''"] same [of "''probe_time''"]
    same [of "''parent_transport''"] same [of "''parent_harness''"] same [of "''child_harness''"] same [of "''parent_sandbox''"]
    none [of "''broker_root''"] none [of "''broker_instance''"]
  note fields' = fields [unfolded NESTED_FIELDS_def BROKER_FIELDS_def, simplified]
  have again: "only_fields NESTED_FIELDS r = r" by (simp add: r)
  have all: "has_fields NESTED_FIELDS r" by (simp add: r has_fields_def)
  have "tuple_row DISPATCH_CONTRACT_VERSION depth (JObj r) = tuple_row DISPATCH_CONTRACT_VERSION depth v"
    using assms all again by (auto simp: v tuple_row_def version_fields_def tuple_parent_identity_def bindr_Inr_iff fields' BROKER_FIELDS_def r [symmetric] split: option.splits if_splits)
  with assms show "tuple_row DISPATCH_CONTRACT_VERSION depth (JObj r) = Inr r" by simp
  from assms obtain transport where t: "map_of PARENT_TRANSPORT depth = Some transport" "oget row ''parent_transport'' = JStr transport"
    and ph: "oget row ''parent_harness'' \<in> JStr ` set (map fst PARENT_SANDBOXES)" and ch: "oget row ''child_harness'' \<in> JStr ` set (map fst PARENT_SANDBOXES)"
    and sb: "oget row ''parent_sandbox'' \<in> JStr ` set (the (map_of PARENT_SANDBOXES (the_str (oget row ''parent_harness''))))"
    and rest: "oget row ''launch_authority'' = JStr ''conductor''" "truthy (oget row ''probe_source'')" "truthy (oget row ''probe_time'')"
    by (simp add: v tuple_row_def version_fields_def tuple_parent_identity_def bindr_Inr_iff in_set_Inr split: option.splits if_splits)
  from ph obtain harness where h: "oget row ''parent_harness'' = JStr harness" "harness \<in> fst ` set PARENT_SANDBOXES" by auto
  then obtain sandboxes where "map_of PARENT_SANDBOXES harness = Some sandboxes" by (meson map_of_eq_None_iff not_None_eq)
  with t ch sb rest h show "direct_tuple depth r" by (auto simp: direct_tuple_def fields')
qed

lemma version_3: "version_of (JInt 3) = Inr DISPATCH_CONTRACT_VERSION"
  by (simp add: version_of_def py_or_def hashable_def is_list_def is_obj_def DISPATCH_CONTRACT_VERSION_def)

lemma native_again: "native_row v = Inr r \<Longrightarrow> native_row (JObj r) = Inr r"
proof -
  assume row: "native_row v = Inr r"
  then obtain d where v: "v = JObj d" by (cases v) (simp_all add: native_row_def)
  from row v have r: "r = only_fields NATIVE_FIELDS d"
    by (auto simp: native_row_def bindr_Inr_iff split: if_splits)
  have same: "oget r k = oget d k" if "k \<in> set NATIVE_FIELDS" for k using that by (simp add: r oget_only_fields)
  note fields = same [of "''status''"] same [of "''harness''"] same [of "''execution_surface''"] same [of "''transport''"]
    same [of "''registered_worker''"] same [of "''check_source''"]
  note fields' = fields [unfolded NATIVE_FIELDS_def, simplified]
  have "only_fields NATIVE_FIELDS r = r" "has_fields NATIVE_FIELDS r" by (simp_all add: r has_fields_def)
  with row v show ?thesis by (auto simp: native_row_def bindr_Inr_iff fields' r [symmetric] split: if_splits)
qed

lemma collectr_again: "list_all2 (\<lambda>x y. f x = Inr y) xs ys \<Longrightarrow> (\<And>x y. f x = Inr y \<Longrightarrow> f (h y) = Inr y) \<Longrightarrow> collectr f (map h ys) = Inr ys"
  by (induction rule: list_all2_induct) auto

lemma v3_evidence:
  assumes "validate_dispatch_evidence evidence (JInt 3) depth = Inr (tuples, natives)"
  shows "tuples \<noteq> []" "\<forall>r \<in> set tuples. direct_tuple depth r"
    "validate_dispatch_evidence (evidence_json (tuples, natives)) (JInt 3) depth = Inr (tuples, natives)"
proof -
  from assms obtain e where e: "evidence = JObj e" by (cases evidence) (simp_all add: validate_dispatch_evidence_def version_3)
  with assms obtain t ts where ts: "oget e ''tuples'' = JList (t # ts)"
    by (simp add: validate_dispatch_evidence_def version_3 split: json.splits list.splits)
  from assms e ts obtain ns where ns: "oget_or e ''native_subagent'' (JList []) = JList ns"
    by (cases "oget_or e ''native_subagent'' (JList [])") (auto simp: validate_dispatch_evidence_def version_3 bindr_Inr_iff)
  from assms have "collectr (tuple_row DISPATCH_CONTRACT_VERSION depth) (t # ts) = Inr tuples \<and> collectr native_row ns = Inr natives"
    by (simp add: validate_dispatch_evidence_def version_3 e ts ns bindr_Inr_iff del: collectr.simps)
  then have rows: "list_all2 (\<lambda>v r. tuple_row DISPATCH_CONTRACT_VERSION depth v = Inr r) (t # ts) tuples"
    and natives: "list_all2 (\<lambda>v r. native_row v = Inr r) ns natives" unfolding collectr_Inr by blast+
  show ne: "tuples \<noteq> []" using rows by auto
  show "\<forall>r \<in> set tuples. direct_tuple depth r" using list_all2_ex [OF rows] v3_row(1) by blast
  have "collectr (tuple_row DISPATCH_CONTRACT_VERSION depth) (map JObj tuples) = Inr tuples"
    using rows v3_row(2) by (rule collectr_again)
  moreover have "collectr native_row (map JObj natives) = Inr natives"
    using natives native_again by (rule collectr_again)
  moreover obtain r rs where "map JObj tuples = r # rs" using ne by (cases tuples) auto
  ultimately show "validate_dispatch_evidence (evidence_json (tuples, natives)) (JInt 3) depth = Inr (tuples, natives)"
    by (simp add: validate_dispatch_evidence_def version_3 evidence_json_def)
qed

lemma collectr_as_obj [simp]: "collectr as_obj (map JObj rows) = Inr rows"
  by (induction rows) (simp_all add: as_obj_def)

lemma filter_direct: "\<forall>r \<in> set tuples. direct_tuple depth r \<Longrightarrow>
    filter (\<lambda>r. oget r ''launch_authority'' = JStr ''conductor'') (filter P tuples) = filter P tuples"
  by (induction tuples) (auto simp: direct_tuple_def)

lemma fallback_chain_Inr:
  assumes "fallback_chain evidence (JInt 3) depth = Inr chain"
  obtains tuples natives where "validate_dispatch_evidence evidence (JInt 3) depth = Inr (tuples, natives)"
    "list_ex (\<lambda>r. oget r ''status'' = JStr ''supported'') tuples"
    "chain = [
        JObj [(''ordinal'', JInt 1), (''fallback_hop'', JStr ''same-harness-headless''), (''candidates'', JList (map JObj (filter same_harness tuples)))],
        JObj [(''ordinal'', JInt 2), (''fallback_hop'', JStr ''cross-harness-headless''),
          (''candidates'', JList (map JObj (filter (\<lambda>r. \<not> same_harness r) tuples)))],
        JObj [(''ordinal'', JInt 3), (''fallback_hop'', JStr ''native-subagent''), (''candidates'', JList (map JObj natives)),
          (''fleet_visibility'', JStr ''degraded'')],
        JObj [(''ordinal'', JInt 4), (''fallback_hop'', JStr ''inline''), (''status'', JStr ''eligible-after-prior-hop-exhaustion''),
          (''reason_enum'', JStr ''runtime-unavailable''), (''fleet_visibility'', JStr ''none'')]]"
proof -
  from assms obtain tuples natives where ev: "validate_dispatch_evidence evidence (JInt 3) depth = Inr (tuples, natives)"
    by (auto simp: fallback_chain_def bindr_Inr_iff)
  note direct = filter_direct [OF v3_evidence(2) [OF ev]]
  from assms have sup: "list_ex (\<lambda>r. oget r ''status'' = JStr ''supported'') (filter same_harness tuples @ filter (\<lambda>r. \<not> same_harness r) tuples)"
    by (simp add: fallback_chain_def ev version_3 Let_def direct launchable_def bindr_Inr_iff del: filter_filter)
  then have "list_ex (\<lambda>r. oget r ''status'' = JStr ''supported'') tuples" by (auto simp: list_ex_iff)
  with assms ev sup show ?thesis
    by (intro that [OF ev]) (simp_all add: fallback_chain_def version_3 Let_def direct launchable_def require_def del: filter_filter list_ex_append)
qed

text \<open>A fallback chain compiled from evidence holds what a launch needs: the four hops in order, the same-harness and the
  cross-harness candidates together exactly the checked tuples, every candidate launchable by a conductor at the parent's
  depth with an identity a wrapper exports and no broker field, and at least one of them supported. The chain passes the
  check of a sealed node, and compiling it again from the normalized evidence gives the same chain.\<close>
theorem fallback_chain_is_proven:
  assumes "fallback_chain evidence (JInt 3) depth = Inr chain"
  shows "\<exists>tuples natives. validate_dispatch_evidence evidence (JInt 3) depth = Inr (tuples, natives) \<and>
    map (\<lambda>row. oget (the_obj row) ''fallback_hop'') chain = map JStr FALLBACK_ORDER \<and>
    map (\<lambda>row. oget (the_obj row) ''candidates'') (take 2 chain) =
      [JList (map JObj (filter same_harness tuples)), JList (map JObj (filter (\<lambda>r. \<not> same_harness r) tuples))] \<and>
    (\<forall>r \<in> set tuples. direct_tuple depth r) \<and> (\<exists>r \<in> set tuples. oget r ''status'' = JStr ''supported'') \<and>
    (\<forall>node. oget node ''fallback_hops'' = JList chain \<longrightarrow> verify_fallback_chain node (JInt 3) = Inr chain) \<and>
    fallback_chain (evidence_json (tuples, natives)) (JInt 3) depth = Inr chain"
proof -
  from fallback_chain_Inr [OF assms] obtain tuples natives where ev: "validate_dispatch_evidence evidence (JInt 3) depth = Inr (tuples, natives)"
    and sup: "list_ex (\<lambda>r. oget r ''status'' = JStr ''supported'') tuples"
    and chain: "chain = [
        JObj [(''ordinal'', JInt 1), (''fallback_hop'', JStr ''same-harness-headless''), (''candidates'', JList (map JObj (filter same_harness tuples)))],
        JObj [(''ordinal'', JInt 2), (''fallback_hop'', JStr ''cross-harness-headless''),
          (''candidates'', JList (map JObj (filter (\<lambda>r. \<not> same_harness r) tuples)))],
        JObj [(''ordinal'', JInt 3), (''fallback_hop'', JStr ''native-subagent''), (''candidates'', JList (map JObj natives)),
          (''fleet_visibility'', JStr ''degraded'')],
        JObj [(''ordinal'', JInt 4), (''fallback_hop'', JStr ''inline''), (''status'', JStr ''eligible-after-prior-hop-exhaustion''),
          (''reason_enum'', JStr ''runtime-unavailable''), (''fleet_visibility'', JStr ''none'')]]" .
  note direct = v3_evidence(2) [OF ev]
  let ?cs = "filter same_harness tuples @ filter (\<lambda>r. \<not> same_harness r) tuples"
  have "filter (\<lambda>c. oget c ''status'' = JStr ''supported'' \<and> oget c ''launch_authority'' = JStr ''conductor'') ?cs \<noteq> []"
    using sup direct by (auto simp: list_ex_iff filter_empty_conv direct_tuple_def)
  moreover have "\<not> list_ex (\<lambda>c. truthy (oget c ''broker_root'') \<or> truthy (oget c ''broker_instance'')) ?cs"
    using direct by (auto simp: list_ex_iff direct_tuple_def)
  ultimately have version: "chain_version_check (JInt 3) ?cs = Inr ()"
    by (simp add: chain_version_check_def DISPATCH_CONTRACT_VERSION_def Let_def)
  have "verify_fallback_chain node (JInt 3) = Inr chain" if hops: "oget node ''fallback_hops'' = JList chain" for node
  proof -
    have rows: "collectr as_obj chain = Inr (map the_obj chain)" by (simp add: chain as_obj_def)
    have cands: "chain_candidates (map the_obj chain) = Inr ?cs"
      by (simp add: chain chain_candidates_def items_of_def flip: map_append)
    show ?thesis unfolding verify_fallback_chain_def hops using rows cands version by (simp add: chain FALLBACK_ORDER_def py_or_def)
  qed
  moreover have "fallback_chain (evidence_json (tuples, natives)) (JInt 3) depth = fallback_chain evidence (JInt 3) depth"
    using ev v3_evidence(3) [OF ev] by (simp add: fallback_chain_def)
  ultimately show ?thesis using ev direct sup assms by (auto simp: chain FALLBACK_ORDER_def list_ex_iff)
qed

definition demo_tuple :: "string \<Rightarrow> json" where
  "demo_tuple child = JObj [(''child_harness'', JStr child), (''failure_class'', JStr []), (''launch_authority'', JStr ''conductor''),
     (''parent_harness'', JStr ''codex''), (''parent_sandbox'', JStr ''workspace-write''), (''parent_transport'', JStr ''headless''),
     (''probe_source'', JStr ''p''), (''probe_time'', JStr ''t''), (''status'', JStr ''supported'')]"

theorem fallback_chain_is_proven_witness:
  "\<exists>chain. fallback_chain (JObj [(''tuples'', JList [demo_tuple ''codex'', demo_tuple ''claude''])]) (JInt 3) 1 = Inr chain \<and>
    verify_fallback_chain [(''fallback_hops'', JList chain)] (JInt 3) = Inr chain"
proof -
  have "isl (fallback_chain (JObj [(''tuples'', JList [demo_tuple ''codex'', demo_tuple ''claude''])]) (JInt 3) 1) = False" by code_simp
  then obtain chain where chain: "fallback_chain (JObj [(''tuples'', JList [demo_tuple ''codex'', demo_tuple ''claude''])]) (JInt 3) 1 = Inr chain"
    by (cases "fallback_chain (JObj [(''tuples'', JList [demo_tuple ''codex'', demo_tuple ''claude''])]) (JInt 3) 1") auto
  moreover have "oget [(''fallback_hops'', JList chain)] ''fallback_hops'' = JList chain" by (simp add: oget_def)
  ultimately show ?thesis using fallback_chain_is_proven [OF chain] by blast
qed

end
