(* ===== verification/Route_Seal.thy ===== *)
theory Route_Seal
  imports Route_Evidence Json_Text
begin

text \<open>
  Sealed routes (\<open>utilities/capability-route.py\<close>, \<open>route_hash\<close>, \<open>_compile_from_recipe\<close> and \<open>verify_route\<close>, with
  \<open>resolve_recipe\<close> of \<open>tools/capability_topology.py\<close> and \<open>query_stage_affinity\<close> of \<open>utilities/dispatch-defaults.py\<close>).

  The topology registry is the JSON object that was loaded. Parameters are the digest of a JSON value in canonical
  form, the digest of the unit catalog, path resolution, the commit git names, the loaded dispatch defaults, and the
  outcome of the recipe validator on an embedded recipe. The nodes of a route are decoded once, before they are
  checked, so a route whose nodes are not dictionaries is refused a little earlier than in the code.
\<close>

section \<open>The seal\<close>

record route_env =
  re_registry :: obj
  re_digest :: "json \<Rightarrow> string"                              \<comment> \<open>hexdigest of the canonical text\<close>
  re_units :: string                                         \<comment> \<open>\<open>unit_catalog_digest()\<close>\<close>
  re_resolve :: "string \<Rightarrow> string"                           \<comment> \<open>\<open>str(Path(p).resolve())\<close>\<close>
  re_path :: "string \<Rightarrow> string"                              \<comment> \<open>\<open>str(Path(p))\<close>\<close>
  re_commit :: "string \<Rightarrow> string"                            \<comment> \<open>\<open>_git_commit(cwd)\<close>\<close>
  re_defaults :: "(string + obj) option"                     \<comment> \<open>the dispatch defaults, when there is a file\<close>
  re_valid_recipe :: "obj \<Rightarrow> json \<Rightarrow> string + unit"           \<comment> \<open>\<open>TOPO._validate_recipe\<close> with the registry\<close>

definition ROUTE_SCHEMA_VERSION :: int where
  "ROUTE_SCHEMA_VERSION = 2"

definition route_hash :: "route_env \<Rightarrow> obj \<Rightarrow> string" where
  "route_hash env payload = ''sha256:'' @ re_digest env (JObj (filter (\<lambda>(k, _). k \<noteq> ''route_hash'' \<and> k \<noteq> ''route_id'') payload))"

definition route_id_of :: "string \<Rightarrow> string" where
  \<comment> \<open>\<open>"rt-" + hash.split(":", 1)[1][:16]\<close>\<close>
  "route_id_of h = ''rt-'' @ take 16 (tl (dropWhile (\<lambda>c. c \<noteq> CHR '':'') h))"

definition registry_digest :: "route_env \<Rightarrow> string" where
  "registry_digest env = ''sha256:'' @ re_digest env (JObj (re_registry env))"

definition short_intensity :: "json \<Rightarrow> bool" where
  \<comment> \<open>\<open>effective in ("direct", "quick")\<close>\<close>
  "short_intensity v \<longleftrightarrow> v \<in> {JStr ''direct'', JStr ''quick''}"

definition nodes_of_route :: "obj \<Rightarrow> string + obj list" where
  "nodes_of_route route = bindr (items_of (oget_or route ''nodes'' (JList []))) (collectr as_obj)"

definition verify_header :: "route_env \<Rightarrow> obj \<Rightarrow> string option \<Rightarrow> string + unit" where
  "verify_header env route expected_cwd =
    bindr (require ''legacy route schema_version'' (num_of (oget route ''schema_version'') = Some ROUTE_SCHEMA_VERSION)) (\<lambda>_.
    bindr (require ''legacy dispatch contract is read-only'' (num_of (oget route ''dispatch_contract_version'') = Some DISPATCH_CONTRACT_VERSION)) (\<lambda>_.
    bindr (require ''stale or modified route hash'' (oget route ''route_hash'' = JStr (route_hash env route))) (\<lambda>_.
    bindr (require ''invalid route id'' (oget route ''route_id'' = JStr (route_id_of (route_hash env route)))) (\<lambda>_.
    case expected_cwd of
      None \<Rightarrow> Inr ()
    | Some cwd \<Rightarrow> if cwd = [] then Inr ()
        else bindr (bindr (dict_item route ''cwd'') as_str) (\<lambda>own. require ''route cwd mismatch'' (re_resolve env cwd = re_path env own))))))"

definition route_currency :: "route_env \<Rightarrow> obj \<Rightarrow> string + bool \<times> bool" where
  \<comment> \<open>whether the registry and the units are those of the compilation\<close>
  "route_currency env route = bindr (dict_item route ''registry_digest'') (\<lambda>d.
     Inr (d = JStr (registry_digest env), oget route ''unit_catalog_digest'' \<in> {JNull, JStr (re_units env)}))"

section \<open>The recipe of a route\<close>

primrec find_recipe :: "json \<Rightarrow> json \<Rightarrow> json list \<Rightarrow> string + obj" where
  "find_recipe capability mode [] = Inl ''unknown capability/mode''"
| "find_recipe capability mode (r # rs) = bindr (as_obj r) (\<lambda>recipe. bindr (dict_item recipe ''capability'') (\<lambda>c.
     if \<not> py_eq c capability then find_recipe capability mode rs
     else bindr (bindr (dict_item recipe ''modes'') items_of) (\<lambda>modes.
       if list_ex (\<lambda>m. py_eq m mode) modes then Inr recipe else find_recipe capability mode rs)))"

definition resolve_recipe :: "obj \<Rightarrow> json \<Rightarrow> json \<Rightarrow> string + obj" where
  "resolve_recipe registry capability mode = bindr (bindr (dict_item registry ''recipes'') items_of) (find_recipe capability mode)"

definition node_identity :: "obj \<Rightarrow> obj" where
  "node_identity node = filter (\<lambda>(k, _). k \<noteq> ''fallback_hops'' \<and> k \<noteq> ''harness_affinity'') node"

definition standard_graph :: "obj \<Rightarrow> string + obj" where
  \<comment> \<open>\<open>recipe["standard_plus"]\<close>\<close>
  "standard_graph recipe = bindr (dict_item recipe ''standard_plus'') as_obj"

definition recipe_nodes :: "obj \<Rightarrow> string \<Rightarrow> string + obj list" where
  \<comment> \<open>the nodes of a recipe with its parallel groups expanded\<close>
  "recipe_nodes recipe effective = bindr (standard_graph recipe) (\<lambda>graph.
     bindr (bindr (bindr (dict_item graph ''nodes'') items_of) (collectr as_obj)) (\<lambda>nodes.
       expand_parallel_groups nodes (oget graph ''parallel_groups'') effective))"

definition owner_profiles :: "route_env \<Rightarrow> string + obj" where
  "owner_profiles env = bindr (dict_item (re_registry env) ''owner_profile_by_intensity'') as_obj"

definition composed_recipe_of :: "route_env \<Rightarrow> obj \<Rightarrow> obj list \<Rightarrow> string + obj" where
  "composed_recipe_of env route nodes =
    (let effective = oget route ''effective_intensity'' in
     if short_intensity effective then Inl ''composed routes require a standard+ effective intensity''
     else case oget route ''composed_recipe'' of
       JObj recipe \<Rightarrow> bindr (bindr (owner_profiles env) (\<lambda>ps. dict_item ps ''standard'')) (\<lambda>profile.
         bindr (re_valid_recipe env recipe profile) (\<lambda>_. bindr (as_str effective) (\<lambda>effective.
         bindr (recipe_nodes recipe effective) (\<lambda>expected.
           if py_eq (JList (map (\<lambda>n. JObj (node_identity n)) nodes)) (JList (map (\<lambda>n. JObj (node_identity n)) expected))
           then Inr recipe else Inl ''composed route nodes differ from embedded composed recipe''))))
     | _ \<Rightarrow> Inl ''composed route lacks embedded composed_recipe'')"

definition recipe_of :: "route_env \<Rightarrow> obj \<Rightarrow> obj list \<Rightarrow> string + obj" where
  "recipe_of env route nodes =
    (if truthy (oget route ''composed'') then composed_recipe_of env route nodes
     else resolve_recipe (re_registry env) (oget route ''capability'') (oget route ''capability_mode''))"

definition realize_extensions :: "obj \<Rightarrow> json \<Rightarrow> string + json list" where
  \<comment> \<open>\<open>_realize_conditional_extensions\<close>\<close>
  "realize_extensions recipe effective = bindr (items_of (oget_or recipe ''conditional_extensions'' (JList []))) (\<lambda>rows.
     if \<not> short_intensity effective then Inr rows
     else bindr (collectr as_obj rows) (\<lambda>rows.
       Inr (map (\<lambda>r. JObj (AList.update ''after'' (JList [JStr (if effective = JStr ''direct'' then ''inline'' else ''one-shot'')]) r)) rows)))"

definition extension_anchored :: "obj list \<Rightarrow> json \<Rightarrow> string + bool" where
  "extension_anchored nodes row = bindr (bindr (bindr (as_obj row) (\<lambda>r. dict_item r ''after'')) items_of) (\<lambda>after.
     if list_all hashable after then Inr (list_all (\<lambda>a. list_ex (\<lambda>n. py_eq (oget n ''id'') a) nodes) after) else Inl ''TypeError'')"

definition expected_bindings :: "obj \<Rightarrow> json \<Rightarrow> string + json" where
  "expected_bindings recipe effective = (if short_intensity effective then Inr (JList []) else dict_item recipe ''human_gate_bindings'')"

definition binding_gate :: "json \<Rightarrow> string + json" where
  "binding_gate row = bindr (bindr (as_obj row) (\<lambda>r. dict_item r ''gate'')) (\<lambda>g. if hashable g then Inr g else Inl ''TypeError'')"

definition verify_recipe :: "route_env \<Rightarrow> obj \<Rightarrow> obj list \<Rightarrow> string + unit" where
  \<comment> \<open>what has to agree with the recipe: extensions, gate bindings and the workflow contract\<close>
  "verify_recipe env route nodes =
    (let effective = oget route ''effective_intensity'' in
     bindr (recipe_of env route nodes) (\<lambda>recipe.
     bindr (realize_extensions recipe effective) (\<lambda>extensions.
     bindr (require ''route conditional extensions differ from the sealed recipe'' (py_eq (oget route ''conditional_extensions'') (JList extensions))) (\<lambda>_.
     bindr (collectr (extension_anchored nodes) extensions) (\<lambda>anchored.
     bindr (require ''route conditional extension anchor is not realized'' (list_all id anchored)) (\<lambda>_.
     bindr (expected_bindings recipe effective) (\<lambda>bindings.
     bindr (require ''route human gate bindings differ from the sealed recipe'' (py_eq (oget route ''human_gate_bindings'') bindings)) (\<lambda>_.
     bindr (workflow_contract (re_registry env) nodes bindings) (\<lambda>contract.
     bindr (require ''route workflow contract differs from the realized stage graph'' (py_eq (oget route ''workflow_contract'') contract)) (\<lambda>_.
     bindr (bindr (items_of bindings) (collectr binding_gate)) (\<lambda>gates.
     bindr (items_of (py_or (oget route ''human_gates'') (JList []))) (\<lambda>declared.
       require ''route binds an undeclared human gate'' (list_all (\<lambda>g. list_ex (py_eq g) declared) gates)))))))))))))"

section \<open>The nodes of a route\<close>

definition bare_depth_keys :: "string list" where
  "bare_depth_keys = [''depth'', ''owner_depth'', ''max_depth'']"

definition has_any :: "string list \<Rightarrow> obj \<Rightarrow> bool" where
  \<comment> \<open>\<open>any(key in d for key in ks)\<close>\<close>
  "has_any ks d \<longleftrightarrow> list_ex (\<lambda>k. k \<in> fst ` set d) ks"

definition depth_in :: "json \<Rightarrow> int list \<Rightarrow> string + bool" where
  \<comment> \<open>\<open>v in {0, 1, 2}\<close>\<close>
  "depth_in v ds = (if hashable v then Inr (\<exists>n \<in> set ds. num_of v = Some n) else Inl ''TypeError'')"

definition VALID_AFFINITY :: "string list" where
  "VALID_AFFINITY = [''claude'', ''codex'', ''opencode'', ''diverse'', ''unspecified'']"

definition registered_profile :: "obj \<Rightarrow> json \<Rightarrow> string + bool" where
  \<comment> \<open>the profile is one of the registry's that may be registered\<close>
  "registered_profile registry profile = bindr (bindr (dict_item registry ''model_profiles'') as_obj) (\<lambda>profiles.
     if \<not> hashable profile then Inl ''TypeError''
     else case profile of
       JStr p \<Rightarrow> (case oget profiles p of JObj row \<Rightarrow> Inr (oget row ''registered_topology'' = JBool True) | _ \<Rightarrow> Inr False)
     | _ \<Rightarrow> Inr False)"

definition resource_node :: "obj \<Rightarrow> string + unit" where
  "resource_node node =
    (if has_any (bare_depth_keys @ [''dispatch_depth'', ''transport'', ''fallback_hops'']) node then Inl ''resource node has dispatch attempt fields''
     else require ''resource node lacks detached lifecycle'' (oget node ''resource_transport'' = JStr ''detached-process''))"

definition owner_node :: "json \<Rightarrow> json \<Rightarrow> obj \<Rightarrow> bool" where
  \<comment> \<open>a semantic capability owner of a standard route has depth 1 and the owner profile\<close>
  "owner_node effective profile node \<longleftrightarrow> short_intensity effective \<or> oget node ''kind'' \<noteq> JStr ''capability-owner'' \<or>
     oget node ''unit'' \<noteq> JStr ''_kernel/owner'' \<or> (num_of (oget node ''dispatch_depth'') = Some 1 \<and> py_eq (oget node ''model_profile'') profile)"

definition hop_known :: "json \<Rightarrow> string + bool" where
  "hop_known hop = (case hop of JObj h \<Rightarrow> in_set (oget h ''fallback_hop'') FALLBACK_HOPS | _ \<Rightarrow> Inr False)"

definition listed_value :: "obj \<Rightarrow> string \<Rightarrow> string list \<Rightarrow> string \<Rightarrow> string + unit" where
  \<comment> \<open>a field that is there has one of the values\<close>
  "listed_value node k ss e = (case map_of node k of None \<Rightarrow> Inr () | Some v \<Rightarrow> bindr (in_set v ss) (require e))"

definition worker_node :: "obj \<Rightarrow> json \<Rightarrow> json \<Rightarrow> obj \<Rightarrow> string + int" where
  \<comment> \<open>the checks of a node that is dispatched; the answer is its dispatch depth\<close>
  "worker_node registry effective profile node =
    (let depth = oget node ''dispatch_depth'' in
     bindr (depth_in depth [1, 2]) (\<lambda>dispatched.
     bindr (if dispatched then registered_profile registry (oget node ''model_profile'') else Inr True) (\<lambda>registered.
     bindr (require ''node has invalid registered model_profile'' registered) (\<lambda>_.
     bindr (require ''semantic capability owner differs from the portable standard+ owner policy'' (owner_node effective profile node)) (\<lambda>_.
     bindr (depth_in depth [0, 1, 2]) (\<lambda>known.
     bindr (require ''node has invalid dispatch_depth'' (\<not> has_any bare_depth_keys node \<and> known)) (\<lambda>_.
     bindr (listed_value node ''harness_affinity'' VALID_AFFINITY ''invalid harness_affinity vocabulary'') (\<lambda>_.
     bindr (listed_value node ''execution_surface'' EXECUTION_SURFACES ''invalid execution_surface vocabulary'') (\<lambda>_.
     bindr (require ''registered_worker must be boolean'' (case map_of node ''registered_worker'' of Some v \<Rightarrow> v \<in> {JBool True, JBool False} | None \<Rightarrow> True)) (\<lambda>_.
     bindr (require ''legacy dispatch_fallback is read-only'' (\<not> has_any [''dispatch_fallback''] node)) (\<lambda>_.
     bindr (items_of (oget_or node ''fallback_hops'' (JList []))) (\<lambda>hops.
     bindr (collectr hop_known hops) (\<lambda>known.
     bindr (require ''invalid fallback_hop vocabulary'' (list_all id known)) (\<lambda>_. Inr (the (num_of depth))))))))))))))))"

definition group_alias :: "obj \<Rightarrow> string + unit" where
  "group_alias node = (let gid = oget node ''parallel_group'' in
     if \<not> truthy gid then Inr ()
     else if \<not> py_eq (oget node ''replica_group'') gid then Inl ''node has inconsistent parallel-group alias''
     else if hashable gid then Inr () else Inl ''TypeError'')"

primrec verify_nodes :: "obj \<Rightarrow> json \<Rightarrow> json \<Rightarrow> obj list \<Rightarrow> string + int list \<times> obj list" where
  \<comment> \<open>the observed dispatch depths, and the nodes that may belong to a group\<close>
  "verify_nodes registry effective profile [] = Inr ([], [])"
| "verify_nodes registry effective profile (node # nodes) =
    (if oget node ''kind'' = JStr ''resource-runner''
     then bindr (resource_node node) (\<lambda>_. verify_nodes registry effective profile nodes)
     else bindr (worker_node registry effective profile node) (\<lambda>depth. bindr (group_alias node) (\<lambda>_.
       bindr (verify_nodes registry effective profile nodes) (\<lambda>(depths, workers). Inr (depth # depths, node # workers)))))"

section \<open>The groups of a route\<close>

primrec members_by_group :: "obj list \<Rightarrow> (json \<times> obj list) list \<Rightarrow> (json \<times> obj list) list" where
  "members_by_group [] groups = groups"
| "members_by_group (node # nodes) groups =
    (let gid = oget node ''parallel_group'' in
     members_by_group nodes (if \<not> truthy gid then groups
       else if list_ex (\<lambda>(k, _). py_eq k gid) groups then map (\<lambda>(k, ms). if py_eq k gid then (k, ms @ [node]) else (k, ms)) groups
       else groups @ [(gid, [node])]))"

definition node_leg_index :: "obj \<Rightarrow> json" where
  "node_leg_index node = oget_or node ''parallel_leg_index'' (JInt (-1))"

definition by_leg_index :: "obj list \<Rightarrow> string + obj list" where
  "by_leg_index members =
    (if list_all (\<lambda>m. num_of (node_leg_index m) \<noteq> None) members then Inr (sort_key (\<lambda>m. the (num_of (node_leg_index m))) members)
     else Inl ''TypeError'')"

definition scopes_of :: "obj \<Rightarrow> string + json list" where
  "scopes_of node = items_of (oget_or node ''write_scope'' (JList []))"

definition scopes_overlap :: "obj \<Rightarrow> obj \<Rightarrow> string + bool" where
  "scopes_overlap left right = bindr (scopes_of left) (\<lambda>as. bindr (scopes_of right) (\<lambda>bs.
     bindr (collectr (\<lambda>(a, b). overlap a b) (List.product as bs)) (\<lambda>rs. Inr (list_ex id rs))))"

fun disjoint_members :: "obj list \<Rightarrow> string + bool" where
  "disjoint_members [] = Inr True"
| "disjoint_members (left # rest) = bindr (collectr (scopes_overlap left) rest) (\<lambda>rs.
     if list_ex id rs then Inr False else disjoint_members rest)"

definition verify_group :: "json \<times> obj list \<Rightarrow> string + json" where
  \<comment> \<open>the row a group must have in the summary\<close>
  "verify_group g = (case g of (gid, members) \<Rightarrow>
     bindr (by_leg_index members) (\<lambda>members.
     let anchor = hd members; width = oget anchor ''parallel_leg_count'' in
     bindr (require ''incomplete/duplicate leg indexes'' (num_of width = Some (int (length members)) \<and>
       map (\<lambda>m. num_of (oget m ''parallel_leg_index'')) members = map (\<lambda>i. Some (int i)) [0 ..< length members])) (\<lambda>_.
     bindr (require ''width metadata mismatch'' (list_all (\<lambda>m. py_eq (oget m ''parallel_leg_count'') width) members)) (\<lambda>_.
     bindr (require ''invariant metadata mismatch'' (list_all (\<lambda>m. list_all (\<lambda>k. py_eq (oget m k) (oget anchor k))
       [''parallel_group_kind'', ''parallel_join_policy'', ''parallel_independence_axes'']) members)) (\<lambda>_.
     bindr (disjoint_members members) (\<lambda>disjoint.
     bindr (require ''overlapping write scopes'' disjoint) (\<lambda>_.
     bindr (dict_item anchor ''parallel_group_kind'') (\<lambda>kind. bindr (dict_item anchor ''parallel_join_policy'') (\<lambda>policy.
     bindr (dict_item anchor ''parallel_independence_axes'') (\<lambda>axes. bindr (collectr (\<lambda>m. dict_item m ''id'') members) (\<lambda>ids.
       Inr (JObj [(''id'', gid), (''kind'', kind), (''join_policy'', policy), (''independence_axes'', axes), (''width'', width),
         (''members'', JList ids)]))))))))))))"

section \<open>The shape of a route\<close>

definition direct_shape :: "obj \<Rightarrow> obj \<Rightarrow> obj list \<Rightarrow> string + unit" where
  "direct_shape route selection nodes =
    bindr (require ''direct route shape mismatch'' (num_of (oget route ''owner_dispatch_depth'') = Some 0 \<and>
      num_of (oget route ''max_dispatch_depth'') = Some 0 \<and> oget selection ''transport'' = JStr ''interactive'' \<and>
      oget route ''registered_headless_candidates'' = JNull \<and> oget route ''registered_headless_policy'' = JNull \<and> length nodes = 1)) (\<lambda>_.
    let node = hd nodes in
    require ''direct node axes mismatch'' (oget node ''id'' = JStr ''inline'' \<and> num_of (oget node ''dispatch_depth'') = Some 0 \<and>
      oget node ''execution_surface'' = JStr ''inline'' \<and> oget node ''registered_worker'' = JBool False \<and> \<not> truthy (oget node ''fallback_hops'')))"

definition quick_shape :: "obj \<Rightarrow> obj \<Rightarrow> json \<Rightarrow> obj list \<Rightarrow> string + unit" where
  "quick_shape route selection profile nodes =
    bindr (require ''quick route shape mismatch'' (num_of (oget route ''owner_dispatch_depth'') = Some 1 \<and>
      num_of (oget route ''max_dispatch_depth'') = Some 1 \<and> oget selection ''transport'' = JStr ''headless'' \<and>
      oget selection ''inline_reason'' = JNull \<and> oget route ''registered_headless_policy'' = JStr ''serial-attempt'' \<and> length nodes = 1)) (\<lambda>_.
    bindr (validate_headless_evidence (JObj [(''candidates'', oget route ''registered_headless_candidates'')])) (\<lambda>candidates.
    bindr (require ''quick registered-headless evidence is not canonical''
      (py_eq (JList (map JObj candidates)) (oget route ''registered_headless_candidates''))) (\<lambda>_.
    let node = hd nodes in
    require ''quick node axes mismatch'' (oget node ''id'' = JStr ''one-shot'' \<and> num_of (oget node ''dispatch_depth'') = Some 1 \<and>
      oget node ''unit'' = JStr ''_kernel/owner'' \<and> py_eq (oget node ''model_profile'') profile \<and>
      oget node ''execution_surface'' = JStr ''registered-headless'' \<and> oget node ''registered_worker'' = JBool True \<and>
      \<not> truthy (oget node ''fallback_hops'')))))"

definition chain_of_node :: "json list \<Rightarrow> json \<Rightarrow> obj \<Rightarrow> string + unit" where
  \<comment> \<open>a node of dispatch depth 2 carries the expected chain\<close>
  "chain_of_node expected version node =
    (if num_of (oget node ''dispatch_depth'') \<noteq> Some 2 then Inr ()
     else bindr (verify_fallback_chain node version) (\<lambda>chain.
       require ''fallback differs from checked evidence'' (py_eq (JList chain) (JList expected))))"

definition standard_shape :: "obj \<Rightarrow> obj \<Rightarrow> obj list \<Rightarrow> string + unit" where
  "standard_shape route selection nodes =
    bindr (require ''standard+ routes require checked headless transport'' (oget selection ''transport'' = JStr ''headless'')) (\<lambda>_.
    let version = py_or (py_or (oget route ''dispatch_contract_version'') (oget route ''broker_contract_version'')) (JInt 1) in
    bindr (evidence_parent_depth nodes (oget route ''owner_dispatch_depth'')) (\<lambda>depth.
    bindr (validate_dispatch_evidence (oget route ''dispatch_evidence'') version depth) (\<lambda>checked.
    bindr (fallback_chain (evidence_json checked) version depth) (\<lambda>expected.
    bindr (collectr (chain_of_node expected version) nodes) (\<lambda>_. Inr ())))))"

definition nodes_touch_spec :: "obj list \<Rightarrow> string + bool" where
  "nodes_touch_spec nodes = bindr (collectr scopes_of nodes) (\<lambda>sss. bindr (collectr as_str (concat sss)) (\<lambda>ss.
     Inr (list_ex scope_touches_spec ss)))"

definition escalation_free :: "json \<Rightarrow> string + unit" where
  "escalation_free v = (case v of
      JList rows \<Rightarrow> bindr (collectr (\<lambda>r. case r of JObj d \<Rightarrow> in_set (oget d ''signal'') TRACKING | _ \<Rightarrow> Inr False) rows) (\<lambda>rs.
        require ''tracking cannot be an escalation basis'' (\<not> list_ex id rs))
    | _ \<Rightarrow> Inl ''escalation_basis missing'')"

section \<open>\<open>verify_route\<close>\<close>

definition expected_owner_profile :: "route_env \<Rightarrow> json \<Rightarrow> string + json" where
  "expected_owner_profile env effective =
    (if effective = JStr ''direct'' then Inr JNull
     else bindr (owner_profiles env) (\<lambda>ps. if \<not> hashable effective then Inl ''TypeError''
       else Inr (case effective of JStr e \<Rightarrow> oget ps e | _ \<Rightarrow> JNull)))"

definition verify_groups :: "obj \<Rightarrow> obj list \<Rightarrow> string + unit" where
  "verify_groups route workers = bindr (collectr verify_group (members_by_group workers [])) (\<lambda>rows.
     require ''route parallel_groups summary differs from realized nodes'' (py_eq (oget route ''parallel_groups'') (JList rows)))"

definition verify_depths :: "obj \<Rightarrow> int list \<Rightarrow> string + unit" where
  \<comment> \<open>the declared maximum is the largest depth of the owner and the nodes\<close>
  "verify_depths route depths = bindr (dict_item route ''max_dispatch_depth'') (\<lambda>m.
     require ''max_dispatch_depth does not match the realized route''
       (num_of m = Some (Max (set (the (num_of (oget route ''owner_dispatch_depth'')) # depths)))))"

definition verify_graph :: "route_env \<Rightarrow> obj \<Rightarrow> obj list \<Rightarrow> string + json" where
  \<comment> \<open>depths, nodes and groups; the answer is the expected profile of the owner\<close>
  "verify_graph env route nodes =
    (let effective = oget route ''effective_intensity'' in
     bindr (depth_in (oget route ''owner_dispatch_depth'') [0, 1]) (\<lambda>owner. bindr (depth_in (oget route ''max_dispatch_depth'') [0, 1, 2]) (\<lambda>limit.
     bindr (require ''invalid qualified dispatch depth'' (owner \<and> limit)) (\<lambda>_.
     bindr (require ''bare route dispatch-depth fields are forbidden'' (\<not> has_any bare_depth_keys route)) (\<lambda>_.
     bindr (expected_owner_profile env effective) (\<lambda>profile.
     bindr (require ''owner_model_profile differs from the portable intensity policy'' (py_eq (oget route ''owner_model_profile'') profile)) (\<lambda>_.
     bindr (verify_nodes (re_registry env) effective profile nodes) (\<lambda>(depths, workers).
     bindr (verify_groups route workers) (\<lambda>_. bindr (verify_depths route depths) (\<lambda>_. Inr profile))))))))))"

definition verify_shape :: "obj \<Rightarrow> json \<Rightarrow> obj list \<Rightarrow> string + unit" where
  "verify_shape route profile nodes = bindr (as_obj (oget_or route ''selection'' (JObj []))) (\<lambda>selection.
     if oget route ''effective_intensity'' = JStr ''direct'' then direct_shape route selection nodes
     else if oget route ''effective_intensity'' = JStr ''quick'' then quick_shape route selection profile nodes
     else Inr ())"

definition sha256_form :: "json \<Rightarrow> bool" where
  "sha256_form v = (case v of JNull \<Rightarrow> True | JStr s \<Rightarrow> startswith ''sha256:'' s | _ \<Rightarrow> False)"

definition verify_tail :: "obj \<Rightarrow> obj list \<Rightarrow> string + unit" where
  "verify_tail route nodes =
    bindr (require ''invalid dispatch_defaults_digest format'' (sha256_form (oget route ''dispatch_defaults_digest''))) (\<lambda>_.
    bindr (validate_tracking_evidence (oget route ''tracking'') (oget route ''tracked_gate_evidence'')) (\<lambda>_.
    bindr (as_obj (oget_or route ''selection'' (JObj []))) (\<lambda>selection.
    bindr (escalation_free (oget selection ''escalation_basis'')) (\<lambda>_.
    bindr (nodes_touch_spec nodes) (\<lambda>touch.
    bindr (require ''spec_touch declaration mismatch'' (truthy (oget route ''spec_touch'') = touch)) (\<lambda>_.
      if short_intensity (oget route ''effective_intensity'') then Inr () else standard_shape route selection nodes))))))"

definition verify_route :: "route_env \<Rightarrow> obj \<Rightarrow> string option \<Rightarrow> bool \<Rightarrow> string + obj" where
  "verify_route env route expected_cwd allow_stale =
    bindr (verify_header env route expected_cwd) (\<lambda>_. bindr (route_currency env route) (\<lambda>(registry_current, units_current).
    if \<not> (registry_current \<and> units_current)
    then if \<not> allow_stale then Inl (if \<not> registry_current then ''stale registry digest'' else ''stale unit catalog digest'')
      else Inr (AList.update ''_registry_current'' (JBool False) route)
    else bindr (nodes_of_route route) (\<lambda>nodes. bindr (verify_recipe env route nodes) (\<lambda>_. bindr (verify_graph env route nodes) (\<lambda>profile.
      bindr (verify_shape route profile nodes) (\<lambda>_. bindr (verify_tail route nodes) (\<lambda>_. Inr route)))))))"

section \<open>\<open>_compile_from_recipe\<close>\<close>

record route_request =
  rq_capability :: string
  rq_mode :: string
  rq_intensity :: string
  rq_cwd :: string
  rq_artifact_root :: string
  rq_predicates :: "string list"
  rq_signals :: "string list"
  rq_transport :: "string option"
  rq_transport_evidence :: string
  rq_inline_reason :: "string option"
  rq_tracking :: string
  rq_gate_evidence :: json
  rq_dispatch_evidence :: json
  rq_headless_evidence :: json

definition string_list :: "json \<Rightarrow> string + string list" where
  "string_list v = bindr (items_of v) (collectr as_str)"

definition py_sorted_set :: "string list \<Rightarrow> string list" where
  \<comment> \<open>\<open>sorted(set(xs))\<close>\<close>
  "py_sorted_set xs = sort (remdups xs)"

definition effective_intensity :: "string \<Rightarrow> string list \<Rightarrow> string list \<Rightarrow> string list \<Rightarrow> string + string" where
  \<comment> \<open>the larger of the requested and the inferred intensity\<close>
  "effective_intensity requested_intensity predicates known signals =
    (let requested = (if requested_intensity = ''auto'' then ''standard'' else requested_intensity);
         inferred = (if signals \<noteq> [] then ''standard'' else if set predicates = set known then ''direct'' else ''quick'') in
     case map_of ORDER requested of
       None \<Rightarrow> Inl ''invalid intensity''
     | Some r \<Rightarrow> Inr (if the (map_of ORDER inferred) > r then inferred else requested))"

definition quick_field :: "obj \<Rightarrow> string \<Rightarrow> string + json" where
  \<comment> \<open>\<open>recipe["quick"][k]\<close>\<close>
  "quick_field recipe k = bindr (bindr (dict_item recipe ''quick'') as_obj) (\<lambda>q. dict_item q k)"

definition direct_node :: "json \<Rightarrow> obj" where
  "direct_node scope = [(''id'', JStr ''inline''), (''kind'', JStr ''capability-owner''), (''dispatch_depth'', JInt 0), (''role'', JStr ''orchestrator''),
     (''write_scope'', scope), (''resource_class'', JStr ''normal''), (''execution_surface'', JStr ''inline''), (''registered_worker'', JBool False),
     (''completion_gate'', JStr ''inline-complete''), (''terminal'', JBool True), (''terminal_gate'', JStr ''inline-complete'')]"

definition quick_node :: "json \<Rightarrow> json \<Rightarrow> json \<Rightarrow> obj" where
  "quick_node kind profile scope = [(''id'', JStr ''one-shot''), (''kind'', kind), (''dispatch_depth'', JInt 1), (''role'', JStr ''orchestrator''),
     (''unit'', JStr ''_kernel/owner''), (''model_profile'', profile), (''write_scope'', scope), (''resource_class'', JStr ''normal''),
     (''execution_surface'', JStr ''registered-headless''), (''registered_worker'', JBool True), (''completion_gate'', JStr ''quick-complete''),
     (''terminal'', JBool True), (''terminal_gate'', JStr ''quick-complete'')]"

record compiled_nodes =
  cn_nodes :: "obj list"
  cn_gates :: json
  cn_profile :: json                        \<comment> \<open>\<open>owner_model_profile\<close>\<close>
  cn_candidates :: json                     \<comment> \<open>\<open>registered_headless_candidates\<close>\<close>
  cn_transport :: string
  cn_reason :: "string option"
  cn_basis :: "json list"                   \<comment> \<open>\<open>selection_basis\<close>\<close>

definition basis :: "string \<Rightarrow> string \<Rightarrow> string \<Rightarrow> json" where
  "basis axis source signal = JObj [(''axis'', JStr axis), (''signal'', JStr signal), (''source'', JStr source)]"

definition compile_nodes :: "route_env \<Rightarrow> obj \<Rightarrow> route_request \<Rightarrow> string \<Rightarrow> string list \<Rightarrow> string list \<Rightarrow> string list \<Rightarrow> string + compiled_nodes" where
  \<comment> \<open>the nodes of the effective intensity\<close>
  "compile_nodes env recipe rq effective predicates known signals =
    (if effective = ''direct'' then
       bindr (quick_field recipe ''write_scope'') (\<lambda>scope. Inr \<lparr>cn_nodes = [direct_node scope], cn_gates = JList [JStr ''inline-complete''],
         cn_profile = JNull, cn_candidates = JNull, cn_transport = ''interactive'',
         cn_reason = Some (case rq_inline_reason rq of None \<Rightarrow> ''atomic-direct'' | Some r \<Rightarrow> r),
         cn_basis = map (basis ''direct-predicate'' ''caller'') predicates\<rparr>)
     else if rq_transport rq \<notin> {None, Some ''headless''} then Inl ''invalid transport''
     else if effective = ''quick'' then
       bindr (validate_headless_evidence (rq_headless_evidence rq)) (\<lambda>candidates.
       bindr (bindr (owner_profiles env) (\<lambda>ps. dict_item ps ''quick'')) (\<lambda>profile.
       bindr (quick_field recipe ''worker_kind'') (\<lambda>kind. bindr (quick_field recipe ''write_scope'') (\<lambda>scope.
         Inr \<lparr>cn_nodes = [quick_node kind profile scope], cn_gates = JList [JStr ''quick-complete''], cn_profile = profile,
           cn_candidates = JList (map JObj candidates), cn_transport = ''headless'', cn_reason = rq_inline_reason rq,
           cn_basis = map (basis ''direct-predicate-gap'' ''compiler'') (sort (filter (\<lambda>p. p \<notin> set predicates) (remdups known)))\<rparr>))))
     else
       bindr (bindr (owner_profiles env) (\<lambda>ps. dict_item ps effective)) (\<lambda>profile. bindr (recipe_nodes recipe effective) (\<lambda>nodes.
       bindr (dict_item recipe ''completion_gates'') (\<lambda>gates.
         Inr \<lparr>cn_nodes = map (AList.delete ''fallback_hops'') nodes, cn_gates = gates, cn_profile = profile, cn_candidates = JNull,
           cn_transport = ''headless'', cn_reason = rq_inline_reason rq, cn_basis = map (basis ''promotion'' ''caller'') signals\<rparr>))))"

definition AFFINITY_VALUES :: "string list" where
  "AFFINITY_VALUES = [''claude'', ''codex'', ''opencode'', ''diverse'']"

definition query_stage_affinity :: "obj \<Rightarrow> string \<Rightarrow> string \<Rightarrow> string + string" where
  \<comment> \<open>with \<open>query_affinity\<close>, whose \<open>neutral\<close> is no affinity\<close>
  "query_stage_affinity config capability stage =
    (if capability = [] \<or> stage = [] then Inr ''unspecified''
     else bindr (as_obj (oget_or config ''capabilities'' (JObj []))) (\<lambda>caps. case oget caps capability of
         JObj stages \<Rightarrow> bindr (in_set (oget stages stage) AFFINITY_VALUES) (\<lambda>known.
           Inr (if known then the_str (oget stages stage) else ''unspecified''))
       | _ \<Rightarrow> Inr ''unspecified''))"

definition seal_affinity :: "route_env \<Rightarrow> string \<Rightarrow> obj \<Rightarrow> string + obj" where
  "seal_affinity env capability node =
    (if num_of (oget node ''dispatch_depth'') \<noteq> Some 2 then Inr node
     else case re_defaults env of
       None \<Rightarrow> Inr (AList.update ''harness_affinity'' (JStr ''unspecified'') node)
     | Some (Inl e) \<Rightarrow> Inl e
     | Some (Inr config) \<Rightarrow> bindr (dict_item node ''id'') (\<lambda>i. bindr (as_str (oget_or node ''parallel_anchor'' i)) (\<lambda>stage.
         bindr (query_stage_affinity config capability stage) (\<lambda>a. Inr (AList.update ''harness_affinity'' (JStr a) node)))))"

definition seal_dispatch_defaults :: "route_env \<Rightarrow> obj list \<Rightarrow> string \<Rightarrow> string + json \<times> obj list" where
  "seal_dispatch_defaults env nodes capability =
    (case re_defaults env of
      Some (Inl e) \<Rightarrow> Inl ''corrupt dispatch-defaults config''
    | d \<Rightarrow> bindr (collectr (seal_affinity env capability) nodes) (\<lambda>nodes.
        Inr (case d of Some (Inr config) \<Rightarrow> JStr (''sha256:'' @ re_digest env (JObj config)) | _ \<Rightarrow> JNull, nodes)))"

definition seal_evidence :: "obj \<Rightarrow> route_request \<Rightarrow> string \<Rightarrow> obj list \<Rightarrow> string + json \<times> obj list" where
  \<comment> \<open>the checked evidence of a standard route, and its chain in every node of dispatch depth 2\<close>
  "seal_evidence recipe rq effective nodes =
    (if short_intensity (JStr effective) then Inr (JNull, nodes)
     else bindr (bindr (standard_graph recipe) (\<lambda>g. dict_item g ''owner_dispatch_depth'')) (\<lambda>owner.
       bindr (evidence_parent_depth nodes owner) (\<lambda>depth.
       bindr (validate_dispatch_evidence (rq_dispatch_evidence rq) (JInt DISPATCH_CONTRACT_VERSION) depth) (\<lambda>checked.
       bindr (fallback_chain (evidence_json checked) (JInt DISPATCH_CONTRACT_VERSION) depth) (\<lambda>chain.
         Inr (evidence_json checked, map (\<lambda>n. if num_of (oget n ''dispatch_depth'') = Some 2
           then AList.update ''fallback_hops'' (JList chain) n else n) nodes))))))"

definition opt_str :: "string option \<Rightarrow> json" where
  "opt_str x = (case x of None \<Rightarrow> JNull | Some s \<Rightarrow> JStr s)"

definition check_request :: "obj \<Rightarrow> route_request \<Rightarrow> bool \<Rightarrow> string + string list \<times> string list \<times> string list \<times> string" where
  \<comment> \<open>the known and the given predicates, the signals and the effective intensity\<close>
  "check_request recipe rq composed =
    bindr (bindr (dict_item recipe ''direct_predicates'') string_list) (\<lambda>known.
    let predicates = py_sorted_set (rq_predicates rq); signals = py_sorted_set (rq_signals rq) in
    bindr (require ''unknown predicates'' (set predicates \<subseteq> set known)) (\<lambda>_.
    bindr (require ''tracking cannot be an escalation signal'' (set signals \<inter> set TRACKING = {})) (\<lambda>_.
    bindr (bindr (dict_item recipe ''promotion_signals'') string_list) (\<lambda>promotions.
    bindr (require ''unknown promotion signals'' (set signals \<subseteq> set promotions)) (\<lambda>_.
    bindr (effective_intensity (rq_intensity rq) predicates known signals) (\<lambda>effective.
    bindr (require ''invalid transport'' (rq_transport rq \<in> insert None (Some ` set WRAPPER_TRANSPORTS))) (\<lambda>_.
    bindr (require ''composed routes require a standard+ effective intensity'' (\<not> (composed \<and> short_intensity (JStr effective)))) (\<lambda>_.
      Inr (known, predicates, signals, effective)))))))))"

definition check_reason :: "route_env \<Rightarrow> string \<Rightarrow> string option \<Rightarrow> string + unit" where
  "check_reason env effective reason =
    (if effective \<noteq> ''direct'' then require ''inline_reason only applies to direct'' (reason = None)
     else bindr (bindr (dict_item (re_registry env) ''inline_reasons'') items_of) (\<lambda>reasons.
       require ''structured inline_reason required'' (opt_str reason \<in> set reasons)))"

definition route_depths :: "obj \<Rightarrow> string \<Rightarrow> string + json \<times> json \<times> json" where
  \<comment> \<open>topology, owner and maximal dispatch depth\<close>
  "route_depths recipe effective =
    (if effective = ''direct'' then Inr (JStr ''inline'', JInt 0, JInt 0)
     else if effective = ''quick'' then bindr (quick_field recipe ''topology'') (\<lambda>t. bindr (quick_field recipe ''owner_dispatch_depth'') (\<lambda>o'.
       bindr (quick_field recipe ''max_dispatch_depth'') (\<lambda>m. Inr (t, o', m))))
     else bindr (dict_item recipe ''topology_class'') (\<lambda>t. bindr (standard_graph recipe) (\<lambda>g. bindr (dict_item g ''owner_dispatch_depth'') (\<lambda>o'.
       bindr (dict_item g ''max_dispatch_depth'') (\<lambda>m. Inr (t, o', m))))))"

definition signal_rows :: "string list \<Rightarrow> json" where
  "signal_rows signals = JList (map (\<lambda>s. JObj [(''signal'', JStr s), (''source'', JStr ''caller'')]) signals)"

definition selection_json :: "route_request \<Rightarrow> string list \<Rightarrow> string list \<Rightarrow> compiled_nodes \<Rightarrow> json" where
  "selection_json rq predicates signals cn = JObj [(''direct_predicates'', JList (map JStr predicates)), (''promotion_signals'', signal_rows signals),
     (''selection_basis'', JList (cn_basis cn)), (''escalation_basis'', signal_rows signals), (''transport'', JStr (cn_transport cn)),
     (''transport_evidence'', JStr (rq_transport_evidence rq)), (''inline_reason'', opt_str (cn_reason cn))]"

definition seal_route :: "route_env \<Rightarrow> obj \<Rightarrow> obj" where
  "seal_route env payload = payload @ [(''route_hash'', JStr (route_hash env payload)), (''route_id'', JStr (route_id_of (route_hash env payload)))]"

definition compile_payload :: "route_env \<Rightarrow> obj \<Rightarrow> route_request \<Rightarrow> string list \<Rightarrow> string list \<Rightarrow> string \<Rightarrow> compiled_nodes \<Rightarrow> json \<Rightarrow>
    json \<Rightarrow> json \<Rightarrow> obj list \<Rightarrow> string + obj" where
  \<comment> \<open>the payload from the sealed nodes on\<close>
  "compile_payload env recipe rq predicates signals effective cn evidence checked defaults nodes =
    bindr (collectr (\<lambda>n. bindr (bindr (dict_item n ''write_scope'') items_of) (collectr as_str)) nodes) (\<lambda>scopes.
    bindr (route_depths recipe effective) (\<lambda>(topology, owner_depth, max_depth).
    bindr (realized_parallel_groups nodes) (\<lambda>groups.
    bindr (realize_extensions recipe (JStr effective)) (\<lambda>extensions.
    bindr (dict_item recipe ''human_gates'') (\<lambda>human_gates.
    bindr (expected_bindings recipe (JStr effective)) (\<lambda>bindings.
    bindr (workflow_contract (re_registry env) nodes bindings) (\<lambda>contract.
    bindr (dict_item recipe ''resume_retry_boundaries'') (\<lambda>boundaries.
      Inr [(''schema_version'', JInt ROUTE_SCHEMA_VERSION), (''capability'', JStr (rq_capability rq)), (''capability_mode'', JStr (rq_mode rq)),
        (''requested_intensity'', JStr (rq_intensity rq)), (''effective_intensity'', JStr effective), (''owner_model_profile'', cn_profile cn),
        (''execution_topology'', topology), (''owner_dispatch_depth'', owner_depth), (''max_dispatch_depth'', max_depth),
        (''tracking'', JStr (rq_tracking rq)), (''tracked_gate_evidence'', evidence), (''spec_touch'', JBool (list_ex scope_touches_spec (concat scopes))),
        (''cwd'', JStr (re_resolve env (rq_cwd rq))), (''artifact_root'', JStr (re_resolve env (rq_artifact_root rq))),
        (''source_commit'', JStr (re_commit env (re_resolve env (rq_cwd rq)))), (''registry_digest'', JStr (registry_digest env)),
        (''dispatch_defaults_digest'', defaults), (''selection'', selection_json rq predicates signals cn),
        (''nodes'', JList (map JObj nodes)), (''parallel_groups'', groups), (''conditional_extensions'', JList extensions),
        (''completion_gates'', cn_gates cn), (''human_gates'', human_gates), (''human_gate_bindings'', bindings), (''workflow_contract'', contract),
        (''resume_retry_boundaries'', boundaries), (''dispatch_evidence'', checked), (''dispatch_contract_version'', JInt DISPATCH_CONTRACT_VERSION),
        (''registered_headless_candidates'', cn_candidates cn),
        (''registered_headless_policy'', if effective = ''quick'' then JStr ''serial-attempt'' else JNull),
        (''unit_catalog_digest'', JStr (re_units env))]))))))))"

definition compile_from_recipe :: "route_env \<Rightarrow> obj \<Rightarrow> route_request \<Rightarrow> bool \<Rightarrow> string + obj" where
  "compile_from_recipe env recipe rq composed =
    bindr (require ''cwd and artifact root must be absolute'' (startswith [slash] (re_resolve env (rq_cwd rq)) \<and>
      startswith [slash] (re_resolve env (rq_artifact_root rq)))) (\<lambda>_.
    bindr (check_request recipe rq composed) (\<lambda>(known, predicates, signals, effective).
    bindr (compile_nodes env recipe rq effective predicates known signals) (\<lambda>cn.
    bindr (check_reason env effective (cn_reason cn)) (\<lambda>_.
    bindr (validate_tracking_evidence (JStr (rq_tracking rq)) (rq_gate_evidence rq)) (\<lambda>evidence.
    bindr (seal_evidence recipe rq effective (cn_nodes cn)) (\<lambda>(checked, nodes).
    bindr (seal_dispatch_defaults env nodes (rq_capability rq)) (\<lambda>(defaults, nodes).
    bindr (compile_payload env recipe rq predicates signals effective cn evidence checked defaults nodes) (\<lambda>payload.
      Inr (seal_route env (payload @ (if composed then [(''composed'', JBool True), (''composed_recipe'', JObj recipe)] else [])))))))))))"

definition compile_route :: "route_env \<Rightarrow> (obj \<Rightarrow> string + unit) \<Rightarrow> route_request \<Rightarrow> string + obj" where
  \<comment> \<open>\<open>valid\<close>: the outcome of \<open>TOPO.validate_registry\<close>\<close>
  "compile_route env valid rq = bindr (valid (re_registry env)) (\<lambda>_.
     bindr (resolve_recipe (re_registry env) (JStr (rq_capability rq)) (JStr (rq_mode rq))) (\<lambda>recipe.
       compile_from_recipe env recipe rq False))"

definition compile_composed_route :: "route_env \<Rightarrow> (obj \<Rightarrow> string + unit) \<Rightarrow> (obj \<Rightarrow> string + unit) \<Rightarrow> json \<Rightarrow> route_request \<Rightarrow> string + obj" where
  \<comment> \<open>\<open>gates\<close>: the outcome of \<open>TOPO._validate_gate_contracts\<close>\<close>
  "compile_composed_route env valid gates composed rq = bindr (valid (re_registry env)) (\<lambda>_.
     case composed of
       JObj recipe \<Rightarrow> bindr (bindr (owner_profiles env) (\<lambda>ps. dict_item ps ''standard'')) (\<lambda>profile.
         bindr (re_valid_recipe env recipe profile) (\<lambda>_. bindr (gates recipe) (\<lambda>_.
         bindr (holds_str (rq_mode rq) (oget_or recipe ''modes'' (JList []))) (\<lambda>declared.
         bindr (require ''composed recipe does not declare the requested capability mode'' declared) (\<lambda>_.
         bindr (bindr (dict_item recipe ''capability'') as_str) (\<lambda>capability.
           compile_from_recipe env recipe (rq\<lparr>rq_capability := capability\<rparr>) True))))))
     | _ \<Rightarrow> Inl ''composed recipe must be an object'')"

section \<open>A compiled route is accepted\<close>

lemma route_hash_seal:
  assumes "''route_hash'' \<notin> fst ` set p" "''route_id'' \<notin> fst ` set p"
  shows "route_hash env (seal_route env p) = route_hash env p"
proof -
  have "filter (\<lambda>(k, _). k \<noteq> ''route_hash'' \<and> k \<noteq> ''route_id'') p = p"
    using assms by (force intro: filter_True)
  then show ?thesis by (simp add: route_hash_def seal_route_def)
qed

lemma map_of_append_other: "k \<notin> fst ` set b \<Longrightarrow> map_of (a @ b) k = map_of a k"
proof -
  assume "k \<notin> fst ` set b"
  then have "map_of b k = None" by (simp add: map_of_eq_None_iff)
  then show ?thesis by (simp add: map_add_def split: option.split)
qed

lemma seal_map_of: "k \<notin> {''route_hash'', ''route_id''} \<Longrightarrow> map_of (seal_route env p) k = map_of p k"
  unfolding seal_route_def by (rule map_of_append_other) auto

lemma seal_fields:
  assumes "''route_hash'' \<notin> fst ` set p" "''route_id'' \<notin> fst ` set p"
  shows "oget (seal_route env p) ''route_hash'' = JStr (route_hash env p)" "oget (seal_route env p) ''route_id'' = JStr (route_id_of (route_hash env p))"
proof -
  have "map_of p ''route_hash'' = None" "map_of p ''route_id'' = None" using assms by (simp_all add: map_of_eq_None_iff)
  then show "oget (seal_route env p) ''route_hash'' = JStr (route_hash env p)" "oget (seal_route env p) ''route_id'' = JStr (route_id_of (route_hash env p))"
    by (simp_all add: seal_route_def oget_def map_add_def)
qed

definition payload_keys :: "string list" where
  "payload_keys = [''schema_version'', ''capability'', ''capability_mode'', ''requested_intensity'', ''effective_intensity'', ''owner_model_profile'',
     ''execution_topology'', ''owner_dispatch_depth'', ''max_dispatch_depth'', ''tracking'', ''tracked_gate_evidence'', ''spec_touch'', ''cwd'',
     ''artifact_root'', ''source_commit'', ''registry_digest'', ''dispatch_defaults_digest'', ''selection'', ''nodes'', ''parallel_groups'',
     ''conditional_extensions'', ''completion_gates'', ''human_gates'', ''human_gate_bindings'', ''workflow_contract'', ''resume_retry_boundaries'',
     ''dispatch_evidence'', ''dispatch_contract_version'', ''registered_headless_candidates'', ''registered_headless_policy'', ''unit_catalog_digest'']"

lemma compile_payload_Inr:
  assumes "compile_payload env recipe rq predicates signals effective cn evidence checked defaults nodes = Inr p"
  obtains scopes topology owner_depth max_depth groups extensions human_gates bindings contract where
    "collectr (\<lambda>n. bindr (bindr (dict_item n ''write_scope'') items_of) (collectr as_str)) nodes = Inr scopes"
    "route_depths recipe effective = Inr (topology, owner_depth, max_depth)" "realized_parallel_groups nodes = Inr groups"
    "realize_extensions recipe (JStr effective) = Inr extensions" "dict_item recipe ''human_gates'' = Inr human_gates"
    "expected_bindings recipe (JStr effective) = Inr bindings" "workflow_contract (re_registry env) nodes bindings = Inr contract"
    "map fst p = payload_keys" "map_of p ''schema_version'' = Some (JInt ROUTE_SCHEMA_VERSION)" "map_of p ''capability'' = Some (JStr (rq_capability rq))"
    "map_of p ''capability_mode'' = Some (JStr (rq_mode rq))" "map_of p ''effective_intensity'' = Some (JStr effective)"
    "map_of p ''owner_model_profile'' = Some (cn_profile cn)" "map_of p ''owner_dispatch_depth'' = Some owner_depth" "map_of p ''max_dispatch_depth'' = Some max_depth"
    "map_of p ''tracking'' = Some (JStr (rq_tracking rq))" "map_of p ''tracked_gate_evidence'' = Some evidence"
    "map_of p ''spec_touch'' = Some (JBool (list_ex scope_touches_spec (concat scopes)))" "map_of p ''cwd'' = Some (JStr (re_resolve env (rq_cwd rq)))"
    "map_of p ''registry_digest'' = Some (JStr (registry_digest env))" "map_of p ''dispatch_defaults_digest'' = Some defaults"
    "map_of p ''selection'' = Some (selection_json rq predicates signals cn)" "map_of p ''nodes'' = Some (JList (map JObj nodes))"
    "map_of p ''parallel_groups'' = Some groups" "map_of p ''conditional_extensions'' = Some (JList extensions)"
    "map_of p ''human_gates'' = Some human_gates" "map_of p ''human_gate_bindings'' = Some bindings" "map_of p ''workflow_contract'' = Some contract"
    "map_of p ''dispatch_evidence'' = Some checked" "map_of p ''dispatch_contract_version'' = Some (JInt DISPATCH_CONTRACT_VERSION)"
    "map_of p ''registered_headless_candidates'' = Some (cn_candidates cn)"
    "map_of p ''registered_headless_policy'' = Some (if effective = ''quick'' then JStr ''serial-attempt'' else JNull)"
    "map_of p ''unit_catalog_digest'' = Some (JStr (re_units env))"
proof -
  from assms obtain scopes topology owner_depth max_depth groups extensions human_gates bindings contract boundaries where
    parts: "collectr (\<lambda>n. bindr (bindr (dict_item n ''write_scope'') items_of) (collectr as_str)) nodes = Inr scopes"
    "route_depths recipe effective = Inr (topology, owner_depth, max_depth)" "realized_parallel_groups nodes = Inr groups"
    "realize_extensions recipe (JStr effective) = Inr extensions" "dict_item recipe ''human_gates'' = Inr human_gates"
    "expected_bindings recipe (JStr effective) = Inr bindings" "workflow_contract (re_registry env) nodes bindings = Inr contract"
    "dict_item recipe ''resume_retry_boundaries'' = Inr boundaries"
    unfolding compile_payload_def bindr_Inr_iff by (clarsimp split: prod.splits simp: bindr_Inr_iff)
  note p = assms [unfolded compile_payload_def parts bindr_simps prod.case, THEN Inr_inject, symmetric]
  show thesis by (rule that [OF parts(1-7)]) (simp_all add: p payload_keys_def)
qed

lemma oget_Some: "map_of d k = Some v \<Longrightarrow> oget d k = v" "map_of d k = Some v \<Longrightarrow> oget_or d k w = v" "map_of d k = Some v \<Longrightarrow> dict_item d k = Inr v"
  by (simp_all add: oget_def oget_or_def dict_item_def)

lemma oget_None: "map_of d k = None \<Longrightarrow> oget d k = JNull"
  by (simp add: oget_def)

lemma seal_header:
  assumes "map fst p = payload_keys" "map_of p ''schema_version'' = Some (JInt ROUTE_SCHEMA_VERSION)"
    "map_of p ''dispatch_contract_version'' = Some (JInt DISPATCH_CONTRACT_VERSION)" "map_of p ''cwd'' = Some (JStr cwd)"
    "map_of p ''registry_digest'' = Some (JStr (registry_digest env))" "map_of p ''unit_catalog_digest'' = Some (JStr (re_units env))"
    "expected = None \<or> expected = Some c \<and> re_resolve env c = cwd \<and> re_path env cwd = cwd"
  shows "verify_header env (seal_route env p) expected = Inr ()" "route_currency env (seal_route env p) = Inr (True, True)"
proof -
  have "fst ` set p = set payload_keys" using assms(1) by (metis list.set_map)
  then have keys: "''route_hash'' \<notin> fst ` set p" "''route_id'' \<notin> fst ` set p" by (simp_all add: payload_keys_def)
  note fields = assms(2-6)[THEN oget_Some(1)] assms(4)[THEN oget_Some(3)] assms(5)[THEN oget_Some(3)]
  have other: "oget (seal_route env p) k = oget p k" "dict_item (seal_route env p) k = dict_item p k" if "k \<notin> {''route_hash'', ''route_id''}" for k
    using seal_map_of [OF that, of env p] by (simp_all add: oget_def dict_item_def)
  show "verify_header env (seal_route env p) expected = Inr ()" using assms(7) fields seal_fields [OF keys, of env] route_hash_seal [OF keys, of env]
    by (auto simp: verify_header_def other require_def as_str_def)
  show "route_currency env (seal_route env p) = Inr (True, True)" using fields by (simp add: route_currency_def other)
qed

lemma set_update: "set (AList.update k v d) \<subseteq> insert (k, v) (set d)"
  by (induction d) auto

lemma wf_update: "wf_json (JObj d) \<Longrightarrow> wf_json v \<Longrightarrow> wf_json (JObj (AList.update k v d))"
  using set_update [of k v d] by (auto simp: list_all_iff intro: AList.distinct_update)

lemma wf_item: "wf_json (JObj d) \<Longrightarrow> map_of d k = Some v \<Longrightarrow> wf_json v"
  by (auto simp: list_all_iff dest!: map_of_SomeD)

lemma wf_items: "wf_json v \<Longrightarrow> items_of v = Inr xs \<Longrightarrow> list_all wf_json xs"
  by (auto simp: items_of_def list_all_iff split: json.splits)

lemma wf_after: "wf_json (JList [JStr s])"
  by simp

lemma wf_extensions:
  assumes "realize_extensions recipe effective = Inr rows" "wf_json (JObj recipe)"
  shows "wf_json (JList rows)"
proof -
  from assms(1) obtain rows0 where items: "items_of (oget_or recipe ''conditional_extensions'' (JList [])) = Inr rows0"
    and rows: "if \<not> short_intensity effective then rows = rows0 else \<exists>ds. collectr as_obj rows0 = Inr ds \<and>
       rows = map (\<lambda>r. JObj (AList.update ''after'' (JList [JStr (if effective = JStr ''direct'' then ''inline'' else ''one-shot'')]) r)) ds"
    by (cases "short_intensity effective") (auto simp: realize_extensions_def bindr_Inr_iff)
  have "wf_json (oget_or recipe ''conditional_extensions'' (JList []))"
    using wf_item [OF assms(2)] by (cases "map_of recipe ''conditional_extensions''") (simp_all add: oget_or_def)
  then have wf: "list_all wf_json rows0" using wf_items items by blast
  show ?thesis
  proof (cases "short_intensity effective")
    case True
    with rows obtain ds where ds: "list_all2 (\<lambda>x y. as_obj x = Inr y) rows0 ds"
      "rows = map (\<lambda>r. JObj (AList.update ''after'' (JList [JStr (if effective = JStr ''direct'' then ''inline'' else ''one-shot'')]) r)) ds"
      by (auto simp: collectr_Inr)
    have "\<forall>d \<in> set ds. JObj d \<in> set rows0" using list_all2_ex [OF ds(1)] by (auto simp: as_obj_Inr)
    with wf have "\<forall>d \<in> set ds. wf_json (JObj d)" unfolding list_all_iff by blast
    then have "list_all wf_json rows" unfolding ds(2) list_all_iff set_map by (blast intro: wf_update [OF _ wf_after])
    then show ?thesis by simp
  qed (use rows wf in simp)
qed

lemma contract_rows_wf:
  "contract_rows registry graph rows acc = Inr (ts, cs) \<Longrightarrow> wf_json (JObj (snd acc)) \<Longrightarrow> wf_json (JObj cs)"
proof (induction rows arbitrary: acc)
  case (Cons p rows)
  obtain i node where p: "p = (i, node)" by fastforce
  show ?case
  proof (cases "dependents i graph = []")
    case True
    with Cons p show ?thesis by (auto split: if_splits)
  next
    case False
    with Cons.prems p obtain k where k: "continuation_kind registry node = Inr k"
      and rest: "contract_rows registry graph rows (fst acc, AList.update i k (snd acc)) = Inr (ts, cs)" by (auto simp: bindr_Inr_iff)
    have "wf_json k" using continuation_kind_Inr [OF k] by auto
    with Cons.IH [OF rest] Cons.prems(2) show ?thesis by (simp add: wf_update del: wf_json.simps)
  qed
qed simp

lemma wf_contract:
  assumes "workflow_contract registry nodes bindings = Inr c" "wf_json (JObj registry)" "wf_json bindings"
  shows "wf_json c"
proof -
  from assms(1) obtain ids dss ts cs s1 states f1 failures where rows: "contract_rows registry (zip ids dss) (zip ids nodes) ([], []) = Inr (ts, cs)"
    and st: "dict_item registry ''workflow_states'' = Inr s1" "items_of s1 = Inr states"
    and fl: "dict_item registry ''workflow_failure_states'' = Inr f1" "items_of f1 = Inr failures"
    and c: "c = JObj [(''schema_version'', JInt 1), (''states'', JList states), (''failure_states'', JList failures),
            (''terminal_nodes'', JList (map JStr (sort ts))), (''continuations'', JObj cs), (''human_gate_bindings'', py_or bindings (JList []))]"
    by (auto simp: workflow_contract_def bindr_Inr_iff split: if_splits)
  have "list_all wf_json states" "list_all wf_json failures"
    using wf_items [OF wf_item [OF assms(2)]] st fl by (auto simp: dict_item_Inr)
  moreover have "wf_json (JObj cs)" using contract_rows_wf [OF rows] by simp
  moreover have "wf_json (py_or bindings (JList []))" using assms(3) by (simp add: py_or_def)
  ultimately show ?thesis unfolding c by (simp add: list_all_iff)
qed

end
