(* ===== verification/Route_Accept.thy ===== *)
theory Route_Accept
  imports Route_Seal
begin

text \<open>
  What sealing and verifying routes guarantee: a compiled direct or quick route is accepted as long as registry and
  units do not change, and an accepted route has the shape its readers rely on.
\<close>

section \<open>Evidence is accepted again\<close>

lemma headless_row_Inr:
  assumes "headless_row seen v = Inr r"
  shows "oget r ''harness'' \<in> JStr ` set HEADLESS_HARNESSES" "oget r ''harness'' \<notin> set seen" "headless_row [] (JObj r) = Inr r" "\<exists>d. v = JObj d \<and> r = only_fields HEADLESS_FIELDS d"
proof -
  from assms obtain d where v: "v = JObj d" by (cases v) (simp_all add: headless_row_def)
  from assms v have r: "r = only_fields HEADLESS_FIELDS d" by (auto simp: headless_row_def bindr_Inr_iff split: if_splits)
  have same: "oget r k = oget d k" if "k \<in> set HEADLESS_FIELDS" for k using that by (simp add: r oget_only_fields)
  note fields = same [of "''status''"] same [of "''harness''"] same [of "''surface''"] same [of "''transport''"]
    same [of "''probe_source''"] same [of "''probe_time''"]
  note fields' = fields [unfolded HEADLESS_FIELDS_def, simplified]
  have again: "only_fields HEADLESS_FIELDS r = r" "has_fields HEADLESS_FIELDS r" by (simp_all add: r has_fields_def)
  show "oget r ''harness'' \<in> JStr ` set HEADLESS_HARNESSES" "oget r ''harness'' \<notin> set seen"
    using assms by (auto simp: v headless_row_def bindr_Inr_iff in_set_Inr fields' split: if_splits)
  show "headless_row [] (JObj r) = Inr r"
    using assms again by (auto simp: v headless_row_def bindr_Inr_iff fields' r [symmetric] split: if_splits)
  show "\<exists>d. v = JObj d \<and> r = only_fields HEADLESS_FIELDS d" using v r by blast
qed

lemma headless_row_seen: "headless_row [] (JObj r) = Inr r \<Longrightarrow> oget r ''harness'' \<notin> set seen \<Longrightarrow> headless_row seen (JObj r) = Inr r"
  by (auto simp: headless_row_def bindr_Inr_iff split: if_splits)

lemma headless_rows_Inr:
  "headless_rows seen vs = Inr rs \<Longrightarrow> (\<forall>r \<in> set rs. headless_row [] (JObj r) = Inr r \<and> oget r ''harness'' \<in> JStr ` set HEADLESS_HARNESSES \<and>
     oget r ''harness'' \<notin> set seen \<and> (\<exists>d. JObj d \<in> set vs \<and> r = only_fields HEADLESS_FIELDS d)) \<and> distinct (map (\<lambda>r. oget r ''harness'') rs)"
proof (induction vs arbitrary: seen rs)
  case (Cons v vs)
  from Cons.prems obtain r rs' where r: "headless_row seen v = Inr r" and rs': "headless_rows (oget r ''harness'' # seen) vs = Inr rs'" "rs = r # rs'"
    by (auto simp: bindr_Inr_iff)
  from Cons.IH [OF rs'(1)] headless_row_Inr [OF r] rs'(2) show ?case by auto
qed simp

lemma headless_rows_again:
  "\<forall>r \<in> set rs. headless_row [] (JObj r) = Inr r \<and> oget r ''harness'' \<notin> set seen \<Longrightarrow> distinct (map (\<lambda>r. oget r ''harness'') rs) \<Longrightarrow>
   headless_rows seen (map JObj rs) = Inr rs"
proof (induction rs arbitrary: seen)
  case (Cons r rs)
  have one: "headless_row seen (JObj r) = Inr r" using Cons.prems(1) by (simp add: headless_row_seen)
  have "headless_rows (oget r ''harness'' # seen) (map JObj rs) = Inr rs"
    using Cons.prems by (intro Cons.IH) (auto, metis image_eqI)
  with one show ?case by simp
qed simp

lemma sort_key_id: "sorted (map f xs) \<Longrightarrow> sort_key f xs = xs"
  by (induction xs) (auto intro: insort_is_Cons)

lemma headless_evidence_again:
  assumes "validate_headless_evidence e = Inr rs"
  shows "validate_headless_evidence (JObj [(''candidates'', JList (map JObj rs))]) = Inr rs"
    "wf_json e \<Longrightarrow> wf_json (JList (map JObj rs))"
proof -
  from assms obtain d where e: "e = JObj d" by (cases e) (simp_all add: validate_headless_evidence_def)
  with assms obtain c cs where cs: "oget d ''candidates'' = JList (c # cs)"
    by (simp add: validate_headless_evidence_def split: json.splits list.splits)
  with assms e obtain rows where rows: "headless_rows [] (c # cs) = Inr rows" and sup: "list_ex (\<lambda>d. oget d ''status'' = JStr ''supported'') rows"
    and rs: "rs = sort_key (\<lambda>d. the_str (oget d ''harness'')) rows"
    by (auto simp: validate_headless_evidence_def bindr_Inr_iff split: if_splits simp del: headless_rows.simps)
  note facts = headless_rows_Inr [OF rows]
  have "mset (map (\<lambda>r. oget r ''harness'') rs) = mset (map (\<lambda>r. oget r ''harness'') rows)" unfolding rs by simp
  then have "distinct (map (\<lambda>r. oget r ''harness'') rs)" using facts by (metis mset_eq_imp_distinct_iff)
  then have again: "headless_rows [] (map JObj rs) = Inr rs" using facts by (intro headless_rows_again) (auto simp: rs)
  have "set rs = set rows" by (simp add: rs)
  then have "rs \<noteq> []" using sup by (auto simp: list_ex_iff)
  then obtain r rs' where "map JObj rs = r # rs'" by (cases rs) auto
  moreover have "list_ex (\<lambda>d. oget d ''status'' = JStr ''supported'') rs" using sup by (simp add: rs list_ex_iff)
  moreover have "sort_key (\<lambda>d. the_str (oget d ''harness'')) rs = rs" by (rule sort_key_id) (simp add: rs)
  ultimately show "validate_headless_evidence (JObj [(''candidates'', JList (map JObj rs))]) = Inr rs"
    using again by (simp add: validate_headless_evidence_def del: headless_rows.simps)
  assume wf: "wf_json e"
  have "wf_json (JObj r)" if "r \<in> set rs" for r
  proof -
    from that facts rs obtain d' where d': "JObj d' \<in> set (c # cs)" "r = only_fields HEADLESS_FIELDS d'" by auto
    have "map_of d ''candidates'' = Some (JList (c # cs))" using cs by (cases "map_of d ''candidates''") (simp_all add: oget_def)
    from wf_item [OF wf [unfolded e] this] d'(1) have "wf_json (JObj d')" unfolding wf_json.simps(2) list_all_iff by blast
    then have "\<forall>k. wf_json (oget d' k)" using wf_item [of d'] by (auto simp: oget_def simp del: wf_json.simps(1) split: option.splits)
    then show ?thesis unfolding d'(2) only_fields_def by (simp add: HEADLESS_FIELDS_def)
  qed
  then show "wf_json (JList (map JObj rs))" by (simp add: list_all_iff del: wf_json.simps(1))
qed

section \<open>A compiled short route is accepted\<close>

lemma anchored_extensions:
  assumes "realize_extensions recipe effective = Inr rows" "short_intensity effective" "oget node ''id'' = JStr (if effective = JStr ''direct'' then ''inline'' else ''one-shot'')"
  shows "\<exists>bs. collectr (extension_anchored [node]) rows = Inr bs \<and> list_all id bs"
proof -
  let ?anchor = "JStr (if effective = JStr ''direct'' then ''inline'' else ''one-shot'')"
  from assms(1,2) obtain ds where rows: "rows = map (\<lambda>r. JObj (AList.update ''after'' (JList [?anchor]) r)) ds"
    by (auto simp: realize_extensions_def bindr_Inr_iff)
  have "extension_anchored [node] (JObj (AList.update ''after'' (JList [?anchor]) r)) = Inr True" for r
    using assms(3) by (simp add: extension_anchored_def as_obj_def dict_item_def update_conv' items_of_def hashable_def is_list_def is_obj_def)
  then have "collectr (extension_anchored [node]) rows = Inr (map (\<lambda>_. True) ds)" unfolding rows by (induction ds) auto
  then show ?thesis by (auto simp: list_all_iff)
qed

definition plain_workers :: "obj \<Rightarrow> json \<Rightarrow> json \<Rightarrow> obj \<Rightarrow> int \<Rightarrow> bool" where
  \<comment> \<open>one dispatched node outside any group\<close>
  "plain_workers registry effective profile node depth \<longleftrightarrow> oget node ''kind'' \<noteq> JStr ''resource-runner'' \<and>
     worker_node registry effective profile node = Inr depth \<and> oget node ''parallel_group'' = JNull"

lemma plain_workers_verify:
  assumes "plain_workers registry effective profile node depth"
  shows "verify_nodes registry effective profile [node] = Inr ([depth], [node])" "realized_parallel_groups [node] = Inr (JList [])"
    "members_by_group [node] [] = []"
  using assms by (simp_all add: plain_workers_def group_alias_def realized_parallel_groups_def)

lemma tracking_evidence_same: "validate_tracking_evidence tracking evidence = Inr e \<Longrightarrow> e = evidence"
  by (auto simp: validate_tracking_evidence_def bindr_Inr_iff split: if_splits json.splits)

lemma signal_rows_free: "set signals \<inter> set TRACKING = {} \<Longrightarrow> escalation_free (signal_rows signals) = Inr ()"
proof -
  assume d: "set signals \<inter> set TRACKING = {}"
  have "collectr (\<lambda>r. case r of JObj d \<Rightarrow> in_set (oget d ''signal'') TRACKING | _ \<Rightarrow> Inr False)
      (map (\<lambda>s. JObj [(''signal'', JStr s), (''source'', JStr ''caller'')]) ss) = Inr (map (\<lambda>s. s \<in> set TRACKING) ss)" for ss
    by (induction ss) (auto simp: in_set_def hashable_def is_list_def is_obj_def)
  with d show ?thesis by (auto simp: escalation_free_def signal_rows_def list_ex_iff require_def)
qed

lemma spec_touch_same:
  assumes "collectr (\<lambda>n. bindr (bindr (dict_item n ''write_scope'') items_of) (collectr as_str)) nodes = Inr scopes"
  shows "nodes_touch_spec nodes = Inr (list_ex scope_touches_spec (concat scopes))"
proof -
  have app: "collectr as_str (xs @ ys) = bindr (collectr as_str xs) (\<lambda>a. bindr (collectr as_str ys) (\<lambda>b. Inr (a @ b)))" for xs ys
  proof (induction xs)
    case Nil
    show ?case by (cases "collectr as_str ys") simp_all
  next
    case (Cons x xs)
    then show ?case by (cases "as_str x"; cases "collectr as_str xs"; cases "collectr as_str ys") simp_all
  qed
  have "\<exists>sss. collectr scopes_of nodes = Inr sss \<and> collectr as_str (concat sss) = Inr (concat scopes)"
    using assms
  proof (induction nodes arbitrary: scopes)
    case (Cons n nodes)
    then obtain v ss1 ss rest where v: "dict_item n ''write_scope'' = Inr v" "items_of v = Inr ss1" "collectr as_str ss1 = Inr ss"
      and rest: "collectr (\<lambda>n. bindr (bindr (dict_item n ''write_scope'') items_of) (collectr as_str)) nodes = Inr rest" "scopes = ss # rest"
      by (auto simp: bindr_Inr_iff)
    from v have "scopes_of n = Inr ss1" by (simp add: scopes_of_def dict_item_Inr oget_or_def)
    with Cons.IH [OF rest(1)] rest(2) v(3) app show ?case by auto
  qed simp
  then show ?thesis by (auto simp: nodes_touch_spec_def)
qed

lemma seal_reads:
  assumes "map_of p k = Some v" "k \<notin> {''route_hash'', ''route_id''}"
  shows "oget (seal_route env p) k = v" "oget_or (seal_route env p) k d = v" "dict_item (seal_route env p) k = Inr v"
  using assms seal_map_of [OF assms(2), of env p] by (simp_all add: oget_def oget_or_def dict_item_def)

text \<open>The parts of \<open>verify_route\<close> on a sealed payload of one node.\<close>

lemma short_accepted:
  assumes payload: "compile_payload env recipe rq predicates signals effective cn evidence JNull defaults [node] = Inr p"
    and short: "short_intensity (JStr effective)"
    and resolve: "resolve_recipe (re_registry env) (JStr (rq_capability rq)) (JStr (rq_mode rq)) = Inr recipe"
    and wf: "wf_json (JObj recipe)" "wf_json (JObj (re_registry env))" "is_list (oget recipe ''human_gates'')"
    and anchor: "oget node ''id'' = JStr (if effective = ''direct'' then ''inline'' else ''one-shot'')"
    and profile: "expected_owner_profile env (JStr effective) = Inr (cn_profile cn)" "wf_json (cn_profile cn)"
    and worker: "plain_workers (re_registry env) (JStr effective) (cn_profile cn) node depth"
    and depths: "route_depths recipe effective = Inr (topology, JInt depth, JInt depth)" "depth \<in> {0, 1}"
    and shape: "verify_shape (seal_route env p) (cn_profile cn) [node] = Inr ()"
    and tracking: "validate_tracking_evidence (JStr (rq_tracking rq)) (rq_gate_evidence rq) = Inr evidence"
    and defaults: "sha256_form defaults" and signals: "set signals \<inter> set TRACKING = {}"
    and cwd: "expected = None \<or> expected = Some c \<and> re_resolve env c = re_resolve env (rq_cwd rq) \<and>
      re_path env (re_resolve env (rq_cwd rq)) = re_resolve env (rq_cwd rq)"
  shows "verify_route env (seal_route env p) expected False = Inr (seal_route env p)"
proof -
  from compile_payload_Inr [OF payload] obtain scopes topology' owner_depth max_depth groups extensions human_gates bindings contract where
    scopes: "collectr (\<lambda>n. bindr (bindr (dict_item n ''write_scope'') items_of) (collectr as_str)) [node] = Inr scopes"
    and rd: "route_depths recipe effective = Inr (topology', owner_depth, max_depth)" and groups: "realized_parallel_groups [node] = Inr groups"
    and ext: "realize_extensions recipe (JStr effective) = Inr extensions" and hg: "dict_item recipe ''human_gates'' = Inr human_gates"
    and bindings: "expected_bindings recipe (JStr effective) = Inr bindings" and contract: "workflow_contract (re_registry env) [node] bindings = Inr contract"
    and keys: "map fst p = payload_keys" and p: "map_of p ''schema_version'' = Some (JInt ROUTE_SCHEMA_VERSION)" "map_of p ''capability'' = Some (JStr (rq_capability rq))"
    "map_of p ''capability_mode'' = Some (JStr (rq_mode rq))" "map_of p ''effective_intensity'' = Some (JStr effective)"
    "map_of p ''owner_model_profile'' = Some (cn_profile cn)" "map_of p ''owner_dispatch_depth'' = Some owner_depth" "map_of p ''max_dispatch_depth'' = Some max_depth"
    "map_of p ''tracking'' = Some (JStr (rq_tracking rq))" "map_of p ''tracked_gate_evidence'' = Some evidence"
    "map_of p ''spec_touch'' = Some (JBool (list_ex scope_touches_spec (concat scopes)))" "map_of p ''cwd'' = Some (JStr (re_resolve env (rq_cwd rq)))"
    "map_of p ''registry_digest'' = Some (JStr (registry_digest env))" "map_of p ''dispatch_defaults_digest'' = Some defaults"
    "map_of p ''selection'' = Some (selection_json rq predicates signals cn)" "map_of p ''nodes'' = Some (JList (map JObj [node]))"
    "map_of p ''parallel_groups'' = Some groups" "map_of p ''conditional_extensions'' = Some (JList extensions)"
    "map_of p ''human_gates'' = Some human_gates" "map_of p ''human_gate_bindings'' = Some bindings" "map_of p ''workflow_contract'' = Some contract"
    "map_of p ''dispatch_evidence'' = Some JNull" "map_of p ''dispatch_contract_version'' = Some (JInt DISPATCH_CONTRACT_VERSION)"
    "map_of p ''registered_headless_candidates'' = Some (cn_candidates cn)"
    "map_of p ''registered_headless_policy'' = Some (if effective = ''quick'' then JStr ''serial-attempt'' else JNull)"
    "map_of p ''unit_catalog_digest'' = Some (JStr (re_units env))" .
  let ?r = "seal_route env p"
  note header = seal_header [OF keys p(1) p(22) p(11) p(12) p(25) cwd]
  have absent: "map_of p k = None" if "k \<notin> set payload_keys" for k using keys that by (metis map_of_eq_None_iff list.set_map)
  have reads: "oget ?r k = v" if "map_of p k = Some v" "k \<notin> {''route_hash'', ''route_id''}" for k v using seal_reads(1) that by blast
  have nodes: "nodes_of_route ?r = Inr [node]" using seal_reads(2) [OF p(15)] by (simp add: nodes_of_route_def items_of_def as_obj_def)
  have b: "bindings = JList []" using bindings short by (simp add: expected_bindings_def)
  have o': "owner_depth = JInt depth" "max_depth = JInt depth" using rd depths(1) by auto
  have g: "groups = JList []" using groups plain_workers_verify(2) [OF worker] by simp
  have "verify_recipe env ?r [node] = Inr ()"
  proof -
    from anchored_extensions [OF ext short] anchor obtain bs where bs: "collectr (extension_anchored [node]) extensions = Inr bs" "list_all id bs"
      by (auto split: if_splits)
    have "map_of ?r ''composed'' = None" using absent [of "''composed''"] by (simp add: seal_map_of payload_keys_def)
    then have recipe: "recipe_of env ?r [node] = Inr recipe" using resolve reads [OF p(2)] reads [OF p(3)] by (simp add: recipe_of_def oget_None)
    have hgl: "is_list human_gates" using wf(3) dict_item_oget [OF hg] by simp
    then obtain hs where "human_gates = JList hs" by (cases human_gates) (auto simp: is_list_def)
    then have hs: "items_of (py_or human_gates (JList [])) = Inr hs" by (cases hs) (simp_all add: items_of_def py_or_def)
    have "py_eq (JList extensions) (JList extensions)" "py_eq contract contract"
      using py_eq_refl [OF wf_extensions [OF ext wf(1)]] py_eq_refl [OF wf_contract [OF contract wf(2)]] b by simp_all
    then show ?thesis using recipe ext bs bindings contract hs
      reads [OF p(4)] reads [OF p(17)] reads [OF p(19)] reads [OF p(20)] reads [OF p(18)]
      by (simp add: verify_recipe_def Let_def b require_def items_of_def)
  qed
  moreover have "verify_graph env ?r [node] = Inr (cn_profile cn)"
  proof -
    have "map fst ?r = payload_keys @ [''route_hash'', ''route_id'']" using keys by (simp add: seal_route_def)
    then have "set (map fst ?r) = set (payload_keys @ [''route_hash'', ''route_id''])" by (rule arg_cong)
    then have "\<not> has_any bare_depth_keys ?r" unfolding has_any_def set_map [symmetric] by (simp add: bare_depth_keys_def payload_keys_def)
    moreover have "py_eq (cn_profile cn) (cn_profile cn)" using profile(2) by (rule py_eq_refl)
    moreover have "verify_depths ?r [depth] = Inr ()" using seal_reads(3) [OF p(7)] reads [OF p(6)] by (simp add: verify_depths_def o' require_def)
    moreover have "verify_groups ?r [node] = Inr ()" using reads [OF p(16)] plain_workers_verify(3) [OF worker] by (simp add: verify_groups_def g require_def)
    ultimately show ?thesis using reads [OF p(4)] reads [OF p(5)] reads [OF p(6)] reads [OF p(7)] profile(1) plain_workers_verify(1) [OF worker] depths(2)
      by (auto simp: verify_graph_def Let_def o' depth_in_def hashable_def is_list_def is_obj_def require_def)
  qed
  moreover have "verify_tail ?r [node] = Inr ()"
  proof -
    have ev: "evidence = rq_gate_evidence rq" using tracking_evidence_same [OF tracking] .
    have sel: "oget_or ?r ''selection'' (JObj []) = selection_json rq predicates signals cn" using seal_reads(2) [OF p(14)] by simp
    show ?thesis using reads [OF p(4)] reads [OF p(8)] reads [OF p(9)] reads [OF p(10)] reads [OF p(13)] defaults tracking ev sel
        spec_touch_same [OF scopes] signal_rows_free [OF signals] short
      by (simp add: verify_tail_def require_def selection_json_def as_obj_def)
  qed
  ultimately show ?thesis using header nodes shape by (simp add: verify_route_def)
qed

lemma check_request_Inr:
  assumes "check_request recipe rq composed = Inr (known, predicates, signals, effective)"
  shows "set signals \<inter> set TRACKING = {}" "composed \<Longrightarrow> \<not> short_intensity (JStr effective)"
  using assms by (auto simp: check_request_def bindr_Inr_iff Let_def)

lemma seal_defaults_short:
  assumes "seal_dispatch_defaults env [node] capability = Inr (defaults, nodes)" "num_of (oget node ''dispatch_depth'') \<noteq> Some 2"
  shows "nodes = [node]" "sha256_form defaults"
  using assms by (auto simp: seal_dispatch_defaults_def seal_affinity_def sha256_form_def startswith_def bindr_Inr_iff split: option.splits sum.splits)

lemma direct_worker: "plain_workers registry (JStr ''direct'') JNull (direct_node scope) 0"
  by (simp add: plain_workers_def direct_node_def worker_node_def depth_in_def hashable_def is_list_def is_obj_def require_def owner_node_def
      short_intensity_def has_any_def bare_depth_keys_def listed_value_def in_set_def EXECUTION_SURFACES_def items_of_def image_iff)

lemma quick_worker:
  assumes "registered_profile registry profile = Inr True" "kind \<noteq> JStr ''resource-runner''"
  shows "plain_workers registry (JStr ''quick'') profile (quick_node kind profile scope) 1"
  using assms by (simp add: plain_workers_def quick_node_def worker_node_def depth_in_def hashable_def is_list_def is_obj_def require_def owner_node_def
      short_intensity_def has_any_def bare_depth_keys_def listed_value_def in_set_def EXECUTION_SURFACES_def items_of_def image_iff)

definition short_recipe :: "route_env \<Rightarrow> obj \<Rightarrow> bool" where
  \<comment> \<open>what the registry validation promises of the quick part of a recipe\<close>
  "short_recipe env recipe \<longleftrightarrow> wf_json (JObj recipe) \<and> wf_json (JObj (re_registry env)) \<and> is_list (oget recipe ''human_gates'') \<and>
     quick_field recipe ''owner_dispatch_depth'' = Inr (JInt 1) \<and> quick_field recipe ''max_dispatch_depth'' = Inr (JInt 1) \<and>
     (\<forall>profile. bindr (owner_profiles env) (\<lambda>ps. dict_item ps ''quick'') = Inr profile \<longrightarrow> registered_profile (re_registry env) profile = Inr True)"

lemma workflow_contract_single:
  assumes "workflow_contract registry [node] bindings = Inr c" "map_of node ''depends_on'' = None"
  shows "oget node ''kind'' \<noteq> JStr ''resource-runner''"
  using assms by (auto simp: workflow_contract_def bindr_Inr_iff dep_items_def oget_None py_or_def items_of_def dependents_def split: if_splits)

text \<open>C31: a compiled direct or quick route is accepted: as long as the registry and the units are those of the compilation,
  \<open>verify_route\<close> returns the route unchanged, with or without the working directory it was compiled for.\<close>
theorem compiled_route_verifies:
  assumes compile: "compile_route env valid rq = Inr route"
    and resolve: "resolve_recipe (re_registry env) (JStr (rq_capability rq)) (JStr (rq_mode rq)) = Inr recipe"
    and recipe: "short_recipe env recipe" and short: "short_intensity (oget route ''effective_intensity'')"
    and evidence: "wf_json (rq_headless_evidence rq)"
    and cwd: "expected = None \<or> expected = Some c \<and> re_resolve env c = re_resolve env (rq_cwd rq) \<and>
      re_path env (re_resolve env (rq_cwd rq)) = re_resolve env (rq_cwd rq)"
  shows "verify_route env route expected False = Inr route"
proof -
  from compile resolve have "compile_from_recipe env recipe rq False = Inr route" by (auto simp: compile_route_def bindr_Inr_iff)
  then obtain known predicates signals effective cn evidence' checked nodes0 defaults nodes p where
    request: "check_request recipe rq False = Inr (known, predicates, signals, effective)"
    and cn: "compile_nodes env recipe rq effective predicates known signals = Inr cn"
    and reason: "check_reason env effective (cn_reason cn) = Inr ()"
    and tracking: "validate_tracking_evidence (JStr (rq_tracking rq)) (rq_gate_evidence rq) = Inr evidence'"
    and ev: "seal_evidence recipe rq effective (cn_nodes cn) = Inr (checked, nodes0)"
    and defaults: "seal_dispatch_defaults env nodes0 (rq_capability rq) = Inr (defaults, nodes)"
    and payload: "compile_payload env recipe rq predicates signals effective cn evidence' checked defaults nodes = Inr p"
    and route: "route = seal_route env p"
    by (auto simp: compile_from_recipe_def bindr_Inr_iff split: prod.splits)
  from compile_payload_Inr [OF payload] have eff: "map_of p ''effective_intensity'' = Some (JStr effective)" by metis
  then have short': "short_intensity (JStr effective)" using short seal_reads(1) [OF eff] route by simp
  note signals = check_request_Inr(1) [OF request]
  have checked: "checked = JNull" "nodes0 = cn_nodes cn" using ev short' by (simp_all add: seal_evidence_def)
  from recipe have wf: "wf_json (JObj recipe)" "wf_json (JObj (re_registry env))" "is_list (oget recipe ''human_gates'')" by (simp_all add: short_recipe_def)
  show ?thesis
  proof (cases "effective = ''direct''")
    case True
    then obtain scope where nodes: "cn_nodes cn = [direct_node scope]" and cn': "cn_profile cn = JNull" "cn_candidates cn = JNull" "cn_transport cn = ''interactive''"
      using cn by (auto simp: compile_nodes_def bindr_Inr_iff)
    have "num_of (oget (direct_node scope) ''dispatch_depth'') \<noteq> Some 2" by (simp add: direct_node_def)
    note sealed = seal_defaults_short [OF defaults [unfolded checked nodes] this]
    note payload' = payload [unfolded sealed(1) checked(1)]
    from compile_payload_Inr [OF payload'] have fields: "map_of p ''selection'' = Some (selection_json rq predicates signals cn)"
      "map_of p ''registered_headless_candidates'' = Some JNull" "map_of p ''registered_headless_policy'' = Some JNull"
      "map_of p ''owner_dispatch_depth'' = Some (JInt 0)" "map_of p ''max_dispatch_depth'' = Some (JInt 0)"
      using True cn' by (auto simp: route_depths_def)
    have "verify_shape (seal_route env p) (cn_profile cn) [direct_node scope] = Inr ()"
      using seal_reads(1) [OF eff] seal_reads(2) [OF fields(1)] fields(2-5) [THEN seal_reads(1)] True cn'
      by (simp add: verify_shape_def as_obj_def selection_json_def direct_shape_def require_def direct_node_def)
    then show ?thesis unfolding route
      by (intro short_accepted [OF payload' short' resolve wf _ _ _ _ _ _ _ tracking sealed(2) signals cwd, of 0 "JStr ''inline''"])
        (use True cn' direct_worker in \<open>simp_all add: direct_node_def expected_owner_profile_def route_depths_def\<close>)
  next
    case False
    with short' have quick: "effective = ''quick''" by (auto simp: short_intensity_def)
    with cn obtain candidates profile kind scope where cand: "validate_headless_evidence (rq_headless_evidence rq) = Inr candidates"
      and profile: "bindr (owner_profiles env) (\<lambda>ps. dict_item ps ''quick'') = Inr profile" and nodes: "cn_nodes cn = [quick_node kind profile scope]"
      and cn': "cn_profile cn = profile" "cn_candidates cn = JList (map JObj candidates)" "cn_transport cn = ''headless''"
      by (auto simp: compile_nodes_def bindr_Inr_iff split: if_splits)
    have "num_of (oget (quick_node kind profile scope) ''dispatch_depth'') \<noteq> Some 2" by (simp add: quick_node_def)
    note sealed = seal_defaults_short [OF defaults [unfolded checked nodes] this]
    note payload' = payload [unfolded sealed(1) checked(1)]
    have reason': "cn_reason cn = None" using reason quick by (simp add: check_reason_def)
    from recipe obtain topology where rd: "route_depths recipe effective = Inr (topology, JInt 1, JInt 1)"
      using payload' quick by (auto simp: compile_payload_def short_recipe_def route_depths_def bindr_Inr_iff)
    from compile_payload_Inr [OF payload'] have fields: "map_of p ''selection'' = Some (selection_json rq predicates signals cn)"
      "map_of p ''registered_headless_candidates'' = Some (JList (map JObj candidates))" "map_of p ''registered_headless_policy'' = Some (JStr ''serial-attempt'')"
      "map_of p ''owner_dispatch_depth'' = Some (JInt 1)" "map_of p ''max_dispatch_depth'' = Some (JInt 1)"
      using quick cn' rd by auto
    from compile_payload_Inr [OF payload'] obtain bindings contract where "workflow_contract (re_registry env) [quick_node kind profile scope] bindings = Inr contract"
      by metis
    then have kind: "kind \<noteq> JStr ''resource-runner''" by (auto dest!: workflow_contract_single simp: quick_node_def)
    have reg: "registered_profile (re_registry env) profile = Inr True" using recipe profile by (simp add: short_recipe_def)
    from profile obtain ps where ps: "owner_profiles env = Inr ps" "map_of ps ''quick'' = Some profile" by (auto simp: bindr_Inr_iff dict_item_Inr)
    then have "map_of (re_registry env) ''owner_profile_by_intensity'' = Some (JObj ps)" by (auto simp: owner_profiles_def bindr_Inr_iff dict_item_Inr as_obj_Inr)
    from wf_item [OF wf_item [OF wf(2) this] ps(2)] have wfp: "wf_json profile" .
    have exp: "expected_owner_profile env (JStr ''quick'') = Inr profile" using ps by (simp add: expected_owner_profile_def oget_def hashable_def is_list_def is_obj_def)
    note again = headless_evidence_again [OF cand]
    have "verify_shape (seal_route env p) (cn_profile cn) [quick_node kind profile scope] = Inr ()"
      using seal_reads(1) [OF eff] seal_reads(2) [OF fields(1)] fields(2-5) [THEN seal_reads(1)] quick cn' again(1) py_eq_refl [OF again(2) [OF evidence]] py_eq_refl [OF wfp] reason'
      by (simp add: verify_shape_def as_obj_def selection_json_def quick_shape_def require_def quick_node_def opt_str_def)
    then show ?thesis unfolding route
      by (intro short_accepted [OF payload' short' resolve wf _ _ _ _ _ _ _ tracking sealed(2) signals cwd, of 1 topology])
        (use quick cn' quick_worker [OF reg kind] exp wfp rd in \<open>simp_all add: quick_node_def\<close>)
  qed
qed

section \<open>What an accepted route promises\<close>

lemma verify_route_Inr:
  assumes "verify_route env route expected False = Inr r"
  obtains nodes profile where "r = route" "verify_header env route expected = Inr ()" "route_currency env route = Inr (True, True)"
    "nodes_of_route route = Inr nodes" "verify_recipe env route nodes = Inr ()" "verify_graph env route nodes = Inr profile"
    "verify_shape route profile nodes = Inr ()" "verify_tail route nodes = Inr ()"
  using assms by (auto simp: verify_route_def bindr_Inr_iff split: prod.splits if_splits)

lemma verify_graph_Inr:
  assumes "verify_graph env route nodes = Inr profile"
  obtains depths workers where "verify_nodes (re_registry env) (oget route ''effective_intensity'') profile nodes = Inr (depths, workers)"
    "verify_groups route workers = Inr ()" "verify_depths route depths = Inr ()"
  using assms by (auto simp: verify_graph_def bindr_Inr_iff Let_def split: prod.splits)

definition is_worker :: "obj \<Rightarrow> bool" where
  "is_worker node \<longleftrightarrow> oget node ''kind'' \<noteq> JStr ''resource-runner''"

lemma verify_nodes_Inr:
  "verify_nodes registry effective profile nodes = Inr (depths, workers) \<Longrightarrow> workers = filter is_worker nodes \<and>
   (\<forall>n \<in> set nodes. is_worker n \<longrightarrow> (\<exists>d \<in> set depths. worker_node registry effective profile n = Inr d)) \<and>
   (\<forall>n \<in> set nodes. \<not> is_worker n \<longrightarrow> resource_node n = Inr ())"
proof (induction nodes arbitrary: depths workers)
  case (Cons n nodes)
  show ?case
  proof (cases "is_worker n")
    case True
    with Cons.prems obtain d ds ws where "worker_node registry effective profile n = Inr d"
      and rest: "verify_nodes registry effective profile nodes = Inr (ds, ws)" "depths = d # ds" "workers = n # ws"
      by (auto simp: is_worker_def bindr_Inr_iff)
    with Cons.IH [OF rest(1)] True show ?thesis by auto
  next
    case False
    with Cons.prems have one: "resource_node n = Inr ()" and rest: "verify_nodes registry effective profile nodes = Inr (depths, workers)"
      by (auto simp: is_worker_def bindr_Inr_iff)
    from Cons.IH [OF rest] one False show ?thesis by auto
  qed
qed simp

lemma worker_node_Inr:
  assumes "worker_node registry effective profile node = Inr d"
  shows "num_of (oget node ''dispatch_depth'') = Some d" "d \<in> {0, 1, 2}"
    "d \<noteq> 0 \<Longrightarrow> registered_profile registry (oget node ''model_profile'') = Inr True"
  using assms by (auto simp: worker_node_def Let_def bindr_Inr_iff depth_in_def split: if_splits)

lemma verify_recipe_Inr:
  assumes "verify_recipe env route nodes = Inr ()"
  obtains bindings contract where "workflow_contract (re_registry env) nodes bindings = Inr contract" "py_eq (oget route ''workflow_contract'') contract"
  using assms by (auto simp: verify_recipe_def Let_def bindr_Inr_iff)


section \<open>Legs never write the same path\<close>

definition within :: "json \<Rightarrow> string \<Rightarrow> bool" where
  \<comment> \<open>the path lies in the scope\<close>
  "within scope path \<longleftrightarrow> (\<exists>root. scope_root scope = Inr root \<and> (path = root \<or> startswith (root @ [slash]) path))"

lemma overlap_False:
  assumes "overlap a b = Inr False"
  shows "\<not> (within a path \<and> within b path)"
proof
  from assms obtain ra rb where roots: "scope_root a = Inr ra" "scope_root b = Inr rb"
    and no: "ra \<noteq> rb" "\<not> startswith (rb @ [slash]) ra" "\<not> startswith (ra @ [slash]) rb" by (auto simp: overlap_def bindr_Inr_iff)
  assume "within a path \<and> within b path"
  then obtain s t where p: "path = ra @ s" "s = [] \<or> hd s = slash" "path = rb @ t" "t = [] \<or> hd t = slash"
    using roots by (fastforce simp: within_def startswith_iff)
  then have "ra @ s = rb @ t" by simp
  then obtain u where "ra = rb @ u \<and> u @ s = t \<or> ra @ u = rb \<and> s = u @ t" by (auto simp: append_eq_append_conv2)
  then show False
  proof (elim disjE conjE)
    assume "ra = rb @ u" "u @ s = t"
    with no(1) p(4) have "u = slash # tl u" by (cases u) auto
    with \<open>ra = rb @ u\<close> have "ra = (rb @ [slash]) @ tl u" by simp
    with no(2) show False by (auto simp: startswith_iff)
  next
    assume "ra @ u = rb" "s = u @ t"
    with no(1) p(2) have "u = slash # tl u" by (cases u) auto
    with \<open>ra @ u = rb\<close> have "rb = (ra @ [slash]) @ tl u" by simp
    with no(3) show False by (auto simp: startswith_iff)
  qed
qed

lemma scopes_overlap_False:
  assumes "scopes_overlap m n = Inr False"
  obtains as bs where "scopes_of m = Inr as" "scopes_of n = Inr bs" "\<forall>a \<in> set as. \<forall>b \<in> set bs. overlap a b = Inr False"
proof -
  from assms obtain as bs rs where ab: "scopes_of m = Inr as" "scopes_of n = Inr bs"
    and rs: "list_all2 (\<lambda>(a, b) r. overlap a b = Inr r) (List.product as bs) rs" "\<not> list_ex id rs"
    by (auto simp: scopes_overlap_def bindr_Inr_iff collectr_Inr case_prod_unfold)
  have "overlap a b = Inr False" if "a \<in> set as" "b \<in> set bs" for a b
  proof -
    from that have "(a, b) \<in> set (List.product as bs)" by simp
    from list_all2_ex1 [OF rs(1) this] obtain r where "r \<in> set rs" "overlap a b = Inr r" by auto
    with rs(2) show ?thesis by (auto simp: list_ex_iff)
  qed
  with ab show ?thesis by (intro that) auto
qed

definition apart :: "obj \<Rightarrow> obj \<Rightarrow> bool" where
  \<comment> \<open>no path lies in a write scope of both\<close>
  "apart m n \<longleftrightarrow> (\<exists>as bs. scopes_of m = Inr as \<and> scopes_of n = Inr bs \<and> (\<forall>a \<in> set as. \<forall>b \<in> set bs. \<forall>path. \<not> (within a path \<and> within b path)))"

lemma apart_sym: "apart m n \<Longrightarrow> apart n m"
  unfolding apart_def by blast

lemma disjoint_members_apart:
  "disjoint_members ms = Inr True \<Longrightarrow> m \<in> set ms \<Longrightarrow> n \<in> set ms \<Longrightarrow> m \<noteq> n \<Longrightarrow> apart m n"
proof (induction ms rule: disjoint_members.induct)
  case (2 left rest)
  from 2(2) obtain rs where rs: "list_all2 (\<lambda>x r. scopes_overlap left x = Inr r) rest rs" "\<not> list_ex id rs" and rest: "disjoint_members rest = Inr True"
    by (auto simp: bindr_Inr_iff collectr_Inr split: if_splits)
  have left: "apart left x" if "x \<in> set rest" for x
  proof -
    from list_all2_ex1 [OF rs(1) that] obtain r where "r \<in> set rs" "scopes_overlap left x = Inr r" by blast
    with rs(2) have "scopes_overlap left x = Inr False" by (auto simp: list_ex_iff)
    from scopes_overlap_False [OF this] show ?thesis unfolding apart_def using overlap_False by metis
  qed
  from 2(3-5) consider "m = left" "n \<in> set rest" | "n = left" "m \<in> set rest" | "m \<in> set rest" "n \<in> set rest" by auto
  then show ?case
  proof cases
    case 3
    from rs have "collectr (scopes_overlap left) rest = Inr rs" by (simp add: collectr_Inr)
    from 2(1) [OF _ rest 3 2(5)] rs(2) show ?thesis by blast
  qed (use left apart_sym in blast)+
qed simp

lemma py_eq_str_iff: "py_eq v (JStr s) \<longleftrightarrow> v = JStr s" "py_eq (JStr s) v \<longleftrightarrow> v = JStr s"
  by (cases v; auto)+

definition in_group :: "string \<Rightarrow> obj \<Rightarrow> bool" where
  "in_group g node \<longleftrightarrow> oget node ''parallel_group'' = JStr g"

lemma map_of_append_to:
  "map_of (map (\<lambda>(k, ms). if py_eq k gid then (k, ms @ [x]) else (k, ms)) groups) (JStr g) =
   map_option (\<lambda>ms. if gid = JStr g then ms @ [x] else ms) (map_of groups (JStr g))"
  by (induction groups) (auto simp: py_eq_str_iff)

lemma has_key: "list_ex (\<lambda>(k, _). py_eq k (JStr g)) groups \<longleftrightarrow> map_of groups (JStr g) \<noteq> None"
  by (induction groups) (auto simp: py_eq_str_iff)

lemma members_by_group_str:
  assumes "g \<noteq> []"
  shows "map_of (members_by_group nodes groups) (JStr g) = (let ms = filter (in_group g) nodes in
    case map_of groups (JStr g) of None \<Rightarrow> if ms = [] then None else Some ms | Some old \<Rightarrow> Some (old @ ms))"
proof (induction nodes arbitrary: groups)
  case Nil
  show ?case by (simp split: option.split)
next
  case (Cons n nodes)
  let ?gid = "oget n ''parallel_group''"
  let ?groups = "if \<not> truthy ?gid then groups
       else if list_ex (\<lambda>(k, _). py_eq k ?gid) groups then map (\<lambda>(k, ms). if py_eq k ?gid then (k, ms @ [n]) else (k, ms)) groups
       else groups @ [(?gid, [n])]"
  have "map_of ?groups (JStr g) = (if in_group g n then Some (case map_of groups (JStr g) of None \<Rightarrow> [n] | Some old \<Rightarrow> old @ [n]) else map_of groups (JStr g))"
  proof (cases "in_group g n")
    case True
    then have gid: "?gid = JStr g" by (simp add: in_group_def)
    with assms show ?thesis unfolding gid has_key
      by (auto simp: True map_of_append_to map_add_def split: option.splits)
  next
    case False
    then have "?gid \<noteq> JStr g" by (simp add: in_group_def)
    then show ?thesis using False
      by (auto simp: map_of_append_to map_add_def option.map_id0 [unfolded id_def] split: option.splits)
  qed
  with Cons.IH [of ?groups] show ?case by (auto simp: Let_def split: option.splits)
qed

lemma verify_group_Inr:
  assumes "verify_group (gid, members) = Inr row"
  obtains ms where "by_leg_index members = Inr ms" "map (\<lambda>m. num_of (oget m ''parallel_leg_index'')) ms = map (\<lambda>i. Some (int i)) [0 ..< length ms]"
    "disjoint_members ms = Inr True" "oget (the_obj row) ''members'' = JList (map (\<lambda>m. oget m ''id'') ms)" "oget (the_obj row) ''id'' = gid"
proof -
  from assms obtain ms ids where ms: "by_leg_index members = Inr ms" "map (\<lambda>m. num_of (oget m ''parallel_leg_index'')) ms = map (\<lambda>i. Some (int i)) [0 ..< length ms]"
    "disjoint_members ms = Inr True" and ids: "list_all2 (\<lambda>m i. dict_item m ''id'' = Inr i) ms ids"
    and row: "oget (the_obj row) ''members'' = JList ids" "oget (the_obj row) ''id'' = gid"
    by (auto simp: verify_group_def bindr_Inr_iff Let_def collectr_Inr)
  have "map (\<lambda>m. oget m ''id'') ms = map id ids" using ids by (rule list_all2_map_eq) (auto dest: dict_item_oget)
  then have "ids = map (\<lambda>m. oget m ''id'') ms" by simp
  with ms row show ?thesis by (intro that) simp_all
qed

text \<open>C33: the legs of a parallel group of an accepted route are numbered without gap or repetition, are listed in that order in
  the summary of the route, and write apart: no path lies in a write scope of two of them.\<close>
theorem accepted_legs_write_apart:
  assumes "verify_route env route expected False = Inr r" and "nodes_of_route route = Inr nodes" and "g \<noteq> []"
    and members: "members = filter (\<lambda>n. is_worker n \<and> in_group g n) nodes" "members \<noteq> []"
  shows "mset (map (\<lambda>m. num_of (oget m ''parallel_leg_index'')) members) = mset (map (\<lambda>i. Some (int i)) [0 ..< length members]) \<and>
    (\<forall>m \<in> set members. \<forall>n \<in> set members. m \<noteq> n \<longrightarrow> apart m n) \<and>
    (\<exists>rows row ms. py_eq (oget route ''parallel_groups'') (JList rows) \<and> row \<in> set rows \<and> oget (the_obj row) ''id'' = JStr g \<and>
      mset ms = mset members \<and> sorted (map (\<lambda>m. the (num_of (node_leg_index m))) ms) \<and>
      oget (the_obj row) ''members'' = JList (map (\<lambda>m. oget m ''id'') ms))"
proof -
  from verify_route_Inr [OF assms(1)] assms(2) obtain profile where vg: "verify_graph env route nodes = Inr profile" by (metis sum.inject(2))
  from verify_graph_Inr [OF vg] obtain depths workers where
    vn: "verify_nodes (re_registry env) (oget route ''effective_intensity'') profile nodes = Inr (depths, workers)"
    and groups: "verify_groups route workers = Inr ()" .
  have w: "workers = filter is_worker nodes" using verify_nodes_Inr [OF vn] by blast
  have "filter (in_group g) workers = members" unfolding w members(1) by (simp add: conj_commute)
  then have "map_of (members_by_group workers []) (JStr g) = Some members"
    using members(2) members_by_group_str [OF assms(3), of workers "[]"] by (simp add: Let_def)
  then have entry: "(JStr g, members) \<in> set (members_by_group workers [])" by (rule map_of_SomeD)
  from groups obtain rows where rows: "list_all2 (\<lambda>x y. verify_group x = Inr y) (members_by_group workers []) rows" "py_eq (oget route ''parallel_groups'') (JList rows)"
    by (auto simp: verify_groups_def bindr_Inr_iff collectr_Inr)
  from list_all2_ex1 [OF rows(1) entry] obtain row where row: "row \<in> set rows" "verify_group (JStr g, members) = Inr row" by blast
  from verify_group_Inr [OF row(2)] obtain ms where ms: "by_leg_index members = Inr ms"
    "map (\<lambda>m. num_of (oget m ''parallel_leg_index'')) ms = map (\<lambda>i. Some (int i)) [0 ..< length ms]"
    "disjoint_members ms = Inr True" "oget (the_obj row) ''members'' = JList (map (\<lambda>m. oget m ''id'') ms)" "oget (the_obj row) ''id'' = JStr g" .
  have sort: "ms = sort_key (\<lambda>m. the (num_of (node_leg_index m))) members" using ms(1) by (simp add: by_leg_index_def split: if_splits)
  then have same: "mset ms = mset members" "set ms = set members" "length ms = length members"
    and sorted: "sorted (map (\<lambda>m. the (num_of (node_leg_index m))) ms)" by simp_all
  have "mset (map (\<lambda>m. num_of (oget m ''parallel_leg_index'')) members) = mset (map (\<lambda>m. num_of (oget m ''parallel_leg_index'')) ms)"
    unfolding sort by simp
  also have "\<dots> = mset (map (\<lambda>i. Some (int i)) [0 ..< length members])" using ms(2) same(3) by simp
  finally show ?thesis using disjoint_members_apart [OF ms(3)] same(1,2) sorted rows(2) row(1) ms(4,5) by metis
qed

section \<open>A sealed node can fall back\<close>


section \<open>Witnesses\<close>

definition demo_recipe :: obj where
  "demo_recipe = [(''capability'', JStr ''cap''), (''modes'', strs [''default'']), (''topology_class'', JStr ''staged''),
     (''direct_predicates'', strs [''small'']), (''promotion_signals'', strs [''shared'']),
     (''quick'', JObj [(''topology'', JStr ''one''), (''worker_kind'', JStr ''capability-owner''), (''write_scope'', strs [''out/**'']),
        (''owner_dispatch_depth'', JInt 1), (''max_dispatch_depth'', JInt 1)]),
     (''completion_gates'', strs [''g'']), (''human_gates'', strs []), (''human_gate_bindings'', JList []), (''resume_retry_boundaries'', strs [''plan'']),
     (''standard_plus'', JObj [(''owner_dispatch_depth'', JInt 1), (''max_dispatch_depth'', JInt 2), (''nodes'', JList [
        JObj [(''id'', JStr ''plan''), (''kind'', JStr ''pipeline-stage''), (''dispatch_depth'', JInt 2), (''model_profile'', JStr ''deep''),
          (''outputs'', strs [''plan.md'']), (''write_scope'', strs [''plan.md'']), (''continuation'', JObj [(''kind'', JStr ''inline-next'')])],
        JObj [(''id'', JStr ''check''), (''kind'', JStr ''map-worker''), (''dispatch_depth'', JInt 2), (''model_profile'', JStr ''deep''),
          (''depends_on'', strs [''plan'']), (''inputs'', strs [''plan.md'']), (''outputs'', strs [''check.md'']), (''write_scope'', strs [''check.md'']),
          (''terminal'', JBool True), (''terminal_gate'', JStr ''g'')]]),
      (''parallel_groups'', JList [JObj [(''id'', JStr ''plans''), (''node'', JStr ''plan''), (''kind'', JStr ''explore''), (''min_intensity'', JStr ''standard''),
        (''width_by_intensity'', JObj [(''standard'', JInt 2)]), (''join_policy'', JStr ''all''), (''independence_axes'', strs [''cross-harness'']),
        (''legs'', JList (map (\<lambda>s. JObj [(''suffix'', JStr s), (''perspective'', JStr s), (''model_profile'', JStr ''deep'')]) [''anchor'', ''alt'']))]])])]"

definition demo_registry :: obj where
  "demo_registry = [(''model_profiles'', JObj [(''deep'', JObj [(''registered_topology'', JBool True)])]),
     (''owner_profile_by_intensity'', JObj [(''quick'', JStr ''deep''), (''standard'', JStr ''deep'')]),
     (''continuation_kinds'', JObj [(''inline-next'', JObj [])]), (''workflow_states'', strs [''CREATED'']), (''workflow_failure_states'', strs []),
     (''inline_reasons'', strs [''atomic-direct'']), (''recipes'', JList [JObj demo_recipe])]"

definition demo_route_env :: route_env where
  "demo_route_env = \<lparr>re_registry = demo_registry, re_digest = (\<lambda>_. ''0123456789abcdef0''), re_units = ''u'', re_resolve = (\<lambda>p. p), re_path = (\<lambda>p. p),
     re_commit = (\<lambda>_. ''c''), re_defaults = None, re_valid_recipe = (\<lambda>_ _. Inr ())\<rparr>"

definition demo_request :: "string \<Rightarrow> string list \<Rightarrow> route_request" where
  "demo_request intensity predicates = \<lparr>rq_capability = ''cap'', rq_mode = ''default'', rq_intensity = intensity, rq_cwd = ''/w'', rq_artifact_root = ''/a'',
     rq_predicates = predicates, rq_signals = [], rq_transport = None, rq_transport_evidence = ''e'', rq_inline_reason = None, rq_tracking = ''untracked'',
     rq_gate_evidence = JObj [(''spec_read'', JObj [(''satisfied'', JBool True), (''source'', JStr ''s'')]), (''drift_verdict'', JStr ''none''),
       (''workflow_mode'', JStr ''untracked''), (''artifact_guard'', JObj [(''satisfied'', JBool True), (''source'', JStr ''s'')])],
     rq_dispatch_evidence = JObj [(''tuples'', JList [demo_tuple ''codex'', demo_tuple ''claude''])],
     rq_headless_evidence = JObj [(''candidates'', JList [JObj [(''harness'', JStr ''codex''), (''transport'', JStr ''headless''),
       (''surface'', JStr ''registered-headless''), (''status'', JStr ''supported''), (''probe_source'', JStr ''p''), (''probe_time'', JStr ''t'')]])]\<rparr>"

definition demo_quick :: obj where
  \<comment> \<open>the quick route of the recipe, as it is compiled\<close>
  "demo_quick = [(''schema_version'', JInt 2), (''capability'', JStr ''cap''), (''capability_mode'', JStr ''default''),
     (''requested_intensity'', JStr ''quick''), (''effective_intensity'', JStr ''quick''), (''owner_model_profile'', JStr ''deep''),
     (''execution_topology'', JStr ''one''), (''owner_dispatch_depth'', JInt 1), (''max_dispatch_depth'', JInt 1), (''tracking'', JStr ''untracked''),
     (''tracked_gate_evidence'', rq_gate_evidence (demo_request ''quick'' [])), (''spec_touch'', JBool False), (''cwd'', JStr ''/w''),
     (''artifact_root'', JStr ''/a''), (''source_commit'', JStr ''c''), (''registry_digest'', JStr ''sha256:0123456789abcdef0''),
     (''dispatch_defaults_digest'', JNull),
     (''selection'', JObj [(''direct_predicates'', JList []), (''promotion_signals'', JList []),
        (''selection_basis'', JList [JObj [(''axis'', JStr ''direct-predicate-gap''), (''signal'', JStr ''small''), (''source'', JStr ''compiler'')]]),
        (''escalation_basis'', JList []), (''transport'', JStr ''headless''), (''transport_evidence'', JStr ''e''), (''inline_reason'', JNull)]),
     (''nodes'', JList [JObj [(''id'', JStr ''one-shot''), (''kind'', JStr ''capability-owner''), (''dispatch_depth'', JInt 1),
        (''role'', JStr ''orchestrator''), (''unit'', JStr ''_kernel/owner''), (''model_profile'', JStr ''deep''), (''write_scope'', strs [''out/**'']),
        (''resource_class'', JStr ''normal''), (''execution_surface'', JStr ''registered-headless''), (''registered_worker'', JBool True),
        (''completion_gate'', JStr ''quick-complete''), (''terminal'', JBool True), (''terminal_gate'', JStr ''quick-complete'')]]),
     (''parallel_groups'', JList []), (''conditional_extensions'', JList []), (''completion_gates'', strs [''quick-complete'']),
     (''human_gates'', JList []), (''human_gate_bindings'', JList []),
     (''workflow_contract'', JObj [(''schema_version'', JInt 1), (''states'', strs [''CREATED'']), (''failure_states'', JList []),
        (''terminal_nodes'', strs [''one-shot'']), (''continuations'', JObj []), (''human_gate_bindings'', JList [])]),
     (''resume_retry_boundaries'', strs [''plan'']), (''dispatch_evidence'', JNull), (''dispatch_contract_version'', JInt 3),
     (''registered_headless_candidates'', JList [JObj [(''harness'', JStr ''codex''), (''probe_source'', JStr ''p''), (''probe_time'', JStr ''t''),
        (''status'', JStr ''supported''), (''surface'', JStr ''registered-headless''), (''transport'', JStr ''headless'')]]),
     (''registered_headless_policy'', JStr ''serial-attempt''), (''unit_catalog_digest'', JStr ''u''),
     (''route_hash'', JStr ''sha256:0123456789abcdef0''), (''route_id'', JStr ''rt-0123456789abcdef'')]"

definition demo_hops :: "json list" where
  "demo_hops = [
     JObj [(''ordinal'', JInt 1), (''fallback_hop'', JStr ''same-harness-headless''), (''candidates'', JList [demo_tuple ''codex''])],
     JObj [(''ordinal'', JInt 2), (''fallback_hop'', JStr ''cross-harness-headless''), (''candidates'', JList [demo_tuple ''claude''])],
     JObj [(''ordinal'', JInt 3), (''fallback_hop'', JStr ''native-subagent''), (''candidates'', JList []), (''fleet_visibility'', JStr ''degraded'')],
     JObj [(''ordinal'', JInt 4), (''fallback_hop'', JStr ''inline''), (''status'', JStr ''eligible-after-prior-hop-exhaustion''),
       (''reason_enum'', JStr ''runtime-unavailable''), (''fleet_visibility'', JStr ''none'')]]"

definition demo_route_leg :: "string \<Rightarrow> string \<Rightarrow> string \<Rightarrow> int \<Rightarrow> obj" where
  "demo_route_leg i scope suffix index =
     [(''id'', JStr i), (''kind'', JStr ''pipeline-stage''), (''dispatch_depth'', JInt 2), (''model_profile'', JStr ''deep''),
      (''outputs'', strs [scope]), (''write_scope'', strs [scope]), (''continuation'', JObj [(''kind'', JStr ''inline-next'')]),
      (''perspective'', JStr suffix), (''parallel_group'', JStr ''plans''), (''parallel_group_kind'', JStr ''explore''),
      (''parallel_join_policy'', JStr ''all''), (''parallel_independence_axes'', strs [''cross-harness'']), (''parallel_leg_index'', JInt index),
      (''parallel_leg_count'', JInt 2), (''parallel_leg_suffix'', JStr suffix), (''parallel_anchor'', JStr ''plan''), (''replica_group'', JStr ''plans''),
      (''independence_axis'', JStr ''cross-harness''), (''fallback_hops'', JList demo_hops), (''harness_affinity'', JStr ''unspecified'')]"

definition demo_route_legs :: "obj list" where
  "demo_route_legs = [demo_route_leg ''plan'' ''plan.md'' ''anchor'' 0, demo_route_leg ''plan-alt'' ''plan.alt.md'' ''alt'' 1]"

definition demo_nodes :: "obj list" where
  "demo_nodes = demo_route_legs @ [
     [(''id'', JStr ''check''), (''kind'', JStr ''map-worker''), (''dispatch_depth'', JInt 2), (''model_profile'', JStr ''deep''),
      (''depends_on'', strs [''plan'', ''plan-alt'']), (''inputs'', strs [''plan.md'', ''plan.alt.md'']), (''outputs'', strs [''check.md'']),
      (''write_scope'', strs [''check.md'']), (''terminal'', JBool True), (''terminal_gate'', JStr ''g''), (''fallback_hops'', JList demo_hops),
      (''harness_affinity'', JStr ''unspecified'')]]"

definition demo_standard :: obj where
  \<comment> \<open>a standard route of the recipe, as it is sealed\<close>
  "demo_standard = [(''schema_version'', JInt 2), (''capability'', JStr ''cap''), (''capability_mode'', JStr ''default''),
     (''effective_intensity'', JStr ''standard''), (''owner_model_profile'', JStr ''deep''), (''execution_topology'', JStr ''staged''),
     (''owner_dispatch_depth'', JInt 1), (''max_dispatch_depth'', JInt 2), (''tracking'', JStr ''untracked''),
     (''tracked_gate_evidence'', rq_gate_evidence (demo_request ''standard'' [])), (''spec_touch'', JBool False), (''cwd'', JStr ''/w''),
     (''registry_digest'', JStr ''sha256:0123456789abcdef0''),
     (''selection'', JObj [(''direct_predicates'', JList []), (''promotion_signals'', JList []), (''selection_basis'', JList []),
        (''escalation_basis'', JList []), (''transport'', JStr ''headless''), (''transport_evidence'', JStr ''e''), (''inline_reason'', JNull)]),
     (''nodes'', JList (map JObj demo_nodes)),
     (''parallel_groups'', JList [JObj [(''id'', JStr ''plans''), (''kind'', JStr ''explore''), (''join_policy'', JStr ''all''),
        (''independence_axes'', strs [''cross-harness'']), (''width'', JInt 2), (''members'', strs [''plan'', ''plan-alt''])]]),
     (''conditional_extensions'', JList []), (''completion_gates'', strs [''g'']), (''human_gates'', JList []), (''human_gate_bindings'', JList []),
     (''workflow_contract'', JObj [(''schema_version'', JInt 1), (''states'', strs [''CREATED'']), (''failure_states'', JList []),
        (''terminal_nodes'', strs [''check'']), (''continuations'', JObj [(''plan'', JStr ''inline-next''), (''plan-alt'', JStr ''inline-next'')]),
        (''human_gate_bindings'', JList [])]),
     (''resume_retry_boundaries'', strs [''plan'']),
     (''dispatch_evidence'', JObj [(''tuples'', JList [demo_tuple ''codex'', demo_tuple ''claude'']), (''native_subagent'', JList [])]),
     (''dispatch_contract_version'', JInt 3), (''unit_catalog_digest'', JStr ''u''),
     (''route_hash'', JStr ''sha256:0123456789abcdef0''), (''route_id'', JStr ''rt-0123456789abcdef'')]"

lemma demo_recipe_resolves: "resolve_recipe (re_registry demo_route_env) (JStr ''cap'') (JStr ''default'') = Inr demo_recipe"
  by code_simp

lemma demo_short: "short_recipe demo_route_env demo_recipe"
proof -
  have "wf_json (JObj demo_recipe)" "wf_json (JObj (re_registry demo_route_env))" "is_list (oget demo_recipe ''human_gates'')"
    "quick_field demo_recipe ''owner_dispatch_depth'' = Inr (JInt 1)" "quick_field demo_recipe ''max_dispatch_depth'' = Inr (JInt 1)"
    by code_simp+
  moreover have "bindr (owner_profiles demo_route_env) (\<lambda>ps. dict_item ps ''quick'') = Inr (JStr ''deep'')"
    "registered_profile (re_registry demo_route_env) (JStr ''deep'') = Inr True" by code_simp+
  ultimately show ?thesis unfolding short_recipe_def by simp
qed

theorem compiled_route_verifies_witness:
  "verify_route demo_route_env (demo_quick) (Some ''/w'') False = Inr (demo_quick)"
proof -
  have compile: "compile_route demo_route_env (\<lambda>_. Inr ()) (demo_request ''quick'' []) = Inr (demo_quick)"
    and eff: "short_intensity (oget (demo_quick) ''effective_intensity'')" and wf: "wf_json (rq_headless_evidence (demo_request ''quick'' []))"
    by code_simp+
  show ?thesis
    by (rule compiled_route_verifies [OF compile _ demo_short eff wf, of _ "''/w''"])
      (use demo_recipe_resolves in \<open>simp_all add: demo_request_def\<close>, simp_all add: demo_route_env_def)
qed

lemma demo_nodes_sealed: "nodes_of_route demo_standard = Inr demo_nodes"
  by code_simp

lemma demo_header: "verify_header demo_route_env demo_standard None = Inr ()"
  by code_simp

lemma demo_currency: "route_currency demo_route_env demo_standard = Inr (True, True)"
  by code_simp

lemma demo_recipe_agrees: "verify_recipe demo_route_env demo_standard demo_nodes = Inr ()"
  by code_simp

lemma demo_graph: "verify_graph demo_route_env demo_standard demo_nodes = Inr (JStr ''deep'')"
  by code_simp

lemma demo_shape: "verify_shape demo_standard (JStr ''deep'') demo_nodes = Inr ()"
  by code_simp

lemma demo_tail: "verify_tail demo_standard demo_nodes = Inr ()"
  by code_simp

lemma demo_accepted: "verify_route demo_route_env demo_standard None False = Inr demo_standard"
  unfolding verify_route_def demo_header demo_currency demo_nodes_sealed
  by (simp add: demo_recipe_agrees demo_graph demo_shape demo_tail)


theorem accepted_legs_write_apart_witness:
  "apart (demo_route_leg ''plan'' ''plan.md'' ''anchor'' 0) (demo_route_leg ''plan-alt'' ''plan.alt.md'' ''alt'' 1)"
proof -
  have members: "demo_route_legs = filter (\<lambda>n. is_worker n \<and> in_group ''plans'' n) demo_nodes"
    by (simp add: demo_route_legs_def demo_nodes_def demo_route_leg_def is_worker_def in_group_def)
  have ne: "demo_route_leg ''plan'' ''plan.md'' ''anchor'' 0 \<noteq> demo_route_leg ''plan-alt'' ''plan.alt.md'' ''alt'' 1" by (simp add: demo_route_leg_def)
  have "demo_route_legs \<noteq> []" by (simp add: demo_route_legs_def)
  from accepted_legs_write_apart [OF demo_accepted demo_nodes_sealed _ members this]
  have "\<forall>m \<in> set demo_route_legs. \<forall>n \<in> set demo_route_legs. m \<noteq> n \<longrightarrow> apart m n" by blast
  with ne show ?thesis by (auto simp: demo_route_legs_def)
qed


end
