(* ===== verification/Route_Closure.thy ===== *)
theory Route_Closure
  imports Completion Route_Seal
begin

text \<open>
  Closing and listing routes (\<open>utilities/capability-route.py\<close>, \<open>terminal_gate_observation\<close> to \<open>route_status\<close>): what the
  completion markers say of the terminal nodes of a route, the sidecar that closes it, and the scan of the route files of
  an artifact root.

  The files of \<open>Completion\<close> include the sidecars; every file operation may be the last one of the process.
  \<open>close_route\<close> takes no lock: it is split into the part that looks and the part that writes, so that two closers can
  be interleaved.
\<close>

section \<open>Terminal gates\<close>

record closure_env =
  le_env :: completion_env
  le_resolve :: "string \<Rightarrow> string"            \<comment> \<open>\<open>str(Path(p).resolve())\<close>\<close>
  le_head :: "string \<Rightarrow> string option"        \<comment> \<open>\<open>_head_commit\<close>\<close>

definition failed_gate :: "string \<Rightarrow> obj" where
  "failed_gate reason = [(''passed'', JBool False), (''reason'', JStr reason)]"

definition gate_marker :: "completion_env \<Rightarrow> completion_world \<Rightarrow> string \<Rightarrow> json \<Rightarrow> json option" where
  \<comment> \<open>the canonical marker of a node, when it can be read\<close>
  "gate_marker env w route_id i =
    (case map_of (cw_files w) (canonical_path (completion_dir env route_id) (py_str i)) of Some (Some v) \<Rightarrow> Some v | _ \<Rightarrow> None)"

definition names_gate :: "obj \<Rightarrow> obj \<Rightarrow> json \<Rightarrow> obj \<Rightarrow> bool" where
  "names_gate route node i marker \<longleftrightarrow> py_eq (oget marker ''route_id'') (oget route ''route_id'') \<and>
     py_eq (oget marker ''route_hash'') (oget route ''route_hash'') \<and> py_eq (oget marker ''node_id'') i \<and>
     py_eq (oget marker ''completion_gate'') (oget node ''terminal_gate'')"

definition evidence_row :: "completion_env \<Rightarrow> obj \<Rightarrow> obj" where
  \<comment> \<open>the evidence a marker names, read again\<close>
  "evidence_row env marker = (case py_or (oget marker ''evidence'') (JObj []) of
      JObj e \<Rightarrow> (case map_of e ''path'' of
          Some (JStr p) \<Rightarrow> (case sf_bytes (ce_fw env) p of
              None \<Rightarrow> failed_gate ''completion-evidence-unreadable''
            | Some bytes \<Rightarrow> if \<not> py_eq (JStr (sf_sha256 (ce_fw env) bytes)) (oget e ''sha256'') then failed_gate ''completion-evidence-hash-mismatch''
                else [(''passed'', JBool True), (''reason'', JStr ''completion-marker-verified''), (''evidence'', JStr p)])
        | _ \<Rightarrow> failed_gate ''completion-evidence-unreadable'')
    | _ \<Rightarrow> failed_gate ''completion-evidence-unreadable'')"

definition gate_row_of :: "completion_env \<Rightarrow> completion_world \<Rightarrow> obj \<Rightarrow> json \<Rightarrow> obj \<Rightarrow> string + obj" where
  "gate_row_of env w route i node = bindr (bindr (dict_item route ''route_id'') as_str) (\<lambda>route_id.
     case gate_marker env w route_id i of
       None \<Rightarrow> Inr (failed_gate ''completion-marker-absent'')
     | Some (JObj marker) \<Rightarrow> Inr (if names_gate route node i marker then evidence_row env marker
         else failed_gate ''completion-marker-identity-mismatch'')
     | Some _ \<Rightarrow> Inl ''AttributeError'')"

primrec nodes_by_id :: "obj list \<Rightarrow> (json \<times> obj) list \<Rightarrow> string + (json \<times> obj) list" where
  \<comment> \<open>\<open>{node.get("id"): node for node in nodes}\<close>\<close>
  "nodes_by_id [] table = Inr table"
| "nodes_by_id (node # nodes) table = (let i = oget node ''id'' in
     if \<not> hashable i then Inl ''TypeError''
     else nodes_by_id nodes (if list_ex (\<lambda>(k, _). py_eq k i) table then map (\<lambda>(k, n). if py_eq k i then (k, node) else (k, n)) table
       else table @ [(i, node)]))"

definition terminal_gate_observation :: "completion_env \<Rightarrow> completion_world \<Rightarrow> obj \<Rightarrow> string + (json \<times> obj) list" where
  "terminal_gate_observation env w route = bindr (nodes_of_route route) (\<lambda>nodes. bindr (nodes_by_id nodes []) (\<lambda>table.
     collectr (\<lambda>(i, node). bindr (gate_row_of env w route i node) (\<lambda>row. Inr (i, row)))
       (filter (\<lambda>(_, node). oget node ''terminal'' = JBool True) table)))"

definition terminal_gate_proven :: "(json \<times> obj) list \<Rightarrow> bool option" where
  "terminal_gate_proven gates = (if gates = [] then None else Some (list_all (\<lambda>(_, row). truthy (oget row ''passed'')) gates))"

section \<open>Locations\<close>

definition canonical_routes_dir :: "(string \<Rightarrow> string) \<Rightarrow> string \<Rightarrow> string" where
  "canonical_routes_dir resolve root = path_join (resolve root) ''.runtime/routes''"

definition classify_route_location :: "(string \<Rightarrow> string) \<Rightarrow> string \<Rightarrow> string \<Rightarrow> string" where
  "classify_route_location resolve path root =
    (let parent = path_parent (resolve path); base = resolve root in
     if parent = canonical_routes_dir resolve root then ''canonical''
     else if parent = base then ''legacy-root''
     else if parent = path_join base ''routes'' then ''legacy-routes''
     else if parent = path_join base ''_routes'' then ''legacy-_routes''
     else if parent = path_join base ''.routes'' then ''legacy-.routes''
     else ''outside'')"

definition LEGACY_LOCATIONS :: "string list" where
  "LEGACY_LOCATIONS = [''legacy-root'', ''legacy-routes'', ''legacy-_routes'', ''legacy-.routes'']"

definition LOCATION_SORT_PRIORITY :: "(string \<times> nat) list" where
  "LOCATION_SORT_PRIORITY = [(''canonical'', 0), (''legacy-root'', 1), (''legacy-routes'', 2), (''legacy-_routes'', 3),
     (''legacy-.routes'', 4), (''outside'', 5)]"

definition path_stem :: "string \<Rightarrow> string" where
  \<comment> \<open>\<open>Path.stem\<close> of a name\<close>
  "path_stem name = (let i = length name - Suc (length (takeWhile (\<lambda>c. c \<noteq> CHR ''.'') (rev name))) in
     if CHR ''.'' \<in> set name \<and> 0 < i \<and> i < length name - 1 then take i name else name)"

definition outcome_path :: "(string \<Rightarrow> string) \<Rightarrow> string \<Rightarrow> string + string" where
  \<comment> \<open>\<open>norm\<close>: \<open>str(Path(p))\<close>\<close>
  "outcome_path norm route_file = (let (head, sep, name) = rpartition CHR ''/'' (norm route_file) in
     if name = [] \<or> name = ''.'' then Inl ''ValueError'' else Inr (head @ sep @ path_stem name @ ''.outcome.json''))"

section \<open>Closing a route\<close>

definition OUTCOME_SCHEMA_VERSION :: int where
  "OUTCOME_SCHEMA_VERSION = 3"

definition json_key :: "json \<Rightarrow> string" where
  \<comment> \<open>the key \<open>json.dumps\<close> writes\<close>
  "json_key v = (case v of JStr s \<Rightarrow> s | JInt n \<Rightarrow> int_str n | JBool b \<Rightarrow> if b then ''true'' else ''false'' | _ \<Rightarrow> ''null'')"

definition opt_bool :: "bool option \<Rightarrow> json" where
  "opt_bool b = (case b of None \<Rightarrow> JNull | Some x \<Rightarrow> JBool x)"

definition closure_outcome :: "closure_env \<Rightarrow> completion_world \<Rightarrow> obj \<Rightarrow> string \<Rightarrow> string option \<Rightarrow> string option \<Rightarrow> string \<Rightarrow> string + obj" where
  "closure_outcome env w route route_file revision summary location =
    bindr (terminal_gate_observation (le_env env) w route) (\<lambda>gates.
    bindr (dict_item route ''route_id'') (\<lambda>route_id. bindr (dict_item route ''route_hash'') (\<lambda>route_hash.
    bindr (dict_item route ''cwd'') (\<lambda>cwd. bindr (dict_item route ''capability'') (\<lambda>capability.
    bindr (dict_item route ''effective_intensity'') (\<lambda>effective.
      Inr [(''schema_version'', JInt OUTCOME_SCHEMA_VERSION), (''route_id'', route_id), (''route_hash'', route_hash),
        (''route_file'', JStr (le_resolve env route_file)), (''cwd'', cwd), (''capability'', capability), (''effective_intensity'', effective),
        (''closed_at'', JStr (ce_now (le_env env))),
        (''head_commit'', if given revision then opt_json revision else opt_json (le_head env (py_str cwd))), (''summary'', opt_json summary),
        (''registry_current'', oget_or route ''_registry_current'' (JBool True)), (''route_location'', JStr location),
        (''terminal_gate_proven'', opt_bool (terminal_gate_proven gates)),
        (''terminal_gates'', JObj (map (\<lambda>(i, row). (json_key i, JObj row)) gates))]))))))"

definition close_look :: "closure_env \<Rightarrow> obj \<Rightarrow> string \<Rightarrow> string option \<Rightarrow> string option \<Rightarrow> (json + string \<times> json) completion_cmd" where
  \<comment> \<open>the recorded outcome, or the outcome that is to be written and where\<close>
  "close_look env route route_file revision summary =
    bindc (lift (bindr (dict_item route ''artifact_root'') as_str)) (\<lambda>root.
      let location = classify_route_location (le_resolve env) route_file root in
      if location \<notin> set (''canonical'' # LEGACY_LOCATIONS) then raise ''route-close-outside-canonical-or-legacy''
      else bindc (lift (outcome_path (ce_norm (le_env env)) route_file)) (\<lambda>target w.
        if map_of (cw_files w) target \<noteq> None then bindc (load_json target) (\<lambda>v. ret (Inl v)) w
        else bindc (lift (closure_outcome env w route route_file revision summary location)) (\<lambda>outcome. ret (Inr (target, JObj outcome))) w))"

definition close_write :: "json + string \<times> json \<Rightarrow> (json \<times> bool) completion_cmd" where
  "close_write found = (case found of
      Inl v \<Rightarrow> ret (v, False)
    | Inr (target, outcome) \<Rightarrow> bindc (atomic_write target outcome) (\<lambda>_. ret (outcome, True)))"

definition close_route :: "closure_env \<Rightarrow> obj \<Rightarrow> string \<Rightarrow> string option \<Rightarrow> string option \<Rightarrow> (json \<times> bool) completion_cmd" where
  "close_route env route route_file revision summary = bindc (close_look env route route_file revision summary) close_write"

section \<open>Listing routes\<close>

record status_env =
  se_resolve :: "string \<Rightarrow> string"
  se_norm :: "string \<Rightarrow> string"
  se_glob :: "string \<Rightarrow> string list"           \<comment> \<open>the sorted \<open>*.json\<close> of a directory; none when it is no directory\<close>
  se_read :: "string \<Rightarrow> string + json"         \<comment> \<open>the parsed text of a file, or why it cannot be read\<close>
  se_is_file :: "string \<Rightarrow> bool"

definition search_dirs :: "status_env \<Rightarrow> string \<Rightarrow> string list" where
  "search_dirs env root = (let root = se_norm env root in
     [canonical_routes_dir (se_resolve env) root, root, path_join root ''routes'', path_join root ''_routes'', path_join root ''.routes''])"

definition closure_fields :: "status_env \<Rightarrow> obj \<Rightarrow> string \<Rightarrow> string + obj" where
  \<comment> \<open>what the sidecar of a closed route adds to its row\<close>
  "closure_fields env raw target = (case (case se_read env target of Inl _ \<Rightarrow> JObj [] | Inr v \<Rightarrow> v) of
      JObj closure \<Rightarrow> Inr [(''closed_at'', oget closure ''closed_at''), (''head_commit'', oget closure ''head_commit''),
        (''stale_closure'', JBool (\<not> py_eq (oget closure ''route_hash'') (oget raw ''route_hash''))),
        (''registry_current'', oget_or closure ''registry_current'' (JBool True))]
    | _ \<Rightarrow> Inl ''AttributeError'')"

definition status_row :: "status_env \<Rightarrow> string \<Rightarrow> string \<Rightarrow> obj \<Rightarrow> string + obj" where
  "status_row env root path raw =
    (let location = classify_route_location (se_resolve env) path root in
     bindr (outcome_path (se_norm env) path) (\<lambda>target.
     bindr (if se_is_file env target then closure_fields env raw target else Inr []) (\<lambda>fields.
     if \<not> hashable (oget raw ''route_id'') then Inl ''TypeError''
     else Inr ([(''route_file'', JStr path), (''route_id'', oget raw ''route_id''), (''capability'', oget raw ''capability''),
       (''effective_intensity'', oget raw ''effective_intensity''), (''source_commit'', oget raw ''source_commit''),
       (''closed'', JBool (se_is_file env target)), (''location'', JStr location), (''drift'', JBool (location \<noteq> ''canonical'')),
       (''read_only'', JBool (location \<in> set LEGACY_LOCATIONS))] @ fields))))"

definition status_entry :: "status_env \<Rightarrow> string \<Rightarrow> string \<Rightarrow> string + obj + obj" where
  \<comment> \<open>a diagnostic, or the row of a route\<close>
  "status_entry env root path =
    (let diagnostic = (\<lambda>reason. [(''path'', JStr path), (''location'', JStr (classify_route_location (se_resolve env) path root)), (''reason'', JStr reason)]) in
     case se_read env path of
       Inl e \<Rightarrow> Inr (Inl (diagnostic (''route-unreadable:'' @ e)))
     | Inr v \<Rightarrow> (case v of
         JObj raw \<Rightarrow> if ''route_id'' \<notin> fst ` set raw \<or> ''nodes'' \<notin> fst ` set raw then Inr (Inl (diagnostic ''route-malformed-missing-required-keys''))
           else bindr (status_row env root path raw) (\<lambda>row. Inr (Inr row))
       | _ \<Rightarrow> Inr (Inl (diagnostic ''route-malformed-missing-required-keys''))))"

definition mark_duplicates :: "obj list \<Rightarrow> obj \<Rightarrow> obj" where
  "mark_duplicates rows row =
    (let locations = map (\<lambda>r. the_str (oget r ''route_file'')) (filter (\<lambda>r. py_eq (oget r ''route_id'') (oget row ''route_id'')) rows) in
     if 1 < length locations then row @ [(''duplicate_locations'', JList (map JStr (sort locations)))] else row)"

definition location_rank :: "obj \<Rightarrow> nat" where
  "location_rank row = (case map_of LOCATION_SORT_PRIORITY (the_str (oget row ''location'')) of Some n \<Rightarrow> n | None \<Rightarrow> 9)"

definition route_candidates :: "status_env \<Rightarrow> string \<Rightarrow> string list" where
  "route_candidates env root = filter (\<lambda>p. \<not> endswith ''.outcome.json'' p) (concat (map (se_glob env) (search_dirs env root)))"

definition route_status :: "status_env \<Rightarrow> string \<Rightarrow> string + obj list \<times> obj list" where
  \<comment> \<open>the rows, and the diagnostics of a caller that asks for them\<close>
  "route_status env root = bindr (collectr (status_entry env root) (route_candidates env root)) (\<lambda>entries.
     let rows = [r. Inr r \<leftarrow> entries] in
     Inr (sort_key location_rank (sort_key (\<lambda>r. the_str (oget r ''route_file'')) (map (mark_duplicates rows) rows)), [d. Inl d \<leftarrow> entries]))"

section \<open>A route is closed once\<close>

abbreviation sidecar :: "string \<Rightarrow> bool" where
  "sidecar p \<equiv> endswith ''.outcome.json'' p"

lemma outcome_path_sidecar: "outcome_path norm f = Inr t \<Longrightarrow> sidecar t"
proof -
  have tail: "sidecar (x @ ''.outcome.json'')" for x by (simp add: endswith_def startswith_iff)
  assume "outcome_path norm f = Inr t"
  then obtain h s n where "t = (h @ s @ path_stem n) @ ''.outcome.json''"
    by (auto simp: outcome_path_def Let_def split: prod.splits if_splits)
  with tail show ?thesis by blast
qed

lemma close_look_Inr:
  assumes "close_look env route f revision summary w = (r, w')"
  shows "w' = w \<and> (\<forall>found. r = Inr found \<longrightarrow> (\<exists>t. outcome_path (ce_norm (le_env env)) f = Inr t \<and>
    (case found of Inl v \<Rightarrow> content w t = Some (Some v)
     | Inr (target, outcome) \<Rightarrow> target = t \<and> content w t = None \<and> (\<exists>location obj. outcome = JObj obj \<and>
         closure_outcome env w route f revision summary location = Inr obj))))"
  using assms
  by (auto simp: close_look_def bindc_lift load_json_def bindc_def raise_def ret_def Let_def lift_def
      split: sum.splits if_splits option.splits)

lemma close_route_effect:
  assumes "close_route env route f revision summary w = (r, w')"
  shows "isl r \<and> content w' = content w \<or> (\<exists>t. outcome_path (ce_norm (le_env env)) f = Inr t \<and>
    (content w' = content w \<and> (\<exists>v. content w t = Some (Some v) \<and> r = Inr (v, False)) \<or>
     (\<exists>obj location. closure_outcome env w route f revision summary location = Inr obj \<and> content w t = None \<and> r = Inr (JObj obj, True) \<and>
       content w' = (content w)(t \<mapsto> Some (JObj obj)))))"
proof -
  obtain r1 w1 where look: "close_look env route f revision summary w = (r1, w1)" by fastforce
  note found = close_look_Inr [OF look]
  show ?thesis
  proof (cases r1)
    case (Inl e)
    with assms look found show ?thesis by (auto simp: close_route_def bindc_def)
  next
    case (Inr x)
    then obtain t where t: "outcome_path (ce_norm (le_env env)) f = Inr t"
      and x: "case x of Inl v \<Rightarrow> content w t = Some (Some v) | Inr (target, outcome) \<Rightarrow> target = t \<and> content w t = None \<and>
        (\<exists>location obj. outcome = JObj obj \<and> closure_outcome env w route f revision summary location = Inr obj)"
      using found by blast
    show ?thesis
    proof (cases x)
      case (Inl v)
      with assms look found \<open>r1 = Inr x\<close> t x show ?thesis by (auto simp: close_route_def bindc_def close_write_def ret_def)
    next
      case (Inr to)
      with x obtain location obj where to: "to = (t, JObj obj)" "content w t = None" "closure_outcome env w route f revision summary location = Inr obj"
        by (cases to) auto
      obtain r2 w2 where wr: "put t (Some (JObj obj)) w = (r2, w2)" by fastforce
      have "(r, w') = (case r2 of Inl e \<Rightarrow> (Inl e, w2) | Inr _ \<Rightarrow> (Inr (JObj obj, True), w2))"
        using assms look found Inr to(1) wr \<open>r1 = Inr x\<close>
        by (auto simp: close_route_def bindc_def close_write_def atomic_write_def ret_def split: sum.splits)
      with put_effect [OF wr] to t show ?thesis by (cases r2) auto
    qed
  qed
qed

datatype closure_op =
    Close closure_env obj string "string option" "string option" nat     \<comment> \<open>the last: file operations before the process dies\<close>
  | Elsewhere string "json option option"                               \<comment> \<open>another program writes or removes a file\<close>

definition closure_exec :: "closure_op \<Rightarrow> (json \<times> bool) completion_cmd" where
  "closure_exec op w = (case op of
      Close env route f revision summary life \<Rightarrow> close_route env route f revision summary (w\<lparr>cw_power := life\<rparr>)
    | Elsewhere p None \<Rightarrow> (Inl ''elsewhere'', w\<lparr>cw_files := AList.delete p (cw_files w)\<rparr>)
    | Elsewhere p (Some c) \<Rightarrow> (Inl ''elsewhere'', w\<lparr>cw_files := AList.update p c (cw_files w)\<rparr>))"

definition closure_op_ok :: "closure_op \<Rightarrow> bool" where
  \<comment> \<open>only \<open>close\<close> writes sidecars\<close>
  "closure_op_ok op \<longleftrightarrow> (case op of Close _ _ _ _ _ _ \<Rightarrow> True | Elsewhere p _ \<Rightarrow> \<not> sidecar p)"

definition closes :: "closure_op \<Rightarrow> string \<Rightarrow> bool" where
  "closes op t \<longleftrightarrow> (case op of Close env _ f _ _ _ \<Rightarrow> outcome_path (ce_norm (le_env env)) f = Inr t | Elsewhere _ _ \<Rightarrow> False)"

definition records_closure :: "closure_op \<Rightarrow> string + json \<times> bool \<Rightarrow> string \<Rightarrow> bool" where
  "records_closure op r t \<longleftrightarrow> closes op t \<and> (\<exists>v. r = Inr (v, True))"

definition answers_closure :: "closure_op \<Rightarrow> string + json \<times> bool \<Rightarrow> string \<Rightarrow> json \<Rightarrow> bool" where
  "answers_closure op r t v \<longleftrightarrow> closes op t \<and> (\<exists>b. r = Inr (v, b))"

lemma closure_step:
  assumes "closure_op_ok op"
  shows "sidecar p \<Longrightarrow> content w p = Some c \<Longrightarrow> content (snd (closure_exec op w)) p = Some c"
    and "closes op p \<Longrightarrow> fst (closure_exec op w) = Inr (v, b) \<Longrightarrow> sidecar p \<and> content (snd (closure_exec op w)) p = Some (Some v) \<and>
      (if b then content w p = None else content w p = Some (Some v))"
proof -
  have effect: "sidecar p \<Longrightarrow> content w p = Some c \<Longrightarrow> content w' p = Some c"
    "closes op p \<Longrightarrow> r = Inr (v, b) \<Longrightarrow> sidecar p \<and> content w' p = Some (Some v) \<and> (if b then content w p = None else content w p = Some (Some v))"
    if run: "closure_exec op w = (r, w')" for r w'
  proof -
    show "content w' p = Some c" if p: "sidecar p" "content w p = Some c"
    proof (cases op)
      case (Close env route f revision summary life)
      with run have "close_route env route f revision summary (w\<lparr>cw_power := life\<rparr>) = (r, w')" by (simp add: closure_exec_def)
      from close_route_effect [OF this] p show ?thesis by auto
    next
      case (Elsewhere q x)
      with assms p have "q \<noteq> p" by (auto simp: closure_op_ok_def)
      with Elsewhere run p show ?thesis by (cases x) (auto simp: closure_exec_def update_conv' delete_conv')
    qed
    show "sidecar p \<and> content w' p = Some (Some v) \<and> (if b then content w p = None else content w p = Some (Some v))"
      if c: "closes op p" "r = Inr (v, b)"
    proof (cases op)
      case (Close env route f revision summary life)
      with run have go: "close_route env route f revision summary (w\<lparr>cw_power := life\<rparr>) = (r, w')" by (simp add: closure_exec_def)
      have t: "outcome_path (ce_norm (le_env env)) f = Inr p" using c(1) Close by (simp add: closes_def)
      from close_route_effect [OF go] c(2) t outcome_path_sidecar [OF t] show ?thesis by auto
    qed (use c in \<open>simp add: closes_def\<close>)
  qed
  note run = effect [OF prod.collapse [symmetric]]
  show "sidecar p \<Longrightarrow> content w p = Some c \<Longrightarrow> content (snd (closure_exec op w)) p = Some c" by (rule run(1))
  show "closes op p \<Longrightarrow> fst (closure_exec op w) = Inr (v, b) \<Longrightarrow> sidecar p \<and> content (snd (closure_exec op w)) p = Some (Some v) \<and>
      (if b then content w p = None else content w p = Some (Some v))"
    by (rule run(2))
qed

interpretation recording: granting_machine closure_exec closure_op_ok "\<lambda>_. True" "\<lambda>w p. sidecar p \<and> (\<exists>c. content w p = Some c)" records_closure
proof
  fix op :: closure_op and w :: completion_world and p :: string
  assume ok: "closure_op_ok op"
  note step = closure_step [OF ok]
  { assume "sidecar p \<and> (\<exists>c. content w p = Some c)"
    then show "sidecar p \<and> (\<exists>c. content (snd (closure_exec op w)) p = Some c)" using step(1) by blast }
  { assume "records_closure op (fst (closure_exec op w)) p"
    then obtain v where "closes op p" "fst (closure_exec op w) = Inr (v, True)" unfolding records_closure_def by blast
    from step(2) [OF this] show "sidecar p \<and> (\<exists>c. content (snd (closure_exec op w)) p = Some c)"
      and "\<not> (sidecar p \<and> (\<exists>c. content w p = Some c))" by simp_all }
qed simp

interpretation closings: agreeing_machine closure_exec closure_op_ok "\<lambda>_. True" "\<lambda>w p v. sidecar p \<and> content w p = Some (Some v)" answers_closure
proof
  fix op :: closure_op and w :: completion_world and p :: string and v u :: json
  assume ok: "closure_op_ok op"
  note step = closure_step [OF ok]
  { assume "sidecar p \<and> content w p = Some (Some v)"
    then show "sidecar p \<and> content (snd (closure_exec op w)) p = Some (Some v)" using step(1) by blast }
  { assume "answers_closure op (fst (closure_exec op w)) p v"
    then obtain b where "closes op p" "fst (closure_exec op w) = Inr (v, b)" unfolding answers_closure_def by blast
    from step(2) [OF this] show "sidecar p \<and> content (snd (closure_exec op w)) p = Some (Some v)"
      and "sidecar p \<and> content w p = Some (Some u) \<Longrightarrow> v = u" by (simp_all split: if_splits) }
next
  show "\<And>op r k v u. answers_closure op r k v \<Longrightarrow> answers_closure op r k u \<Longrightarrow> v = u"
    by (auto simp: answers_closure_def)
qed

text \<open>C37: a route is closed once. In any sequence of \<open>close\<close> commands, with crashes and with other programs changing every other
  file, at most one records an outcome in a sidecar, and all that answer from it answer the same outcome.\<close>
theorem route_is_closed_once:
  assumes "list_all closure_op_ok ops"
  shows "length (filter (\<lambda>(op, r). records_closure op r t) (run_replies closure_exec ops w)) \<le> 1 \<and>
    (\<forall>(op, r) \<in> set (run_replies closure_exec ops w). \<forall>(op', r') \<in> set (run_replies closure_exec ops w). \<forall>v v'.
       answers_closure op r t v \<longrightarrow> answers_closure op' r' t v' \<longrightarrow> v = v')"
proof
  show "length (filter (\<lambda>(op, r). records_closure op r t) (run_replies closure_exec ops w)) \<le> 1"
    using recording.granted_at_most_once [OF assms] by simp
  show "\<forall>(op, r) \<in> set (run_replies closure_exec ops w). \<forall>(op', r') \<in> set (run_replies closure_exec ops w). \<forall>v v'.
       answers_closure op r t v \<longrightarrow> answers_closure op' r' t v' \<longrightarrow> v = v'"
    using closings.answers_agree [OF assms TrueI] by (simp only: Ball_def case_prod_unfold prod.collapse) (metis prod.collapse)
qed

text \<open>Between the look and the write of one closer another one may close the route, too: both are told that they closed it, and the
  outcome of the first is lost.\<close>

lemma two_closers_both_record:
  assumes "2 \<le> cw_power w"
  shows "\<exists>w1 w2. close_write (Inr (t, a)) w = (Inr (a, True), w1) \<and> close_write (Inr (t, b)) w1 = (Inr (b, True), w2) \<and> content w2 t = Some (Some b)"
  using assms by (simp add: close_write_def atomic_write_def put_def bindc_def tick_def ret_def update_conv')

section \<open>What a gate says\<close>

definition distinct_ids :: "obj list \<Rightarrow> bool" where
  "distinct_ids nodes \<longleftrightarrow> (\<forall>n \<in> set nodes. is_str (oget n ''id'')) \<and> distinct (map (\<lambda>n. oget n ''id'') nodes)"

abbreviation is_terminal :: "obj \<Rightarrow> bool" where
  "is_terminal n \<equiv> oget n ''terminal'' = JBool True"

definition gate_held :: "completion_env \<Rightarrow> completion_world \<Rightarrow> obj \<Rightarrow> obj \<Rightarrow> bool" where
  \<comment> \<open>the marker of the node carries the identity of its gate, and the evidence it names is there, unaltered\<close>
  "gate_held env w route n \<longleftrightarrow> (\<exists>marker p bytes. content w (canonical_path (completion_dir env (the_str (oget route ''route_id''))) (the_str (oget n ''id''))) =
       Some (Some (JObj marker)) \<and> names_gate route n (oget n ''id'') marker \<and> oget (the_obj (oget marker ''evidence'')) ''path'' = JStr p \<and>
     sf_bytes (ce_fw env) p = Some bytes \<and> oget (the_obj (oget marker ''evidence'')) ''sha256'' = JStr (sf_sha256 (ce_fw env) bytes))"

lemma nodes_by_id_distinct:
  assumes "distinct_ids nodes"
  shows "nodes_by_id nodes [] = Inr (map (\<lambda>n. (oget n ''id'', n)) nodes)"
proof -
  have "nodes_by_id ns table = Inr (table @ map (\<lambda>n. (oget n ''id'', n)) ns)"
    if "\<forall>n \<in> set ns. is_str (oget n ''id'')" "distinct (map (\<lambda>n. oget n ''id'') ns)" "\<forall>n \<in> set ns. oget n ''id'' \<notin> fst ` set table" for ns table
    using that
  proof (induction ns arbitrary: table)
    case (Cons n ns)
    from Cons.prems(1) obtain i where i: "oget n ''id'' = JStr i" by (auto simp: is_str_def split: json.splits)
    have "\<not> list_ex (\<lambda>(k, _). py_eq k (JStr i)) table" using Cons.prems(3) i by (force simp: list_ex_iff)
    moreover have "hashable (JStr i)" by (simp add: hashable_def is_list_def is_obj_def)
    moreover have "nodes_by_id ns (table @ [(JStr i, n)]) = Inr ((table @ [(JStr i, n)]) @ map (\<lambda>n. (oget n ''id'', n)) ns)"
      using Cons.prems i by (intro Cons.IH) (auto, metis image_eqI)
    ultimately show ?case using i by simp
  qed simp
  then show ?thesis using assms by (simp add: distinct_ids_def)
qed

lemma observation_rows:
  assumes "terminal_gate_observation env w route = Inr gates" "nodes_of_route route = Inr nodes" "distinct_ids nodes"
  shows "list_all2 (\<lambda>n g. fst g = oget n ''id'' \<and> gate_row_of env w route (oget n ''id'') n = Inr (snd g)) (filter is_terminal nodes) gates"
proof -
  have "filter (\<lambda>(_, node). is_terminal node) (map (\<lambda>n. (oget n ''id'', n)) nodes) = map (\<lambda>n. (oget n ''id'', n)) (filter is_terminal nodes)"
    by (simp add: filter_map o_def)
  with assms have "collectr (\<lambda>(i, node). bindr (gate_row_of env w route i node) (\<lambda>row. Inr (i, row)))
      (map (\<lambda>n. (oget n ''id'', n)) (filter is_terminal nodes)) = Inr gates"
    by (simp add: terminal_gate_observation_def nodes_by_id_distinct)
  then show ?thesis
    unfolding collectr_Inr list.rel_map by (rule list_all2_mono) (auto simp: bindr_Inr_iff)
qed

lemma py_eq_JStr_left [simp]: "py_eq (JStr s) v \<longleftrightarrow> v = JStr s"
  by (cases v) auto

lemma evidence_row_passed: "truthy (oget (evidence_row env marker) ''passed'') \<longleftrightarrow>
    (\<exists>e p bytes. py_or (oget marker ''evidence'') (JObj []) = JObj e \<and> map_of e ''path'' = Some (JStr p) \<and> sf_bytes (ce_fw env) p = Some bytes \<and>
       oget e ''sha256'' = JStr (sf_sha256 (ce_fw env) bytes))"
  by (auto simp: evidence_row_def failed_gate_def oget_def [of _ "''passed''"] split: json.splits option.splits)

lemma gate_row_passed:
  assumes "gate_row_of env w route (oget n ''id'') n = Inr row" "is_str (oget n ''id'')" "oget route ''route_id'' = JStr r"
  shows "truthy (oget row ''passed'') \<longleftrightarrow> gate_held env w route n"
proof -
  from assms(2) obtain i where i: "oget n ''id'' = JStr i" by (auto simp: is_str_def split: json.splits)
  let ?p = "canonical_path (completion_dir env r) i"
  have row: "(case gate_marker env w r (JStr i) of None \<Rightarrow> Inr (failed_gate ''completion-marker-absent'')
     | Some (JObj marker) \<Rightarrow> Inr (if names_gate route n (JStr i) marker then evidence_row env marker
         else failed_gate ''completion-marker-identity-mismatch'')
     | Some _ \<Rightarrow> Inl ''AttributeError'') = Inr row"
    using assms(1,3) i by (auto simp: gate_row_of_def bindr_Inr_iff as_str_Inr dest!: dict_item_oget)
  have fail: "\<not> truthy (oget (failed_gate reason) ''passed'')" for reason by (simp add: failed_gate_def oget_def)
  have ev: "truthy (oget (evidence_row env marker) ''passed'') \<longleftrightarrow>
      (\<exists>p bytes. oget (the_obj (oget marker ''evidence'')) ''path'' = JStr p \<and> sf_bytes (ce_fw env) p = Some bytes \<and>
       oget (the_obj (oget marker ''evidence'')) ''sha256'' = JStr (sf_sha256 (ce_fw env) bytes))" for marker
    unfolding evidence_row_passed
    by (cases "oget marker ''evidence''") (auto simp: py_or_def oget_def split: option.splits if_splits)
  show ?thesis
  proof (cases "gate_marker env w r (JStr i)")
    case None
    then have "\<not> (\<exists>v. content w ?p = Some (Some v))" by (auto simp: gate_marker_def split: option.splits)
    with None row fail show ?thesis by (auto simp: gate_held_def i assms(3))
  next
    case (Some v)
    then have c: "content w ?p = Some (Some v)" by (auto simp: gate_marker_def split: option.splits)
    from Some row obtain marker where "v = JObj marker" by (cases v) auto
    with Some row have e: "row = (if names_gate route n (JStr i) marker then evidence_row env marker
      else failed_gate ''completion-marker-identity-mismatch'')" by simp
    show ?thesis unfolding e using c fail ev \<open>v = JObj marker\<close>
      by (cases "names_gate route n (JStr i) marker") (simp_all add: gate_held_def i assms(3))
  qed
qed

lemma observed_gate:
  assumes "terminal_gate_observation env w route = Inr gates" "nodes_of_route route = Inr nodes" "distinct_ids nodes"
    and "oget route ''route_id'' = JStr r" "n \<in> set nodes" "is_terminal n"
  obtains row where "(oget n ''id'', row) \<in> set gates" "truthy (oget row ''passed'') \<longleftrightarrow> gate_held env w route n"
proof -
  have "n \<in> set (filter is_terminal nodes)" using assms(5,6) by simp
  from list_all2_ex1 [OF observation_rows [OF assms(1-3)] this] obtain g where
    g: "g \<in> set gates" "fst g = oget n ''id''" "gate_row_of env w route (oget n ''id'') n = Inr (snd g)" by blast
  have "is_str (oget n ''id'')" using assms(3,5) by (simp add: distinct_ids_def)
  from gate_row_passed [OF g(3) this assms(4)] g(1,2) show thesis by (intro that [of "snd g"]) (simp_all flip: g(2))
qed

lemma proven_gates:
  assumes "terminal_gate_observation env w route = Inr gates" "nodes_of_route route = Inr nodes" "distinct_ids nodes" "oget route ''route_id'' = JStr r"
  shows "terminal_gate_proven gates = (if \<exists>n \<in> set nodes. is_terminal n
    then Some (\<forall>n \<in> set nodes. is_terminal n \<longrightarrow> gate_held env w route n) else None)"
proof -
  note rows = observation_rows [OF assms(1-3)]
  have empty: "gates = [] \<longleftrightarrow> \<not> (\<exists>n \<in> set nodes. is_terminal n)"
    using list_all2_lengthD [OF rows] by (auto simp: filter_empty_conv)
  have "list_all (\<lambda>(_, row). truthy (oget row ''passed'')) gates \<longleftrightarrow> (\<forall>n \<in> set (filter is_terminal nodes). gate_held env w route n)"
  proof -
    have str: "\<forall>n \<in> set (filter is_terminal nodes). is_str (oget n ''id'')" using assms(3) by (simp add: distinct_ids_def)
    show ?thesis using rows str
      by (induction rule: list_all2_induct) (auto simp: gate_row_passed [OF _ _ assms(4)])
  qed
  with empty show ?thesis by (auto simp: terminal_gate_proven_def)
qed

text \<open>C38: a closure says that the terminal gates are proven exactly when they are: the route declares a terminal node, and the
  marker of each carries the identity of the route, the node and its gate and names evidence that is there, with the
  recorded digest. It says null exactly when no terminal node is declared.\<close>
theorem closure_tells_the_gates:
  assumes run: "close_route env route f revision summary w = (Inr (JObj outcome, True), w')"
    and nodes: "nodes_of_route route = Inr nodes" "distinct_ids nodes" and id: "oget route ''route_id'' = JStr r"
  shows "oget outcome ''terminal_gate_proven'' = (if \<exists>n \<in> set nodes. is_terminal n
      then JBool (\<forall>n \<in> set nodes. is_terminal n \<longrightarrow> gate_held (le_env env) w route n) else JNull)"
proof -
  from close_route_effect [OF run] obtain location where "closure_outcome env w route f revision summary location = Inr outcome" by auto
  then obtain gates where gates: "terminal_gate_observation (le_env env) w route = Inr gates"
    and out: "oget outcome ''terminal_gate_proven'' = opt_bool (terminal_gate_proven gates)"
    by (auto simp: closure_outcome_def bindr_Inr_iff oget_def)
  show ?thesis unfolding out proven_gates [OF gates nodes id] by (simp add: opt_bool_def)
qed


section \<open>What the listing shows\<close>

lemma oget_front: "k \<in> fst ` set d \<Longrightarrow> oget (d @ e) k = oget d k"
  by (auto simp: oget_def map_add_def map_of_eq_None_iff split: option.splits)

lemma status_row_Inr:
  assumes "status_row env root path raw = Inr row"
  obtains t where "outcome_path (se_norm env) path = Inr t" "oget row ''route_file'' = JStr path" "oget row ''route_id'' = oget raw ''route_id''"
    "oget row ''closed'' = JBool (se_is_file env t)" "oget row ''location'' = JStr (classify_route_location (se_resolve env) path root)"
    "{''route_file'', ''route_id'', ''closed'', ''location''} \<subseteq> fst ` set row"
    "se_is_file env t \<Longrightarrow> \<exists>fields. closure_fields env raw t = Inr fields \<and> (\<forall>k v. (k, v) \<in> set fields \<longrightarrow> k \<in> fst ` set row) \<and>
       (\<forall>k \<in> {''closed_at'', ''head_commit'', ''stale_closure'', ''registry_current''}. oget row k = oget fields k)"
proof -
  from assms obtain t fields where t: "outcome_path (se_norm env) path = Inr t"
    and fields: "(if se_is_file env t then closure_fields env raw t else Inr []) = Inr fields"
    and row: "row = [(''route_file'', JStr path), (''route_id'', oget raw ''route_id''), (''capability'', oget raw ''capability''),
       (''effective_intensity'', oget raw ''effective_intensity''), (''source_commit'', oget raw ''source_commit''),
       (''closed'', JBool (se_is_file env t)), (''location'', JStr (classify_route_location (se_resolve env) path root)),
       (''drift'', JBool (classify_route_location (se_resolve env) path root \<noteq> ''canonical'')),
       (''read_only'', JBool (classify_route_location (se_resolve env) path root \<in> set LEGACY_LOCATIONS))] @ fields"
    by (auto simp: status_row_def Let_def bindr_Inr_iff split: if_splits)
  show thesis
  proof (rule that [OF t])
    assume "se_is_file env t"
    with fields have f: "closure_fields env raw t = Inr fields" by simp
    moreover have "\<forall>k v. (k, v) \<in> set fields \<longrightarrow> k \<in> fst ` set row" unfolding row by force
    moreover have "\<forall>k \<in> {''closed_at'', ''head_commit'', ''stale_closure'', ''registry_current''}. oget row k = oget fields k"
      by (simp add: row oget_def)
    ultimately show "\<exists>fields. closure_fields env raw t = Inr fields \<and> (\<forall>k v. (k, v) \<in> set fields \<longrightarrow> k \<in> fst ` set row) \<and>
       (\<forall>k \<in> {''closed_at'', ''head_commit'', ''stale_closure'', ''registry_current''}. oget row k = oget fields k)" by blast
  qed (simp_all add: row oget_def)
qed

lemma mark_duplicates_keeps: "k \<in> fst ` set row \<Longrightarrow> oget (mark_duplicates rows row) k = oget row k"
  by (simp add: mark_duplicates_def Let_def oget_front)

lemma route_status_Inr:
  assumes "route_status env root = Inr (rows, diags)"
  obtains entries raw_rows where "list_all2 (\<lambda>p e. status_entry env root p = Inr e) (route_candidates env root) entries"
    "raw_rows = [r. Inr r \<leftarrow> entries]" "diags = [d. Inl d \<leftarrow> entries]"
    "rows = sort_key location_rank (sort_key (\<lambda>r. the_str (oget r ''route_file'')) (map (mark_duplicates raw_rows) raw_rows))"
  using assms by (auto simp: route_status_def bindr_Inr_iff collectr_Inr Let_def)

lemma status_entry_row:
  assumes "status_entry env root path = Inr (Inr row)"
  obtains raw where "se_read env path = Inr (JObj raw)" "status_row env root path raw = Inr row"
  using assms by (auto simp: status_entry_def Let_def bindr_Inr_iff split: sum.splits json.splits if_splits)

lemma status_entry_diagnostic: "status_entry env root path = Inr (Inl d) \<Longrightarrow> oget d ''path'' = JStr path"
  by (auto simp: status_entry_def Let_def bindr_Inr_iff oget_def split: sum.splits json.splits if_splits)

lemma status_entries_count:
  assumes "list_all2 (\<lambda>p e. status_entry env root p = Inr e) ps entries"
  shows "mset (map (\<lambda>r. oget r ''route_file'') [r. Inr r \<leftarrow> entries]) + mset (map (\<lambda>d. oget d ''path'') [d. Inl d \<leftarrow> entries]) = mset (map JStr ps)"
  using assms
proof (induction rule: list_all2_induct)
  case (Cons p ps e es)
  show ?case
  proof (cases e)
    case (Inl d)
    with Cons status_entry_diagnostic [of env root p d] show ?thesis by simp
  next
    case (Inr row)
    with Cons.hyps(1) obtain raw where "status_row env root p raw = Inr row" by (blast elim: status_entry_row)
    then have "oget row ''route_file'' = JStr p" by (rule status_row_Inr)
    with Cons Inr show ?thesis by simp
  qed
qed simp

text \<open>The listing shows every candidate file of the searched directories exactly once, as a route or as a diagnostic, the
  routes in the order of their locations, and a route as closed exactly when its sidecar is there.\<close>
theorem status_lists_every_route:
  assumes "route_status env root = Inr (rows, diags)"
  shows "mset (map (\<lambda>r. oget r ''route_file'') rows) + mset (map (\<lambda>d. oget d ''path'') diags) = mset (map JStr (route_candidates env root)) \<and>
    sorted (map location_rank rows) \<and>
    (\<forall>row \<in> set rows. \<exists>path t. oget row ''route_file'' = JStr path \<and> outcome_path (se_norm env) path = Inr t \<and>
       oget row ''closed'' = JBool (se_is_file env t))"
proof -
  from route_status_Inr [OF assms] obtain entries raw where
    e: "list_all2 (\<lambda>p e. status_entry env root p = Inr e) (route_candidates env root) entries"
    and raw: "raw = [r. Inr r \<leftarrow> entries]" and diags: "diags = [d. Inl d \<leftarrow> entries]"
    and rows: "rows = sort_key location_rank (sort_key (\<lambda>r. the_str (oget r ''route_file'')) (map (mark_duplicates raw) raw))" .
  have row: "\<exists>p r. status_row env root p r = Inr x" if "x \<in> set raw" for x
  proof -
    from that have "Inr x \<in> set entries" by (auto simp: raw)
    from list_all2_ex [OF e this] obtain p where "status_entry env root p = Inr (Inr x)" by blast
    then show ?thesis by (rule status_entry_row) blast
  qed
  have kept: "oget (mark_duplicates raw x) ''route_file'' = oget x ''route_file'' \<and> oget (mark_duplicates raw x) ''closed'' = oget x ''closed''"
    if "x \<in> set raw" for x
  proof -
    from row [OF that] obtain p r where sr: "status_row env root p r = Inr x" by blast
    then show ?thesis by (rule status_row_Inr) (simp add: mark_duplicates_keeps)
  qed
  have "mset (map (\<lambda>r. oget r ''route_file'') rows) = mset (map (\<lambda>r. oget r ''route_file'') (map (mark_duplicates raw) raw))"
    unfolding rows by (simp add: multiset.map_comp o_def)
  also have "\<dots> = mset (map (\<lambda>r. oget r ''route_file'') raw)" using kept by (simp cong: map_cong)
  finally have "mset (map (\<lambda>r. oget r ''route_file'') rows) + mset (map (\<lambda>d. oget d ''path'') diags) = mset (map JStr (route_candidates env root))"
    using status_entries_count [OF e] by (simp add: raw diags)
  moreover have "\<exists>path t. oget x ''route_file'' = JStr path \<and> outcome_path (se_norm env) path = Inr t \<and> oget x ''closed'' = JBool (se_is_file env t)"
    if "x \<in> set rows" for x
  proof -
    from that obtain y where y: "y \<in> set raw" "x = mark_duplicates raw y" by (auto simp: rows)
    from row [OF y(1)] obtain p r where "status_row env root p r = Inr y" by blast
    then show ?thesis by (rule status_row_Inr) (use kept [OF y(1)] y(2) in auto)
  qed
  moreover have "sorted (map location_rank rows)" by (simp add: rows)
  ultimately show ?thesis by blast
qed

definition status_of :: "closure_env \<Rightarrow> (string \<Rightarrow> string list) \<Rightarrow> completion_world \<Rightarrow> status_env" where
  \<comment> \<open>the listing reads the files the closer wrote\<close>
  "status_of env glob w = \<lparr>se_resolve = le_resolve env, se_norm = ce_norm (le_env env), se_glob = glob,
     se_read = (\<lambda>p. case content w p of Some (Some v) \<Rightarrow> Inr v | _ \<Rightarrow> Inl ''unreadable''), se_is_file = (\<lambda>p. content w p \<noteq> None)\<rparr>"


section \<open>Witnesses\<close>

definition demo_gate_node :: obj where
  "demo_gate_node = [(''id'', JStr ''n1''), (''completion_gate'', JStr ''g''), (''terminal_gate'', JStr ''g''), (''terminal'', JBool True),
     (''dispatch_depth'', JInt 1)]"

definition demo_closing_route :: obj where
  "demo_closing_route = demo_route_obj @ [(''nodes'', JList [JObj demo_gate_node]), (''artifact_root'', JStr ''/a''), (''cwd'', JStr ''/w''),
     (''capability'', JStr ''cap''), (''effective_intensity'', JStr ''quick'')]"

definition demo_route_file :: string where
  "demo_route_file = ''/a/.runtime/routes/r1.json''"

definition demo_sidecar :: string where
  "demo_sidecar = ''/a/.runtime/routes/r1.outcome.json''"

definition demo_closer :: "string \<Rightarrow> closure_env" where
  "demo_closer now = \<lparr>le_env = demo_completion_env now, le_resolve = (\<lambda>p. p), le_head = (\<lambda>_. Some ''c'')\<rparr>"

definition demo_filed :: completion_world where
  "demo_filed = demo_completed\<lparr>cw_files := (demo_route_file, Some (JObj demo_closing_route)) # cw_files demo_completed\<rparr>"

definition demo_close :: "string \<Rightarrow> closure_op" where
  "demo_close now = Close (demo_closer now) demo_closing_route demo_route_file None None 5"

definition demo_glob :: "string \<Rightarrow> string list" where
  "demo_glob d = (if d = ''/a/.runtime/routes'' then [demo_route_file, demo_sidecar] else [])"

abbreviation demo_closed :: "(string + json \<times> bool) \<times> completion_world" where
  "demo_closed \<equiv> close_route (demo_closer ''t2'') demo_closing_route demo_route_file None None demo_filed"

lemma demo_close_records: "(case demo_closed of (Inr (JObj _, b), _) \<Rightarrow> b | _ \<Rightarrow> False)"
  by code_simp

lemma demo_recorded:
  obtains outcome w where "demo_closed = (Inr (JObj outcome, True), w)"
proof -
  obtain r w where eq: "demo_closed = (r, w)" by fastforce
  obtain x b where r: "r = Inr (x, b)" using demo_close_records unfolding eq by (cases r) auto
  obtain outcome where "x = JObj outcome" "b" using demo_close_records unfolding eq r by (cases x) auto
  with that eq r show thesis by simp
qed

lemma demo_closing_nodes: "nodes_of_route demo_closing_route = Inr [demo_gate_node]"
  by code_simp

lemma demo_closing_ids: "distinct_ids [demo_gate_node]" "oget demo_closing_route ''route_id'' = JStr ''r1''" "is_terminal demo_gate_node"
  by (simp_all add: distinct_ids_def demo_gate_node_def demo_closing_route_def demo_route_obj_def oget_def is_str_def)

theorem route_is_closed_once_witness:
  "\<exists>v r r'. run_replies closure_exec [demo_close ''t2'', demo_close ''t3''] demo_filed = [(demo_close ''t2'', r), (demo_close ''t3'', r')] \<and>
     records_closure (demo_close ''t2'') r demo_sidecar \<and> answers_closure (demo_close ''t2'') r demo_sidecar v \<and>
     answers_closure (demo_close ''t3'') r' demo_sidecar v"
proof -
  let ?ops = "[demo_close ''t2'', demo_close ''t3'']"
  let ?r = "fst (closure_exec (demo_close ''t2'') demo_filed)"
  let ?r' = "fst (closure_exec (demo_close ''t3'') (snd (closure_exec (demo_close ''t2'') demo_filed)))"
  have ok: "list_all closure_op_ok ?ops" by (simp add: closure_op_ok_def demo_close_def)
  have target: "outcome_path (\<lambda>p. p) demo_route_file = Inr demo_sidecar" by code_simp
  have c: "closes (demo_close t) demo_sidecar" for t
    using target by (simp add: closes_def demo_close_def demo_closer_def demo_completion_env_def)
  have "(case ?r of Inr (_, b) \<Rightarrow> b | Inl _ \<Rightarrow> False)" "(case ?r' of Inr (_, b) \<Rightarrow> \<not> b | Inl _ \<Rightarrow> False)" by code_simp+
  then obtain v v' where v: "?r = Inr (v, True)" "?r' = Inr (v', False)" by (auto split: sum.splits prod.splits)
  have "answers_closure (demo_close ''t2'') ?r demo_sidecar v" "answers_closure (demo_close ''t3'') ?r' demo_sidecar v'"
    using c v unfolding answers_closure_def by blast+
  moreover have "(demo_close ''t2'', ?r) \<in> set (run_replies closure_exec ?ops demo_filed)"
    "(demo_close ''t3'', ?r') \<in> set (run_replies closure_exec ?ops demo_filed)" by simp_all
  ultimately have "v = v'" using route_is_closed_once [OF ok, of demo_sidecar demo_filed] by blast
  with c v show ?thesis unfolding records_closure_def answers_closure_def by (intro exI [of _ v] exI [of _ ?r] exI [of _ ?r']) auto
qed

theorem closure_tells_the_gates_witness:
  "\<exists>outcome w. demo_closed = (Inr (JObj outcome, True), w) \<and> oget outcome ''terminal_gate_proven'' = JBool True"
proof -
  from demo_recorded obtain outcome w where run: "demo_closed = (Inr (JObj outcome, True), w)" .
  have "terminal_gate_observation (demo_completion_env ''t2'') demo_filed demo_closing_route = Inr [(JStr ''n1'',
      [(''passed'', JBool True), (''reason'', JStr ''completion-marker-verified''), (''evidence'', JStr ''/e'')])]" by code_simp
  from proven_gates [OF this demo_closing_nodes demo_closing_ids(1,2)] demo_closing_ids(3)
  have "gate_held (demo_completion_env ''t2'') demo_filed demo_closing_route demo_gate_node"
    by (simp add: terminal_gate_proven_def oget_def)
  with closure_tells_the_gates [OF run demo_closing_nodes demo_closing_ids(1,2)] demo_closing_ids(3) run show ?thesis
    by (simp add: demo_closer_def)
qed


theorem status_lists_every_route_witness:
  "\<exists>rows diags. route_status (status_of (demo_closer ''t2'') demo_glob demo_filed) ''/a'' = Inr (rows, diags) \<and>
     mset (map (\<lambda>r. oget r ''route_file'') rows) + mset (map (\<lambda>d. oget d ''path'') diags) = {#JStr demo_route_file#}"
proof -
  let ?status = "route_status (status_of (demo_closer ''t2'') demo_glob demo_filed) ''/a''"
  have "isl ?status = False" by code_simp
  then obtain rows diags where s: "?status = Inr (rows, diags)" by (cases ?status) auto
  have "route_candidates (status_of (demo_closer ''t2'') demo_glob demo_filed) ''/a'' = [demo_route_file]" by code_simp
  with status_lists_every_route [OF s] s show ?thesis by simp
qed


text \<open>One malformed candidate can end the scan: the sidecar of a route may be any JSON value, and a list has no \<open>get\<close>.\<close>

lemma listed_sidecar_stops_the_scan:
  "route_status (status_of (demo_closer ''t2'') demo_glob (demo_filed\<lparr>cw_files := (demo_sidecar, Some (JList [])) # cw_files demo_filed\<rparr>)) ''/a'' =
     Inl ''AttributeError''"
  by code_simp

end
