(* ===== verification/Spec2Isabelle.thy ===== *)
theory Spec2Isabelle
  imports Attempt_Registry Processes Workflow_State Resource_Runs Workflow_Supervisor Governor Batch_Contract
    Workflow_Board Supervisor_Progress Supervisor_Lease Launch Stage_Session Readiness Batch_Recovery Worker_Ledger
    Completion Route_Accept Route_Closure
begin

text \<open>
  A verification library of the dispatch and workflow core of the agent harness, the Python code
  under \<open>utilities/\<close> that starts model workers, keeps account of them, and advances a workflow from
  one stage to the next.

  The parts and how they meet. A launch writes a row in the registry \<open>jobs.log\<close>
  (\<open>dispatch_contract.py\<close>) under a claim that is granted once; the governor
  (\<open>model-worker-governor.py\<close>) admits the process by class caps and a rolling budget, and for a
  parallel batch mints reservations that carry a sealed manifest (\<open>replica_batch_contract.py\<close>). Long
  resource jobs run detached with their own registry (\<open>resource-runner.py\<close>,
  \<open>resource_run_registry.py\<close>). The ledger of a workflow (\<open>workflow_state.py\<close>) is a journal with
  exactly-once claims, and the supervisor (\<open>workflow-supervisor.py\<close>) reads the evidence of a
  predecessor in either registry, records the outcome and starts the successor.

  Theories.
  \<^item> \<open>Prelude\<close>: Python values as data (JSON, truthiness, \<open>str\<close>, \<open>dict.update\<close>), errors as \<open>Inl\<close>, state
    commands, runs of operations, and the locales \<open>machine\<close> (an invariant kept by every operation),
    \<open>granting_machine\<close> (an operation that grants a key at most once), \<open>budgeted_machine\<close> (at most so many grants between two
    resets), \<open>agreeing_machine\<close> (all answers for a key agree) and \<open>refining_machine\<close> (every
    step is a step of an abstract machine). Each stateful component below
    interprets one of them on its own operations.
  \<^item> \<open>Json_Text\<close>: the reader of the JSON texts that \<open>json.dumps\<close> writes, and that it reads back what was
    written (\<open>loads_dumps\<close>) and no proper prefix of it.
  \<^item> \<open>Registry_Rows\<close>, \<open>Attempt_Registry\<close>: rows of \<open>jobs.log\<close>; parsing and validation of their metadata,
    claim, close, annotate and reconcile. The properties say a launch is granted once, rows never move
    or change identity, and reconciliation is idempotent.
  \<^item> \<open>Processes\<close>: the kernel as a record of readable files; process identity, groups, descendants,
    quiescence, liveness, and the exact group signal.
  \<^item> \<open>Supervisor_Lease\<close>: the lease file of a supervised owner, one system call per step, with inodes,
    locks and names kept apart.
  \<^item> \<open>Launch\<close>: the parent binding of a nested attempt, the fenced launch, the fence process
    (\<open>launch-fence.py\<close>) and the recovery of a launch that never started.
  \<^item> \<open>Stage_Session\<close>: the manifest of a chain of stage sub-sessions, the binding of one session to its
    registry metadata and environment (\<open>stage_session_contract.py\<close>, \<open>stage_session_runtime.py\<close>), and the
    serial supervisor of a chain (\<open>stage-session-chain.py\<close>).
  \<^item> \<open>Readiness\<close>: completion markers, the readiness of the attempt behind one, and the gate that a start
    has to pass.
  \<^item> \<open>Completion\<close>: the completion of a node (\<open>capability-route.py\<close>): marker history, canonical marker, attempt
    link and the closing of the row, with a crash possible at every file operation; what it publishes is
    what \<open>Readiness\<close> reads.
  \<^item> \<open>Route_Graph\<close>, \<open>Route_Evidence\<close>, \<open>Route_Seal\<close>, \<open>Route_Accept\<close>: routes (\<open>capability-route.py\<close>): the expansion of
    parallel groups and the workflow contract; the evidence of a launch and its fallback chain; the compilation and
    the verification of a sealed route; and what an accepted route promises to the readers above.
  \<^item> \<open>Route_Closure\<close>: the terminal gates of a route, read from the markers \<open>Completion\<close> writes, the sidecar that
    closes a route, and the listing of the routes of an artifact root.
  \<^item> \<open>Workflow_State\<close>: the ledger. Its lines are entries, blank or unreadable lines and possibly an
    unterminated tail, so that a crash in the middle of an append is a state of the model.
  \<^item> \<open>Resource_Runs\<close>: detached runs; identity, settling, starting, stopping, the global index and scan.
  \<^item> \<open>Workflow_Supervisor\<close>: arm, poll, watch, gate, complete, status and survey, over a world of a ledger,
    watches, run registries and started processes.
  \<^item> \<open>Governor\<close>: admission, reservation, claim and release over the stored state.
  \<^item> \<open>Batch_Contract\<close>: the manifest of a batch, its reservation, and the binding a launch demands.
  \<^item> \<open>Batch_Recovery\<close>: the proof of the peers when one leg of a batch is reserved alone.
  \<^item> \<open>Worker_Ledger\<close>: the markdown ledger of a worker (\<open>worker-state-ledger.py\<close>), its text and its commands.
  \<^item> \<open>Workflow_Board\<close>: the abstract board of node states, workflow state and claimed keys, and the proof
    that the ledger implements it (locale \<open>refining_machine\<close>).
  \<^item> \<open>Supervisor_Progress\<close>: the watch loop returns, and a proved predecessor is advanced.

  What the lemmas show. The invariants are proved for every single operation and lifted to every
  sequence of operations by the locales; the functional theorems give the result on every branch,
  errors included. Some theorems record a defect of the code, and say so in their text.

  Modelling choices. A file lock makes the operation under it one step; a file replaced atomically is
  a value. The clock, the kernel, hash functions, path resolution and the files of other tools are
  parameters. JSON numbers are integers, and times are integers or rationals where the code has
  floats. Strings are sequences of 8-bit characters. \<open>cmd_watch\<close> is given one element per poll, and
  the loop that draws fresh tokens is given the draws; where a model can run out of them, the result
  says so. The JSON reader has the length of its text as fuel, which \<open>loads_dumps\<close> shows to be enough.
  The search for a free history number (\<open>write_history\<close>) has one attempt for every file and one more, and an attempt
  is refused only where a file is. No other definition uses fuel: every other loop of the modelled code runs over a list.

  Not modelled: the harness adapters and their command lines, sockets and brokers, terminal rendering
  (fleet), the memory database, installers, hooks; the validation of the topology registry (its outcome
  is a parameter of the route model); the issuer capability of a batch reservation; the \<open>run\<close> wrapper of the governor; the route guard, smoke attestation and sealed
  configuration checks before a resource run.
\<close>

end
